(* ===== verification/Prelude.thy ===== *)
theory Prelude
  imports Main "HOL-Library.Word" "HOL-Library.AList"
begin

text \<open>
  Shared vocabulary of the development: the machine-integer types of the Rust sources, the
  three-way outcome of a fallible Rust function (a value, an \<open>Err\<close>, or a panic), saturating
  counters, durations, and the big-endian byte encodings every wire format uses.
\<close>

unbundle bit_operations_syntax

named_theorems rust_simps \<open>unfolding rules for the Rust primitives\<close>

section \<open>Machine integers\<close>

type_synonym u8 = "8 word"
type_synonym u16 = "16 word"
type_synonym u32 = "32 word"
type_synonym u64 = "64 word"
type_synonym u128 = "128 word"

abbreviation u64_max :: nat where
  "u64_max \<equiv> 18446744073709551615"

abbreviation u32_max :: nat where
  "u32_max \<equiv> 4294967295"

text \<open>\<open>u64::saturating_add(1)\<close> of an event counter.\<close>

definition sat_inc :: "nat \<Rightarrow> nat" where
  "sat_inc n = (if n < u64_max then Suc n else u64_max)"

lemma sat_inc_le [simp]: "sat_inc n \<le> u64_max"
  by (simp add: sat_inc_def)

lemma sat_inc_mono: "n \<le> u64_max \<Longrightarrow> n \<le> sat_inc n"
  by (simp add: sat_inc_def)

lemma sat_inc_exact: "n < u64_max \<Longrightarrow> sat_inc n = Suc n"
  by (simp add: sat_inc_def)

text \<open>
  A \<open>Duration\<close> is its number of nanoseconds. \<open>u64::try_from(d.as_millis()).unwrap_or(u64::MAX)\<close>
  is the only way the controllers read one.
\<close>

type_synonym duration = nat

definition as_millis_u64 :: "duration \<Rightarrow> nat" where
  "as_millis_u64 d = min (d div 1000000) u64_max"

section \<open>Outcomes of fallible code\<close>

text \<open>
  \<open>Ok\<close> and \<open>Err\<close> are Rust's \<open>Result\<close>; \<open>Panic\<close> is an abort by a failed \<open>expect\<close>, an
  out-of-range index or an explicit \<open>panic!\<close>.
\<close>

datatype ('e, 'a) outcome = Ok 'a | Err 'e | Panic

fun obind :: "('e, 'a) outcome \<Rightarrow> ('a \<Rightarrow> ('e, 'b) outcome) \<Rightarrow> ('e, 'b) outcome" where
  "obind (Ok x) f = f x"
| "obind (Err e) f = Err e"
| "obind Panic f = Panic"

lemma obind_eq_Ok: "obind m f = Ok y \<longleftrightarrow> (\<exists>x. m = Ok x \<and> f x = Ok y)"
  by (cases m) auto

lemma obind_eq_Panic: "obind m f = Panic \<longleftrightarrow> m = Panic \<or> (\<exists>x. m = Ok x \<and> f x = Panic)"
  by (cases m) auto

lemma obind_cong [fundef_cong]:
  "m = m' \<Longrightarrow> (\<And>x. m' = Ok x \<Longrightarrow> f x = g x) \<Longrightarrow> obind m f = obind m' g"
  by (cases m') auto

lemma obind_assoc: "obind (obind m f) g = obind m (\<lambda>x. obind (f x) g)"
  by (cases m) auto

definition opt_expect :: "'a option \<Rightarrow> ('e, 'a) outcome" where
  "opt_expect x = (case x of None \<Rightarrow> Panic | Some v \<Rightarrow> Ok v)"

lemma opt_expect_simps [simp]:
  "opt_expect None = Panic" "opt_expect (Some v) = Ok v"
  by (simp_all add: opt_expect_def)

text \<open>Slice indexing \<open>xs[i]\<close> and range slicing \<open>xs[i..j]\<close>, which panic out of range.\<close>

definition idx :: "'a list \<Rightarrow> nat \<Rightarrow> ('e, 'a) outcome" where
  "idx xs i = (if i < length xs then Ok (xs ! i) else Panic)"

definition slice :: "'a list \<Rightarrow> nat \<Rightarrow> nat \<Rightarrow> ('e, 'a list) outcome" where
  "slice xs i j = (if i \<le> j \<and> j \<le> length xs then Ok (take (j - i) (drop i xs)) else Panic)"

lemma idx_Ok [rust_simps]: "i < length xs \<Longrightarrow> idx xs i = Ok (xs ! i)"
  by (simp add: idx_def)

lemma slice_Ok [rust_simps]:
  "i \<le> j \<Longrightarrow> j \<le> length xs \<Longrightarrow> slice xs i j = Ok (take (j - i) (drop i xs))"
  by (simp add: slice_def)

text \<open>\<open>u8::try_from\<close> and \<open>u16::try_from\<close> of a \<open>usize\<close>.\<close>

definition try_u8 :: "nat \<Rightarrow> u8 option" where
  "try_u8 n = (if n < 256 then Some (of_nat n) else None)"

definition try_u16 :: "nat \<Rightarrow> u16 option" where
  "try_u16 n = (if n < 65536 then Some (of_nat n) else None)"

lemma unat_of_nat_u8 [simp]: "n < 256 \<Longrightarrow> unat (of_nat n :: u8) = n"
  by (simp add: unat_of_nat)

lemma unat_of_nat_u16 [simp]: "n < 65536 \<Longrightarrow> unat (of_nat n :: u16) = n"
  by (simp add: unat_of_nat)

section \<open>Big-endian byte encodings\<close>

definition be16 :: "u16 \<Rightarrow> u8 list" where
  "be16 w = [ucast (drop_bit 8 w), ucast w]"

definition be32 :: "u32 \<Rightarrow> u8 list" where
  "be32 w = [ucast (drop_bit 24 w), ucast (drop_bit 16 w), ucast (drop_bit 8 w), ucast w]"

definition be64 :: "u64 \<Rightarrow> u8 list" where
  "be64 w = be32 (ucast (drop_bit 32 w)) @ be32 (ucast w)"

definition be128 :: "u128 \<Rightarrow> u8 list" where
  "be128 w = be64 (ucast (drop_bit 64 w)) @ be64 (ucast w)"

definition from_be16 :: "u8 \<Rightarrow> u8 \<Rightarrow> u16" where
  "from_be16 a b = push_bit 8 (ucast a) OR ucast b"

definition from_be32 :: "u8 \<Rightarrow> u8 \<Rightarrow> u8 \<Rightarrow> u8 \<Rightarrow> u32" where
  "from_be32 a b c d =
     push_bit 24 (ucast a) OR push_bit 16 (ucast b) OR push_bit 8 (ucast c) OR ucast d"

lemma length_be [simp]:
  "length (be16 w) = 2" "length (be32 x) = 4" "length (be64 y) = 8" "length (be128 z) = 16"
  by (simp_all add: be16_def be32_def be64_def be128_def)

lemma from_be16_be16 [simp]: "from_be16 (ucast (drop_bit 8 w)) (ucast w) = w"
  unfolding from_be16_def
  by (rule bit_word_eqI) (auto simp: bit_simps)

lemma from_be32_be32 [simp]:
  "from_be32 (ucast (drop_bit 24 w)) (ucast (drop_bit 16 w)) (ucast (drop_bit 8 w)) (ucast w) = w"
proof (rule bit_word_eqI)
  fix n assume "n < LENGTH(32)"
  then consider "n < 8" | "8 \<le> n" "n < 16" | "16 \<le> n" "n < 24" | "24 \<le> n" "n < 32"
    by fastforce
  then show "bit (from_be32 (ucast (drop_bit 24 w)) (ucast (drop_bit 16 w)) (ucast (drop_bit 8 w))
      (ucast w)) n = bit w n"
    by cases (auto simp: from_be32_def bit_simps)
qed

lemma be16_inject [simp]: "be16 v = be16 w \<longleftrightarrow> v = w"
proof
  assume "be16 v = be16 w"
  then have "from_be16 (ucast (drop_bit 8 v)) (ucast v) = from_be16 (ucast (drop_bit 8 w)) (ucast w)"
    by (simp add: be16_def)
  then show "v = w" by simp
qed simp

lemma be32_inject [simp]: "be32 v = be32 w \<longleftrightarrow> v = w"
proof
  assume "be32 v = be32 w"
  then have "from_be32 (ucast (drop_bit 24 v)) (ucast (drop_bit 16 v)) (ucast (drop_bit 8 v)) (ucast v)
    = from_be32 (ucast (drop_bit 24 w)) (ucast (drop_bit 16 w)) (ucast (drop_bit 8 w)) (ucast w)"
    by (simp add: be32_def)
  then show "v = w" by simp
qed simp

lemma be64_inject [simp]: "be64 v = be64 w \<longleftrightarrow> v = w"
proof
  assume "be64 v = be64 w"
  then have hi: "(ucast (drop_bit 32 v) :: u32) = ucast (drop_bit 32 w)"
    and lo: "(ucast v :: u32) = ucast w"
    by (simp_all add: be64_def)
  show "v = w"
  proof (rule bit_word_eqI)
    fix n assume n: "n < LENGTH(64)"
    show "bit v n = bit w n"
    proof (cases "n < 32")
      case True
      with lo have "bit (ucast v :: u32) n = bit (ucast w :: u32) n" by simp
      with True show ?thesis by (simp add: bit_simps)
    next
      case False
      with hi have "bit (ucast (drop_bit 32 v) :: u32) (n - 32) = bit (ucast (drop_bit 32 w) :: u32) (n - 32)"
        by simp
      moreover from False n have "n - 32 < 32" by simp
      ultimately show ?thesis using False by (simp add: bit_simps)
    qed
  qed
qed simp

lemma be128_inject [simp]: "be128 v = be128 w \<longleftrightarrow> v = w"
proof
  assume "be128 v = be128 w"
  then have hi: "(ucast (drop_bit 64 v) :: u64) = ucast (drop_bit 64 w)"
    and lo: "(ucast v :: u64) = ucast w"
    by (simp_all add: be128_def)
  show "v = w"
  proof (rule bit_word_eqI)
    fix n assume n: "n < LENGTH(128)"
    show "bit v n = bit w n"
    proof (cases "n < 64")
      case True
      with lo have "bit (ucast v :: u64) n = bit (ucast w :: u64) n" by simp
      with True show ?thesis by (simp add: bit_simps)
    next
      case False
      with hi have "bit (ucast (drop_bit 64 v) :: u64) (n - 64) = bit (ucast (drop_bit 64 w) :: u64) (n - 64)"
        by simp
      moreover from False n have "n - 64 < 64" by simp
      ultimately show ?thesis using False by (simp add: bit_simps)
    qed
  qed
qed simp

text \<open>Reading four, eight or sixteen big-endian octets.\<close>

definition join32 :: "u32 \<Rightarrow> u32 \<Rightarrow> u64" where
  "join32 hi lo = push_bit 32 (ucast hi) OR ucast lo"

definition join64 :: "u64 \<Rightarrow> u64 \<Rightarrow> u128" where
  "join64 hi lo = push_bit 64 (ucast hi) OR ucast lo"

fun read_be32 :: "u8 list \<Rightarrow> (u32 \<times> u8 list) option" where
  "read_be32 (a # b # c # d # rest) = Some (from_be32 a b c d, rest)"
| "read_be32 _ = None"

definition read_be64 :: "u8 list \<Rightarrow> (u64 \<times> u8 list) option" where
  "read_be64 bs = (case read_be32 bs of None \<Rightarrow> None | Some (hi, r) \<Rightarrow>
     (case read_be32 r of None \<Rightarrow> None | Some (lo, r') \<Rightarrow> Some (join32 hi lo, r')))"

definition read_be128 :: "u8 list \<Rightarrow> (u128 \<times> u8 list) option" where
  "read_be128 bs = (case read_be64 bs of None \<Rightarrow> None | Some (hi, r) \<Rightarrow>
     (case read_be64 r of None \<Rightarrow> None | Some (lo, r') \<Rightarrow> Some (join64 hi lo, r')))"

lemma join32_split [simp]: "join32 (ucast (drop_bit 32 w)) (ucast w) = w"
  unfolding join32_def by (rule bit_word_eqI) (auto simp: bit_simps)

lemma join64_split [simp]: "join64 (ucast (drop_bit 64 w)) (ucast w) = w"
  unfolding join64_def by (rule bit_word_eqI) (auto simp: bit_simps)

lemma read_be [simp]:
  "read_be32 (be32 a @ rest) = Some (a, rest)" "read_be64 (be64 b @ rest) = Some (b, rest)"
  "read_be128 (be128 c @ rest) = Some (c, rest)"
proof -
  show r32: "read_be32 (be32 a @ rest) = Some (a, rest)" for a rest by (simp add: be32_def)
  show r64: "read_be64 (be64 b @ rest) = Some (b, rest)" for b rest by (simp add: be64_def read_be64_def r32)
  show "read_be128 (be128 c @ rest) = Some (c, rest)" by (simp add: be128_def read_be128_def r64)
qed

section \<open>Lists\<close>

lemma nth_append_at [simp]:
  "i = length xs \<Longrightarrow> (xs @ y # ys) ! i = y"
  by simp

lemma filter_neq_distinct_map:
  "distinct (map f xs) \<Longrightarrow> distinct (map f (filter P xs))"
  by (induction xs) auto

lemma distinct_map_snoc_filter:
  "distinct (map f xs) \<Longrightarrow> distinct (map f (filter (\<lambda>x. f x \<noteq> f y) xs @ [y]))"
  by (auto simp: filter_neq_distinct_map)

end
