(* ===== verification/Net.thy ===== *)
theory Net
  imports Prelude
begin

text \<open>
  IP addresses and prefixes. \<open>IpAddr\<close> is the standard library's; \<open>IpNet\<close> is the data of the
  \<^verbatim>\<open>ipnet\<close> crate (an address with a prefix length). The crate's \<open>contains\<close> and \<open>trunc\<close> are
  parameters of the definitions that call them; \<open>net_contains\<close> and \<open>net_trunc\<close> are concrete
  functions with the documented behaviour, used to instantiate those parameters.
\<close>

datatype ip_addr = V4 u32 | V6 u128

datatype ip_net = NetV4 u32 nat | NetV6 u128 nat

fun net_addr :: "ip_net \<Rightarrow> ip_addr" where
  "net_addr (NetV4 a l) = V4 a"
| "net_addr (NetV6 a l) = V6 a"

fun prefix_len :: "ip_net \<Rightarrow> nat" where
  "prefix_len (NetV4 a l) = l"
| "prefix_len (NetV6 a l) = l"

fun net_wf :: "ip_net \<Rightarrow> bool" where
  "net_wf (NetV4 a l) = (l \<le> 32)"
| "net_wf (NetV6 a l) = (l \<le> 128)"

fun octets :: "ip_addr \<Rightarrow> u8 list" where
  "octets (V4 a) = be32 a"
| "octets (V6 a) = be128 a"

lemma octets_inject_v4 [simp]: "octets (V4 a) = octets (V4 b) \<longleftrightarrow> a = b"
  by simp

lemma length_neq: "length xs \<noteq> length ys \<Longrightarrow> xs \<noteq> ys"
  by auto

lemma octets_inject: "octets a = octets b \<longleftrightarrow> a = b"
proof (cases a; cases b)
  fix x y assume "a = V4 x" "b = V6 y"
  moreover have "be32 x \<noteq> be128 y" by (rule length_neq) simp
  ultimately show ?thesis by simp
next
  fix x y assume "a = V6 x" "b = V4 y"
  moreover have "be128 x \<noteq> be32 y" by (rule length_neq) simp
  ultimately show ?thesis by simp
qed auto

section \<open>The documented behaviour of the prefix operations\<close>

text \<open>\<open>trunc\<close>: zero the host bits. \<open>contains\<close>: same family and same network bits.\<close>

fun net_trunc :: "ip_net \<Rightarrow> ip_net" where
  "net_trunc (NetV4 a l) = NetV4 (a AND NOT (mask (32 - l))) l"
| "net_trunc (NetV6 a l) = NetV6 (a AND NOT (mask (128 - l))) l"

fun net_contains :: "ip_net \<Rightarrow> ip_addr \<Rightarrow> bool" where
  "net_contains (NetV4 n l) (V4 a) = (drop_bit (32 - l) n = drop_bit (32 - l) a)"
| "net_contains (NetV6 n l) (V6 a) = (drop_bit (128 - l) n = drop_bit (128 - l) a)"
| "net_contains _ _ = False"

text \<open>
  What the callers rely on: truncation keeps the family and the length, and changes nothing in a
  host route (a \<open>/32\<close> or \<open>/128\<close>).
\<close>

definition trunc_ok :: "(ip_net \<Rightarrow> ip_net) \<Rightarrow> bool" where
  "trunc_ok trunc \<longleftrightarrow>
     (\<forall>a l. \<exists>b. trunc (NetV4 a l) = NetV4 b l) \<and> (\<forall>a l. \<exists>b. trunc (NetV6 a l) = NetV6 b l) \<and>
     (\<forall>a. trunc (NetV4 a 32) = NetV4 a 32) \<and> (\<forall>a. trunc (NetV6 a 128) = NetV6 a 128)"

lemma net_trunc_ok: "trunc_ok net_trunc"
  by (simp add: trunc_ok_def)

fun is_host_route :: "ip_net \<Rightarrow> bool" where
  "is_host_route (NetV4 a l) = (l = 32)"
| "is_host_route (NetV6 a l) = (l = 128)"

lemma trunc_host: "trunc_ok trunc \<Longrightarrow> is_host_route n \<Longrightarrow> trunc n = n"
  by (cases n) (auto simp: trunc_ok_def)

end
