(* ===== verification/F64.thy ===== *)
theory F64
  imports Complex_Main "HOL-Library.Log_Nat" Prelude
begin

text \<open>
  IEEE 754 binary64 arithmetic, as far as the sources use \<open>f64\<close>: conversion of integers,
  addition, multiplication, division, comparison, \<open>f64::max\<close> and \<open>total_cmp\<close>. A finite value is a
  sign (true is negative) and a non-negative rational magnitude; results are rounded to nearest,
  ties to even, with gradual underflow and overflow to infinity. NaN payloads are not kept, and an
  operation that produces a NaN produces the positive one.

  \<open>f32\<close> occurs only as a carried value, compared and serialised; it is its bit pattern.
\<close>

section \<open>Rounding\<close>

text \<open>The exponent \<open>\<lfloor>log\<^sub>2 q\<rfloor>\<close> of a positive rational.\<close>

definition rat_ilog2 :: "rat \<Rightarrow> int" where
  "rat_ilog2 q = (case quotient_of q of (n, d) \<Rightarrow>
     let k = bitlen n - bitlen d in if q < 2 powi k then k - 1 else k)"

definition round_half_even :: "rat \<Rightarrow> int" where
  "round_half_even q = (let f = \<lfloor>q\<rfloor>; r = q - of_int f in
     if r < 1/2 then f else if r > 1/2 then f + 1 else if even f then f else f + 1)"

text \<open>Round a non-negative magnitude to 53 significant bits; \<open>None\<close> is overflow.\<close>

definition round_mag :: "rat \<Rightarrow> rat option" where
  "round_mag q = (if q = 0 then Some 0 else
     let e = max (- 1074) (rat_ilog2 q - 52);
         v = of_int (round_half_even (q / 2 powi e)) * 2 powi e
     in if v < 2 ^ 1024 then Some v else None)"

section \<open>Values and operations\<close>

datatype f64 = Num bool rat | Inf bool | NaN bool

definition f_round :: "bool \<Rightarrow> rat \<Rightarrow> f64" where
  "f_round s m = (case round_mag m of None \<Rightarrow> Inf s | Some v \<Rightarrow> Num s v)"

text \<open>\<open>n as f64\<close> for an unsigned integer.\<close>

definition f_of_nat :: "nat \<Rightarrow> f64" where
  "f_of_nat n = f_round False (of_nat n)"

fun f_div :: "f64 \<Rightarrow> f64 \<Rightarrow> f64" where
  "f_div (Num s m) (Num t n) =
     (if n = 0 then (if m = 0 then NaN False else Inf (s \<noteq> t)) else f_round (s \<noteq> t) (m / n))"
| "f_div (Num s m) (Inf t) = Num (s \<noteq> t) 0"
| "f_div (Inf s) (Num t n) = Inf (s \<noteq> t)"
| "f_div (Inf s) (Inf t) = NaN False"
| "f_div (NaN s) y = NaN False"
| "f_div x (NaN t) = NaN False"

fun f_mul :: "f64 \<Rightarrow> f64 \<Rightarrow> f64" where
  "f_mul (Num s m) (Num t n) = f_round (s \<noteq> t) (m * n)"
| "f_mul (Num s m) (Inf t) = (if m = 0 then NaN False else Inf (s \<noteq> t))"
| "f_mul (Inf s) (Num t n) = (if n = 0 then NaN False else Inf (s \<noteq> t))"
| "f_mul (Inf s) (Inf t) = Inf (s \<noteq> t)"
| "f_mul (NaN s) y = NaN False"
| "f_mul x (NaN t) = NaN False"

fun f_add :: "f64 \<Rightarrow> f64 \<Rightarrow> f64" where
  "f_add (Num s m) (Num t n) =
     (let v = (if s then - m else m) + (if t then - n else n)
      in if v = 0 then Num (s \<and> t) 0 else f_round (v < 0) \<bar>v\<bar>)"
| "f_add (Num s m) (Inf t) = Inf t"
| "f_add (Inf s) (Num t n) = Inf s"
| "f_add (Inf s) (Inf t) = (if s = t then Inf s else NaN False)"
| "f_add (NaN s) y = NaN False"
| "f_add x (NaN t) = NaN False"

text \<open>The position of a value on the extended line; NaN has none, and both zeros share one.\<close>

fun f_cmp_key :: "f64 \<Rightarrow> (int \<times> rat) option" where
  "f_cmp_key (Num s m) = Some (0, if s then - m else m)"
| "f_cmp_key (Inf s) = Some (if s then - 1 else 1, 0)"
| "f_cmp_key (NaN s) = None"

definition key_less :: "int \<times> rat \<Rightarrow> int \<times> rat \<Rightarrow> bool" where
  "key_less a b = (fst a < fst b \<or> fst a = fst b \<and> snd a < snd b)"

text \<open>The operators \<open><\<close>, \<open>>\<close> and \<open>>=\<close>, all false on a NaN.\<close>

definition f_less :: "f64 \<Rightarrow> f64 \<Rightarrow> bool" where
  "f_less x y = (case (f_cmp_key x, f_cmp_key y) of (Some a, Some b) \<Rightarrow> key_less a b | _ \<Rightarrow> False)"

definition f_gt :: "f64 \<Rightarrow> f64 \<Rightarrow> bool" where
  "f_gt x y = f_less y x"

definition f_ge :: "f64 \<Rightarrow> f64 \<Rightarrow> bool" where
  "f_ge x y = (case (f_cmp_key x, f_cmp_key y) of
     (Some a, Some b) \<Rightarrow> \<not> key_less a b | _ \<Rightarrow> False)"

text \<open>\<open>f64::max\<close>: a NaN operand loses.\<close>

definition f_max :: "f64 \<Rightarrow> f64 \<Rightarrow> f64" where
  "f_max x y = (case f_cmp_key x of None \<Rightarrow> y | Some a \<Rightarrow>
     (case f_cmp_key y of None \<Rightarrow> x | Some b \<Rightarrow> if key_less a b then y else x))"

text \<open>\<open>total_cmp\<close>: negative NaN, then the line with \<open>-0.0\<close> below \<open>+0.0\<close>, then positive NaN.\<close>

fun f_total_key :: "f64 \<Rightarrow> int \<times> rat \<times> int" where
  "f_total_key (Num s m) = (0, if s then - m else m, if s then 0 else 1)"
| "f_total_key (Inf s) = (if s then - 1 else 1, 0, 0)"
| "f_total_key (NaN s) = (if s then - 2 else 2, 0, 0)"

definition f_total_less :: "f64 \<Rightarrow> f64 \<Rightarrow> bool" where
  "f_total_less x y = (case (f_total_key x, f_total_key y) of ((a, b, c), (a', b', c')) \<Rightarrow>
     a < a' \<or> a = a' \<and> (b < b' \<or> b = b' \<and> c < c'))"

section \<open>Exact integers and monotonicity\<close>

lemma bitlen_bounds_int: "0 < n \<Longrightarrow> 2 powi (bitlen n - 1) \<le> (of_int n :: rat) \<and> (of_int n :: rat) < 2 powi (bitlen n)"
proof -
  assume n: "0 < n"
  from bitlen_bounds [OF n] have
    nb: "2 ^ nat (bitlen n - 1) \<le> n" "n < 2 ^ nat (bitlen n)" by auto
  with n have b: "0 < bitlen n" by (cases "bitlen n \<le> 0") auto
  from nb
  have "(2::rat) ^ nat (bitlen n - 1) \<le> of_int n" "of_int n < (2::rat) ^ nat (bitlen n)"
    by (metis of_int_le_iff of_int_numeral of_int_power, metis of_int_less_iff of_int_numeral of_int_power)
  with b show ?thesis by (simp add: power_int_def)
qed

lemma rat_ilog2_bounds:
  assumes "0 < q"
  shows "2 powi rat_ilog2 q \<le> q" and "q < 2 powi (rat_ilog2 q + 1)"
proof -
  obtain n d where nd: "quotient_of q = (n, d)" by (cases "quotient_of q")
  then have d: "0 < d" by (rule quotient_of_denom_pos)
  from nd have q: "q = of_int n / of_int d" by (rule quotient_of_div)
  with assms d have n: "0 < n" by (simp add: zero_less_divide_iff)
  let ?k = "bitlen n - bitlen d"
  note bn = bitlen_bounds_int [OF n] and bd = bitlen_bounds_int [OF d]
  have dpos: "(0::rat) < of_int d" using d by simp
  have "q < 2 powi bitlen n / 2 powi (bitlen d - 1)"
    unfolding q using bn bd dpos n by (intro frac_less) auto
  also have "\<dots> = 2 powi (?k + 1)"
    by (simp add: power_int_diff [symmetric] algebra_simps)
  finally have up: "q < 2 powi (?k + 1)" .
  have "2 powi (bitlen n - 1) / 2 powi bitlen d \<le> q"
    unfolding q using bn bd dpos n by (intro frac_le) auto
  moreover have "2 powi (bitlen n - 1) / 2 powi bitlen d = (2::rat) powi (?k - 1)"
    by (simp add: power_int_diff [symmetric] algebra_simps)
  ultimately have lo: "2 powi (?k - 1) \<le> q" by simp
  show "2 powi rat_ilog2 q \<le> q" "q < 2 powi (rat_ilog2 q + 1)"
    using up lo by (auto simp: rat_ilog2_def nd Let_def not_less)
qed

lemma round_half_even_of_int [simp]: "round_half_even (of_int z) = z"
  by (simp add: round_half_even_def)

lemma round_half_even_bounds: "\<lfloor>q\<rfloor> \<le> round_half_even q \<and> round_half_even q \<le> \<lfloor>q\<rfloor> + 1"
  by (auto simp: round_half_even_def Let_def)

lemma round_half_even_mono: "p \<le> q \<Longrightarrow> round_half_even p \<le> round_half_even q"
proof -
  assume pq: "p \<le> q"
  then consider "\<lfloor>p\<rfloor> = \<lfloor>q\<rfloor>" | "\<lfloor>p\<rfloor> + 1 \<le> \<lfloor>q\<rfloor>" using floor_mono [OF pq] by linarith
  then show ?thesis
  proof cases
    case 1 then show ?thesis using pq by (auto simp: round_half_even_def Let_def)
  next
    case 2 then show ?thesis using round_half_even_bounds [of p] round_half_even_bounds [of q] by linarith
  qed
qed

definition f_exp :: "rat \<Rightarrow> int" where
  "f_exp q = max (- 1074) (rat_ilog2 q - 52)"

definition round_val :: "rat \<Rightarrow> rat" where
  "round_val q = of_int (round_half_even (q / 2 powi f_exp q)) * 2 powi f_exp q"

lemma round_mag_val:
  "round_mag q = (if q = 0 then Some 0 else if round_val q < 2 ^ 1024 then Some (round_val q) else None)"
  by (simp add: round_mag_def round_val_def f_exp_def Let_def)

lemma rat_ilog2_mono:
  assumes "0 < p" "p \<le> q"
  shows "rat_ilog2 p \<le> rat_ilog2 q"
proof (rule ccontr)
  assume "\<not> ?thesis"
  then have "rat_ilog2 q + 1 \<le> rat_ilog2 p" by simp
  then have "(2::rat) powi (rat_ilog2 q + 1) \<le> 2 powi rat_ilog2 p" by (intro power_int_increasing) simp_all
  with assms rat_ilog2_bounds [of p] rat_ilog2_bounds [of q] show False by linarith
qed

text \<open>Rounding on a grid that contains a bound respects the bound.\<close>

lemma round_grid:
  fixes e k :: int
  assumes "e \<le> k"
  shows "q \<le> 2 powi k \<Longrightarrow> of_int (round_half_even (q / 2 powi e)) * 2 powi e \<le> (2 powi k :: rat)"
    and "2 powi k \<le> q \<Longrightarrow> (2 powi k :: rat) \<le> of_int (round_half_even (q / 2 powi e)) * 2 powi e"
proof -
  define z :: int where "z = 2 ^ nat (k - e)"
  have z: "(2::rat) powi k = of_int z * 2 powi e"
    using assms by (simp add: z_def power_int_def [symmetric] power_int_add [symmetric]
      flip: power_int_of_nat)
  have e: "(0::rat) < 2 powi e" by simp
  show "of_int (round_half_even (q / 2 powi e)) * 2 powi e \<le> (2 powi k :: rat)" if "q \<le> 2 powi k"
  proof -
    from that e have "q / 2 powi e \<le> of_int z" by (simp add: z field_simps)
    from round_half_even_mono [OF this] have "round_half_even (q / 2 powi e) \<le> z" by simp
    with e show ?thesis by (simp add: z)
  qed
  show "(2 powi k :: rat) \<le> of_int (round_half_even (q / 2 powi e)) * 2 powi e" if "2 powi k \<le> q"
  proof -
    from that e have "of_int z \<le> q / 2 powi e" by (simp add: z field_simps)
    from round_half_even_mono [OF this] have "z \<le> round_half_even (q / 2 powi e)" by simp
    with e show ?thesis by (simp add: z)
  qed
qed

lemma round_val_mono:
  assumes "0 < p" "p \<le> q"
  shows "round_val p \<le> round_val q"
proof -
  have ilog: "rat_ilog2 p \<le> rat_ilog2 q" by (rule rat_ilog2_mono [OF assms])
  show ?thesis
  proof (cases "f_exp p = f_exp q")
    case True
    have "p / 2 powi f_exp q \<le> q / 2 powi f_exp q" using assms by (simp add: divide_right_mono)
    from round_half_even_mono [OF this] show ?thesis by (simp add: round_val_def True)
  next
    case False
    with ilog have eq: "f_exp q = rat_ilog2 q - 52" and lt: "rat_ilog2 p < rat_ilog2 q"
      and ep: "f_exp p \<le> rat_ilog2 q"
      by (auto simp: f_exp_def max_def split: if_splits)
    from lt have "(2::rat) powi (rat_ilog2 p + 1) \<le> 2 powi rat_ilog2 q"
      by (intro power_int_increasing) simp_all
    with rat_ilog2_bounds(2) [OF assms(1)] have "p \<le> 2 powi rat_ilog2 q" by linarith
    from round_grid(1) [OF ep this] have "round_val p \<le> 2 powi rat_ilog2 q"
      by (simp add: round_val_def)
    moreover have "2 powi rat_ilog2 q \<le> round_val q"
      using round_grid(2) [of "f_exp q" "rat_ilog2 q" q] rat_ilog2_bounds(1) [of q] assms
      by (simp add: round_val_def eq)
    ultimately show ?thesis by linarith
  qed
qed

lemma round_val_nonneg: "0 \<le> q \<Longrightarrow> 0 \<le> round_val q"
proof -
  assume "0 \<le> q"
  then have "of_int 0 \<le> q / 2 powi f_exp q" by simp
  from round_half_even_mono [OF this] show ?thesis
    by (simp only: round_half_even_of_int) (simp add: round_val_def)
qed

lemma round_mag_of_nat:
  assumes "n < 2 ^ 53"
  shows "round_mag (of_nat n) = Some (of_nat n)"
proof (cases "n = 0")
  case False
  then have n: "(0::rat) < of_nat n" by simp
  have n53: "(of_nat n :: rat) < 2 ^ 53"
    using assms by (metis of_nat_less_iff of_nat_numeral of_nat_power)
  from n53 rat_ilog2_bounds(1) [OF n] have "(2::rat) powi rat_ilog2 (of_nat n) < 2 powi 53" by simp
  then have "rat_ilog2 (of_nat n) < 53" by (rule power_int_le_imp_less_exp [rotated]) simp_all
  then have e: "f_exp (of_nat n) \<le> 0" by (simp add: f_exp_def)
  define z where "z = int n * 2 ^ nat (- f_exp (of_nat n))"
  have "(of_nat n :: rat) / 2 powi f_exp (of_nat n) = of_int z"
    using e by (simp add: z_def power_int_def field_simps)
  then have v: "round_val (of_nat n) = of_nat n"
    by (simp add: round_val_def) (simp add: field_simps)
  have "(of_nat n :: rat) < 2 ^ 1024"
    using n53 by (rule less_trans) (rule power_strict_increasing, simp_all)
  with v False show ?thesis by (simp add: round_mag_val)
qed (simp add: round_mag_val)

lemma f_of_nat_exact: "n < 2 ^ 53 \<Longrightarrow> f_of_nat n = Num False (of_nat n)"
  by (simp only: f_of_nat_def f_round_def round_mag_of_nat option.case)

text \<open>Rounding never reverses the order of two non-negative values.\<close>

lemma f_round_mono:
  assumes "0 \<le> p" "p \<le> q"
  shows "\<not> f_less (f_round False q) (f_round False p)"
proof (cases "p = 0")
  case True
  then show ?thesis using assms round_val_nonneg [of q]
    by (auto simp: f_round_def round_mag_val f_less_def key_less_def)
next
  case False
  with assms have "0 < p" "q \<noteq> 0" by auto
  with round_val_mono [OF _ assms(2)] False show ?thesis
    by (auto simp: f_round_def round_mag_val f_less_def key_less_def)
qed

end
