(* ===== verification/Detection.thy ===== *)
theory Detection
  imports Net F64
begin

text \<open>
  The data the detection plane hands to the mitigation planes: the types of
  \<^verbatim>\<open>blackwall-flow/src/detector.rs\<close>, \<^verbatim>\<open>observation.rs\<close> and \<^verbatim>\<open>select.rs\<close>, and the BGP route of
  \<^verbatim>\<open>blackwall-bgp/src/route.rs\<close>.
\<close>

datatype attack_kind = Volumetric

datatype severity = Warning | High | Critical

record pop_contribution =
  pc_pop :: string
  pc_est_pps :: f64
  pc_est_bps :: f64

record detection =
  d_target :: ip_addr
  d_kind :: attack_kind
  d_observed_pps :: f64
  d_observed_bps :: f64
  d_proto :: u8
  d_top_sources :: "(ip_addr \<times> f64) list"
  d_top_ports :: "(u16 \<times> f64) list"
  d_pops :: "pop_contribution list"
  d_top_source_blocks :: "(ip_net \<times> f64) list"
  d_severity :: severity
  d_first_seen_ms :: nat
  d_last_seen_ms :: nat

datatype detection_event =
    Opened detection
  | Updated detection
  | Cleared ip_addr nat

fun event_target :: "detection_event \<Rightarrow> ip_addr" where
  "event_target (Opened d) = d_target d"
| "event_target (Updated d) = d_target d"
| "event_target (Cleared t at_ms) = t"

record flow_observation =
  o_src :: ip_addr
  o_dst :: ip_addr
  o_proto :: u8
  o_src_port :: u16
  o_dst_port :: u16
  o_frame_len :: u32
  o_sampling_rate :: u32
  o_tcp_flags :: u8
  o_agent :: ip_addr

type_synonym f32 = "32 word"

record flow_rule =
  fr_dst :: ip_addr
  fr_proto :: u8
  fr_dst_port :: u16
  fr_rate :: f32

section \<open>BGP routes\<close>

datatype origin = Igp | Egp | Incomplete

fun origin_wire :: "origin \<Rightarrow> u8" where
  "origin_wire Igp = 0"
| "origin_wire Egp = 1"
| "origin_wire Incomplete = 2"

record route =
  r_prefix :: ip_net
  r_next_hop :: ip_addr
  r_origin :: origin
  r_communities :: "(u16 \<times> u16) list"
  r_large_communities :: "(u32 \<times> u32 \<times> u32) list"

section \<open>FlowSpec rules\<close>

text \<open>The action compares by IEEE equality: a NaN differs from itself, the two zeros are equal.\<close>

datatype flow_action = TrafficRate f32

record flowspec_rule =
  fl_dst :: ip_net
  fl_protocol :: "u8 option"
  fl_dst_port :: "u16 option"
  fl_action :: flow_action

definition f32_is_nan :: "f32 \<Rightarrow> bool" where
  "f32_is_nan x = (0x7F800000 < x AND 0x7FFFFFFF)"

definition f32_eq :: "f32 \<Rightarrow> f32 \<Rightarrow> bool" where
  "f32_eq x y = (\<not> f32_is_nan x \<and> \<not> f32_is_nan y \<and>
     (x = y \<or> x AND 0x7FFFFFFF = 0 \<and> y AND 0x7FFFFFFF = 0))"

fun action_eq :: "flow_action \<Rightarrow> flow_action \<Rightarrow> bool" where
  "action_eq (TrafficRate x) (TrafficRate y) = f32_eq x y"

end
