(* ===== verification/Sflow.thy ===== *)
theory Sflow
  imports Detection
begin

text \<open>
  The sFlow v5 decoder of \<^verbatim>\<open>blackwall-flow/src/sflow.rs\<close>: the bounds-checked cursor, the datagram
  envelope, flow samples in both layouts and raw header records. Slicing an Ethernet frame into
  headers is the work of the \<^verbatim>\<open>etherparse\<close> crate and a parameter of the decoder; the types below
  are the part of its result the decoder reads. Every index is checked: a model value
  \<^term>\<open>Panic\<close> stands for an out-of-range index or a failed \<open>copy_from_slice\<close>.
\<close>

section \<open>Errors and the cursor\<close>

datatype decode_error =
    ReadOverflow | ReadPastEnd | TakeOverflow | TakePastEnd | UnknownAgentType u32

datatype flow_error = Decode decode_error | FlowIo string

record cursor =
  cu_buf :: "u8 list"
  cu_pos :: nat

definition cursor_new :: "u8 list \<Rightarrow> cursor" where
  "cursor_new buf = \<lparr>cu_buf = buf, cu_pos = 0\<rparr>"

text \<open>\<open>usize::checked_add\<close> and \<open>slice::get\<close> of a range.\<close>

definition checked_add :: "nat \<Rightarrow> nat \<Rightarrow> nat option" where
  "checked_add a b = (if a + b < 2 ^ 64 then Some (a + b) else None)"

definition get_range :: "'a list \<Rightarrow> nat \<Rightarrow> nat \<Rightarrow> 'a list option" where
  "get_range xs i j = (if i \<le> j \<and> j \<le> length xs then Some (take (j - i) (drop i xs)) else None)"

definition cur_read_u32 :: "cursor \<Rightarrow> (flow_error, u32 \<times> cursor) outcome" where
  "cur_read_u32 cur =
     (case checked_add (cu_pos cur) 4 of
        None \<Rightarrow> Err (Decode ReadOverflow)
      | Some e \<Rightarrow>
          (case get_range (cu_buf cur) (cu_pos cur) e of
             None \<Rightarrow> Err (Decode ReadPastEnd)
           | Some bytes \<Rightarrow>
               obind (idx bytes 0) (\<lambda>b0. obind (idx bytes 1) (\<lambda>b1. obind (idx bytes 2) (\<lambda>b2.
               obind (idx bytes 3) (\<lambda>b3. Ok (from_be32 b0 b1 b2 b3, cur\<lparr>cu_pos := e\<rparr>)))))))"

definition cur_take :: "nat \<Rightarrow> cursor \<Rightarrow> (flow_error, u8 list \<times> cursor) outcome" where
  "cur_take n cur =
     (case checked_add (cu_pos cur) n of
        None \<Rightarrow> Err (Decode TakeOverflow)
      | Some e \<Rightarrow>
          (case get_range (cu_buf cur) (cu_pos cur) e of
             None \<Rightarrow> Err (Decode TakePastEnd)
           | Some bytes \<Rightarrow> Ok (bytes, cur\<lparr>cu_pos := e\<rparr>)))"

section \<open>The sliced packet\<close>

record tcp_slice =
  tc_source_port :: u16
  tc_destination_port :: u16
  tc_fin :: bool
  tc_syn :: bool
  tc_rst :: bool
  tc_psh :: bool
  tc_ack :: bool
  tc_urg :: bool
  tc_ece :: bool
  tc_cwr :: bool

datatype transport_slice = UdpSlice u16 u16 | TcpSlice tcp_slice | OtherTransport

datatype net_slice = Ipv4Slice u32 u32 u8 | Ipv6Slice u128 u128 u8 | OtherNet

record sliced_packet =
  sp_net :: "net_slice option"
  sp_transport :: "transport_slice option"

type_synonym ether_parser = "u8 list \<Rightarrow> sliced_packet option"

definition tcp_flags_byte :: "tcp_slice \<Rightarrow> u8" where
  "tcp_flags_byte tcp =
     (if tc_fin tcp then 0x01 else 0) OR (if tc_syn tcp then 0x02 else 0) OR
     (if tc_rst tcp then 0x04 else 0) OR (if tc_psh tcp then 0x08 else 0) OR
     (if tc_ack tcp then 0x10 else 0) OR (if tc_urg tcp then 0x20 else 0) OR
     (if tc_ece tcp then 0x40 else 0) OR (if tc_cwr tcp then 0x80 else 0)"

section \<open>Records\<close>

text \<open>\<open>x.ok()?\<close> in a function that returns an option.\<close>

fun ok_or_none :: "('e, 'a) outcome \<Rightarrow> ('a \<Rightarrow> ('e, 'b option) outcome) \<Rightarrow> ('e, 'b option) outcome" where
  "ok_or_none (Ok x) f = f x"
| "ok_or_none (Err e) f = Ok None"
| "ok_or_none Panic f = Panic"

definition packet_observation ::
  "sliced_packet \<Rightarrow> u32 \<Rightarrow> u32 \<Rightarrow> ip_addr \<Rightarrow> flow_observation option"
where
  "packet_observation sliced frame_len sampling_rate agent =
     (case (case sp_net sliced of
              Some (Ipv4Slice src dst proto) \<Rightarrow> Some (V4 src, V4 dst, proto)
            | Some (Ipv6Slice src dst proto) \<Rightarrow> Some (V6 src, V6 dst, proto)
            | _ \<Rightarrow> None) of
        None \<Rightarrow> None
      | Some (src, dst, proto) \<Rightarrow>
          (case (case sp_transport sliced of
                   Some (UdpSlice sp dp) \<Rightarrow> (sp, dp, 0)
                 | Some (TcpSlice tcp) \<Rightarrow> (tc_source_port tcp, tc_destination_port tcp, tcp_flags_byte tcp)
                 | _ \<Rightarrow> (0, 0, 0)) of
             (src_port, dst_port, tcp_flags) \<Rightarrow> Some
               \<lparr>o_src = src, o_dst = dst, o_proto = proto, o_src_port = src_port, o_dst_port = dst_port,
                o_frame_len = frame_len, o_sampling_rate = sampling_rate, o_tcp_flags = tcp_flags,
                o_agent = agent\<rparr>))"

definition decode_raw_header_record ::
  "ether_parser \<Rightarrow> u8 list \<Rightarrow> u32 \<Rightarrow> ip_addr \<Rightarrow> (flow_error, flow_observation option) outcome"
where
  "decode_raw_header_record ether body sampling_rate agent =
     ok_or_none (cur_read_u32 (cursor_new body)) (\<lambda>(header_protocol, cur).
     ok_or_none (cur_read_u32 cur) (\<lambda>(frame_len, cur).
     ok_or_none (cur_read_u32 cur) (\<lambda>(stripped, cur).
     ok_or_none (cur_read_u32 cur) (\<lambda>(header_length, cur).
     ok_or_none (cur_take (unat header_length) cur) (\<lambda>(header_bytes, cur).
       if header_protocol \<noteq> 1 then Ok None
       else case ether header_bytes of
          None \<Rightarrow> Ok None
        | Some sliced \<Rightarrow> Ok (packet_observation sliced frame_len sampling_rate agent))))))"

section \<open>Samples\<close>

text \<open>The type, the length and the body of a sample or a record.\<close>

definition read_framed :: "cursor \<Rightarrow> (flow_error, u32 \<times> u8 list \<times> cursor) outcome" where
  "read_framed cur =
     obind (cur_read_u32 cur) (\<lambda>(ty, cur).
     obind (cur_read_u32 cur) (\<lambda>(len, cur).
     obind (cur_take (unat len) cur) (\<lambda>(body, cur). Ok (ty, body, cur))))"

text \<open>The record loop; the observations pushed so far survive an error.\<close>

fun records_loop ::
  "ether_parser \<Rightarrow> u32 \<Rightarrow> ip_addr \<Rightarrow> nat \<Rightarrow> cursor \<Rightarrow> flow_observation list \<Rightarrow>
   (flow_error, unit) outcome \<times> flow_observation list"
where
  "records_loop ether rate agent 0 cur out = (Ok (), out)"
| "records_loop ether rate agent (Suc n) cur out =
     (case read_framed cur of
        Err e \<Rightarrow> (Err e, out)
      | Panic \<Rightarrow> (Panic, out)
      | Ok (record_type, record_body, cur) \<Rightarrow>
          if record_type AND 0xFFF \<noteq> 1 then records_loop ether rate agent n cur out
          else (case decode_raw_header_record ether record_body rate agent of
              Ok (Some obs) \<Rightarrow> records_loop ether rate agent n cur (out @ [obs])
            | Ok None \<Rightarrow> records_loop ether rate agent n cur out
            | Err e \<Rightarrow> (Err e, out)
            | Panic \<Rightarrow> (Panic, out)))"

fun skip_u32 :: "nat \<Rightarrow> cursor \<Rightarrow> (flow_error, cursor) outcome" where
  "skip_u32 0 cur = Ok cur"
| "skip_u32 (Suc n) cur = obind (cur_read_u32 cur) (\<lambda>(w, cur). skip_u32 n cur)"

text \<open>
  The fixed fields: a number of ignored ones, the sampling rate, more ignored ones and the number
  of records.
\<close>

definition sample_header :: "nat \<Rightarrow> nat \<Rightarrow> u8 list \<Rightarrow> (flow_error, u32 \<times> u32 \<times> cursor) outcome" where
  "sample_header before behind body =
     obind (skip_u32 before (cursor_new body)) (\<lambda>cur.
     obind (cur_read_u32 cur) (\<lambda>(sampling_rate, cur).
     obind (skip_u32 behind cur) (\<lambda>cur.
     obind (cur_read_u32 cur) (\<lambda>(num_records, cur). Ok (sampling_rate, num_records, cur)))))"

definition decode_flow_sample ::
  "ether_parser \<Rightarrow> u8 list \<Rightarrow> ip_addr \<Rightarrow> flow_observation list \<Rightarrow>
   (flow_error, unit) outcome \<times> flow_observation list"
where
  "decode_flow_sample ether body agent out =
     (case sample_header 2 4 body of
        Err e \<Rightarrow> (Err e, out)
      | Panic \<Rightarrow> (Panic, out)
      | Ok (sampling_rate, num_records, cur) \<Rightarrow> records_loop ether sampling_rate agent (unat num_records) cur out)"

definition decode_expanded_flow_sample ::
  "ether_parser \<Rightarrow> u8 list \<Rightarrow> ip_addr \<Rightarrow> flow_observation list \<Rightarrow>
   (flow_error, unit) outcome \<times> flow_observation list"
where
  "decode_expanded_flow_sample ether body agent out =
     (case sample_header 3 6 body of
        Err e \<Rightarrow> (Err e, out)
      | Panic \<Rightarrow> (Panic, out)
      | Ok (sampling_rate, num_records, cur) \<Rightarrow> records_loop ether sampling_rate agent (unat num_records) cur out)"

section \<open>The datagram\<close>

definition read_agent :: "cursor \<Rightarrow> (flow_error, ip_addr \<times> cursor) outcome" where
  "read_agent cur =
     obind (cur_read_u32 cur) (\<lambda>(agent_addr_type, cur).
       if agent_addr_type = 1 then
         obind (cur_take 4 cur) (\<lambda>(b, cur).
         obind (idx b 0) (\<lambda>b0. obind (idx b 1) (\<lambda>b1. obind (idx b 2) (\<lambda>b2. obind (idx b 3) (\<lambda>b3.
           Ok (V4 (from_be32 b0 b1 b2 b3), cur))))))
       else if agent_addr_type = 2 then
         obind (cur_take 16 cur) (\<lambda>(b, cur).
           if length b \<noteq> 16 then Panic
           else case read_be128 b of None \<Rightarrow> Panic | Some (w, rest) \<Rightarrow> Ok (V6 w, cur))
       else Err (Decode (UnknownAgentType agent_addr_type)))"

definition decode_sample ::
  "ether_parser \<Rightarrow> u32 \<Rightarrow> u8 list \<Rightarrow> ip_addr \<Rightarrow> flow_observation list \<Rightarrow>
   ((flow_error, unit) outcome \<times> flow_observation list) option"
where
  "decode_sample ether sample_type body agent out =
     (if sample_type AND 0xFFF = 1 then Some (decode_flow_sample ether body agent out)
      else if sample_type AND 0xFFF = 3 then Some (decode_expanded_flow_sample ether body agent out)
      else None)"

fun samples_loop ::
  "ether_parser \<Rightarrow> ip_addr \<Rightarrow> nat \<Rightarrow> cursor \<Rightarrow> flow_observation list \<Rightarrow> u32 \<Rightarrow>
   (flow_error, flow_observation list \<times> u32) outcome"
where
  "samples_loop ether agent 0 cur observations sample_errors = Ok (observations, sample_errors)"
| "samples_loop ether agent (Suc n) cur observations sample_errors =
     obind (read_framed cur) (\<lambda>(sample_type, sample_body, cur).
       case decode_sample ether sample_type sample_body agent observations of
         None \<Rightarrow> samples_loop ether agent n cur observations sample_errors
       | Some (Ok u, observations) \<Rightarrow> samples_loop ether agent n cur observations sample_errors
       | Some (Err e, observations) \<Rightarrow> samples_loop ether agent n cur observations (sample_errors + 1)
       | Some (Panic, observations) \<Rightarrow> Panic)"

definition decode_datagram ::
  "ether_parser \<Rightarrow> u8 list \<Rightarrow> (flow_error, flow_observation list \<times> u32) outcome"
where
  "decode_datagram ether bytes =
     obind (cur_read_u32 (cursor_new bytes)) (\<lambda>(version, cur).
     obind (read_agent cur) (\<lambda>(agent, cur).
     obind (skip_u32 3 cur) (\<lambda>cur.
     obind (cur_read_u32 cur) (\<lambda>(num_samples, cur).
       samples_loop ether agent (unat num_samples) cur [] 0))))"

section \<open>The cursor stays in the buffer\<close>

definition cur_in :: "u8 list \<Rightarrow> cursor \<Rightarrow> bool" where
  "cur_in buf cur \<longleftrightarrow> cu_buf cur = buf \<and> cu_pos cur \<le> length buf"

lemma cursor_new_in [simp]: "cur_in buf (cursor_new buf)"
  by (simp add: cur_in_def cursor_new_def)

lemma cur_read_u32_cases:
  obtains (Err) e where "cur_read_u32 cur = Err e"
  | (Ok) w where "cur_read_u32 cur = Ok (w, cur\<lparr>cu_pos := cu_pos cur + 4\<rparr>)" "cu_pos cur + 4 \<le> length (cu_buf cur)"
  unfolding cur_read_u32_def
  by (cases "checked_add (cu_pos cur) 4"; cases "get_range (cu_buf cur) (cu_pos cur) (cu_pos cur + 4)")
    (auto simp: checked_add_def get_range_def idx_def split: if_splits)

lemma cur_take_cases:
  obtains (Err) e where "cur_take n cur = Err e"
  | (Ok) "cur_take n cur = Ok (take n (drop (cu_pos cur) (cu_buf cur)), cur\<lparr>cu_pos := cu_pos cur + n\<rparr>)"
      "cu_pos cur + n \<le> length (cu_buf cur)"
  unfolding cur_take_def
  by (cases "checked_add (cu_pos cur) n"; cases "get_range (cu_buf cur) (cu_pos cur) (cu_pos cur + n)")
    (auto simp: checked_add_def get_range_def split: if_splits)

lemma cur_read_no_panic [simp]: "cur_read_u32 cur \<noteq> Panic" "cur_take n cur \<noteq> Panic"
  by (cases cur rule: cur_read_u32_cases; simp) (cases n cur rule: cur_take_cases; simp)

lemma cur_read_Ok:
  "cur_read_u32 cur = Ok (w, cur') \<Longrightarrow> cu_buf cur' = cu_buf cur \<and> cu_pos cur' = cu_pos cur + 4 \<and>
     cu_pos cur + 4 \<le> length (cu_buf cur)"
  by (cases cur rule: cur_read_u32_cases) auto

lemma cur_take_Ok:
  "cur_take n cur = Ok (b, cur') \<Longrightarrow> cu_buf cur' = cu_buf cur \<and> cu_pos cur' = cu_pos cur + n \<and>
     cu_pos cur + n \<le> length (cu_buf cur) \<and> length b = n"
  by (cases n cur rule: cur_take_cases) auto

lemma read_framed_no_panic [simp]: "read_framed cur \<noteq> Panic"
  by (auto simp: read_framed_def obind_eq_Panic)

lemma read_framed_Ok:
  "read_framed cur = Ok (ty, body, cur') \<Longrightarrow> cu_buf cur' = cu_buf cur \<and>
     cu_pos cur' = cu_pos cur + 8 + length body \<and> cu_pos cur' \<le> length (cu_buf cur)"
  by (auto simp: read_framed_def obind_eq_Ok dest!: cur_read_Ok cur_take_Ok)

lemma ok_or_none_cases:
  "ok_or_none m f = Panic \<longleftrightarrow> m = Panic \<or> (\<exists>x. m = Ok x \<and> f x = Panic)"
  "ok_or_none m f = Err e \<longleftrightarrow> (\<exists>x. m = Ok x \<and> f x = Err e)"
  "ok_or_none m f = Ok (Some y) \<longleftrightarrow> (\<exists>x. m = Ok x \<and> f x = Ok (Some y))"
  by (cases m; simp)+

lemma decode_raw_cases:
  "\<exists>r. decode_raw_header_record ether body rate agent = Ok r \<and> (r \<noteq> None \<longrightarrow> 16 \<le> length body)"
proof -
  let ?d = "decode_raw_header_record ether body rate agent"
  have np: "?d \<noteq> Panic" "?d \<noteq> Err e" for e
    by (auto simp: decode_raw_header_record_def ok_or_none_cases split: if_splits option.splits)
  have "16 \<le> length body" if "?d = Ok (Some obs)" for obs
    using that
    by (auto simp: decode_raw_header_record_def ok_or_none_cases cursor_new_def split: if_splits option.splits
        dest!: cur_read_Ok cur_take_Ok)
  with np show ?thesis by (cases ?d) auto
qed

lemma skip_u32_no_panic [simp]: "skip_u32 n cur \<noteq> Panic"
  by (induction n arbitrary: cur) (auto simp: obind_eq_Panic)

lemma skip_u32_Ok: "skip_u32 n cur = Ok cur' \<Longrightarrow> cu_buf cur' = cu_buf cur \<and> cu_pos cur \<le> cu_pos cur' \<and>
   (cu_pos cur \<le> length (cu_buf cur) \<longrightarrow> cu_pos cur' \<le> length (cu_buf cur))"
proof (induction n arbitrary: cur)
  case (Suc n)
  then obtain w c where "cur_read_u32 cur = Ok (w, c)" "skip_u32 n c = Ok cur'" by (auto simp: obind_eq_Ok)
  with Suc.IH [of c] cur_read_Ok [of cur w c] show ?case by auto
qed simp

lemma sample_header_no_panic [simp]: "sample_header k l body \<noteq> Panic"
  by (auto simp: sample_header_def obind_eq_Panic)

lemma sample_header_Ok:
  "sample_header k l body = Ok (rate, n, cur) \<Longrightarrow> cur_in body cur"
  by (auto simp: sample_header_def obind_eq_Ok cur_in_def cursor_new_def dest!: cur_read_Ok skip_u32_Ok)

lemma records_loop_out:
  "records_loop ether rate agent n cur out =
     (fst (records_loop ether rate agent n cur []), out @ snd (records_loop ether rate agent n cur []))"
proof (induction n arbitrary: cur out)
  case (Suc n)
  show ?case
  proof (cases "read_framed cur")
    case (Ok x)
    obtain ty body c where x: "x = (ty, body, c)" by (cases x)
    obtain r where r: "decode_raw_header_record ether body rate agent = Ok r" using decode_raw_cases by blast
    show ?thesis using Ok x r Suc [of c out] Suc [of c "out @ [the r]"] Suc [of c "[the r]"]
      by (cases r) auto
  qed simp_all
qed simp

lemma records_loop_bounds:
  assumes "cur_in buf cur" "records_loop ether rate agent n cur [] = (r, new)"
  shows "r \<noteq> Panic \<and> 24 * length new \<le> length buf - cu_pos cur"
  using assms
proof (induction n arbitrary: cur r new)
  case (Suc n)
  show ?case
  proof (cases "read_framed cur")
    case (Ok x)
    obtain ty body c where x: "x = (ty, body, c)" by (cases x)
    have c: "cur_in buf c" "cu_pos c = cu_pos cur + 8 + length body" "cu_pos c \<le> length buf"
      using read_framed_Ok [of cur ty body c] Ok x Suc.prems(1) by (auto simp: cur_in_def)
    obtain o' where o': "decode_raw_header_record ether body rate agent = Ok o'" "o' \<noteq> None \<longrightarrow> 16 \<le> length body"
      using decode_raw_cases by blast
    obtain r' new' where l: "records_loop ether rate agent n c [] = (r', new')" by fastforce
    note ih = Suc.IH [OF c(1) l]
    from l Ok x Suc.prems(2) o' have "r = r' \<and> (new = new' \<or> (\<exists>ob. o' = Some ob \<and> new = ob # new'))"
      using records_loop_out [of ether rate agent n c "[the o']"]
      by (cases o') (auto split: if_splits)
    with ih c o'(2) show ?thesis by auto
  qed (use Suc.prems in auto)
qed auto

text \<open>The effect of one sample body, on its own.\<close>

definition sample_result ::
  "ether_parser \<Rightarrow> ip_addr \<Rightarrow> u32 \<times> u8 list \<Rightarrow> bool \<times> flow_observation list"
where
  "sample_result ether agent s = (case decode_sample ether (fst s) (snd s) agent [] of
     None \<Rightarrow> (True, []) | Some (r, new) \<Rightarrow> (r = Ok (), new))"

lemma decode_sample_cases:
  "(case decode_sample ether ty body agent out of None \<Rightarrow> sample_result ether agent (ty, body) = (True, [])
    | Some (r, out') \<Rightarrow> r \<noteq> Panic \<and> out' = out @ snd (sample_result ether agent (ty, body)) \<and>
        (r = Ok () \<longleftrightarrow> fst (sample_result ether agent (ty, body))))"
  "24 * length (snd (sample_result ether agent (ty, body))) \<le> length body"
proof -
  have one: "\<exists>r new. (case sample_header k l body of Err e \<Rightarrow> (Err e, out) | Panic \<Rightarrow> (Panic, out)
      | Ok (rate, n, cur) \<Rightarrow> records_loop ether rate agent (unat n) cur out) = (r, out @ new) \<and> r \<noteq> Panic \<and>
      (case sample_header k l body of Err e \<Rightarrow> (Err e, []) | Panic \<Rightarrow> (Panic, [])
      | Ok (rate, n, cur) \<Rightarrow> records_loop ether rate agent (unat n) cur []) = (r, new) \<and> 24 * length new \<le> length body"
    for k l out
  proof (cases "sample_header k l body")
    case (Ok x)
    obtain rate n cur where x: "x = (rate, n, cur)" by (cases x)
    obtain r new where r: "records_loop ether rate agent (unat n) cur [] = (r, new)" by fastforce
    have "cur_in body cur" using sample_header_Ok [of k l body rate n cur] Ok x by simp
    from records_loop_bounds [OF this r] have "r \<noteq> Panic" "24 * length new \<le> length body" by auto
    with Ok x r records_loop_out [of ether rate agent "unat n" cur out] show ?thesis by auto
  qed auto
  note o1 = one [where k = 2 and l = 4 and out = out] one [where k = 3 and l = 6 and out = out]
  show "case decode_sample ether ty body agent out of None \<Rightarrow> sample_result ether agent (ty, body) = (True, [])
    | Some (r, out') \<Rightarrow> r \<noteq> Panic \<and> out' = out @ snd (sample_result ether agent (ty, body)) \<and>
        (r = Ok () \<longleftrightarrow> fst (sample_result ether agent (ty, body)))"
    using o1 by (auto simp: decode_sample_def sample_result_def decode_flow_sample_def decode_expanded_flow_sample_def)
  show "24 * length (snd (sample_result ether agent (ty, body))) \<le> length body"
    using o1 by (auto simp: decode_sample_def sample_result_def decode_flow_sample_def decode_expanded_flow_sample_def)
qed

text \<open>One turn of the sample loop.\<close>

lemma samples_loop_Suc:
  "samples_loop ether agent (Suc n) cur obs errs =
     obind (read_framed cur) (\<lambda>(ty, body, cur). samples_loop ether agent n cur
       (obs @ snd (sample_result ether agent (ty, body)))
       (if fst (sample_result ether agent (ty, body)) then errs else errs + 1))"
proof (cases "read_framed cur")
  case (Ok x)
  obtain ty body c where x: "x = (ty, body, c)" by (cases x)
  from decode_sample_cases(1) [of ether agent ty body obs] Ok x show ?thesis
    by (cases "decode_sample ether ty body agent obs") (auto split: outcome.splits)
qed simp_all

lemma samples_loop_bounds:
  assumes "cur_in buf cur" "24 * length obs \<le> cu_pos cur"
  shows "samples_loop ether agent n cur obs errs \<noteq> Panic \<and>
    (samples_loop ether agent n cur obs errs = Ok (obs', errs') \<longrightarrow> 24 * length obs' \<le> length buf \<and> unat errs' \<le> unat errs + n)"
  using assms
proof (induction n arbitrary: cur obs errs)
  case (Suc n)
  show ?case
  proof (cases "read_framed cur")
    case (Ok x)
    obtain ty body c where x: "x = (ty, body, c)" by (cases x)
    let ?r = "sample_result ether agent (ty, body)"
    let ?errs = "if fst ?r then errs else errs + 1"
    have c: "cur_in buf c" "24 * length (obs @ snd ?r) \<le> cu_pos c"
      using read_framed_Ok [of cur ty body c] decode_sample_cases(2) [of ether agent ty body] Ok x Suc.prems
      by (auto simp: cur_in_def)
    have "unat ?errs \<le> Suc (unat errs)" by (simp add: unat_word_ariths(1))
    with Suc.IH [OF c, of ?errs] show ?thesis unfolding samples_loop_Suc using Ok x by auto
  qed (simp_all add: samples_loop_Suc)
qed (auto simp: cur_in_def)

lemma read_agent_no_panic: "read_agent cur \<noteq> Panic"
proof
  assume "read_agent cur = Panic"
  moreover have "read_be128 b \<noteq> None" if "length b = 16" for b
    using that by (auto simp: read_be128_def read_be64_def length_Suc_conv numeral_eq_Suc)
  ultimately show False
    by (auto simp: read_agent_def obind_eq_Panic idx_def simp del: not_None_eq split: if_splits option.splits dest!: cur_take_Ok)
qed

lemma read_agent_Ok: "read_agent cur = Ok (a, cur') \<Longrightarrow> cu_buf cur' = cu_buf cur \<and> cu_pos cur \<le> cu_pos cur' \<and>
   cu_pos cur' \<le> length (cu_buf cur)"
  by (auto simp: read_agent_def obind_eq_Ok split: if_splits option.splits dest!: cur_read_Ok cur_take_Ok)

lemma decode_datagram_loop:
  assumes "cur_read_u32 (cursor_new bytes) = Ok (v, c1)" "read_agent c1 = Ok (agent, c2)" "skip_u32 3 c2 = Ok c3"
    and "cur_read_u32 c3 = Ok (n, c4)"
  shows "samples_loop ether agent (unat n) c4 [] 0 \<noteq> Panic"
    and "samples_loop ether agent (unat n) c4 [] 0 = Ok (obs, errs) \<Longrightarrow> 24 * length obs \<le> length bytes"
proof -
  have "cur_in bytes c4"
    using cur_read_Ok [OF assms(1)] read_agent_Ok [OF assms(2)] skip_u32_Ok [OF assms(3)] cur_read_Ok [OF assms(4)]
    by (simp add: cur_in_def cursor_new_def)
  from samples_loop_bounds [OF this, of "[]"] show "samples_loop ether agent (unat n) c4 [] 0 \<noteq> Panic"
    "samples_loop ether agent (unat n) c4 [] 0 = Ok (obs, errs) \<Longrightarrow> 24 * length obs \<le> length bytes" by auto
qed

lemma decode_datagram_no_panic: "decode_datagram ether bytes \<noteq> Panic"
  unfolding decode_datagram_def
  using decode_datagram_loop(1) read_agent_no_panic by (auto simp: obind_eq_Panic)

lemma decode_datagram_size: "decode_datagram ether bytes = Ok (obs, errs) \<Longrightarrow> 24 * length obs \<le> length bytes"
  unfolding decode_datagram_def using decode_datagram_loop(2) by (auto simp: obind_eq_Ok)

section \<open>The wire format\<close>

text \<open>
  The layout of sFlow version 5, as a specification of what agents send: a datagram is an envelope
  and framed samples, a flow sample has a fixed header and framed records.
\<close>

datatype sflow_record = RawHeader u32 u32 "u8 list" "u8 list" | OtherRecord u32 "u8 list"

datatype sflow_sample =
    FlowSample "u32 list" u32 "u32 list" "sflow_record list"
  | ExpandedSample "u32 list" u32 "u32 list" "sflow_record list"
  | OtherSample u32 "u8 list"

definition framed :: "u32 \<times> u8 list \<Rightarrow> u8 list" where
  "framed s = be32 (fst s) @ be32 (of_nat (length (snd s))) @ snd s"

fun record_frame :: "sflow_record \<Rightarrow> u32 \<times> u8 list" where
  "record_frame (RawHeader frame_len stripped header pad) =
     (1, be32 1 @ be32 frame_len @ be32 stripped @ be32 (of_nat (length header)) @ header @ pad)"
| "record_frame (OtherRecord ty body) = (ty, body)"

definition words :: "u32 list \<Rightarrow> u8 list" where
  "words ws = concat (map be32 ws)"

definition sample_body :: "u32 list \<Rightarrow> u32 \<Rightarrow> u32 list \<Rightarrow> sflow_record list \<Rightarrow> u8 list" where
  "sample_body before rate behind records = words before @ be32 rate @ words behind @
     be32 (of_nat (length records)) @ concat (map (framed \<circ> record_frame) records)"

fun sample_frame :: "sflow_sample \<Rightarrow> u32 \<times> u8 list" where
  "sample_frame (FlowSample before rate behind records) = (1, sample_body before rate behind records)"
| "sample_frame (ExpandedSample before rate behind records) = (3, sample_body before rate behind records)"
| "sample_frame (OtherSample ty body) = (ty, body)"

fun agent_wire :: "ip_addr \<Rightarrow> u8 list" where
  "agent_wire (V4 a) = be32 1 @ be32 a"
| "agent_wire (V6 a) = be32 2 @ be128 a"

definition datagram_wire :: "u32 \<Rightarrow> ip_addr \<Rightarrow> u32 list \<Rightarrow> (u32 \<times> u8 list) list \<Rightarrow> u8 list" where
  "datagram_wire version agent hdr samples = be32 version @ agent_wire agent @ words hdr @
     be32 (of_nat (length samples)) @ concat (map framed samples)"

text \<open>What the records of a sample amount to.\<close>

fun record_observation :: "ether_parser \<Rightarrow> u32 \<Rightarrow> ip_addr \<Rightarrow> sflow_record \<Rightarrow> flow_observation option" where
  "record_observation ether rate agent (RawHeader frame_len stripped header pad) =
     Option.bind (ether header) (\<lambda>sliced. packet_observation sliced frame_len rate agent)"
| "record_observation ether rate agent (OtherRecord ty body) = None"

fun sample_observations :: "ether_parser \<Rightarrow> ip_addr \<Rightarrow> sflow_sample \<Rightarrow> flow_observation list" where
  "sample_observations ether agent (FlowSample before rate behind records) =
     List.map_filter (record_observation ether rate agent) records"
| "sample_observations ether agent (ExpandedSample before rate behind records) =
     List.map_filter (record_observation ether rate agent) records"
| "sample_observations ether agent (OtherSample ty body) = []"

fun record_wf :: "sflow_record \<Rightarrow> bool" where
  "record_wf (RawHeader frame_len stripped header pad) = (length header + length pad < 2 ^ 32 - 16)"
| "record_wf (OtherRecord ty body) = (ty AND 0xFFF \<noteq> 1 \<and> length body < 2 ^ 32)"

fun sample_wf :: "sflow_sample \<Rightarrow> bool" where
  "sample_wf (FlowSample before rate behind records) =
     (length before = 2 \<and> length behind = 4 \<and> list_all record_wf records \<and> length records < 2 ^ 32)"
| "sample_wf (ExpandedSample before rate behind records) =
     (length before = 3 \<and> length behind = 6 \<and> list_all record_wf records \<and> length records < 2 ^ 32)"
| "sample_wf (OtherSample ty body) = (ty AND 0xFFF \<notin> {1, 3})"

section \<open>Reading what was written\<close>

text \<open>The cursor stands before these bytes.\<close>

definition at_bytes :: "cursor \<Rightarrow> u8 list \<Rightarrow> bool" where
  "at_bytes cur bs \<longleftrightarrow> drop (cu_pos cur) (cu_buf cur) = bs \<and> cu_pos cur \<le> length (cu_buf cur) \<and> length (cu_buf cur) < 2 ^ 64"

lemma at_bytes_new: "length bs < 2 ^ 64 \<Longrightarrow> at_bytes (cursor_new bs) bs"
  by (simp add: at_bytes_def cursor_new_def)

lemma at_bytes_len: "at_bytes cur (b @ r) \<Longrightarrow> cu_pos cur + length b \<le> length (cu_buf cur)"
proof -
  assume "at_bytes cur (b @ r)"
  then have "length (drop (cu_pos cur) (cu_buf cur)) = length (b @ r)" "cu_pos cur \<le> length (cu_buf cur)"
    by (auto simp: at_bytes_def)
  then show ?thesis by simp
qed

lemma cur_take_wire:
  assumes "at_bytes cur (b @ r)"
  obtains cur' where "cur_take (length b) cur = Ok (b, cur')" "at_bytes cur' r"
proof -
  note l = at_bytes_len [OF assms]
  from assms l have "cur_take (length b) cur = Ok (b, cur\<lparr>cu_pos := cu_pos cur + length b\<rparr>)"
    by (auto simp: cur_take_def checked_add_def get_range_def at_bytes_def)
  moreover have "drop (cu_pos cur + length b) (cu_buf cur) = r"
    using assms by (metis add.commute append_eq_conv_conj at_bytes_def drop_drop)
  ultimately show ?thesis using assms l by (intro that) (auto simp: at_bytes_def)
qed

lemma cur_read_wire:
  assumes "at_bytes cur (be32 w @ r)"
  obtains cur' where "cur_read_u32 cur = Ok (w, cur')" "at_bytes cur' r"
proof -
  note l = at_bytes_len [OF assms]
  have t: "take 4 (drop (cu_pos cur) (cu_buf cur)) = be32 w" using assms by (simp add: at_bytes_def)
  from assms l have "cur_read_u32 cur = Ok (w, cur\<lparr>cu_pos := cu_pos cur + 4\<rparr>)"
    by (auto simp: cur_read_u32_def checked_add_def get_range_def at_bytes_def t idx_def be32_def)
  moreover have "drop (cu_pos cur + 4) (cu_buf cur) = r"
    using assms by (metis add.commute append_eq_conv_conj at_bytes_def drop_drop length_be(2))
  ultimately show ?thesis using assms l by (intro that) (auto simp: at_bytes_def)
qed

lemma unat_len32: "n < 2 ^ 32 \<Longrightarrow> unat (of_nat n :: u32) = n"
  by (simp add: unat_of_nat)

lemma read_framed_wire:
  assumes "at_bytes cur (framed s @ r)" "length (snd s) < 2 ^ 32"
  obtains cur' where "read_framed cur = Ok (fst s, snd s, cur')" "at_bytes cur' r"
proof -
  from assms(1) have "at_bytes cur (be32 (fst s) @ be32 (of_nat (length (snd s))) @ snd s @ r)" by (simp add: framed_def)
  from cur_read_wire [OF this] obtain c1 where c1: "cur_read_u32 cur = Ok (fst s, c1)"
    "at_bytes c1 (be32 (of_nat (length (snd s))) @ snd s @ r)" .
  from cur_read_wire [OF c1(2)] obtain c2 where c2: "cur_read_u32 c1 = Ok (of_nat (length (snd s)), c2)" "at_bytes c2 (snd s @ r)" .
  from cur_take_wire [OF c2(2)] obtain c3 where c3: "cur_take (length (snd s)) c2 = Ok (snd s, c3)" "at_bytes c3 r" .
  show ?thesis by (rule that [OF _ c3(2)]) (simp add: read_framed_def c1 c2 c3 unat_len32 [OF assms(2)])
qed

lemma skip_u32_wire:
  assumes "at_bytes cur (words ws @ r)"
  obtains cur' where "skip_u32 (length ws) cur = Ok cur'" "at_bytes cur' r"
  using assms
proof (induction ws arbitrary: cur thesis)
  case (Cons w ws)
  from Cons.prems(2) have "at_bytes cur (be32 w @ words ws @ r)" by (simp add: words_def)
  from cur_read_wire [OF this] obtain c where c: "cur_read_u32 cur = Ok (w, c)" "at_bytes c (words ws @ r)" .
  show ?case by (rule Cons.IH [OF _ c(2)]) (rule Cons.prems(1), simp add: c)
qed (simp add: words_def)

lemma read_agent_wire:
  assumes "at_bytes cur (agent_wire a @ r)"
  obtains cur' where "read_agent cur = Ok (a, cur')" "at_bytes cur' r"
proof (cases a)
  case (V4 x)
  with assms have "at_bytes cur (be32 1 @ be32 x @ r)" by simp
  from cur_read_wire [OF this] obtain c where c: "cur_read_u32 cur = Ok (1, c)" "at_bytes c (be32 x @ r)" .
  from cur_take_wire [OF c(2)] obtain c' where c': "cur_take 4 c = Ok (be32 x, c')" "at_bytes c' r" by auto
  show ?thesis by (rule that [OF _ c'(2)]) (simp add: read_agent_def c c' V4 idx_def be32_def)
next
  case (V6 x)
  with assms have "at_bytes cur (be32 2 @ be128 x @ r)" by simp
  from cur_read_wire [OF this] obtain c where c: "cur_read_u32 cur = Ok (2, c)" "at_bytes c (be128 x @ r)" .
  from cur_take_wire [OF c(2)] obtain c' where c': "cur_take 16 c = Ok (be128 x, c')" "at_bytes c' r" by auto
  have "read_be128 (be128 x) = Some (x, [])" using read_be(3) [of x "[]"] by simp
  then show ?thesis by (intro that [OF _ c'(2)]) (simp add: read_agent_def c c' V6)
qed

lemma samples_loop_wire:
  assumes "at_bytes cur (concat (map framed ss) @ r)" "\<forall>s\<in>set ss. length (snd s) < 2 ^ 32"
  shows "samples_loop ether agent (length ss) cur obs errs =
    Ok (obs @ concat (map (\<lambda>s. snd (sample_result ether agent s)) ss),
        errs + of_nat (length (filter (\<lambda>s. \<not> fst (sample_result ether agent s)) ss)))"
  using assms
proof (induction ss arbitrary: cur obs errs)
  case (Cons s ss)
  from Cons.prems have "at_bytes cur (framed s @ concat (map framed ss) @ r)" "length (snd s) < 2 ^ 32" by simp_all
  then obtain c where c: "read_framed cur = Ok (fst s, snd s, c)" "at_bytes c (concat (map framed ss) @ r)"
    by (rule read_framed_wire)
  from Cons.IH [OF c(2)] Cons.prems(2) show ?case
    by (simp add: samples_loop_Suc c del: samples_loop.simps)
qed simp

lemma decode_raw_wire:
  assumes "length header + length pad < 2 ^ 32 - 16"
  shows "decode_raw_header_record ether (be32 1 @ be32 fl @ be32 st @ be32 (of_nat (length header)) @ header @ pad) rate agent =
    Ok (Option.bind (ether header) (\<lambda>sliced. packet_observation sliced fl rate agent))"
proof -
  let ?b = "be32 1 @ be32 fl @ be32 st @ be32 (of_nat (length header)) @ header @ pad"
  have "at_bytes (cursor_new ?b) ?b" using assms by (intro at_bytes_new) simp
  from cur_read_wire [OF this] obtain c1 where c1: "cur_read_u32 (cursor_new ?b) = Ok (1, c1)"
    "at_bytes c1 (be32 fl @ be32 st @ be32 (of_nat (length header)) @ header @ pad)" .
  from cur_read_wire [OF c1(2)] obtain c2 where c2: "cur_read_u32 c1 = Ok (fl, c2)"
    "at_bytes c2 (be32 st @ be32 (of_nat (length header)) @ header @ pad)" .
  from cur_read_wire [OF c2(2)] obtain c3 where c3: "cur_read_u32 c2 = Ok (st, c3)"
    "at_bytes c3 (be32 (of_nat (length header)) @ header @ pad)" .
  from cur_read_wire [OF c3(2)] obtain c4 where c4: "cur_read_u32 c3 = Ok (of_nat (length header), c4)"
    "at_bytes c4 (header @ pad)" .
  from cur_take_wire [OF c4(2)] obtain c5 where c5: "cur_take (length header) c4 = Ok (header, c5)" .
  have "unat (of_nat (length header) :: u32) = length header" using assms by (intro unat_len32) simp
  then show ?thesis
    by (cases "ether header") (simp_all add: decode_raw_header_record_def c1 c2 c3 c4 c5)
qed

lemma record_frame_len: "record_wf r \<Longrightarrow> length (snd (record_frame r)) < 2 ^ 32"
  by (cases r) auto

lemma records_loop_wire:
  assumes "at_bytes cur (concat (map (framed \<circ> record_frame) rs))" "list_all record_wf rs"
  shows "records_loop ether rate agent (length rs) cur [] = (Ok (), List.map_filter (record_observation ether rate agent) rs)"
  using assms
proof (induction rs arbitrary: cur)
  case (Cons x rs)
  from Cons.prems have "at_bytes cur (framed (record_frame x) @ concat (map (framed \<circ> record_frame) rs))"
    "length (snd (record_frame x)) < 2 ^ 32" using record_frame_len [of x] by (simp_all add: comp_def)
  then obtain c where c: "read_framed cur = Ok (fst (record_frame x), snd (record_frame x), c)"
    "at_bytes c (concat (map (framed \<circ> record_frame) rs))" by (rule read_framed_wire)
  have ih: "records_loop ether rate agent (length rs) c out = (Ok (), out @ List.map_filter (record_observation ether rate agent) rs)" for out
    using Cons.IH [OF c(2)] Cons.prems(2) records_loop_out [of ether rate agent "length rs" c out] by simp
  show ?case
  proof (cases x)
    case (RawHeader fl st h p)
    with Cons.prems(2) have "length h + length p < 2 ^ 32 - 16" by simp
    note d = decode_raw_wire [OF this, of ether fl st rate agent]
    show ?thesis using c(1) RawHeader
      by (cases "Option.bind (ether h) (\<lambda>sliced. packet_observation sliced fl rate agent)")
        (simp_all add: d ih map_filter_simps)
  next
    case (OtherRecord ty b)
    then show ?thesis using c(1) Cons.prems(2) by (simp add: ih map_filter_simps)
  qed
qed (simp add: map_filter_simps)

lemma sample_body_wire:
  assumes "length before = k" "length behind = l" "list_all record_wf rs" "length rs < 2 ^ 32"
    and "length (sample_body before rate behind rs) < 2 ^ 64"
  obtains cur where "sample_header k l (sample_body before rate behind rs) = Ok (rate, of_nat (length rs), cur)"
    "records_loop ether rate agent (length rs) cur [] = (Ok (), List.map_filter (record_observation ether rate agent) rs)"
proof -
  let ?b = "sample_body before rate behind rs"
  have "at_bytes (cursor_new ?b) (words before @ be32 rate @ words behind @ be32 (of_nat (length rs)) @
      concat (map (framed \<circ> record_frame) rs))"
    using at_bytes_new [OF assms(5)] by (simp add: sample_body_def)
  from skip_u32_wire [OF this] obtain c1 where c1: "skip_u32 k (cursor_new ?b) = Ok c1"
    "at_bytes c1 (be32 rate @ words behind @ be32 (of_nat (length rs)) @ concat (map (framed \<circ> record_frame) rs))"
    unfolding assms(1) .
  from cur_read_wire [OF c1(2)] obtain c2 where c2: "cur_read_u32 c1 = Ok (rate, c2)"
    "at_bytes c2 (words behind @ be32 (of_nat (length rs)) @ concat (map (framed \<circ> record_frame) rs))" .
  from skip_u32_wire [OF c2(2)] obtain c3 where c3: "skip_u32 l c2 = Ok c3"
    "at_bytes c3 (be32 (of_nat (length rs)) @ concat (map (framed \<circ> record_frame) rs))" unfolding assms(2) .
  from cur_read_wire [OF c3(2)] obtain c4 where c4: "cur_read_u32 c3 = Ok (of_nat (length rs), c4)"
    "at_bytes c4 (concat (map (framed \<circ> record_frame) rs))" .
  show ?thesis
    by (rule that [OF _ records_loop_wire [OF c4(2) assms(3)]]) (simp add: sample_header_def c1 c2 c3 c4)
qed

lemma sample_result_wire:
  assumes "sample_wf s" "length (snd (sample_frame s)) < 2 ^ 32"
  shows "sample_result ether agent (sample_frame s) = (True, sample_observations ether agent s)"
proof (cases s)
  case (FlowSample before rate behind rs)
  with assms have wf: "length before = 2" "length behind = 4" "list_all record_wf rs" "length rs < 2 ^ 32"
    "length (sample_body before rate behind rs) < 2 ^ 64" by simp_all
  from sample_body_wire [OF wf, where ether = ether and agent = agent] obtain c where
    "sample_header 2 4 (sample_body before rate behind rs) = Ok (rate, of_nat (length rs), c)"
    "records_loop ether rate agent (length rs) c [] = (Ok (), List.map_filter (record_observation ether rate agent) rs)" .
  with FlowSample show ?thesis
    by (simp add: sample_result_def decode_sample_def decode_flow_sample_def unat_len32 [OF wf(4)])
next
  case (ExpandedSample before rate behind rs)
  with assms have wf: "length before = 3" "length behind = 6" "list_all record_wf rs" "length rs < 2 ^ 32"
    "length (sample_body before rate behind rs) < 2 ^ 64" by simp_all
  from sample_body_wire [OF wf, where ether = ether and agent = agent] obtain c where
    "sample_header 3 6 (sample_body before rate behind rs) = Ok (rate, of_nat (length rs), c)"
    "records_loop ether rate agent (length rs) c [] = (Ok (), List.map_filter (record_observation ether rate agent) rs)" .
  with ExpandedSample show ?thesis
    by (simp add: sample_result_def decode_sample_def decode_expanded_flow_sample_def unat_len32 [OF wf(4)])
next
  case (OtherSample ty b)
  with assms(1) show ?thesis by (simp add: sample_result_def decode_sample_def)
qed

lemma decode_datagram_wire:
  assumes "length hdr = 3" "length ss < 2 ^ 32" "\<forall>s\<in>set ss. length (snd s) < 2 ^ 32"
    and "length (datagram_wire version agent hdr ss) < 2 ^ 64"
  shows "decode_datagram ether (datagram_wire version agent hdr ss) =
    Ok (concat (map (\<lambda>s. snd (sample_result ether agent s)) ss),
        of_nat (length (filter (\<lambda>s. \<not> fst (sample_result ether agent s)) ss)))"
proof -
  let ?b = "datagram_wire version agent hdr ss"
  have "at_bytes (cursor_new ?b) (be32 version @ agent_wire agent @ words hdr @ be32 (of_nat (length ss)) @ concat (map framed ss))"
    using at_bytes_new [OF assms(4)] by (simp add: datagram_wire_def)
  from cur_read_wire [OF this] obtain c1 where c1: "cur_read_u32 (cursor_new ?b) = Ok (version, c1)"
    "at_bytes c1 (agent_wire agent @ words hdr @ be32 (of_nat (length ss)) @ concat (map framed ss))" .
  from read_agent_wire [OF c1(2)] obtain c2 where c2: "read_agent c1 = Ok (agent, c2)"
    "at_bytes c2 (words hdr @ be32 (of_nat (length ss)) @ concat (map framed ss))" .
  from skip_u32_wire [OF c2(2)] obtain c3 where c3: "skip_u32 3 c2 = Ok c3"
    "at_bytes c3 (be32 (of_nat (length ss)) @ concat (map framed ss))" unfolding assms(1) .
  from cur_read_wire [OF c3(2)] obtain c4 where c4: "cur_read_u32 c3 = Ok (of_nat (length ss), c4)"
    "at_bytes c4 (concat (map framed ss))" .
  have "at_bytes c4 (concat (map framed ss) @ [])" using c4(2) by simp
  note l = samples_loop_wire [OF this assms(3), of ether agent "[]" 0]
  show ?thesis using l by (simp add: decode_datagram_def c1 c2 c3 c4 unat_len32 [OF assms(2)])
qed

lemma sample_results_wire:
  assumes "list_all sample_wf ss" "\<forall>s\<in>set ss. length (snd (sample_frame s)) < 2 ^ 32"
  shows "concat (map (\<lambda>s. snd (sample_result ether agent s)) (map sample_frame ss)) = concat (map (sample_observations ether agent) ss)"
    and "filter (\<lambda>s. \<not> fst (sample_result ether agent s)) (map sample_frame ss) = []"
proof -
  have r: "sample_result ether agent (sample_frame s) = (True, sample_observations ether agent s)" if "s \<in> set ss" for s
    using sample_result_wire assms that by (simp add: list_all_iff)
  then show "concat (map (\<lambda>s. snd (sample_result ether agent s)) (map sample_frame ss)) = concat (map (sample_observations ether agent) ss)"
    by (simp add: comp_def cong: map_cong)
  show "filter (\<lambda>s. \<not> fst (sample_result ether agent s)) (map sample_frame ss) = []"
    using r by (auto simp: filter_empty_conv)
qed

section \<open>A slicer for plain UDP frames\<close>

text \<open>
  What \<^verbatim>\<open>etherparse\<close> returns on an Ethernet II frame with an IPv4 header without options and a UDP
  header; used to instantiate the parameter.
\<close>

definition udp4_slicer :: ether_parser where
  "udp4_slicer h = (if 42 \<le> length h \<and> h ! 12 = 8 \<and> h ! 13 = 0 \<and> h ! 14 = 0x45 \<and> h ! 23 = 17
     then Some \<lparr>sp_net = Some (Ipv4Slice (from_be32 (h ! 26) (h ! 27) (h ! 28) (h ! 29))
                                (from_be32 (h ! 30) (h ! 31) (h ! 32) (h ! 33)) (h ! 23)),
            sp_transport = Some (UdpSlice (from_be16 (h ! 34) (h ! 35)) (from_be16 (h ! 36) (h ! 37)))\<rparr>
     else None)"

definition sample_frame_bytes :: "u8 list" where
  "sample_frame_bytes = [1, 2, 3, 4, 5, 6, 7, 8, 9, 10, 11, 12, 8, 0, 0x45, 0, 0, 36, 0, 0, 0, 0, 64, 17, 0, 0,
     198, 51, 100, 9, 203, 0, 113, 7, 0x30, 0x39, 0, 53, 0, 16, 0, 0]"

definition sample_datagram :: "sflow_sample list" where
  "sample_datagram = [OtherSample 2 [1, 2, 3], FlowSample [0, 0] 1000 [0, 0, 0, 0] [RawHeader 100 4 sample_frame_bytes [0, 0]]]"

lemma sample_datagram_obs:
  "concat (map (sample_observations udp4_slicer (V4 0x0A000001)) sample_datagram) =
     [\<lparr>o_src = V4 0xC6336409, o_dst = V4 0xCB007107, o_proto = 17, o_src_port = 12345, o_dst_port = 53,
       o_frame_len = 100, o_sampling_rate = 1000, o_tcp_flags = 0, o_agent = V4 0x0A000001\<rparr>]"
  by (simp add: sample_datagram_def sample_frame_bytes_def udp4_slicer_def packet_observation_def map_filter_simps
      from_be32_def from_be16_def)

lemma sample_datagram_wf:
  "list_all sample_wf sample_datagram" "\<forall>s\<in>set sample_datagram. length (snd (sample_frame s)) < 2 ^ 32"
  "length sample_datagram < 2 ^ 32" "length (datagram_wire 5 (V4 0x0A000001) [0, 1, 2] (map sample_frame sample_datagram)) < 2 ^ 64"
  by (simp_all add: sample_datagram_def sample_frame_bytes_def datagram_wire_def sample_body_def words_def framed_def)

section \<open>Properties\<close>

text \<open>
  C37. Whatever octets arrive, decoding an sFlow datagram neither indexes out of range nor panics,
  and it cannot be made to amplify: the observations it returns number at most one per 24 octets of
  input, whatever the sample and record counts in the datagram claim.
\<close>

theorem sflow_total:
  "decode_datagram ether bytes \<noteq> Panic \<and>
   (\<forall>obs errs. decode_datagram ether bytes = Ok (obs, errs) \<longrightarrow> 24 * length obs \<le> length bytes)"
  using decode_datagram_no_panic decode_datagram_size by blast

theorem sflow_total_witness:
  "\<exists>ob. decode_datagram udp4_slicer (datagram_wire 5 (V4 0x0A000001) [0, 1, 2] (map sample_frame sample_datagram)) = Ok ([ob], 0) \<and>
     24 \<le> length (datagram_wire 5 (V4 0x0A000001) [0, 1, 2] (map sample_frame sample_datagram))"
proof -
  have ss: "length (map sample_frame sample_datagram) < 2 ^ 32" "\<forall>s\<in>set (map sample_frame sample_datagram). length (snd s) < 2 ^ 32"
    using sample_datagram_wf by simp_all
  have "\<exists>ob. decode_datagram udp4_slicer (datagram_wire 5 (V4 0x0A000001) [0, 1, 2] (map sample_frame sample_datagram)) = Ok ([ob], 0)"
    using decode_datagram_wire [OF _ ss sample_datagram_wf(4), of udp4_slicer]
    unfolding sample_results_wire [OF sample_datagram_wf(1,2)] sample_datagram_obs by simp
  with sflow_total [of udp4_slicer "datagram_wire 5 (V4 0x0A000001) [0, 1, 2] (map sample_frame sample_datagram)"]
  show ?thesis by force
qed

text \<open>
  One bad sample spoils nothing else: in a datagram whose samples are framed correctly but have
  arbitrary bodies, every sample contributes what it would contribute alone, in order, whatever is
  inside the others, and the error count is the number of samples that fail alone.
\<close>

lemma sflow_isolation:
  assumes "length hdr = 3" "length ss < 2 ^ 32" "\<forall>s\<in>set ss. length (snd s) < 2 ^ 32"
    and "length (datagram_wire version agent hdr ss) < 2 ^ 64"
  shows "decode_datagram ether (datagram_wire version agent hdr ss) =
    Ok (concat (map (\<lambda>s. snd (sample_result ether agent s)) ss),
        of_nat (length (filter (\<lambda>s. \<not> fst (sample_result ether agent s)) ss)))"
  by (rule decode_datagram_wire [OF assms])



end
