(* ===== verification/HashMap.thy ===== *)
theory HashMap
  imports Prelude
begin

text \<open>
  Rust's \<open>HashMap<K, V>\<close>: an association list without duplicate keys. The order of the list
  stands for the iteration order the hasher happens to give; every theorem of the development
  holds for each such list, hence for each iteration order.
\<close>

type_synonym ('k, 'v) hashmap = "('k \<times> 'v) list"

definition hm_wf :: "('k, 'v) hashmap \<Rightarrow> bool" where
  "hm_wf m = distinct (map fst m)"

definition hm_get :: "('k, 'v) hashmap \<Rightarrow> 'k \<Rightarrow> 'v option" where
  "hm_get m k = map_of m k"

definition hm_insert :: "'k \<Rightarrow> 'v \<Rightarrow> ('k, 'v) hashmap \<Rightarrow> ('k, 'v) hashmap" where
  "hm_insert k v m = AList.update k v m"

definition hm_remove :: "'k \<Rightarrow> ('k, 'v) hashmap \<Rightarrow> ('k, 'v) hashmap" where
  "hm_remove k m = filter (\<lambda>e. fst e \<noteq> k) m"

definition hm_len :: "('k, 'v) hashmap \<Rightarrow> nat" where
  "hm_len m = length m"

definition hm_keys :: "('k, 'v) hashmap \<Rightarrow> 'k list" where
  "hm_keys m = map fst m"

text \<open>The contract of a finite map, as the clients of \<open>HashMap\<close> use it.\<close>

locale finite_map =
  fixes empty :: "'m"
    and get :: "'m \<Rightarrow> 'k \<Rightarrow> 'v option"
    and insert_at :: "'k \<Rightarrow> 'v \<Rightarrow> 'm \<Rightarrow> 'm"
    and remove_at :: "'k \<Rightarrow> 'm \<Rightarrow> 'm"
    and len :: "'m \<Rightarrow> nat"
    and keys :: "'m \<Rightarrow> 'k list"
    and wf :: "'m \<Rightarrow> bool"
  assumes get_empty: "get empty k = None"
    and get_insert: "get (insert_at k v m) j = (if j = k then Some v else get m j)"
    and get_remove: "get (remove_at k m) j = (if j = k then None else get m j)"
    and wf_empty: "wf empty"
    and wf_insert: "wf m \<Longrightarrow> wf (insert_at k v m)"
    and wf_remove: "wf m \<Longrightarrow> wf (remove_at k m)"
    and keys_get: "k \<in> set (keys m) \<longleftrightarrow> get m k \<noteq> None"
    and len_keys: "len m = length (keys m)"
    and wf_keys: "wf m \<Longrightarrow> distinct (keys m)"
begin

lemma len_card: "wf m \<Longrightarrow> len m = card (set (keys m))"
  by (simp add: len_keys wf_keys distinct_card)

lemma keys_insert: "set (keys (insert_at k v m)) = insert k (set (keys m))"
  by (auto simp: keys_get get_insert split: if_splits)

lemma keys_remove: "set (keys (remove_at k m)) = set (keys m) - {k}"
  by (auto simp: keys_get get_remove split: if_splits)

lemma finite_keys: "finite (set (keys m))"
  by simp

lemma len_insert:
  "wf m \<Longrightarrow> len (insert_at k v m) = (if k \<in> set (keys m) then len m else Suc (len m))"
  by (auto simp: len_card wf_insert keys_insert insert_absorb)

lemma len_remove_le: "wf m \<Longrightarrow> len (remove_at k m) \<le> len m"
  by (simp add: len_card wf_remove keys_remove card_mono)

lemma len_remove:
  "wf m \<Longrightarrow> len (remove_at k m) = (if k \<in> set (keys m) then len m - 1 else len m)"
  by (auto simp: len_card wf_remove keys_remove)

lemma get_absent: "k \<notin> set (keys m) \<Longrightarrow> get m k = None"
  by (simp add: keys_get)

end

interpretation hm: finite_map "[]" hm_get hm_insert hm_remove hm_len hm_keys hm_wf
proof unfold_locales
  fix m :: "('k, 'v) hashmap" and k j :: 'k and v :: 'v
  show "hm_get [] k = (None :: 'v option)" by (simp add: hm_get_def)
  show "hm_get (hm_insert k v m) j = (if j = k then Some v else hm_get m j)"
    by (simp add: hm_get_def hm_insert_def update_conv')
  show "hm_get (hm_remove k m) j = (if j = k then None else hm_get m j)"
    unfolding hm_get_def hm_remove_def by (induction m) auto
  show "hm_wf []" by (simp add: hm_wf_def)
  show "hm_wf m \<Longrightarrow> hm_wf (hm_insert k v m)"
    by (simp add: hm_wf_def hm_insert_def distinct_update)
  show "hm_wf m \<Longrightarrow> hm_wf (hm_remove k m)"
    by (simp add: hm_wf_def hm_remove_def filter_neq_distinct_map)
  show "k \<in> set (hm_keys m) \<longleftrightarrow> hm_get m k \<noteq> None"
    by (auto simp: hm_keys_def hm_get_def map_of_eq_None_iff)
  show "hm_len m = length (hm_keys m)" by (simp add: hm_len_def hm_keys_def)
  show "hm_wf m \<Longrightarrow> distinct (hm_keys m)" by (simp add: hm_wf_def hm_keys_def)
qed

lemmas hm_simps [simp] =
  hm.get_empty hm.get_insert hm.get_remove hm.wf_empty hm.wf_insert hm.wf_remove
  hm.keys_insert hm.keys_remove

text \<open>Mutating the value under a key through \<open>get_mut\<close>.\<close>

definition hm_adjust :: "'k \<Rightarrow> ('v \<Rightarrow> 'v) \<Rightarrow> ('k, 'v) hashmap \<Rightarrow> ('k, 'v) hashmap" where
  "hm_adjust k f m = (case hm_get m k of None \<Rightarrow> m | Some v \<Rightarrow> hm_insert k (f v) m)"

lemma hm_get_adjust [simp]:
  "hm_get (hm_adjust k f m) j = (if j = k then map_option f (hm_get m k) else hm_get m j)"
  by (auto simp: hm_adjust_def split: option.splits)

lemma hm_wf_adjust [simp]: "hm_wf m \<Longrightarrow> hm_wf (hm_adjust k f m)"
  by (auto simp: hm_adjust_def split: option.splits)

lemma hm_keys_adjust [simp]: "set (hm_keys (hm_adjust k f m)) = set (hm_keys m)"
  by (auto simp: hm.keys_get split: if_splits)

lemma hm_len_adjust [simp]: "hm_wf m \<Longrightarrow> hm_len (hm_adjust k f m) = hm_len m"
  by (simp add: hm.len_card)

lemma hm_mem_get: "hm_wf m \<Longrightarrow> (k, v) \<in> set m \<longleftrightarrow> hm_get m k = Some v"
  by (simp add: hm_wf_def hm_get_def map_of_eq_Some_iff)

lemma hm_get_keys: "hm_get m k = Some v \<Longrightarrow> k \<in> set (hm_keys m)"
  by (simp add: hm.keys_get)

lemma hm_remove_fold: "fold hm_remove ks m = filter (\<lambda>e. fst e \<notin> set ks) m"
proof (induction ks arbitrary: m)
  case (Cons k ks)
  then show ?case by (simp add: hm_remove_def conj_commute)
qed simp

lemma hm_get_fold_remove [simp]:
  "hm_get (fold hm_remove ks m) j = (if j \<in> set ks then None else hm_get m j)"
  by (induction ks arbitrary: m) simp_all

lemma hm_wf_fold_remove [simp]: "hm_wf m \<Longrightarrow> hm_wf (fold hm_remove ks m)"
  by (induction ks arbitrary: m) simp_all

lemma hm_keys_fold_remove [simp]:
  "set (hm_keys (fold hm_remove ks m)) = set (hm_keys m) - set ks"
  by (induction ks arbitrary: m) auto

text \<open>The keys whose value satisfies a test, collected in iteration order.\<close>

lemma hm_select_get:
  "hm_wf m \<Longrightarrow> k \<in> set (map fst (filter (\<lambda>(k, v). P v) m)) \<longleftrightarrow> (\<exists>v. hm_get m k = Some v \<and> P v)"
  by (auto simp: hm_mem_get [symmetric] image_iff)

lemma hm_get_fold_remove_select:
  "hm_wf m \<Longrightarrow> hm_get (fold hm_remove (map fst (filter (\<lambda>(k, v). P v) m)) m) j =
     (case hm_get m j of None \<Rightarrow> None | Some v \<Rightarrow> if P v then None else Some v)"
  by (auto simp del: set_map simp: hm_select_get split: option.splits)

end
