(* ===== verification/Detector.thy ===== *)
theory Detector
  imports Detection HashMap "HOL-Library.Multiset"
begin

text \<open>
  The threshold detector of \<^verbatim>\<open>blackwall-flow/src/detector.rs\<close> and the agent registry of
  \<^verbatim>\<open>agents.rs\<close>. Times are milliseconds of the monotonic clock. A release build wraps on integer
  overflow, so the one unchecked addition of the window test is taken modulo \<open>2 ^ 64\<close>; the volume
  sums saturate at 128 bits as in the code. The prefix test and the truncation of the
  \<^verbatim>\<open>ipnet\<close> crate are parameters. The hasher decides in which order a \<open>HashMap\<close> is walked, and some
  results depend on it (ties); that order is a parameter too.
\<close>

section \<open>Generic routines\<close>

abbreviation u128_max :: nat where
  "u128_max \<equiv> 340282366920938463463374607431768211455"

definition sat_add128 :: "nat \<Rightarrow> nat \<Rightarrow> nat" where
  "sat_add128 a b = min (a + b) u128_max"

definition sat_add64 :: "nat \<Rightarrow> nat \<Rightarrow> nat" where
  "sat_add64 a b = min (a + b) u64_max"

text \<open>\<open>u32::saturating_mul\<close>.\<close>

definition sat_mul32 :: "u32 \<Rightarrow> u32 \<Rightarrow> u32" where
  "sat_mul32 a b = (if unat a * unat b < 2 ^ 32 then a * b else - 1)"

text \<open>\<open>max_by_key\<close> returns the last of several maxima.\<close>

definition max_by_key :: "('a \<Rightarrow> nat) \<Rightarrow> 'a list \<Rightarrow> 'a option" where
  "max_by_key key xs = fold (\<lambda>x best. case best of None \<Rightarrow> Some x
     | Some b \<Rightarrow> if key b \<le> key x then Some x else Some b) xs None"

text \<open>
  The stable \<open>sort_by\<close> for a comparison that puts \<open>x\<close> behind \<open>y\<close> when \<open>before y x\<close>.
\<close>

fun insort_by :: "('a \<Rightarrow> 'a \<Rightarrow> bool) \<Rightarrow> 'a \<Rightarrow> 'a list \<Rightarrow> 'a list" where
  "insort_by before x [] = [x]"
| "insort_by before x (y # ys) = (if before y x then y # insort_by before x ys else x # y # ys)"

definition sort_by :: "('a \<Rightarrow> 'a \<Rightarrow> bool) \<Rightarrow> 'a list \<Rightarrow> 'a list" where
  "sort_by before xs = foldr (insort_by before) xs []"

text \<open>Summing amounts per key: \<open>entry(k).or_insert(0)\<close> and a saturating addition.\<close>

definition tally :: "('s \<Rightarrow> 'k) \<Rightarrow> ('s \<Rightarrow> nat) \<Rightarrow> 's list \<Rightarrow> ('k, nat) hashmap" where
  "tally key amount xs = fold (\<lambda>s m. hm_insert (key s)
     (sat_add128 (case hm_get m (key s) of None \<Rightarrow> 0 | Some n \<Rightarrow> n) (amount s)) m) xs []"

section \<open>The agent registry\<close>

record pop_entry =
  pe_name :: string
  pe_agent :: ip_addr
  pe_sampling :: u32

record agent_info =
  ai_name :: string
  ai_expected_sampling :: u32

type_synonym agent_registry = "(ip_addr, agent_info) hashmap"

definition from_entries :: "pop_entry list \<Rightarrow> agent_registry" where
  "from_entries entries = fold (\<lambda>e by_addr. hm_insert (pe_agent e)
     \<lparr>ai_name = pe_name e, ai_expected_sampling = pe_sampling e\<rparr> by_addr) entries []"

definition agent_name :: "agent_registry \<Rightarrow> ip_addr \<Rightarrow> string" where
  "agent_name reg agent = (case hm_get reg agent of None \<Rightarrow> ''unknown'' | Some i \<Rightarrow> ai_name i)"

definition expected_sampling :: "agent_registry \<Rightarrow> ip_addr \<Rightarrow> u32 option" where
  "expected_sampling reg agent = map_option ai_expected_sampling (hm_get reg agent)"

section \<open>State\<close>

record agent_stat =
  as_pop :: string
  as_last_seen_ms :: nat
  as_mismatches :: u64
  as_near_ceiling :: u64

record sample =
  sm_ts_ms :: nat
  sm_src :: ip_addr
  sm_dst_port :: u16
  sm_proto :: u8
  sm_est_packets :: nat
  sm_est_bytes :: nat
  sm_agent :: ip_addr

record dst_state =
  ds_samples :: "sample list"
  ds_open :: bool
  ds_first_seen_ms :: nat
  ds_last_over_ms :: nat

record detector_config =
  dc_pps_threshold :: f64
  dc_bps_threshold :: f64
  dc_window_ms :: nat
  dc_hold_down_ms :: nat
  dc_min_samples :: nat
  dc_max_sampling_factor :: u32

record threshold_detector =
  td_prefixes :: "ip_net list"
  td_pps_threshold :: f64
  td_bps_threshold :: f64
  td_window_ms :: nat
  td_hold_down_ms :: nat
  td_min_samples :: nat
  td_max_sampling_factor :: u32
  td_state :: "(ip_addr, dst_state) hashmap"
  td_agents :: agent_registry
  td_agent_last_seen :: "(ip_addr, nat) hashmap"
  td_sampling_mismatches :: "(ip_addr, u64) hashmap"
  td_sampling_near_ceiling :: "(ip_addr, u64) hashmap"
  td_unknown_agent_observations :: nat
  td_min_sample_suppressed :: nat
  td_detections_opened :: nat
  td_detections_cleared :: nat

definition td_new :: "ip_net list \<Rightarrow> detector_config \<Rightarrow> agent_registry \<Rightarrow> threshold_detector" where
  "td_new prefixes config agents =
     \<lparr>td_prefixes = prefixes, td_pps_threshold = dc_pps_threshold config,
      td_bps_threshold = dc_bps_threshold config, td_window_ms = dc_window_ms config,
      td_hold_down_ms = dc_hold_down_ms config, td_min_samples = dc_min_samples config,
      td_max_sampling_factor = max (dc_max_sampling_factor config) 4,
      td_state = [], td_agents = agents, td_agent_last_seen = [], td_sampling_mismatches = [],
      td_sampling_near_ceiling = [], td_unknown_agent_observations = 0,
      td_min_sample_suppressed = 0, td_detections_opened = 0, td_detections_cleared = 0\<rparr>"

section \<open>Recording an observation\<close>

text \<open>\<open>*map.entry(k).or_insert(0) += 1\<close>.\<close>

definition bump :: "ip_addr \<Rightarrow> (ip_addr, u64) hashmap \<Rightarrow> (ip_addr, u64) hashmap" where
  "bump k m = hm_insert k ((case hm_get m k of None \<Rightarrow> 0 | Some n \<Rightarrow> n) + 1) m"

definition effective_rate ::
  "flow_observation \<Rightarrow> nat \<Rightarrow> threshold_detector \<Rightarrow> u32 \<times> threshold_detector"
where
  "effective_rate obs now d =
     (case expected_sampling (td_agents d) (o_agent obs) of
        Some expected \<Rightarrow>
          let d = d\<lparr>td_agent_last_seen := hm_insert (o_agent obs) now (td_agent_last_seen d)\<rparr>;
              lo = expected div 4;
              ceiling = sat_mul32 expected (td_max_sampling_factor d)
          in if o_sampling_rate obs < lo
             then (expected, d\<lparr>td_sampling_mismatches := bump (o_agent obs) (td_sampling_mismatches d)\<rparr>)
             else if sat_mul32 expected 4 < o_sampling_rate obs
             then (let d = d\<lparr>td_sampling_mismatches := bump (o_agent obs) (td_sampling_mismatches d)\<rparr>;
                       trusted = min (o_sampling_rate obs) ceiling
                   in (trusted, if ceiling div 2 \<le> trusted
                        then d\<lparr>td_sampling_near_ceiling := bump (o_agent obs) (td_sampling_near_ceiling d)\<rparr>
                        else d))
             else (o_sampling_rate obs, d)
      | None \<Rightarrow>
          (o_sampling_rate obs,
           d\<lparr>td_unknown_agent_observations := sat_inc (td_unknown_agent_observations d)\<rparr>))"

definition fresh_dst :: dst_state where
  "fresh_dst = \<lparr>ds_samples = [], ds_open = False, ds_first_seen_ms = 0, ds_last_over_ms = 0\<rparr>"

definition td_observe ::
  "(ip_net \<Rightarrow> ip_addr \<Rightarrow> bool) \<Rightarrow> flow_observation \<Rightarrow> nat \<Rightarrow> threshold_detector \<Rightarrow> threshold_detector"
where
  "td_observe contains obs now d =
     (case effective_rate obs now d of (rate, d) \<Rightarrow>
      if \<not> (\<exists>p\<in>set (td_prefixes d). contains p (o_dst obs)) then d
      else
        let est_packets = unat rate;
            est_bytes = unat rate * unat (o_frame_len obs);
            entry = (case hm_get (td_state d) (o_dst obs) of Some e \<Rightarrow> e | None \<Rightarrow> fresh_dst);
            s = \<lparr>sm_ts_ms = now, sm_src = o_src obs, sm_dst_port = o_dst_port obs,
                 sm_proto = o_proto obs, sm_est_packets = est_packets, sm_est_bytes = est_bytes,
                 sm_agent = o_agent obs\<rparr>
        in d\<lparr>td_state := hm_insert (o_dst obs) (entry\<lparr>ds_samples := ds_samples entry @ [s]\<rparr>) (td_state d)\<rparr>)"

section \<open>Building a detection\<close>

record detection_params =
  dp_target :: ip_addr
  dp_pps :: f64
  dp_bps :: f64
  dp_pps_threshold :: f64
  dp_bps_threshold :: f64
  dp_samples :: "sample list"
  dp_window_secs :: f64
  dp_first_seen_ms :: nat
  dp_last_seen_ms :: nat
  dp_agents :: agent_registry

text \<open>The order in which the hasher walks each kind of map.\<close>

record hash_order =
  ho_proto :: "(u8, nat) hashmap \<Rightarrow> (u8, nat) hashmap"
  ho_src :: "(ip_addr, nat) hashmap \<Rightarrow> (ip_addr, nat) hashmap"
  ho_port :: "(u16, nat) hashmap \<Rightarrow> (u16, nat) hashmap"
  ho_agent :: "(ip_addr, nat \<times> nat) hashmap \<Rightarrow> (ip_addr, nat \<times> nat) hashmap"
  ho_block :: "(ip_net, nat) hashmap \<Rightarrow> (ip_net, nat) hashmap"
  ho_state :: "(ip_addr, dst_state) hashmap \<Rightarrow> (ip_addr, dst_state) hashmap"

text \<open>
  Both branches of \<open>Ipv4Net::new\<close> and \<open>Ipv6Net::new\<close> are in the source; 24 and 48 are in range, so
  the fallback to a host route is never taken.
\<close>

fun source_block :: "(ip_net \<Rightarrow> ip_net) \<Rightarrow> ip_addr \<Rightarrow> ip_net" where
  "source_block trunc (V4 a) = trunc (NetV4 a 24)"
| "source_block trunc (V6 a) = trunc (NetV6 a 48)"

definition dominant_proto :: "hash_order \<Rightarrow> sample list \<Rightarrow> u8" where
  "dominant_proto it samples =
     (case max_by_key snd (ho_proto it (tally sm_proto sm_est_packets samples)) of
        None \<Rightarrow> 0 | Some (p, c) \<Rightarrow> p)"

text \<open>The three heaviest keys with their rate.\<close>

definition top3 :: "f64 \<Rightarrow> ('k, nat) hashmap \<Rightarrow> ('k \<times> f64) list" where
  "top3 window_secs m = map (\<lambda>(k, pkts). (k, f_div (f_of_nat pkts) window_secs))
     (take 3 (sort_key (\<lambda>e. - int (snd e)) m))"

definition pop_sums :: "sample list \<Rightarrow> (ip_addr, nat \<times> nat) hashmap" where
  "pop_sums samples = fold (\<lambda>s m.
     case (case hm_get m (sm_agent s) of None \<Rightarrow> (0, 0) | Some e \<Rightarrow> e) of (pkts, bytes) \<Rightarrow>
       hm_insert (sm_agent s) (sat_add128 pkts (sm_est_packets s), sat_add128 bytes (sm_est_bytes s)) m)
     samples []"

definition pop_contributions ::
  "hash_order \<Rightarrow> agent_registry \<Rightarrow> f64 \<Rightarrow> sample list \<Rightarrow> pop_contribution list"
where
  "pop_contributions it agents window_secs samples =
     sort_by (\<lambda>a b. f_less (pc_est_pps b) (pc_est_pps a))
       (map (\<lambda>(agent, (pkts, bytes)).
          \<lparr>pc_pop = agent_name agents agent, pc_est_pps = f_div (f_of_nat pkts) window_secs,
           pc_est_bps = f_div (f_mul (f_of_nat bytes) (Num False 8)) window_secs\<rparr>)
        (ho_agent it (pop_sums samples)))"

definition top_blocks ::
  "(ip_net \<Rightarrow> ip_net) \<Rightarrow> hash_order \<Rightarrow> f64 \<Rightarrow> sample list \<Rightarrow> (ip_net \<times> f64) list"
where
  "top_blocks trunc it window_secs samples =
     take 5 (sort_by (\<lambda>a b. f_less (snd b) (snd a))
       (map (\<lambda>(net, pkts). (net, f_div (f_of_nat pkts) window_secs))
        (ho_block it (tally (\<lambda>s. source_block trunc (sm_src s)) sm_est_packets samples))))"

definition severity_of :: "f64 \<Rightarrow> severity" where
  "severity_of r = (if f_ge r (Num False 10) then Critical
     else if f_ge r (Num False 2) then High else Warning)"

definition build_detection ::
  "(ip_net \<Rightarrow> ip_net) \<Rightarrow> hash_order \<Rightarrow> detection_params \<Rightarrow> detection"
where
  "build_detection trunc it p =
     (let samples = dp_samples p; window_secs = dp_window_secs p in
      \<lparr>d_target = dp_target p, d_kind = Volumetric,
       d_observed_pps = dp_pps p, d_observed_bps = dp_bps p,
       d_proto = dominant_proto it samples,
       d_top_sources = top3 window_secs (ho_src it (tally sm_src sm_est_packets samples)),
       d_top_ports = top3 window_secs (ho_port it (tally sm_dst_port sm_est_packets samples)),
       d_pops = pop_contributions it (dp_agents p) window_secs samples,
       d_top_source_blocks = top_blocks trunc it window_secs samples,
       d_severity = severity_of (f_max (f_div (dp_pps p) (dp_pps_threshold p))
                                       (f_div (dp_bps p) (dp_bps_threshold p))),
       d_first_seen_ms = dp_first_seen_ms p, d_last_seen_ms = dp_last_seen_ms p\<rparr>)"

section \<open>The tick\<close>

definition window_secs :: "nat \<Rightarrow> f64" where
  "window_secs window_ms = f_div (f_of_nat (max window_ms 1)) (Num False 1000)"

definition in_window :: "nat \<Rightarrow> nat \<Rightarrow> sample \<Rightarrow> bool" where
  "in_window window_ms now s = (now < (sm_ts_ms s + window_ms) mod 2 ^ 64)"

definition total_of :: "(sample \<Rightarrow> nat) \<Rightarrow> sample list \<Rightarrow> nat" where
  "total_of amount samples = fold (\<lambda>s acc. sat_add128 acc (amount s)) samples 0"

definition rate_pps :: "nat \<Rightarrow> sample list \<Rightarrow> f64" where
  "rate_pps window_ms samples = f_div (f_of_nat (total_of sm_est_packets samples)) (window_secs window_ms)"

definition rate_bps :: "nat \<Rightarrow> sample list \<Rightarrow> f64" where
  "rate_bps window_ms samples =
     f_div (f_mul (f_of_nat (total_of sm_est_bytes samples)) (Num False 8)) (window_secs window_ms)"

text \<open>The counters the loop accumulates beside the events.\<close>

record tick_acc =
  ta_events :: "detection_event list"
  ta_to_remove :: "ip_addr list"
  ta_suppressed :: nat
  ta_opened :: nat
  ta_cleared :: nat

definition rate_over :: "threshold_detector \<Rightarrow> sample list \<Rightarrow> bool" where
  "rate_over d samples \<longleftrightarrow> f_gt (rate_pps (td_window_ms d) samples) (td_pps_threshold d) \<or>
     f_gt (rate_bps (td_window_ms d) samples) (td_bps_threshold d)"

definition tick_params ::
  "threshold_detector \<Rightarrow> ip_addr \<Rightarrow> sample list \<Rightarrow> nat \<Rightarrow> nat \<Rightarrow> detection_params"
where
  "tick_params d dst samples first_seen now =
     \<lparr>dp_target = dst, dp_pps = rate_pps (td_window_ms d) samples,
      dp_bps = rate_bps (td_window_ms d) samples, dp_pps_threshold = td_pps_threshold d,
      dp_bps_threshold = td_bps_threshold d, dp_samples = samples,
      dp_window_secs = window_secs (td_window_ms d), dp_first_seen_ms = first_seen,
      dp_last_seen_ms = now, dp_agents = td_agents d\<rparr>"

definition clear_entry :: "ip_addr \<Rightarrow> nat \<Rightarrow> tick_acc \<Rightarrow> tick_acc" where
  "clear_entry dst now a = a\<lparr>ta_events := ta_events a @ [Cleared dst now],
     ta_to_remove := ta_to_remove a @ [dst], ta_cleared := sat_inc (ta_cleared a)\<rparr>"

text \<open>The body of the loop for one destination.\<close>

definition tick_entry ::
  "(ip_net \<Rightarrow> ip_net) \<Rightarrow> hash_order \<Rightarrow> threshold_detector \<Rightarrow> nat \<Rightarrow> ip_addr \<times> dst_state \<Rightarrow> tick_acc \<Rightarrow>
   dst_state \<times> tick_acc"
where
  "tick_entry trunc it d now e a =
     (case e of (dst, st) \<Rightarrow>
      let st = st\<lparr>ds_samples := filter (in_window (td_window_ms d) now) (ds_samples st)\<rparr>;
          samples = ds_samples st
      in if samples = []
         then (st, if ds_open st \<and> td_hold_down_ms d \<le> now - ds_last_over_ms st
                   then clear_entry dst now a else a)
         else
           let over_threshold = (rate_over d samples \<and> td_min_samples d \<le> length samples);
               a = (if rate_over d samples \<and> \<not> over_threshold
                    then a\<lparr>ta_suppressed := sat_inc (ta_suppressed a)\<rparr> else a)
           in if over_threshold
              then (let st = st\<lparr>ds_last_over_ms := now\<rparr> in
                    if ds_open st
                    then (st, a\<lparr>ta_events := ta_events a @
                            [Updated (build_detection trunc it (tick_params d dst samples (ds_first_seen_ms st) now))]\<rparr>)
                    else (st\<lparr>ds_open := True, ds_first_seen_ms := now\<rparr>,
                          a\<lparr>ta_events := ta_events a @
                              [Opened (build_detection trunc it (tick_params d dst samples now now))],
                            ta_opened := sat_inc (ta_opened a)\<rparr>))
              else (st, if ds_open st \<and> td_hold_down_ms d \<le> now - ds_last_over_ms st
                        then clear_entry dst now a else a))"

fun tick_loop ::
  "(ip_net \<Rightarrow> ip_net) \<Rightarrow> hash_order \<Rightarrow> threshold_detector \<Rightarrow> nat \<Rightarrow> (ip_addr \<times> dst_state) list \<Rightarrow> tick_acc \<Rightarrow>
   (ip_addr \<times> dst_state) list \<times> tick_acc"
where
  "tick_loop trunc it d now [] a = ([], a)"
| "tick_loop trunc it d now (e # es) a =
     (case tick_entry trunc it d now e a of (st, a') \<Rightarrow>
        case tick_loop trunc it d now es a' of (es', a'') \<Rightarrow> ((fst e, st) # es', a''))"

definition td_tick ::
  "(ip_net \<Rightarrow> ip_net) \<Rightarrow> hash_order \<Rightarrow> nat \<Rightarrow> threshold_detector \<Rightarrow> detection_event list \<times> threshold_detector"
where
  "td_tick trunc it now d =
     (case tick_loop trunc it d now (ho_state it (td_state d))
         \<lparr>ta_events = [], ta_to_remove = [], ta_suppressed = 0, ta_opened = 0, ta_cleared = 0\<rparr> of
        (state, a) \<Rightarrow>
          (ta_events a,
           d\<lparr>td_state := fold hm_remove (ta_to_remove a) state,
             td_min_sample_suppressed := sat_add64 (td_min_sample_suppressed d) (ta_suppressed a),
             td_detections_opened := sat_add64 (td_detections_opened d) (ta_opened a),
             td_detections_cleared := sat_add64 (td_detections_cleared d) (ta_cleared a)\<rparr>))"

definition td_agent_stats :: "threshold_detector \<Rightarrow> agent_stat list" where
  "td_agent_stats d = map (\<lambda>(addr, last_seen).
     \<lparr>as_pop = agent_name (td_agents d) addr, as_last_seen_ms = last_seen,
      as_mismatches = (case hm_get (td_sampling_mismatches d) addr of None \<Rightarrow> 0 | Some n \<Rightarrow> n),
      as_near_ceiling = (case hm_get (td_sampling_near_ceiling d) addr of None \<Rightarrow> 0 | Some n \<Rightarrow> n)\<rparr>)
     (td_agent_last_seen d)"

section \<open>Runs of the detector\<close>

text \<open>Each tick walks the maps in an order of its own.\<close>

datatype det_op = Observe flow_observation nat | DetTick hash_order nat

fun det_exec ::
  "(ip_net \<Rightarrow> ip_addr \<Rightarrow> bool) \<Rightarrow> (ip_net \<Rightarrow> ip_net) \<Rightarrow> det_op \<Rightarrow> threshold_detector \<Rightarrow>
   detection_event list \<times> threshold_detector"
where
  "det_exec contains trunc (Observe obs now) d = ([], td_observe contains obs now d)"
| "det_exec contains trunc (DetTick it now) d = td_tick trunc it now d"

text \<open>The events of each operation, and the final state.\<close>

fun det_run ::
  "(ip_net \<Rightarrow> ip_addr \<Rightarrow> bool) \<Rightarrow> (ip_net \<Rightarrow> ip_net) \<Rightarrow> det_op list \<Rightarrow> threshold_detector \<Rightarrow>
   detection_event list list \<times> threshold_detector"
where
  "det_run contains trunc [] d = ([], d)"
| "det_run contains trunc (oper # opers) d =
     (case det_exec contains trunc oper d of (evs, d') \<Rightarrow>
        case det_run contains trunc opers d' of (evss, d'') \<Rightarrow> (evs # evss, d''))"

definition order_ok :: "hash_order \<Rightarrow> bool" where
  "order_ok it \<longleftrightarrow>
     (\<forall>m. mset (ho_proto it m) = mset m) \<and> (\<forall>m. mset (ho_src it m) = mset m) \<and>
     (\<forall>m. mset (ho_port it m) = mset m) \<and> (\<forall>m. mset (ho_agent it m) = mset m) \<and>
     (\<forall>m. mset (ho_block it m) = mset m) \<and> (\<forall>m. mset (ho_state it m) = mset m)"

fun op_order_ok :: "det_op \<Rightarrow> bool" where
  "op_order_ok (Observe obs now) = True"
| "op_order_ok (DetTick it now) = order_ok it"

lemma hm_wf_mset: "mset m = mset m' \<Longrightarrow> hm_wf m \<longleftrightarrow> hm_wf m'"
  unfolding hm_wf_def by (metis mset_eq_imp_distinct_iff mset_map)

lemma hm_get_mset: "mset m = mset m' \<Longrightarrow> hm_wf m \<Longrightarrow> hm_get m k = hm_get m' k"
proof -
  assume m: "mset m = mset m'" "hm_wf m"
  then have "hm_wf m'" "set m = set m'" using hm_wf_mset mset_eq_setD by blast+
  with m(2) show ?thesis
    by (metis hm_mem_get not_Some_eq)
qed

lemma list_all2_right: "list_all2 P xs ys \<Longrightarrow> y \<in> set ys \<Longrightarrow> \<exists>x\<in>set xs. P x y"
  by (induction rule: list_all2_induct) auto

lemma in_concat_option:
  "ev \<in> set (concat (map (\<lambda>(k, v). case f k v of None \<Rightarrow> [] | Some ev \<Rightarrow> [ev]) es)) \<longleftrightarrow>
     (\<exists>k v. (k, v) \<in> set es \<and> f k v = Some ev)"
proof (induction es)
  case (Cons e es)
  obtain k v where "e = (k, v)" by (cases e)
  with Cons show ?case by (cases "f k v") (auto simp del: set_concat)
qed simp

section \<open>The tick, entry by entry\<close>

definition evict :: "nat \<Rightarrow> nat \<Rightarrow> dst_state \<Rightarrow> sample list" where
  "evict window_ms now st = filter (in_window window_ms now) (ds_samples st)"

definition over_threshold :: "threshold_detector \<Rightarrow> sample list \<Rightarrow> bool" where
  "over_threshold d samples \<longleftrightarrow> samples \<noteq> [] \<and> rate_over d samples \<and> td_min_samples d \<le> length samples"

definition hold_over :: "threshold_detector \<Rightarrow> nat \<Rightarrow> dst_state \<Rightarrow> bool" where
  "hold_over d now st \<longleftrightarrow> ds_open st \<and> td_hold_down_ms d \<le> now - ds_last_over_ms st"

text \<open>The event one destination gives, and its entry afterwards (none when it is cleared).\<close>

definition entry_event ::
  "(ip_net \<Rightarrow> ip_net) \<Rightarrow> hash_order \<Rightarrow> threshold_detector \<Rightarrow> nat \<Rightarrow> ip_addr \<Rightarrow> dst_state \<Rightarrow> detection_event option"
where
  "entry_event trunc it d now dst st =
     (let samples = evict (td_window_ms d) now st in
      if over_threshold d samples
      then Some (if ds_open st
        then Updated (build_detection trunc it (tick_params d dst samples (ds_first_seen_ms st) now))
        else Opened (build_detection trunc it (tick_params d dst samples now now)))
      else if hold_over d now st then Some (Cleared dst now) else None)"

definition entry_after :: "threshold_detector \<Rightarrow> nat \<Rightarrow> dst_state \<Rightarrow> dst_state option" where
  "entry_after d now st =
     (let samples = evict (td_window_ms d) now st; st' = st\<lparr>ds_samples := samples\<rparr> in
      if over_threshold d samples
      then Some (if ds_open st then st'\<lparr>ds_last_over_ms := now\<rparr>
                 else st'\<lparr>ds_open := True, ds_first_seen_ms := now, ds_last_over_ms := now\<rparr>)
      else if hold_over d now st then None else Some st')"

lemma tick_entry_split:
  assumes "tick_entry trunc it d now (dst, st) a = (st', a')"
  shows "ta_events a' = ta_events a @ (case entry_event trunc it d now dst st of None \<Rightarrow> [] | Some ev \<Rightarrow> [ev])"
    and "ta_to_remove a' = ta_to_remove a @ (if entry_after d now st = None then [dst] else [])"
    and "entry_after d now st \<noteq> None \<Longrightarrow> entry_after d now st = Some st'"
  using assms
  by (auto simp: tick_entry_def entry_event_def entry_after_def over_threshold_def hold_over_def evict_def
      clear_entry_def Let_def split: if_splits)

lemma tick_loop_split:
  "tick_loop trunc it d now es a = (es', a') \<Longrightarrow>
     ta_events a' = ta_events a @ concat (map (\<lambda>(dst, st). case entry_event trunc it d now dst st of None \<Rightarrow> [] | Some ev \<Rightarrow> [ev]) es) \<and>
     ta_to_remove a' = ta_to_remove a @ map fst (filter (\<lambda>(dst, st). entry_after d now st = None) es) \<and>
     list_all2 (\<lambda>e e'. fst e' = fst e \<and> entry_after d now (snd e) \<in> {None, Some (snd e')}) es es'"
proof (induction es arbitrary: a es' a')
  case (Cons e es)
  obtain dst st where e: "e = (dst, st)" by (cases e)
  obtain st' a1 where t: "tick_entry trunc it d now (dst, st) a = (st', a1)" by fastforce
  obtain es1 a2 where l: "tick_loop trunc it d now es a1 = (es1, a2)" by fastforce
  note sp = tick_entry_split [OF t] and ih = Cons.IH [OF l]
  from Cons.prems e t l have r: "es' = (dst, st') # es1" "a' = a2" by simp_all
  have "entry_after d now st \<in> {None, Some st'}" using sp(3) by blast
  with sp(1,2) ih show ?case unfolding r e by (auto split: option.splits)
qed simp

lemma build_detection_target [simp]: "d_target (build_detection trunc it p) = dp_target p"
  by (simp add: build_detection_def Let_def)

lemma entry_event_target: "entry_event trunc it d now dst st = Some ev \<Longrightarrow> event_target ev = dst"
  by (auto simp: entry_event_def tick_params_def Let_def split: if_splits)

lemma targets_concat:
  "map event_target (concat (map (\<lambda>(dst, st). case entry_event trunc it d now dst st of None \<Rightarrow> [] | Some ev \<Rightarrow> [ev]) es)) =
   map fst (filter (\<lambda>(dst, st). entry_event trunc it d now dst st \<noteq> None) es)"
  by (induction es) (auto split: option.splits dest: entry_event_target)

text \<open>
  What a tick does, seen through lookups: the entry of a destination becomes \<open>entry_after\<close>, and the
  events are the \<open>entry_event\<close>s.
\<close>

lemma td_tick_effect:
  assumes "order_ok it" "hm_wf (td_state d)" "td_tick trunc it now d = (evs, d')"
  shows "hm_wf (td_state d')"
    and "hm_get (td_state d') dst = Option.bind (hm_get (td_state d) dst) (entry_after d now)"
    and "ev \<in> set evs \<longleftrightarrow> (\<exists>dst st. hm_get (td_state d) dst = Some st \<and> entry_event trunc it d now dst st = Some ev)"
    and "distinct (map event_target evs)"
    and "\<And>x. (\<And>f g h i. x (d\<lparr>td_state := f, td_min_sample_suppressed := g, td_detections_opened := h,
            td_detections_cleared := i\<rparr>) = x d) \<Longrightarrow> x d' = x d"
proof -
  let ?es = "ho_state it (td_state d)"
  have perm: "mset ?es = mset (td_state d)" using assms(1) by (simp add: order_ok_def)
  have wf: "hm_wf ?es" using hm_wf_mset [OF perm] assms(2) by simp
  have get: "hm_get ?es k = hm_get (td_state d) k" for k using hm_get_mset [OF perm wf] .
  obtain es' a where l: "tick_loop trunc it d now ?es
    \<lparr>ta_events = [], ta_to_remove = [], ta_suppressed = 0, ta_opened = 0, ta_cleared = 0\<rparr> = (es', a)" by fastforce
  note sp = tick_loop_split [OF l, simplified]
  from assms(3) l have evs: "evs = ta_events a" and st: "td_state d' = fold hm_remove (ta_to_remove a) es'"
    by (auto simp: td_tick_def)
  have "list_all2 (\<lambda>a b. a = b) (map fst ?es) (map fst es')"
    using sp by (auto simp: list_all2_map1 list_all2_map2 elim: list_all2_mono)
  then have keys: "map fst es' = map fst ?es" by (simp add: list.rel_eq)
  then have wf': "hm_wf es'" using wf by (simp add: hm_wf_def)
  then show "hm_wf (td_state d')" by (simp add: st)
  show "hm_get (td_state d') dst = Option.bind (hm_get (td_state d) dst) (entry_after d now)"
  proof (cases "hm_get (td_state d) dst")
    case None
    then have "dst \<notin> set (hm_keys es')" using keys get [of dst] by (metis hm.keys_get hm_keys_def)
    with None show ?thesis by (simp add: st hm.keys_get)
  next
    case (Some s)
    have mem: "(dst, s') \<in> set ?es \<longleftrightarrow> s' = s" for s'
      using hm_mem_get [OF wf] get Some by auto
    have "dst \<in> set (hm_keys es')" using keys get [of dst] Some
      by (metis hm.keys_get hm_keys_def option.distinct(1))
    then obtain s' where s': "hm_get es' dst = Some s'" by (auto simp: hm.keys_get)
    then have "(dst, s') \<in> set es'" by (simp add: hm_mem_get [OF wf'])
    then obtain e where "e \<in> set ?es" "dst = fst e" "entry_after d now (snd e) \<in> {None, Some s'}"
      using list_all2_right [of _ ?es es' "(dst, s')"] sp by fastforce
    with mem [of "snd e"] have aft: "entry_after d now s \<in> {None, Some s'}" by (metis prod.collapse)
    have rem: "dst \<in> set (ta_to_remove a) \<longleftrightarrow> entry_after d now s = None"
    proof -
      have "dst \<in> set (ta_to_remove a) \<longleftrightarrow> (\<exists>s'. (dst, s') \<in> set ?es \<and> entry_after d now s' = None)"
        using sp by (auto simp: image_iff)
      then show ?thesis by (simp add: mem)
    qed
    show ?thesis using Some aft rem s' by (auto simp: st)
  qed
  show "ev \<in> set evs \<longleftrightarrow> (\<exists>dst st. hm_get (td_state d) dst = Some st \<and> entry_event trunc it d now dst st = Some ev)"
  proof -
    have "ev \<in> set evs \<longleftrightarrow> (\<exists>dst st. (dst, st) \<in> set ?es \<and> entry_event trunc it d now dst st = Some ev)"
      unfolding evs sp [THEN conjunct1] by (rule in_concat_option)
    then show ?thesis by (simp add: hm_mem_get [OF wf] get)
  qed
  show "distinct (map event_target evs)"
    unfolding evs sp [THEN conjunct1] targets_concat using wf by (simp add: hm_wf_def filter_neq_distinct_map)
  show "x d' = x d" if "\<And>f g h i. x (d\<lparr>td_state := f, td_min_sample_suppressed := g, td_detections_opened := h,
            td_detections_cleared := i\<rparr>) = x d" for x :: "threshold_detector \<Rightarrow> 'x"
    using assms(3) l that by (auto simp: td_tick_def)
qed

text \<open>The configuration, which no operation changes.\<close>

definition same_config :: "threshold_detector \<Rightarrow> threshold_detector \<Rightarrow> bool" where
  "same_config d d' \<longleftrightarrow> td_prefixes d' = td_prefixes d \<and> td_pps_threshold d' = td_pps_threshold d \<and>
     td_bps_threshold d' = td_bps_threshold d \<and> td_window_ms d' = td_window_ms d \<and>
     td_hold_down_ms d' = td_hold_down_ms d \<and> td_min_samples d' = td_min_samples d \<and>
     td_max_sampling_factor d' = td_max_sampling_factor d \<and> td_agents d' = td_agents d"

lemma td_tick_config:
  assumes "td_tick trunc it now d = (evs, d')"
  shows "same_config d d'"
  using assms by (auto simp: td_tick_def same_config_def split: prod.splits)

lemma effective_rate_config:
  assumes "effective_rate obs now d = (rate, d')"
  shows "same_config d d'" "td_state d' = td_state d"
  using assms by (auto simp: effective_rate_def same_config_def Let_def split: option.splits if_splits)

section \<open>Observing\<close>

definition monitored :: "(ip_net \<Rightarrow> ip_addr \<Rightarrow> bool) \<Rightarrow> threshold_detector \<Rightarrow> ip_addr \<Rightarrow> bool" where
  "monitored contains d dst \<longleftrightarrow> (\<exists>p\<in>set (td_prefixes d). contains p dst)"

definition sample_of :: "threshold_detector \<Rightarrow> flow_observation \<Rightarrow> nat \<Rightarrow> sample" where
  "sample_of d obs now = (let rate = fst (effective_rate obs now d) in
     \<lparr>sm_ts_ms = now, sm_src = o_src obs, sm_dst_port = o_dst_port obs, sm_proto = o_proto obs,
      sm_est_packets = unat rate, sm_est_bytes = unat rate * unat (o_frame_len obs), sm_agent = o_agent obs\<rparr>)"

lemma sample_of_config: "same_config d d' \<Longrightarrow> sample_of d' obs now = sample_of d obs now"
  by (auto simp: sample_of_def effective_rate_def same_config_def Let_def split: option.splits)

lemma td_observe_effect:
  "same_config d (td_observe contains obs now d)"
  "hm_wf (td_state d) \<Longrightarrow> hm_wf (td_state (td_observe contains obs now d))"
  "hm_get (td_state (td_observe contains obs now d)) dst =
     (if dst = o_dst obs \<and> monitored contains d dst
      then Some (let st = (case hm_get (td_state d) dst of None \<Rightarrow> fresh_dst | Some st \<Rightarrow> st)
                 in st\<lparr>ds_samples := ds_samples st @ [sample_of d obs now]\<rparr>)
      else hm_get (td_state d) dst)"
proof -
  obtain rate d1 where e: "effective_rate obs now d = (rate, d1)" by fastforce
  note c = effective_rate_config [OF e]
  have o: "td_observe contains obs now d = (if monitored contains d (o_dst obs)
      then d1\<lparr>td_state := hm_insert (o_dst obs) (let st = (case hm_get (td_state d) (o_dst obs) of None \<Rightarrow> fresh_dst | Some st \<Rightarrow> st)
                 in st\<lparr>ds_samples := ds_samples st @ [sample_of d obs now]\<rparr>) (td_state d)\<rparr> else d1)"
    using e c by (simp add: td_observe_def monitored_def same_config_def sample_of_def Let_def)
  show "same_config d (td_observe contains obs now d)"
    using c by (auto simp: o same_config_def)
  show "hm_wf (td_state d) \<Longrightarrow> hm_wf (td_state (td_observe contains obs now d))" using c by (simp add: o)
  show "hm_get (td_state (td_observe contains obs now d)) dst =
     (if dst = o_dst obs \<and> monitored contains d dst
      then Some (let st = (case hm_get (td_state d) dst of None \<Rightarrow> fresh_dst | Some st \<Rightarrow> st)
                 in st\<lparr>ds_samples := ds_samples st @ [sample_of d obs now]\<rparr>)
      else hm_get (td_state d) dst)"
    using c by (auto simp: o)
qed

section \<open>The life cycle of a detection\<close>

fun ev_open :: "detection_event \<Rightarrow> bool" where
  "ev_open (Cleared t at_ms) = False"
| "ev_open _ = True"

text \<open>Only a closed target is opened; only an open one is updated or cleared.\<close>

fun ev_legal :: "ip_addr set \<Rightarrow> detection_event \<Rightarrow> bool" where
  "ev_legal S (Opened d) = (d_target d \<notin> S)"
| "ev_legal S (Updated d) = (d_target d \<in> S)"
| "ev_legal S (Cleared t at_ms) = (t \<in> S)"

text \<open>The open targets after a stream of events; none when an event is out of order.\<close>

fun track :: "ip_addr set \<Rightarrow> detection_event list \<Rightarrow> ip_addr set option" where
  "track S [] = Some S"
| "track S (ev # evs) = (if ev_legal S ev
     then track (if ev_open ev then insert (event_target ev) S else S - {event_target ev}) evs else None)"

lemma track_append: "track S (xs @ ys) = Option.bind (track S xs) (\<lambda>S'. track S' ys)"
  by (induction xs arbitrary: S) simp_all

lemma ev_legal_target: "(event_target ev \<in> S \<longleftrightarrow> event_target ev \<in> S') \<Longrightarrow> ev_legal S ev = ev_legal S' ev"
  by (cases ev) simp_all

lemma track_distinct:
  assumes "distinct (map event_target evs)" "\<forall>ev\<in>set evs. ev_legal S ev"
  shows "track S evs = Some {t. if t \<in> event_target ` set evs
    then \<exists>ev\<in>set evs. event_target ev = t \<and> ev_open ev else t \<in> S}"
  using assms
proof (induction evs arbitrary: S)
  case (Cons ev evs)
  let ?S = "if ev_open ev then insert (event_target ev) S else S - {event_target ev}"
  have "ev_legal ?S e" if "e \<in> set evs" for e
  proof -
    have "event_target e \<noteq> event_target ev" using Cons.prems(1) that by (auto simp: image_iff)
    then have "event_target e \<in> ?S \<longleftrightarrow> event_target e \<in> S" by simp
    from ev_legal_target [OF this] Cons.prems(2) that show ?thesis by simp
  qed
  then have "track ?S evs = Some {t. if t \<in> event_target ` set evs
      then \<exists>ev\<in>set evs. event_target ev = t \<and> ev_open ev else t \<in> ?S}"
    using Cons.IH [of ?S] Cons.prems(1) by simp
  moreover have "\<forall>e\<in>set evs. event_target e \<noteq> event_target ev" using Cons.prems(1) by (auto simp: image_iff)
  then have "{t. if t \<in> event_target ` set evs then \<exists>ev\<in>set evs. event_target ev = t \<and> ev_open ev else t \<in> ?S} =
      {t. if t \<in> event_target ` set (ev # evs) then \<exists>ev\<in>set (ev # evs). event_target ev = t \<and> ev_open ev else t \<in> S}"
    by (auto simp: image_iff)
  ultimately show ?case using Cons.prems(2) by simp
qed simp

definition open_targets :: "threshold_detector \<Rightarrow> ip_addr set" where
  "open_targets d = {dst. \<exists>st. hm_get (td_state d) dst = Some st \<and> ds_open st}"

lemma entry_event_legal:
  assumes "entry_event trunc it d now dst st = Some ev" "hm_get (td_state d) dst = Some st"
  shows "ev_legal (open_targets d) ev"
  using assms by (auto simp: entry_event_def open_targets_def tick_params_def hold_over_def Let_def split: if_splits)

lemma entry_after_open:
  "(\<exists>st'. entry_after d now st = Some st' \<and> ds_open st') \<longleftrightarrow>
     (case entry_event trunc it d now dst st of None \<Rightarrow> ds_open st | Some ev \<Rightarrow> ev_open ev)"
  by (auto simp: entry_after_def entry_event_def Let_def split: if_splits)

lemma td_tick_track:
  assumes "order_ok it" "hm_wf (td_state d)" "td_tick trunc it now d = (evs, d')"
  shows "track (open_targets d) evs = Some (open_targets d')"
proof -
  note e = td_tick_effect [OF assms]
  have ev: "(\<exists>ev\<in>set evs. event_target ev = t \<and> P ev) \<longleftrightarrow>
      (\<exists>st ev. hm_get (td_state d) t = Some st \<and> entry_event trunc it d now t st = Some ev \<and> P ev)" for t P
    using e(3) entry_event_target by metis
  have "\<forall>ev\<in>set evs. ev_legal (open_targets d) ev" using e(3) entry_event_legal by blast
  note tr = track_distinct [OF e(4) this]
  have "t \<in> event_target ` set evs \<longleftrightarrow> (\<exists>ev\<in>set evs. event_target ev = t \<and> True)" for t by auto
  then have "(if t \<in> event_target ` set evs then \<exists>ev\<in>set evs. event_target ev = t \<and> ev_open ev else t \<in> open_targets d) \<longleftrightarrow>
      t \<in> open_targets d'" for t
    unfolding ev using entry_after_open [of d now _ trunc it t]
    by (cases "hm_get (td_state d) t") (auto simp: open_targets_def e(2) split: option.splits)
  then show ?thesis unfolding tr by simp
qed

lemma td_observe_open [simp]: "open_targets (td_observe contains obs now d) = open_targets d"
  by (auto simp: open_targets_def td_observe_effect fresh_dst_def Let_def split: option.splits if_splits)

lemma det_run_track:
  assumes "list_all op_order_ok opers" "hm_wf (td_state d)" "det_run contains trunc opers d = (evss, d')"
  shows "track (open_targets d) (concat evss) = Some (open_targets d')"
  using assms
proof (induction opers arbitrary: d evss)
  case (Cons oper opers)
  obtain evs d1 where x: "det_exec contains trunc oper d = (evs, d1)" by fastforce
  obtain evss' where r: "det_run contains trunc opers d1 = (evss', d')" "evss = evs # evss'"
    using Cons.prems(3) x by (auto split: prod.splits)
  have "track (open_targets d) evs = Some (open_targets d1) \<and> hm_wf (td_state d1)"
  proof (cases oper)
    case (Observe obs now)
    then show ?thesis using x Cons.prems(2) by (auto simp: td_observe_effect(2))
  next
    case (DetTick it now)
    with x Cons.prems(1) have "td_tick trunc it now d = (evs, d1)" "order_ok it" by simp_all
    then show ?thesis using td_tick_track td_tick_effect(1) Cons.prems(2) by blast
  qed
  with Cons.IH [of d1 evss'] Cons.prems(1) r show ?case by (simp add: track_append)
qed (simp add: hm_wf_def)

section \<open>The reference detector\<close>

text \<open>
  The specification keeps every sample of a destination since its last clearing and looks at the
  window only when it ticks. It has no table to walk and evicts nothing.
\<close>

record ref_detector =
  rd_log :: "ip_addr \<Rightarrow> sample list"
  rd_open :: "ip_addr \<Rightarrow> (nat \<times> nat) option"

definition ref_new :: ref_detector where
  "ref_new = \<lparr>rd_log = (\<lambda>_. []), rd_open = (\<lambda>_. None)\<rparr>"

definition ref_event ::
  "(ip_net \<Rightarrow> ip_net) \<Rightarrow> hash_order \<Rightarrow> threshold_detector \<Rightarrow> nat \<Rightarrow> ref_detector \<Rightarrow> ip_addr \<Rightarrow> detection_event option"
where
  "ref_event trunc it d now r dst =
     (let samples = filter (in_window (td_window_ms d) now) (rd_log r dst) in
      case rd_open r dst of
        None \<Rightarrow> if over_threshold d samples
          then Some (Opened (build_detection trunc it (tick_params d dst samples now now))) else None
      | Some (first, last_over) \<Rightarrow>
          if over_threshold d samples
          then Some (Updated (build_detection trunc it (tick_params d dst samples first now)))
          else if td_hold_down_ms d \<le> now - last_over then Some (Cleared dst now) else None)"

text \<open>How an event changes what is kept of its destination.\<close>

fun ref_after :: "nat \<Rightarrow> detection_event option \<Rightarrow> (nat \<times> nat) option \<Rightarrow> (nat \<times> nat) option" where
  "ref_after now (Some (Opened _)) _ = Some (now, now)"
| "ref_after now (Some (Updated _)) u = map_option (\<lambda>(first, _). (first, now)) u"
| "ref_after now (Some (Cleared _ _)) _ = None"
| "ref_after now None u = u"

fun ref_exec ::
  "(ip_net \<Rightarrow> ip_addr \<Rightarrow> bool) \<Rightarrow> (ip_net \<Rightarrow> ip_net) \<Rightarrow> threshold_detector \<Rightarrow> det_op \<Rightarrow> ref_detector \<Rightarrow>
   (ip_addr \<Rightarrow> detection_event option) \<times> ref_detector"
where
  "ref_exec contains trunc d (Observe obs now) r =
     (\<lambda>_. None, if monitored contains d (o_dst obs)
        then r\<lparr>rd_log := (rd_log r)(o_dst obs := rd_log r (o_dst obs) @ [sample_of d obs now])\<rparr> else r)"
| "ref_exec contains trunc d (DetTick it now) r =
     (let ev = ref_event trunc it d now r in
      (ev, \<lparr>rd_log = (\<lambda>dst. case ev dst of Some (Cleared _ _) \<Rightarrow> [] | _ \<Rightarrow> rd_log r dst),
            rd_open = (\<lambda>dst. ref_after now (ev dst) (rd_open r dst))\<rparr>))"

fun ref_run ::
  "(ip_net \<Rightarrow> ip_addr \<Rightarrow> bool) \<Rightarrow> (ip_net \<Rightarrow> ip_net) \<Rightarrow> threshold_detector \<Rightarrow> det_op list \<Rightarrow> ref_detector \<Rightarrow>
   (ip_addr \<Rightarrow> detection_event option) list"
where
  "ref_run contains trunc d [] r = []"
| "ref_run contains trunc d (oper # opers) r =
     (case ref_exec contains trunc d oper r of (ev, r') \<Rightarrow> ev # ref_run contains trunc d opers r')"

fun ticks_from :: "nat \<Rightarrow> det_op list \<Rightarrow> bool" where
  "ticks_from t [] = True"
| "ticks_from t (Observe obs now # opers) = ticks_from t opers"
| "ticks_from t (DetTick it now # opers) = (t \<le> now \<and> ticks_from now opers)"

definition open_info :: "dst_state \<Rightarrow> (nat \<times> nat) option" where
  "open_info st = (if ds_open st then Some (ds_first_seen_ms st, ds_last_over_ms st) else None)"

definition samples_at :: "threshold_detector \<Rightarrow> ip_addr \<Rightarrow> sample list" where
  "samples_at d dst = (case hm_get (td_state d) dst of None \<Rightarrow> [] | Some st \<Rightarrow> ds_samples st)"

text \<open>The detector agrees with the reference on what is open and on every window from \<open>t\<close> on.\<close>

definition det_sim :: "threshold_detector \<Rightarrow> nat \<Rightarrow> threshold_detector \<Rightarrow> ref_detector \<Rightarrow> bool" where
  "det_sim d0 t d r \<longleftrightarrow> same_config d0 d \<and> hm_wf (td_state d) \<and>
     (\<forall>dst. rd_open r dst = Option.bind (hm_get (td_state d) dst) open_info) \<and>
     (\<forall>dst now. t \<le> now \<longrightarrow> filter (in_window (td_window_ms d0) now) (samples_at d dst) =
        filter (in_window (td_window_ms d0) now) (rd_log r dst))"

lemma det_sim_new: "det_sim (td_new prefixes cfg agents) t (td_new prefixes cfg agents) ref_new"
  by (simp add: det_sim_def same_config_def td_new_def ref_new_def samples_at_def hm_wf_def)

lemma same_config_trans: "same_config a b \<Longrightarrow> same_config b c \<Longrightarrow> same_config a c"
  by (simp add: same_config_def)

lemma det_sim_observe:
  assumes "det_sim d0 t d r"
  shows "det_sim d0 t (td_observe contains obs now d) (snd (ref_exec contains trunc d0 (Observe obs now) r))"
proof -
  have c: "same_config d0 d" using assms by (simp add: det_sim_def)
  then have m: "monitored contains d = monitored contains d0" by (simp add: monitored_def same_config_def fun_eq_iff)
  have s: "samples_at (td_observe contains obs now d) dst = samples_at d dst @
      (if dst = o_dst obs \<and> monitored contains d0 dst then [sample_of d0 obs now] else [])" for dst
    by (auto simp: samples_at_def td_observe_effect m sample_of_config [OF c] fresh_dst_def Let_def split: option.splits)
  have "Option.bind (hm_get (td_state (td_observe contains obs now d)) dst) open_info =
      Option.bind (hm_get (td_state d) dst) open_info" for dst
    by (auto simp: td_observe_effect open_info_def fresh_dst_def Let_def split: option.splits)
  then show ?thesis
    using assms same_config_trans [OF c td_observe_effect(1)] by (auto simp: det_sim_def s td_observe_effect(2))
qed

lemma in_window_earlier: "in_window w now' s \<Longrightarrow> now \<le> now' \<Longrightarrow> in_window w now s"
  by (simp add: in_window_def)

lemma filter_window_later:
  "now \<le> now' \<Longrightarrow> filter (in_window w now') (filter (in_window w now) xs) = filter (in_window w now') xs"
  using in_window_earlier by (induction xs) auto

lemma config_cong:
  assumes "same_config d0 d"
  shows "over_threshold d = over_threshold d0" "hold_over d = hold_over d0" "tick_params d = tick_params d0"
    "td_window_ms d = td_window_ms d0" "td_hold_down_ms d = td_hold_down_ms d0"
  using assms by (simp_all add: fun_eq_iff over_threshold_def hold_over_def rate_over_def tick_params_def same_config_def)

lemma ref_event_sim:
  assumes "det_sim d0 t d r" "t \<le> now"
  shows "ref_event trunc it d0 now r dst =
    Option.bind (hm_get (td_state d) dst) (entry_event trunc it d now dst)"
proof -
  have c: "same_config d0 d" using assms by (simp add: det_sim_def)
  have w: "filter (in_window (td_window_ms d0) now) (rd_log r dst) = filter (in_window (td_window_ms d0) now) (samples_at d dst)"
    using assms by (simp add: det_sim_def)
  have o: "rd_open r dst = Option.bind (hm_get (td_state d) dst) open_info" using assms by (simp add: det_sim_def)
  show ?thesis
    by (cases "hm_get (td_state d) dst")
      (auto simp: ref_event_def w o samples_at_def entry_event_def config_cong [OF c] evict_def open_info_def hold_over_def
        over_threshold_def Let_def)
qed

lemma det_sim_tick:
  assumes "det_sim d0 t d r" "t \<le> now" "order_ok it" "td_tick trunc it now d = (evs, d')"
  shows "det_sim d0 now d' (snd (ref_exec contains trunc d0 (DetTick it now) r))"
proof -
  have c: "same_config d0 d" and wf: "hm_wf (td_state d)" using assms by (simp_all add: det_sim_def)
  note e = td_tick_effect [OF assms(3) wf assms(4)]
  have o: "rd_open r dst = Option.bind (hm_get (td_state d) dst) open_info" for dst using assms(1) by (simp add: det_sim_def)
  have "ref_after now (ref_event trunc it d0 now r dst) (rd_open r dst) =
      Option.bind (hm_get (td_state d') dst) open_info" for dst
    by (cases "hm_get (td_state d) dst")
      (auto simp: ref_event_sim [OF assms(1,2)] e(2) o entry_event_def entry_after_def open_info_def hold_over_def Let_def)
  moreover have "filter (in_window (td_window_ms d0) n) (samples_at d' dst) =
      filter (in_window (td_window_ms d0) n)
        (case ref_event trunc it d0 now r dst of Some (Cleared _ _) \<Rightarrow> [] | _ \<Rightarrow> rd_log r dst)" if "now \<le> n" for dst n
  proof (cases "hm_get (td_state d) dst")
    case None
    with assms(1,2) that show ?thesis
      by (auto simp: det_sim_def samples_at_def ref_event_sim [OF assms(1,2)] e(2) dest: spec [of _ dst])
  next
    case (Some st)
    have "filter (in_window (td_window_ms d0) n) (rd_log r dst) = filter (in_window (td_window_ms d0) n) (ds_samples st)"
      using assms(1) order_trans [OF assms(2) that] Some by (auto simp: det_sim_def samples_at_def dest: spec [of _ dst])
    with Some that show ?thesis
      by (auto simp: samples_at_def ref_event_sim [OF assms(1,2)] e(2) entry_event_def entry_after_def
          evict_def config_cong [OF c] filter_window_later Let_def simp del: filter_filter)
  qed
  ultimately show ?thesis
    using e(1) same_config_trans [OF c td_tick_config [OF assms(4)]] by (simp add: det_sim_def Let_def)
qed

lemma det_run_sim:
  assumes "det_sim d0 t d r" "ticks_from t opers" "list_all op_order_ok opers"
  shows "list_all2 (\<lambda>evs ev. set evs = ran ev \<and> distinct (map event_target evs))
    (fst (det_run contains trunc opers d)) (ref_run contains trunc d0 opers r)"
  using assms
proof (induction opers arbitrary: t d r)
  case (Cons oper opers)
  show ?case
  proof (cases oper)
    case (Observe obs now)
    with Cons.IH [OF det_sim_observe [OF Cons.prems(1)], of contains obs now trunc] Cons.prems(2,3)
    show ?thesis by (auto split: prod.splits)
  next
    case (DetTick it now)
    obtain evs d' where x: "td_tick trunc it now d = (evs, d')" by fastforce
    from Cons.prems DetTick have le: "t \<le> now" and it: "order_ok it" by simp_all
    have wf: "hm_wf (td_state d)" using Cons.prems(1) by (simp add: det_sim_def)
    note e = td_tick_effect [OF it wf x]
    have "set evs = ran (ref_event trunc it d0 now r)"
    proof (rule set_eqI)
      fix ev
      show "ev \<in> set evs \<longleftrightarrow> ev \<in> ran (ref_event trunc it d0 now r)"
        unfolding e(3) ran_def by (auto simp: ref_event_sim [OF Cons.prems(1) le] bind_eq_Some_conv)
    qed
    with Cons.IH [OF det_sim_tick [OF Cons.prems(1) le it x, of contains]] Cons.prems(2,3) DetTick x e(4)
    show ?thesis by (simp add: Let_def case_prod_beta)
  qed
qed simp

text \<open>The state of the specification, and its agreement with the detector, after a run.\<close>

fun ref_state ::
  "(ip_net \<Rightarrow> ip_addr \<Rightarrow> bool) \<Rightarrow> (ip_net \<Rightarrow> ip_net) \<Rightarrow> threshold_detector \<Rightarrow> det_op list \<Rightarrow> ref_detector \<Rightarrow> ref_detector"
where
  "ref_state contains trunc d [] r = r"
| "ref_state contains trunc d (oper # opers) r = ref_state contains trunc d opers (snd (ref_exec contains trunc d oper r))"

lemma det_run_sim_state:
  assumes "det_sim d0 t d r" "ticks_from t (opers @ [DetTick it now])" "list_all op_order_ok opers"
  shows "\<exists>t' \<le> now. det_sim d0 t' (snd (det_run contains trunc opers d)) (ref_state contains trunc d0 opers r)"
  using assms
proof (induction opers arbitrary: t d r)
  case (Cons oper opers)
  show ?case
  proof (cases oper)
    case (Observe obs n)
    with Cons.IH [OF det_sim_observe [OF Cons.prems(1)], of contains obs n trunc] Cons.prems(2,3)
    show ?thesis by (simp add: case_prod_beta del: ref_exec.simps)
  next
    case (DetTick it' n)
    obtain evs d' where x: "td_tick trunc it' n d = (evs, d')" by fastforce
    from Cons.prems DetTick have le: "t \<le> n" and it: "order_ok it'" by simp_all
    with Cons.IH [OF det_sim_tick [OF Cons.prems(1) le it x, of contains]] Cons.prems(2,3) DetTick x
    show ?thesis by (simp add: case_prod_beta del: ref_exec.simps)
  qed
qed auto

section \<open>The sampling clamp and the agent tables\<close>

definition agents_ok :: "threshold_detector \<Rightarrow> bool" where
  "agents_ok d \<longleftrightarrow> hm_wf (td_agent_last_seen d) \<and> hm_wf (td_sampling_mismatches d) \<and> hm_wf (td_sampling_near_ceiling d) \<and>
     set (hm_keys (td_agent_last_seen d)) \<subseteq> set (hm_keys (td_agents d)) \<and>
     set (hm_keys (td_sampling_mismatches d)) \<subseteq> set (hm_keys (td_agents d)) \<and>
     set (hm_keys (td_sampling_near_ceiling d)) \<subseteq> set (hm_keys (td_agents d))"

lemma hm_bump [simp]: "hm_wf m \<Longrightarrow> hm_wf (bump k m)" "set (hm_keys (bump k m)) = insert k (set (hm_keys m))"
  by (simp_all add: bump_def)

lemma expected_known: "expected_sampling reg agent = Some e \<Longrightarrow> agent \<in> set (hm_keys reg)"
  by (auto simp: expected_sampling_def hm.keys_get)

lemma effective_rate_agents: "agents_ok d \<Longrightarrow> agents_ok (snd (effective_rate obs now d))"
  by (auto simp: effective_rate_def agents_ok_def Let_def dest: expected_known split: option.splits)

lemma agents_ok_fields:
  "td_agents d' = td_agents d \<Longrightarrow> td_agent_last_seen d' = td_agent_last_seen d \<Longrightarrow>
   td_sampling_mismatches d' = td_sampling_mismatches d \<Longrightarrow>
   td_sampling_near_ceiling d' = td_sampling_near_ceiling d \<Longrightarrow> agents_ok d' = agents_ok d"
  by (simp add: agents_ok_def)

lemma det_exec_agents: "agents_ok d \<Longrightarrow> agents_ok (snd (det_exec contains trunc oper d))"
proof (cases oper)
  case (Observe obs now)
  assume "agents_ok d"
  from effective_rate_agents [OF this, of obs now] Observe show ?thesis
    by (auto simp: td_observe_def Let_def agents_ok_def split: prod.splits)
next
  case (DetTick it now)
  assume "agents_ok d"
  with DetTick show ?thesis by (auto simp: td_tick_def agents_ok_def split: prod.splits)
qed

lemma det_run_agents: "agents_ok d \<Longrightarrow> agents_ok (snd (det_run contains trunc opers d))"
proof (induction opers arbitrary: d)
  case (Cons oper opers)
  from Cons.IH [OF det_exec_agents [OF Cons.prems, of contains trunc oper]] show ?case
    by (simp add: case_prod_beta)
qed simp

lemma same_config_run: "same_config d (snd (det_run contains trunc opers d))"
proof (induction opers arbitrary: d)
  case (Cons oper opers)
  have "same_config d (snd (det_exec contains trunc oper d))"
    by (cases oper) (auto simp: td_observe_effect(1) intro: td_tick_config [OF prod.collapse [symmetric]])
  from same_config_trans [OF this Cons.IH] show ?case by (simp add: case_prod_beta)
qed (simp add: same_config_def)

lemma agents_ok_len:
  assumes "agents_ok d" "hm_wf (td_agents d)"
  shows "hm_len (td_agent_last_seen d) \<le> hm_len (td_agents d)"
    "hm_len (td_sampling_mismatches d) \<le> hm_len (td_agents d)"
    "hm_len (td_sampling_near_ceiling d) \<le> hm_len (td_agents d)"
  using assms by (simp_all add: agents_ok_def hm.len_card card_mono)

lemma unat_sat_mul32: "unat (sat_mul32 a b) = min (unat a * unat b) u32_max"
proof (cases "unat a * unat b < 2 ^ 32")
  case True
  then have "unat (a * b) = unat a * unat b" by (simp add: unat_word_ariths)
  with True show ?thesis by (simp add: sat_mul32_def)
next
  case False
  have "unat (- 1 :: u32) = u32_max" by (simp add: unsigned_minus_1_eq_mask mask_eq_exp_minus_1)
  with False show ?thesis by (simp add: sat_mul32_def)
qed

lemma unat_min_word: "unat (min a b) = min (unat a) (unat b)" for a b :: u32
  by (simp add: min_def word_le_nat_alt)

lemma clamp_range:
  assumes "expected_sampling (td_agents d) (o_agent obs) = Some e" "4 \<le> td_max_sampling_factor d"
    and "effective_rate obs now d = (rate, d')"
  shows "unat e div 4 \<le> unat rate \<and> unat rate \<le> min (unat e * unat (td_max_sampling_factor d)) u32_max \<and>
    (unat e div 4 \<le> unat (o_sampling_rate obs) \<and>
     unat (o_sampling_rate obs) \<le> min (unat e * unat (td_max_sampling_factor d)) u32_max \<longrightarrow> rate = o_sampling_rate obs)"
proof -
  let ?r = "unat (o_sampling_rate obs)" and ?e = "unat e" and ?f = "unat (td_max_sampling_factor d)"
  have f: "4 \<le> ?f" using assms(2) by (simp add: word_le_nat_alt)
  then have f4: "?e * 4 \<le> ?e * ?f" by simp
  have r: "?r \<le> u32_max" "?e \<le> u32_max" using unsigned_less [of "o_sampling_rate obs", where ?'a = nat] unsigned_less [of e, where ?'a = nat] by simp_all
  have rate: "unat rate = (if ?r < ?e div 4 then ?e else if min (?e * 4) u32_max < ?r
      then min ?r (min (?e * ?f) u32_max) else ?r)"
    using assms(1,3)
    by (auto simp: effective_rate_def Let_def word_less_nat_alt unat_sat_mul32 unat_div unat_min_word split: if_splits)
  define ef where "ef = ?e * ?f"
  have "?e div 4 \<le> unat rate \<and> unat rate \<le> min ef u32_max \<and> (?e div 4 \<le> ?r \<and> ?r \<le> min ef u32_max \<longrightarrow> unat rate = ?r)"
    using rate f4 r unfolding ef_def [symmetric] min_def by (auto split: if_splits)
  then show ?thesis by (simp add: ef_def word_unat_eq_iff)
qed

section \<open>Quiet destinations\<close>

lemma det_run_idle:
  assumes "list_all op_order_ok opers" "hm_wf (td_state d)"
    and "\<exists>st. hm_get (td_state d) dst = Some st \<and> \<not> ds_open st"
    and "det_run contains trunc opers d = (evss, d')" "\<forall>ev\<in>set (concat evss). event_target ev \<noteq> dst"
  shows "dst \<in> set (hm_keys (td_state d'))"
  using assms
proof (induction opers arbitrary: d evss)
  case Nil then show ?case by (auto simp: hm.keys_get)
next
  case (Cons oper opers)
  obtain evs d1 where x: "det_exec contains trunc oper d = (evs, d1)" by fastforce
  obtain evss' where r: "det_run contains trunc opers d1 = (evss', d')" "evss = evs # evss'"
    using Cons.prems(4) x by (auto split: prod.splits)
  obtain st where st: "hm_get (td_state d) dst = Some st" "\<not> ds_open st" using Cons.prems(3) by blast
  have "(\<exists>st. hm_get (td_state d1) dst = Some st \<and> \<not> ds_open st) \<and> hm_wf (td_state d1)"
  proof (cases oper)
    case (Observe obs now)
    then show ?thesis using x Cons.prems(2) st by (auto simp: td_observe_effect Let_def)
  next
    case (DetTick it now)
    with x Cons.prems(1) have t: "td_tick trunc it now d = (evs, d1)" "order_ok it" by simp_all
    note e = td_tick_effect [OF t(2) Cons.prems(2) t(1)]
    have "entry_event trunc it d now dst st = None"
    proof (rule ccontr)
      assume "entry_event trunc it d now dst st \<noteq> None"
      then obtain ev where "entry_event trunc it d now dst st = Some ev" by blast
      with e(3) [of ev] st(1) entry_event_target [OF this] Cons.prems(5) r(2) show False by auto
    qed
    with e(2) [of dst] st e(1) show ?thesis
      by (auto simp: entry_event_def entry_after_def hold_over_def Let_def split: if_splits)
  qed
  with Cons.IH [of d1 evss'] Cons.prems(1,5) r show ?case by auto
qed

section \<open>Concrete orders and observations\<close>

definition id_order :: hash_order where
  "id_order = \<lparr>ho_proto = id, ho_src = id, ho_port = id, ho_agent = id, ho_block = id, ho_state = id\<rparr>"

lemma id_order_ok: "order_ok id_order"
  by (simp add: order_ok_def id_order_def)

definition sample_obs :: flow_observation where
  "sample_obs = \<lparr>o_src = V4 0xC6336409, o_dst = V4 0xCB007107, o_proto = 17, o_src_port = 9, o_dst_port = 53,
     o_frame_len = 100, o_sampling_rate = 1000, o_tcp_flags = 0, o_agent = V4 0x0A000001\<rparr>"

definition sample_det_config :: detector_config where
  "sample_det_config = \<lparr>dc_pps_threshold = Num False 100, dc_bps_threshold = Num False 1000000, dc_window_ms = 1000,
     dc_hold_down_ms = 5000, dc_min_samples = 1, dc_max_sampling_factor = 16\<rparr>"

definition sample_registry :: agent_registry where
  "sample_registry = from_entries [\<lparr>pe_name = ''ord'', pe_agent = V4 0x0A000001, pe_sampling = 100\<rparr>]"

definition sample_ops :: "det_op list" where
  "sample_ops = [Observe sample_obs 0, DetTick id_order 10, DetTick id_order 9000]"

lemma sample_ops_ok: "ticks_from 0 sample_ops" "list_all op_order_ok sample_ops"
  by (simp_all add: sample_ops_def id_order_ok)

section \<open>Properties\<close>

text \<open>
  C7. The detector refines its specification: over any sequence of observations and ticks whose tick
  times do not go back, and for every order in which the hash maps are walked, each tick reports
  exactly the events of a detector that keeps all samples since the last clearing of a destination
  and looks at the sliding window only when it ticks. No destination is reported twice in a tick, and
  eviction never changes a verdict, a rate or an attribution.
\<close>

theorem detector_refines:
  assumes "ticks_from 0 opers" "list_all op_order_ok opers"
  shows "list_all2 (\<lambda>evs ev. set evs = ran ev \<and> distinct (map event_target evs))
    (fst (det_run contains trunc opers (td_new prefixes cfg agents)))
    (ref_run contains trunc (td_new prefixes cfg agents) opers ref_new)"
  by (rule det_run_sim [OF det_sim_new assms])

theorem detector_refines_witness:
  "list_all2 (\<lambda>evs ev. set evs = ran ev \<and> distinct (map event_target evs))
    (fst (det_run net_contains net_trunc sample_ops (td_new [NetV4 0xCB007100 24] sample_det_config sample_registry)))
    (ref_run net_contains net_trunc (td_new [NetV4 0xCB007100 24] sample_det_config sample_registry) sample_ops ref_new)"
  by (rule detector_refines [OF sample_ops_ok])

text \<open>
  The life cycle of detections: in every run from a new detector, the stream of events opens only
  closed targets and updates or clears only open ones, and the targets it leaves open are exactly
  those the detector holds as open.
\<close>

lemma detector_lifecycle:
  assumes "list_all op_order_ok opers" "det_run contains trunc opers (td_new prefixes cfg agents) = (evss, d')"
  shows "track {} (concat evss) = Some (open_targets d')"
proof -
  have "open_targets (td_new prefixes cfg agents) = {}" "hm_wf (td_state (td_new prefixes cfg agents))"
    by (simp_all add: open_targets_def td_new_def hm_wf_def)
  with det_run_track [OF assms(1) _ assms(2)] show ?thesis by simp
qed

text \<open>
  The sampling clamp: for an agent in the registry the rate used for the volume estimate lies
  between a quarter of the expected rate and the ceiling (the expected rate times the configured
  factor, at least four, saturated at 32 bits), and it is the reported rate whenever that lies in
  this range. A spoofed or misconfigured rate can neither hide a flood nor inflate it beyond the
  ceiling. In every run the liveness and mismatch tables hold registered agents only, so spoofed
  agent addresses cannot grow them.
\<close>

lemma sampling_clamp:
  assumes "d = snd (det_run contains trunc opers (td_new prefixes cfg agents))" "hm_wf agents"
    and "expected_sampling agents (o_agent obs) = Some e" "effective_rate obs now d = (rate, d')"
  shows "unat e div 4 \<le> unat rate \<and> unat rate \<le> min (unat e * unat (td_max_sampling_factor d)) u32_max \<and>
    4 \<le> td_max_sampling_factor d \<and>
    (unat e div 4 \<le> unat (o_sampling_rate obs) \<and>
      unat (o_sampling_rate obs) \<le> min (unat e * unat (td_max_sampling_factor d)) u32_max \<longrightarrow> rate = o_sampling_rate obs) \<and>
    hm_len (td_agent_last_seen d) \<le> hm_len agents \<and> hm_len (td_sampling_mismatches d) \<le> hm_len agents \<and>
    hm_len (td_sampling_near_ceiling d) \<le> hm_len agents"
proof -
  have c: "same_config (td_new prefixes cfg agents) d" unfolding assms(1) by (rule same_config_run)
  then have ag: "td_agents d = agents" and f: "4 \<le> td_max_sampling_factor d"
    by (simp_all add: same_config_def td_new_def)
  have "agents_ok d" unfolding assms(1)
    by (rule det_run_agents) (simp add: agents_ok_def td_new_def hm_keys_def)
  note len = agents_ok_len [OF this, unfolded ag, OF assms(2)]
  show ?thesis using clamp_range [OF _ f assms(4)] assms(3) f len by (simp add: ag)
qed

text \<open>
  Entries of quiet destinations are never dropped: once a monitored destination has been
  observed, it keeps an entry in the state table, through any number of ticks at any time, as long as
  no detection opens for it. The table is not bounded by the window.
\<close>

lemma detector_idle_kept:
  assumes "list_all op_order_ok opers" "\<exists>p\<in>set prefixes. contains p (o_dst obs)"
    and "det_run contains trunc (Observe obs now # opers) (td_new prefixes cfg agents) = (evss, d')"
    and "\<forall>ev\<in>set (concat evss). event_target ev \<noteq> o_dst obs"
  shows "o_dst obs \<in> set (hm_keys (td_state d'))"
proof -
  let ?d = "td_new prefixes cfg agents"
  let ?d1 = "td_observe contains obs now ?d"
  have "monitored contains ?d (o_dst obs)" "hm_wf (td_state ?d)" "hm_get (td_state ?d) (o_dst obs) = None"
    using assms(2) by (simp_all add: monitored_def td_new_def hm_wf_def)
  then have "\<exists>st. hm_get (td_state ?d1) (o_dst obs) = Some st \<and> \<not> ds_open st" "hm_wf (td_state ?d1)"
    by (simp_all add: td_observe_effect fresh_dst_def Let_def)
  then show ?thesis
    using det_run_idle [of opers ?d1 "o_dst obs" contains trunc] assms(1,3,4) by (auto split: prod.splits)
qed

end
