(* ===== verification/Selection.thy ===== *)
theory Selection
  imports Detector
begin

text \<open>
  The choice of a mitigation (\<^verbatim>\<open>blackwall-flow/src/select.rs\<close>) and the sinks that route detection
  events to the mitigation managers (\<^verbatim>\<open>blackwall-flow/src/sink.rs\<close>). A channel of the runtime is a
  bounded queue that may be closed; \<open>try_send\<close> fails on a full or closed one and the sinks drop the
  event then.
\<close>

section \<open>Selection\<close>

datatype mitigation = FlowSpec "flow_rule list" | Rtbh

record selection_config =
  sc_concentration :: f64
  sc_max_flows :: nat
  sc_rate :: f32

definition select_rule :: "detection \<Rightarrow> selection_config \<Rightarrow> u16 \<Rightarrow> flow_rule" where
  "select_rule d cfg p = \<lparr>fr_dst = d_target d, fr_proto = d_proto d, fr_dst_port = p, fr_rate = sc_rate cfg\<rparr>"

text \<open>The loop over the ports, with the cumulated weight and the ports chosen so far.\<close>

fun select_loop ::
  "detection \<Rightarrow> selection_config \<Rightarrow> (u16 \<times> f64) list \<Rightarrow> f64 \<Rightarrow> u16 list \<Rightarrow> mitigation"
where
  "select_loop d cfg [] cumulative chosen = Rtbh"
| "select_loop d cfg ((port, weight) # ports) cumulative chosen =
     (if sc_max_flows cfg \<le> length chosen then Rtbh
      else let chosen = chosen @ [port]; cumulative = f_add cumulative weight in
        if f_ge cumulative (sc_concentration cfg)
        then FlowSpec (map (select_rule d cfg) chosen)
        else select_loop d cfg ports cumulative chosen)"

definition weight_before :: "u16 \<times> f64 \<Rightarrow> u16 \<times> f64 \<Rightarrow> bool" where
  "weight_before a b = f_total_less (snd b) (snd a)"

definition select_ports :: "detection \<Rightarrow> (u16 \<times> f64) list" where
  "select_ports d = sort_by weight_before (filter (\<lambda>e. fst e \<noteq> 0) (d_top_ports d))"

definition select :: "detection \<Rightarrow> selection_config \<Rightarrow> mitigation" where
  "select d cfg =
     (if d_proto d = 0 \<or> d_top_ports d = [] \<or> list_all (\<lambda>e. fst e = 0) (d_top_ports d) then Rtbh
      else if filter (\<lambda>e. fst e \<noteq> 0) (d_top_ports d) = [] then Rtbh
      else select_loop d cfg (select_ports d) (Num False 0) [])"

section \<open>Channels and sinks\<close>

record 'a mpsc =
  mp_capacity :: nat
  mp_queue :: "'a list"
  mp_closed :: bool

definition try_send :: "'a \<Rightarrow> 'a mpsc \<Rightarrow> bool \<times> 'a mpsc" where
  "try_send x c = (if mp_closed c \<or> mp_capacity c \<le> length (mp_queue c) then (False, c)
     else (True, c\<lparr>mp_queue := mp_queue c @ [x]\<rparr>))"

definition channel_sink :: "detection_event \<Rightarrow> detection_event mpsc \<Rightarrow> detection_event mpsc" where
  "channel_sink ev tx = snd (try_send ev tx)"

text \<open>A fan-out hands the event to its members in order.\<close>

definition fanout_sink :: "(detection_event \<Rightarrow> 's \<Rightarrow> 's) list \<Rightarrow> detection_event \<Rightarrow> 's \<Rightarrow> 's" where
  "fanout_sink members ev s = fold (\<lambda>member s. member ev s) members s"

datatype flow_mitigation_event =
    MitOpen ip_addr "flow_rule list"
  | MitUpdate ip_addr
  | MitClear ip_addr

record selector_sink =
  ss_flowspec_tx :: "flow_mitigation_event mpsc"
  ss_rtbh_tx :: "detection_event mpsc"
  ss_cfg :: selection_config

definition send_flowspec :: "flow_mitigation_event \<Rightarrow> selector_sink \<Rightarrow> selector_sink" where
  "send_flowspec ev s = s\<lparr>ss_flowspec_tx := snd (try_send ev (ss_flowspec_tx s))\<rparr>"

definition send_rtbh :: "detection_event \<Rightarrow> selector_sink \<Rightarrow> selector_sink" where
  "send_rtbh ev s = s\<lparr>ss_rtbh_tx := snd (try_send ev (ss_rtbh_tx s))\<rparr>"

fun selector_handle :: "detection_event \<Rightarrow> selector_sink \<Rightarrow> selector_sink" where
  "selector_handle (Opened d) s =
     (case select d (ss_cfg s) of
        FlowSpec rules \<Rightarrow> send_flowspec (MitOpen (d_target d) rules) s
      | Rtbh \<Rightarrow> send_rtbh (Opened d) s)"
| "selector_handle (Updated d) s = send_rtbh (Updated d) (send_flowspec (MitUpdate (d_target d)) s)"
| "selector_handle (Cleared target at_ms) s =
     send_rtbh (Cleared target at_ms) (send_flowspec (MitClear target) s)"

section \<open>Sorting\<close>

lemma set_insort_by [simp]: "set (insort_by before x ys) = insert x (set ys)"
  by (induction ys) auto

lemma set_sort_by [simp]: "set (sort_by before xs) = set xs"
  by (induction xs) (simp_all add: sort_by_def)

lemma mset_insort_by [simp]: "mset (insort_by before x ys) = add_mset x (mset ys)"
  by (induction ys) auto

lemma mset_sort_by [simp]: "mset (sort_by before xs) = mset xs"
  by (induction xs) (simp_all add: sort_by_def)

text \<open>A comparison that is a strict weak order sorts.\<close>

lemma sort_by_sorted:
  assumes asym: "\<And>a b. before a b \<Longrightarrow> \<not> before b a"
    and negtrans: "\<And>a b c. \<not> before b a \<Longrightarrow> \<not> before c b \<Longrightarrow> \<not> before c a"
  shows "sorted_wrt (\<lambda>a b. \<not> before b a) (sort_by before xs)"
proof -
  have ins: "sorted_wrt (\<lambda>a b. \<not> before b a) ys \<Longrightarrow> sorted_wrt (\<lambda>a b. \<not> before b a) (insort_by before x ys)" for x ys
  proof (induction ys)
    case (Cons y ys)
    show ?case
    proof (cases "before y x")
      case True
      with Cons asym show ?thesis by auto
    next
      case False
      with Cons.prems negtrans [of y x] show ?thesis by auto
    qed
  qed simp
  show ?thesis by (induction xs) (simp_all add: sort_by_def ins)
qed

lemma f_total_less_asym: "f_total_less a b \<Longrightarrow> \<not> f_total_less b a"
  by (auto simp: f_total_less_def split: prod.splits)

lemma f_total_less_negtrans: "\<not> f_total_less b a \<Longrightarrow> \<not> f_total_less c b \<Longrightarrow> \<not> f_total_less c a"
  unfolding f_total_less_def
  by (cases "f_total_key a"; cases "f_total_key b"; cases "f_total_key c") (simp, linarith)

lemma select_ports_sorted: "sorted_wrt (\<lambda>a b. \<not> f_total_less (snd a) (snd b)) (select_ports d)"
  using sort_by_sorted [of weight_before "filter (\<lambda>e. fst e \<noteq> 0) (d_top_ports d)"]
    f_total_less_asym f_total_less_negtrans
  unfolding select_ports_def weight_before_def by blast

section \<open>What the selection chooses\<close>



lemma select_loop_FlowSpec:
  "select_loop d cfg ports acc chosen = FlowSpec rules \<Longrightarrow>
   \<exists>n. 0 < n \<and> n \<le> length ports \<and> length chosen + n \<le> sc_max_flows cfg \<and>
     rules = map (select_rule d cfg) (chosen @ map fst (take n ports)) \<and>
     f_ge (fold (\<lambda>e acc. f_add acc (snd e)) (take n ports) acc) (sc_concentration cfg) \<and>
     (\<forall>k. 0 < k \<and> k < n \<longrightarrow> \<not> f_ge (fold (\<lambda>e acc. f_add acc (snd e)) (take k ports) acc) (sc_concentration cfg))"
proof (induction d cfg ports acc chosen rule: select_loop.induct)
  case (2 d cfg port weight ports acc chosen)
  show ?case
  proof (cases "f_ge (f_add acc weight) (sc_concentration cfg)")
    case True
    with "2.prems" show ?thesis
      by (intro exI [of _ 1]) (auto simp: Let_def split: if_splits)
  next
    case False
    with "2.prems" have g: "\<not> sc_max_flows cfg \<le> length chosen"
      and r: "select_loop d cfg ports (f_add acc weight) (chosen @ [port]) = FlowSpec rules"
      by (auto simp: Let_def split: if_splits)
    from "2.IH" [OF g refl refl False r] obtain n where
      n: "0 < n" "n \<le> length ports" "length (chosen @ [port]) + n \<le> sc_max_flows cfg"
      "rules = map (select_rule d cfg) ((chosen @ [port]) @ map fst (take n ports))"
      "f_ge (fold (\<lambda>e acc. f_add acc (snd e)) (take n ports) (f_add acc weight)) (sc_concentration cfg)"
      "\<forall>k. 0 < k \<and> k < n \<longrightarrow> \<not> f_ge (fold (\<lambda>e acc. f_add acc (snd e)) (take k ports) (f_add acc weight)) (sc_concentration cfg)"
      by blast
    have "\<not> f_ge (fold (\<lambda>e acc. f_add acc (snd e)) (take k ((port, weight) # ports)) acc) (sc_concentration cfg)"
      if "0 < k" "k < Suc n" for k
      using that n(6) False by (cases k; cases "k = 1") auto
    with n(1-5) show ?thesis by (intro exI [of _ "Suc n"]) auto
  qed
qed simp



lemma select_guard:
  "d_proto d = 0 \<or> select_ports d = [] \<Longrightarrow> select d cfg = Rtbh"
  "d_proto d \<noteq> 0 \<Longrightarrow> select_ports d \<noteq> [] \<Longrightarrow> select d cfg = select_loop d cfg (select_ports d) (Num False 0) []"
proof -
  have e: "select_ports d = [] \<longleftrightarrow> filter (\<lambda>e. fst e \<noteq> 0) (d_top_ports d) = []"
    unfolding set_empty [symmetric] select_ports_def set_sort_by ..
  show "d_proto d = 0 \<or> select_ports d = [] \<Longrightarrow> select d cfg = Rtbh" by (auto simp: select_def e)
  assume n: "d_proto d \<noteq> 0" "select_ports d \<noteq> []"
  then have "\<not> list_all (\<lambda>e. fst e = 0) (d_top_ports d)" "d_top_ports d \<noteq> []"
    by (auto simp: e filter_empty_conv list_all_iff)
  with n show "select d cfg = select_loop d cfg (select_ports d) (Num False 0) []"
    using e by (simp add: select_def)
qed

section \<open>Weights\<close>

definition f_num :: "f64 \<Rightarrow> bool" where
  "f_num x \<longleftrightarrow> f_cmp_key x \<noteq> None"

lemma f_ge_not_less: "f_num x \<Longrightarrow> f_num y \<Longrightarrow> f_ge x y \<longleftrightarrow> \<not> f_less x y"
  by (auto simp: f_num_def f_ge_def f_less_def)

lemma f_ge_num: "f_ge x y \<Longrightarrow> f_num x \<and> f_num y"
  by (auto simp: f_num_def f_ge_def split: option.splits)

lemma f_ge_trans: "f_ge x y \<Longrightarrow> f_ge y z \<Longrightarrow> f_ge x z"
  by (auto simp: f_ge_def key_less_def split: option.splits)

text \<open>The weights of a detection: a non-negative number or infinity, with a positive sign.\<close>

fun f_weight :: "f64 \<Rightarrow> bool" where
  "f_weight (Num s m) = (\<not> s \<and> 0 \<le> m)"
| "f_weight (Inf s) = (\<not> s)"
| "f_weight (NaN s) = False"

lemma f_weight_round: "0 \<le> q \<Longrightarrow> f_weight (f_round False q)"
  using round_val_nonneg [of q] by (simp add: f_round_def round_mag_val)

lemma f_weight_nat: "f_weight (f_of_nat n)"
  by (simp add: f_of_nat_def f_weight_round)

lemma f_weight_div: "f_weight x \<Longrightarrow> 0 < b \<Longrightarrow> f_weight (f_div x (Num False b))"
  by (cases x) (auto simp: f_weight_round)

lemma f_one: "f_round False 1 = Num False 1"
  using f_of_nat_exact [of 1] by (simp add: f_of_nat_def)

lemma f_weight_order: "f_weight x \<Longrightarrow> f_weight y \<Longrightarrow> \<not> f_total_less y x \<Longrightarrow> f_ge y x"
  by (cases x; cases y) (auto simp: f_total_less_def f_ge_def key_less_def)

lemma f_zero_add:
  assumes "f_weight w" "f_ge w (Num False 1)"
  shows "f_ge (f_add (Num False 0) w) (Num False 1)"
proof (cases w)
  case (Num s m)
  with assms have m: "\<not> s" "1 \<le> m" by (auto simp: f_ge_def key_less_def)
  have "\<not> f_less (f_round False m) (Num False 1)" using f_round_mono [of 1 m] m(2) by (simp add: f_one)
  moreover have "f_num (f_round False m)" "f_num (Num False 1)" by (auto simp: f_num_def f_round_def split: option.splits)
  ultimately have "f_ge (f_round False m) (Num False 1)" by (simp add: f_ge_not_less)
  with Num m show ?thesis by simp
next
  case (Inf s) then show ?thesis using assms by (simp add: f_ge_def key_less_def)
next
  case (NaN s) then show ?thesis using assms by simp
qed

lemma round_val_pos:
  assumes "2 powi (- 1074) \<le> q"
  shows "0 < round_val q"
proof -
  let ?k = "rat_ilog2 q"
  have "(0::rat) < 2 powi (- 1074)" by simp
  from less_le_trans [OF this assms] have q: "0 < q" .
  have k: "- 1074 \<le> ?k"
  proof (rule ccontr)
    assume "\<not> ?thesis"
    then have "(2::rat) powi (?k + 1) \<le> 2 powi (- 1074)" by (intro power_int_increasing) simp_all
    with rat_ilog2_bounds(2) [OF q] assms show False by linarith
  qed
  then have "f_exp q \<le> ?k" by (simp add: f_exp_def)
  from round_grid(2) [OF this rat_ilog2_bounds(1) [OF q]] have "2 powi ?k \<le> round_val q" by (simp add: round_val_def)
  moreover have "(0::rat) < 2 powi ?k" by simp
  ultimately show ?thesis by (rule less_le_trans [rotated])
qed

lemma round_val_bound:
  assumes "0 < q" "q < 2 powi 53"
  shows "round_val q \<le> 2 powi 53"
proof -
  from assms rat_ilog2_bounds(1) [OF assms(1)] have "(2::rat) powi rat_ilog2 q < 2 powi 53" by linarith
  then have "rat_ilog2 q < 53" by (rule power_int_le_imp_less_exp [rotated]) simp_all
  then have "f_exp q \<le> 53" by (simp add: f_exp_def)
  from round_grid(1) [OF this, of q] assms(2) show ?thesis by (simp add: round_val_def)
qed

lemma window_secs_pos:
  assumes "w < 2 ^ 53"
  shows "\<exists>b > 0. window_secs w = Num False b"
proof -
  let ?m = "of_nat (max w 1) :: rat"
  let ?q = "?m / 1000"
  have w: "f_of_nat (max w 1) = Num False ?m" using assms by (intro f_of_nat_exact) auto
  have m: "1 \<le> ?m" by simp
  have "max w 1 < 2 ^ 53" using assms by simp
  then have "?m < 2 ^ 53" by (metis of_nat_less_iff of_nat_numeral of_nat_power)
  with m have q: "(2::rat) powi (- 10) \<le> ?q" "?q < 2 powi 53" "0 < ?q" by (simp_all add: power_int_minus)
  have "(2::rat) powi (- 1074) \<le> 2 powi (- 10)" by (intro power_int_increasing) simp_all
  with q(1) have "0 < round_val ?q" by (intro round_val_pos) linarith
  moreover have "round_val ?q < 2 ^ 1024"
  proof -
    have "(2::rat) powi 53 < 2 ^ 1024" using power_strict_increasing [of 53 1024 "2::rat"] by simp
    with round_val_bound [OF q(3,2)] show ?thesis by linarith
  qed
  ultimately have "f_round False ?q = Num False (round_val ?q) \<and> 0 < round_val ?q" using q(3)
    by (simp only: f_round_def round_mag_val if_True if_False option.case refl less_irrefl split: if_split)
      (auto simp del: of_nat_max)
  moreover have "window_secs w = f_round False ?q" unfolding window_secs_def w by simp
  ultimately show ?thesis by auto
qed

lemma top3_weight:
  assumes "w < 2 ^ 53" "(k, x) \<in> set (top3 (window_secs w) m)"
  shows "f_weight x"
proof -
  obtain b where "0 < b" "window_secs w = Num False b" using window_secs_pos [OF assms(1)] by blast
  with assms(2) show ?thesis by (auto simp: top3_def f_weight_div f_weight_nat)
qed

section \<open>What each plane sees\<close>

fun rtbh_view :: "selection_config \<Rightarrow> detection_event \<Rightarrow> detection_event option" where
  "rtbh_view cfg (Opened d) = (case select d cfg of Rtbh \<Rightarrow> Some (Opened d) | FlowSpec rules \<Rightarrow> None)"
| "rtbh_view cfg ev = Some ev"

fun flowspec_view :: "selection_config \<Rightarrow> detection_event \<Rightarrow> flow_mitigation_event option" where
  "flowspec_view cfg (Opened d) =
     (case select d cfg of Rtbh \<Rightarrow> None | FlowSpec rules \<Rightarrow> Some (MitOpen (d_target d) rules))"
| "flowspec_view cfg (Updated d) = Some (MitUpdate (d_target d))"
| "flowspec_view cfg (Cleared t at_ms) = Some (MitClear t)"

definition has_room :: "nat \<Rightarrow> 'a mpsc \<Rightarrow> bool" where
  "has_room n c \<longleftrightarrow> \<not> mp_closed c \<and> length (mp_queue c) + n \<le> mp_capacity c"

lemma try_send_room:
  "has_room (Suc n) c \<Longrightarrow> try_send x c = (True, c\<lparr>mp_queue := mp_queue c @ [x]\<rparr>)"
  by (simp add: has_room_def try_send_def)

lemma has_room_put: "has_room (Suc n) c \<Longrightarrow> has_room n (c\<lparr>mp_queue := mp_queue c @ [x]\<rparr>)"
  "has_room (Suc n) c \<Longrightarrow> has_room n c"
  by (auto simp: has_room_def)

lemma selector_handle_room:
  assumes "has_room (Suc n) (ss_flowspec_tx s)" "has_room (Suc n) (ss_rtbh_tx s)"
  shows "mp_queue (ss_rtbh_tx (selector_handle ev s)) =
      mp_queue (ss_rtbh_tx s) @ (case rtbh_view (ss_cfg s) ev of None \<Rightarrow> [] | Some e \<Rightarrow> [e])"
    and "mp_queue (ss_flowspec_tx (selector_handle ev s)) =
      mp_queue (ss_flowspec_tx s) @ (case flowspec_view (ss_cfg s) ev of None \<Rightarrow> [] | Some e \<Rightarrow> [e])"
    and "has_room n (ss_flowspec_tx (selector_handle ev s))" "has_room n (ss_rtbh_tx (selector_handle ev s))"
    and "ss_cfg (selector_handle ev s) = ss_cfg s"
  using assms
  by (cases ev; auto simp: send_rtbh_def send_flowspec_def try_send_room has_room_put split: mitigation.splits)+

section \<open>A diffuse attack\<close>

text \<open>Five destination ports with a fifth of the packets each.\<close>

definition diffuse_samples :: "sample list" where
  "diffuse_samples = map (\<lambda>p. \<lparr>sm_ts_ms = 0, sm_src = V4 0xC6336409, sm_dst_port = p, sm_proto = 17,
     sm_est_packets = 1000, sm_est_bytes = 100000, sm_agent = V4 0x0A000001\<rparr>) [1, 2, 3, 4, 5]"

definition diffuse_det :: threshold_detector where
  "diffuse_det = td_new [NetV4 0xCB007100 24] sample_det_config sample_registry"

definition sample_selection :: selection_config where
  "sample_selection = \<lparr>sc_concentration = Num False (3 / 4), sc_max_flows = 4, sc_rate = 0\<rparr>"

lemma f_exact_1000: "f_of_nat 1000 = Num False 1000" "f_round False 1000 = Num False 1000"
  using f_of_nat_exact [of 1000] by (simp_all add: f_of_nat_def)

lemma diffuse_window: "window_secs (td_window_ms diffuse_det) = Num False 1"
  by (simp add: window_secs_def diffuse_det_def td_new_def sample_det_config_def f_exact_1000 f_one)


section \<open>Properties\<close>



text \<open>
  C39. The concentration is not compared with a share: the weights of a detection are packets per
  second, and a concentration is at most one. So whenever one of its top ports other than 0 receives
  one packet per second or more, the detector's own detection of a known protocol is answered with a
  FlowSpec rule for a single port, however small the part of the attack on that port; the fallback
  to a blackhole for a diffuse attack is not taken.
\<close>

theorem select_ignores_share:
  assumes "td_window_ms det < 2 ^ 53" "d = build_detection trunc it (tick_params det dst samples first now)"
    and "d_proto d \<noteq> 0" "(port, x) \<in> set (d_top_ports d)" "port \<noteq> 0" "f_ge x (Num False 1)"
    and "f_ge (Num False 1) (sc_concentration cfg)" "0 < sc_max_flows cfg"
  shows "\<exists>p. p \<noteq> 0 \<and> select d cfg = FlowSpec [\<lparr>fr_dst = dst, fr_proto = d_proto d, fr_dst_port = p, fr_rate = sc_rate cfg\<rparr>]"
proof -
  have mem: "(port, x) \<in> set (select_ports d)" using assms(4,5) by (simp add: select_ports_def)
  then obtain p w rest where ps: "select_ports d = (p, w) # rest" by (cases "select_ports d") auto
  have "(p, w) \<in> set (select_ports d)" by (simp add: ps)
  then have pw: "(p, w) \<in> set (d_top_ports d)" "p \<noteq> 0" by (simp_all add: select_ports_def)
  have weight: "f_weight y" if "(k, y) \<in> set (d_top_ports d)" for k y
    using top3_weight [OF assms(1)] that by (simp add: assms(2) build_detection_def tick_params_def Let_def)
  have "f_ge w x"
  proof (cases "(port, x) = (p, w)")
    case True
    then show ?thesis using f_weight_order [OF weight [OF assms(4)] weight [OF assms(4)]] f_total_less_asym [of x x] by auto
  next
    case False
    with select_ports_sorted [of d] mem ps have "\<not> f_total_less w x" by auto
    then show ?thesis by (rule f_weight_order [OF weight [OF assms(4)] weight [OF pw(1)]])
  qed
  from f_zero_add [OF weight [OF pw(1)] f_ge_trans [OF this assms(6)]]
  have "f_ge (f_add (Num False 0) w) (sc_concentration cfg)" by (rule f_ge_trans) (rule assms(7))
  moreover have "d_target d = dst" by (simp add: assms(2) tick_params_def)
  ultimately have "select d cfg = FlowSpec [\<lparr>fr_dst = dst, fr_proto = d_proto d, fr_dst_port = p, fr_rate = sc_rate cfg\<rparr>]"
    using select_guard(2) [of d cfg] assms(3,8) ps by (simp add: select_rule_def Let_def)
  with pw(2) show ?thesis by blast
qed

theorem select_ignores_share_witness:
  "\<exists>p. select (build_detection net_trunc id_order (tick_params diffuse_det (V4 0xCB007107) diffuse_samples 0 0)) sample_selection =
      FlowSpec [\<lparr>fr_dst = V4 0xCB007107, fr_proto = 17, fr_dst_port = p, fr_rate = 0\<rparr>] \<and>
     5 * total_of sm_est_packets (filter (\<lambda>s. sm_dst_port s = p) diffuse_samples) = total_of sm_est_packets diffuse_samples"
proof -
  let ?d = "build_detection net_trunc id_order (tick_params diffuse_det (V4 0xCB007107) diffuse_samples 0 0)"
  have proto: "d_proto ?d = 17"
    by (simp add: build_detection_def dominant_proto_def max_by_key_def tally_def diffuse_samples_def tick_params_def
        id_order_def sat_add128_def hm_insert_def hm_get_def Let_def)
  have ports: "d_top_ports ?d = map (\<lambda>p. (p, Num False 1000)) [1, 2, 3]"
    by (simp add: build_detection_def top3_def tally_def diffuse_samples_def tick_params_def
        id_order_def sat_add128_def hm_insert_def hm_get_def diffuse_window f_exact_1000 Let_def)
  have w: "td_window_ms diffuse_det < 2 ^ 53" by (simp add: diffuse_det_def td_new_def sample_det_config_def)
  have "(1, Num False 1000) \<in> set (d_top_ports ?d)" by (simp add: ports)
  from select_ignores_share [OF w refl _ this, where cfg = sample_selection]
  obtain p where p: "p \<noteq> 0" "select ?d sample_selection = FlowSpec [\<lparr>fr_dst = V4 0xCB007107, fr_proto = 17, fr_dst_port = p, fr_rate = 0\<rparr>]"
    by (auto simp: proto sample_selection_def f_ge_def key_less_def)
  from p(2) have "p \<in> fst ` set (select_ports ?d)"
    using select_loop_FlowSpec [of ?d sample_selection "select_ports ?d" "Num False 0" "[]"] select_guard [of ?d sample_selection]
    by (cases "select_ports ?d = []") (auto simp: proto select_rule_def take_Cons' neq_Nil_conv image_iff dest!: in_set_takeD)
  then have "p \<in> {1, 2, 3}" by (auto simp: select_ports_def ports)
  with p(2) show ?thesis by (intro exI [of _ p]) (auto simp: total_of_def diffuse_samples_def sat_add128_def)
qed

text \<open>
  Routing of detection events: as long as the two channels have room, every event reaches the
  managers in order, and each opening reaches exactly one of them: the FlowSpec manager gets the
  openings that selection scopes to flows, with their rules, the blackhole manager gets the others,
  and both get every update and clearing.
\<close>

lemma selector_routing:
  assumes "has_room (length evs) (ss_flowspec_tx s)" "has_room (length evs) (ss_rtbh_tx s)"
  shows "mp_queue (ss_rtbh_tx (fold selector_handle evs s)) =
      mp_queue (ss_rtbh_tx s) @ List.map_filter (rtbh_view (ss_cfg s)) evs \<and>
    mp_queue (ss_flowspec_tx (fold selector_handle evs s)) =
      mp_queue (ss_flowspec_tx s) @ List.map_filter (flowspec_view (ss_cfg s)) evs \<and>
    (\<forall>d. rtbh_view (ss_cfg s) (Opened d) = None \<longleftrightarrow> flowspec_view (ss_cfg s) (Opened d) \<noteq> None)"
proof -
  have "\<forall>d. rtbh_view (ss_cfg s) (Opened d) = None \<longleftrightarrow> flowspec_view (ss_cfg s) (Opened d) \<noteq> None"
    by (auto split: mitigation.splits)
  moreover have "mp_queue (ss_rtbh_tx (fold selector_handle evs s)) =
      mp_queue (ss_rtbh_tx s) @ List.map_filter (rtbh_view (ss_cfg s)) evs \<and>
    mp_queue (ss_flowspec_tx (fold selector_handle evs s)) =
      mp_queue (ss_flowspec_tx s) @ List.map_filter (flowspec_view (ss_cfg s)) evs"
    using assms
  proof (induction evs arbitrary: s)
    case (Cons ev evs)
    note h = selector_handle_room [of "length evs" s ev] and r = Cons.prems [simplified]
    show ?case using Cons.IH [OF h(3) [OF r] h(4) [OF r]] h(1,2,5) [OF r]
      by (auto simp: map_filter_simps split: option.splits)
  qed (simp add: map_filter_simps)
  ultimately show ?thesis by blast
qed

end
