(* ===== verification/Collector.thy ===== *)
theory Collector
  imports Sflow Selection
begin

text \<open>
  The collector of \<^verbatim>\<open>blackwall-flow/src/collector_net.rs\<close> with its counters (\<^verbatim>\<open>metrics.rs\<close>): the
  loop that feeds received datagrams to the detector and hands the events of each tick to a sink.
  The socket and the timer are arguments: a run is the list of what the \<open>select!\<close> returned.
\<close>

section \<open>Counters\<close>

record collector_metrics =
  cm_datagrams :: u64
  cm_decode_errors :: u64
  cm_sample_decode_errors :: u64
  cm_unknown_agent_observations :: nat
  cm_min_sample_suppressed :: nat
  cm_detections_opened :: nat
  cm_detections_cleared :: nat
  cm_sampled_bytes :: u64
  cm_sampled_packets :: u64

definition metrics_new :: collector_metrics where
  "metrics_new = \<lparr>cm_datagrams = 0, cm_decode_errors = 0, cm_sample_decode_errors = 0,
     cm_unknown_agent_observations = 0, cm_min_sample_suppressed = 0, cm_detections_opened = 0,
     cm_detections_cleared = 0, cm_sampled_bytes = 0, cm_sampled_packets = 0\<rparr>"

definition incr_datagrams :: "collector_metrics \<Rightarrow> collector_metrics" where
  "incr_datagrams m = m\<lparr>cm_datagrams := cm_datagrams m + 1\<rparr>"

definition incr_decode_errors :: "collector_metrics \<Rightarrow> collector_metrics" where
  "incr_decode_errors m = m\<lparr>cm_decode_errors := cm_decode_errors m + 1\<rparr>"

definition incr_sample_decode_errors :: "collector_metrics \<Rightarrow> collector_metrics" where
  "incr_sample_decode_errors m = m\<lparr>cm_sample_decode_errors := cm_sample_decode_errors m + 1\<rparr>"

text \<open>The product saturates at 64 bits; the two counters wrap, as \<open>fetch_add\<close> does.\<close>

definition record_sample :: "u32 \<Rightarrow> u32 \<Rightarrow> collector_metrics \<Rightarrow> collector_metrics" where
  "record_sample sampling_rate frame_len m =
     (let packets = unat sampling_rate; bytes = min (packets * unat frame_len) u64_max in
      m\<lparr>cm_sampled_packets := cm_sampled_packets m + of_nat packets,
        cm_sampled_bytes := cm_sampled_bytes m + of_nat bytes\<rparr>)"

definition publish_detector :: "threshold_detector \<Rightarrow> collector_metrics \<Rightarrow> collector_metrics" where
  "publish_detector d m =
     m\<lparr>cm_unknown_agent_observations := td_unknown_agent_observations d,
       cm_min_sample_suppressed := td_min_sample_suppressed d,
       cm_detections_opened := td_detections_opened d, cm_detections_cleared := td_detections_cleared d\<rparr>"

section \<open>The loop\<close>

datatype collector_event =
    Datagram "u8 list" nat
  | RecvError
  | TickerTick hash_order nat

record 's collector =
  co_detector :: threshold_detector
  co_sink :: 's
  co_metrics :: collector_metrics
  co_agent_snapshot :: "agent_stat list"

definition observe_one ::
  "(ip_net \<Rightarrow> ip_addr \<Rightarrow> bool) \<Rightarrow> nat \<Rightarrow> flow_observation \<Rightarrow> 's collector \<Rightarrow> 's collector"
where
  "observe_one contains now ob c =
     c\<lparr>co_metrics := record_sample (o_sampling_rate ob) (o_frame_len ob) (co_metrics c),
       co_detector := td_observe contains ob now (co_detector c)\<rparr>"

text \<open>
  One iteration of \<open>run_collector\<close>. A panic of the decoder would end the task; \<open>None\<close> stands for it.
\<close>

fun collector_step ::
  "(ip_net \<Rightarrow> ip_addr \<Rightarrow> bool) \<Rightarrow> (ip_net \<Rightarrow> ip_net) \<Rightarrow> ether_parser \<Rightarrow> (detection_event \<Rightarrow> 's \<Rightarrow> 's) \<Rightarrow>
   collector_event \<Rightarrow> 's collector \<Rightarrow> 's collector option"
where
  "collector_step contains trunc ether handle (Datagram bytes now) c =
     (let c = c\<lparr>co_metrics := incr_datagrams (co_metrics c)\<rparr> in
      case decode_datagram ether bytes of
        Ok (observations, sample_errors) \<Rightarrow>
          let c = c\<lparr>co_metrics := (incr_sample_decode_errors ^^ unat sample_errors) (co_metrics c)\<rparr>
          in Some (fold (observe_one contains now) observations c)
      | Err e \<Rightarrow> Some (c\<lparr>co_metrics := incr_decode_errors (co_metrics c)\<rparr>)
      | Panic \<Rightarrow> None)"
| "collector_step contains trunc ether handle RecvError c = Some c"
| "collector_step contains trunc ether handle (TickerTick it now) c =
     (case td_tick trunc it now (co_detector c) of (events, d) \<Rightarrow>
        Some (c\<lparr>co_detector := d, co_agent_snapshot := td_agent_stats d,
                co_metrics := publish_detector d (co_metrics c),
                co_sink := fold handle events (co_sink c)\<rparr>))"

fun collector_run ::
  "(ip_net \<Rightarrow> ip_addr \<Rightarrow> bool) \<Rightarrow> (ip_net \<Rightarrow> ip_net) \<Rightarrow> ether_parser \<Rightarrow> (detection_event \<Rightarrow> 's \<Rightarrow> 's) \<Rightarrow>
   collector_event list \<Rightarrow> 's collector \<Rightarrow> 's collector option"
where
  "collector_run contains trunc ether handle [] c = Some c"
| "collector_run contains trunc ether handle (ev # evs) c =
     Option.bind (collector_step contains trunc ether handle ev c) (collector_run contains trunc ether handle evs)"

section \<open>What the collector does to the detector\<close>

text \<open>The operations a run performs on the detector.\<close>

fun detector_ops :: "ether_parser \<Rightarrow> collector_event \<Rightarrow> det_op list" where
  "detector_ops ether (Datagram bytes now) =
     (case decode_datagram ether bytes of Ok (obs, errs) \<Rightarrow> map (\<lambda>ob. Observe ob now) obs | _ \<Rightarrow> [])"
| "detector_ops ether RecvError = []"
| "detector_ops ether (TickerTick it now) = [DetTick it now]"

lemma det_run_append:
  "det_run contains trunc (xs @ ys) d =
     (case det_run contains trunc xs d of (evss, d') \<Rightarrow>
        case det_run contains trunc ys d' of (evss', d'') \<Rightarrow> (evss @ evss', d''))"
  by (induction xs arbitrary: d) (auto split: prod.splits)

lemma fold_observe_one:
  "co_detector (fold (observe_one contains now) obs c) = snd (det_run contains trunc (map (\<lambda>ob. Observe ob now) obs) (co_detector c))"
  "co_sink (fold (observe_one contains now) obs c) = co_sink c"
  "concat (fst (det_run contains trunc (map (\<lambda>ob. Observe ob now) obs) d)) = []"
proof -
  show "concat (fst (det_run contains trunc (map (\<lambda>ob. Observe ob now) obs) d)) = []" for d
    by (induction obs arbitrary: d) (simp_all add: case_prod_beta)
  show "co_detector (fold (observe_one contains now) obs c) = snd (det_run contains trunc (map (\<lambda>ob. Observe ob now) obs) (co_detector c))"
    by (induction obs arbitrary: c) (auto simp: observe_one_def split: prod.splits)
  show "co_sink (fold (observe_one contains now) obs c) = co_sink c"
    by (induction obs arbitrary: c) (simp_all add: observe_one_def)
qed

lemma collector_step_ops:
  "\<exists>c'. collector_step contains trunc ether handle ev c = Some c' \<and>
     (case det_run contains trunc (detector_ops ether ev) (co_detector c) of (evss, d) \<Rightarrow>
        co_detector c' = d \<and> co_sink c' = fold handle (concat evss) (co_sink c))"
proof (cases ev)
  case (Datagram bytes now)
  show ?thesis
  proof (cases "decode_datagram ether bytes")
    case (Ok x)
    obtain obs errs where x: "x = (obs, errs)" by (cases x)
    let ?c = "c\<lparr>co_metrics := (incr_sample_decode_errors ^^ unat errs) (incr_datagrams (co_metrics c))\<rparr>"
    show ?thesis using Datagram Ok x fold_observe_one(1,2) [of contains now obs ?c] fold_observe_one(3) [of contains trunc now obs "co_detector c"]
      by (simp add: case_prod_beta Let_def del: concat_eq_Nil_conv)
  next
    case Panic
    have "decode_datagram ether bytes \<noteq> Panic" by (rule decode_datagram_no_panic)
    with Panic show ?thesis by simp
  qed (simp_all add: Datagram)
next
  case (TickerTick it now)
  then show ?thesis by (auto split: prod.splits)
qed simp

lemma collector_run_ops:
  "\<exists>c'. collector_run contains trunc ether handle evs c = Some c' \<and>
     (case det_run contains trunc (concat (map (detector_ops ether) evs)) (co_detector c) of (evss, d) \<Rightarrow>
        co_detector c' = d \<and> co_sink c' = fold handle (concat evss) (co_sink c))"
proof (induction evs arbitrary: c)
  case (Cons ev evs)
  obtain evss d where d: "det_run contains trunc (detector_ops ether ev) (co_detector c) = (evss, d)" by fastforce
  with collector_step_ops [of contains trunc ether handle ev c] obtain c1 where
    c1: "collector_step contains trunc ether handle ev c = Some c1" "co_detector c1 = d"
      "co_sink c1 = fold handle (concat evss) (co_sink c)" by auto
  obtain evss' d' where d': "det_run contains trunc (concat (map (detector_ops ether) evs)) d = (evss', d')" by fastforce
  with Cons.IH [of c1] c1(2) obtain c2 where
    "collector_run contains trunc ether handle evs c1 = Some c2" "co_detector c2 = d'"
    "co_sink c2 = fold handle (concat evss') (co_sink c1)" by auto
  with c1 d d' show ?case by (simp add: det_run_append)
qed simp

end
