(* ===== verification/Mitigation_Table.thy ===== *)
theory Mitigation_Table
  imports HashMap Detection
begin

text \<open>
  What every mitigation controller promises about its table of active mitigations, as one
  interface: an operation changes the table in steps, each of which admits at most one new,
  admissible key while there is room, or drops keys. The safety of the whole run follows once and for all.
\<close>

text \<open>The change one step may make to a table of keys.\<close>

definition table_step :: "('k \<Rightarrow> bool) \<Rightarrow> nat \<Rightarrow> 'k list \<Rightarrow> 'k list \<Rightarrow> bool" where
  "table_step admissible cap ks ks' \<longleftrightarrow>
     distinct ks' \<and>
     (set ks' \<subseteq> set ks \<or>
      (\<exists>k. admissible k \<and> set ks' \<subseteq> insert k (set ks) \<and> length ks < cap))"

definition table_safe :: "('k \<Rightarrow> bool) \<Rightarrow> nat \<Rightarrow> 'k list \<Rightarrow> bool" where
  "table_safe admissible cap ks \<longleftrightarrow>
     distinct ks \<and> length ks \<le> cap \<and> (\<forall>k\<in>set ks. admissible k)"

lemma table_step_safe:
  assumes "table_safe admissible cap ks" "table_step admissible cap ks ks'"
  shows "table_safe admissible cap ks'"
proof -
  from assms(2) have d: "distinct ks'" by (simp add: table_step_def)
  from assms(2) consider "set ks' \<subseteq> set ks"
    | k where "admissible k" "set ks' \<subseteq> insert k (set ks)" "length ks < cap"
    by (auto simp: table_step_def)
  then show ?thesis
  proof cases
    case 1
    then have "card (set ks') \<le> card (set ks)" by (simp add: card_mono)
    with assms(1) d 1 show ?thesis by (auto simp: table_safe_def distinct_card)
  next
    case (2 k)
    then have "card (set ks') \<le> card (insert k (set ks))" by (simp add: card_mono)
    also have "\<dots> \<le> Suc (card (set ks))" by (rule card_insert_le_m1) auto
    finally show ?thesis using assms(1) d 2 by (auto simp: table_safe_def distinct_card)
  qed
qed

lemma table_steps_safe:
  assumes "table_safe admissible cap ks" "(table_step admissible cap)\<^sup>*\<^sup>* ks ks'"
  shows "table_safe admissible cap ks'"
  using assms(2,1) by (induction rule: rtranclp_induct) (auto intro: table_step_safe)

locale mitigation_table =
  fixes keys :: "'s \<Rightarrow> 'k list"
    and config :: "'s \<Rightarrow> 'c"
    and cap :: "'c \<Rightarrow> nat"
    and admissible :: "'c \<Rightarrow> 'k \<Rightarrow> bool"
    and step :: "'o \<Rightarrow> 's \<Rightarrow> 's"
  assumes step_config: "config (step oper s) = config s"
    and step_table: "distinct (keys s) \<Longrightarrow>
      (table_step (admissible (config s)) (cap (config s)))\<^sup>*\<^sup>* (keys s) (keys (step oper s))"
begin

definition run :: "'o list \<Rightarrow> 's \<Rightarrow> 's" where
  "run opers s = fold step opers s"

definition safe :: "'s \<Rightarrow> bool" where
  "safe s \<longleftrightarrow> table_safe (admissible (config s)) (cap (config s)) (keys s)"

lemma run_config: "config (run opers s) = config s"
  unfolding run_def by (induction opers arbitrary: s) (simp_all add: step_config)

lemma step_safe: "safe s \<Longrightarrow> safe (step oper s)"
  unfolding safe_def step_config
  by (rule table_steps_safe [OF _ step_table]) (auto simp: table_safe_def)

lemma run_safe: "safe s \<Longrightarrow> safe (run opers s)"
  unfolding run_def by (induction opers arbitrary: s) (simp_all add: step_safe)

lemma run_from_empty:
  assumes "keys s = []"
  shows "table_safe (admissible (config s)) (cap (config s)) (keys (run opers s))"
proof -
  have "safe s" using assms by (simp add: safe_def table_safe_def)
  from run_safe [OF this] show ?thesis by (simp add: safe_def run_config)
qed

end

text \<open>Steps a hash map takes, as table steps.\<close>

lemma table_step_refl: "distinct ks \<Longrightarrow> table_step A c ks ks"
  by (simp add: table_step_def)

lemma table_step_same:
  "hm_wf m' \<Longrightarrow> set (hm_keys m') \<subseteq> set (hm_keys m) \<Longrightarrow> table_step A c (hm_keys m) (hm_keys m')"
  by (simp add: table_step_def hm.wf_keys)

lemma table_step_insert:
  assumes "hm_wf m" "A k" "hm_len m < c"
  shows "table_step A c (hm_keys m) (hm_keys (hm_insert k v m))"
proof -
  from assms have "distinct (hm_keys (hm_insert k v m))"
    by (intro hm.wf_keys hm.wf_insert)
  with assms show ?thesis by (auto simp: table_step_def hm.len_keys)
qed

end
