(* ===== verification/Rtbh_Controller.thy ===== *)
theory Rtbh_Controller
  imports Mitigation_Table
begin

text \<open>
  The remotely-triggered-blackhole decision engine of \<^verbatim>\<open>blackwall-rtbh/src/controller.rs\<close>: the
  active table, every public operation on it, and the actions each one emits. \<open>contains\<close> is the
  prefix test of the \<^verbatim>\<open>ipnet\<close> crate; times are milliseconds, and the natural-number difference
  is \<open>saturating_sub\<close>.
\<close>

section \<open>State\<close>

datatype blackhole_origin = Auto | Manual

record active_entry =
  ae_announced_at :: nat
  ae_last_activity :: nat
  ae_origin :: blackhole_origin
  ae_clear_requested_at :: "nat option"

record rtbh_config =
  rb_eligible_prefixes :: "ip_net list"
  rb_blackhole_communities :: "(u16 \<times> u16) list"
  rb_next_hop_v4 :: "u32 option"
  rb_next_hop_v6 :: "u128 option"
  rb_max_blackholes :: nat
  rb_hold_down :: duration
  rb_max_ttl :: "duration option"
  rb_protected_prefixes :: "ip_net list"

datatype rtbh_action = Announce route | Withdraw ip_net

record rtbh_controller =
  rc_config :: rtbh_config
  rc_active :: "(ip_addr, active_entry) hashmap"
  rc_protected_skipped :: nat

type_synonym contains = "ip_net \<Rightarrow> ip_addr \<Rightarrow> bool"

section \<open>Operations\<close>

definition rtbh_new :: "rtbh_config \<Rightarrow> rtbh_controller" where
  "rtbh_new cfg = \<lparr>rc_config = cfg, rc_active = [], rc_protected_skipped = 0\<rparr>"

fun host_prefix :: "ip_addr \<Rightarrow> ip_net" where
  "host_prefix (V4 a) = NetV4 a 32"
| "host_prefix (V6 a) = NetV6 a 128"

definition rtbh_host_route :: "rtbh_config \<Rightarrow> ip_addr \<Rightarrow> route option" where
  "rtbh_host_route cfg target =
     (case (case target of V4 a \<Rightarrow> map_option V4 (rb_next_hop_v4 cfg)
            | V6 a \<Rightarrow> map_option V6 (rb_next_hop_v6 cfg)) of
        None \<Rightarrow> None
      | Some next_hop \<Rightarrow> Some
          \<lparr>r_prefix = host_prefix target, r_next_hop = next_hop, r_origin = Igp,
           r_communities = rb_blackhole_communities cfg, r_large_communities = []\<rparr>)"

definition rtbh_is_eligible :: "contains \<Rightarrow> rtbh_config \<Rightarrow> ip_addr \<Rightarrow> bool" where
  "rtbh_is_eligible contains cfg target = (\<exists>p\<in>set (rb_eligible_prefixes cfg). contains p target)"

definition rtbh_is_protected :: "contains \<Rightarrow> rtbh_config \<Rightarrow> ip_addr \<Rightarrow> bool" where
  "rtbh_is_protected contains cfg target = (\<exists>p\<in>set (rb_protected_prefixes cfg). contains p target)"

definition rtbh_has_next_hop :: "rtbh_config \<Rightarrow> ip_addr \<Rightarrow> bool" where
  "rtbh_has_next_hop cfg target =
     (case target of V4 a \<Rightarrow> rb_next_hop_v4 cfg \<noteq> None | V6 a \<Rightarrow> rb_next_hop_v6 cfg \<noteq> None)"

definition insert_blackhole ::
  "contains \<Rightarrow> rtbh_controller \<Rightarrow> ip_addr \<Rightarrow> nat \<Rightarrow> blackhole_origin \<Rightarrow> rtbh_action list \<times> rtbh_controller"
where
  "insert_blackhole contains c target announced_at orig =
     (let cfg = rc_config c in
      if rtbh_is_protected contains cfg target
      then ([], c\<lparr>rc_protected_skipped := sat_inc (rc_protected_skipped c)\<rparr>)
      else if \<not> rtbh_is_eligible contains cfg target then ([], c)
      else if hm_get (rc_active c) target \<noteq> None
      then ([], c\<lparr>rc_active := hm_adjust target
             (\<lambda>e. e\<lparr>ae_clear_requested_at := None, ae_last_activity := announced_at\<rparr>) (rc_active c)\<rparr>)
      else if rb_max_blackholes cfg \<le> hm_len (rc_active c) then ([], c)
      else (case rtbh_host_route cfg target of
          None \<Rightarrow> ([], c)
        | Some rt \<Rightarrow>
            ([Announce rt], c\<lparr>rc_active := hm_insert target
               \<lparr>ae_announced_at = announced_at, ae_last_activity = announced_at,
                ae_origin = orig, ae_clear_requested_at = None\<rparr> (rc_active c)\<rparr>)))"

definition rtbh_blackhole ::
  "contains \<Rightarrow> rtbh_controller \<Rightarrow> ip_addr \<Rightarrow> nat \<Rightarrow> blackhole_origin \<Rightarrow> rtbh_action list \<times> rtbh_controller"
where
  "rtbh_blackhole contains c target now orig = insert_blackhole contains c target now orig"

definition request_clear ::
  "rtbh_controller \<Rightarrow> ip_addr \<Rightarrow> nat \<Rightarrow> rtbh_action list \<times> rtbh_controller"
where
  "request_clear c target now =
     (let hold_ms = as_millis_u64 (rb_hold_down (rc_config c)) in
      case hm_get (rc_active c) target of
        None \<Rightarrow> ([], c)
      | Some e \<Rightarrow>
          if ae_origin e = Manual then ([], c)
          else if hold_ms \<le> now - ae_announced_at e
          then ([Withdraw (host_prefix target)], c\<lparr>rc_active := hm_remove target (rc_active c)\<rparr>)
          else ([], c\<lparr>rc_active := hm_adjust target
                 (\<lambda>e. e\<lparr>ae_clear_requested_at := Some now\<rparr>) (rc_active c)\<rparr>))"

fun rtbh_on_event ::
  "contains \<Rightarrow> rtbh_controller \<Rightarrow> detection_event \<Rightarrow> nat \<Rightarrow> rtbh_action list \<times> rtbh_controller"
where
  "rtbh_on_event contains c (Opened d) now = rtbh_blackhole contains c (d_target d) now Auto"
| "rtbh_on_event contains c (Updated d) now =
     ([], c\<lparr>rc_active := hm_adjust (d_target d)
        (\<lambda>e. e\<lparr>ae_last_activity := now, ae_clear_requested_at := None\<rparr>) (rc_active c)\<rparr>)"
| "rtbh_on_event contains c (Cleared target at_ms) now = request_clear c target now"

definition rtbh_manual_add ::
  "contains \<Rightarrow> rtbh_controller \<Rightarrow> ip_addr \<Rightarrow> nat \<Rightarrow> rtbh_action list \<times> rtbh_controller"
where
  "rtbh_manual_add contains c target now =
     (if hm_get (rc_active c) target \<noteq> None
      then ([], c\<lparr>rc_active := hm_adjust target
             (\<lambda>e. e\<lparr>ae_origin := Manual, ae_clear_requested_at := None\<rparr>) (rc_active c)\<rparr>)
      else rtbh_blackhole contains c target now Manual)"

definition rtbh_manual_remove ::
  "rtbh_controller \<Rightarrow> ip_addr \<Rightarrow> rtbh_action list \<times> rtbh_controller"
where
  "rtbh_manual_remove c target =
     (if hm_get (rc_active c) target \<noteq> None
      then ([Withdraw (host_prefix target)], c\<lparr>rc_active := hm_remove target (rc_active c)\<rparr>)
      else ([], c))"

definition rtbh_due :: "rtbh_config \<Rightarrow> nat \<Rightarrow> active_entry \<Rightarrow> bool" where
  "rtbh_due cfg now e =
     (let hold_ms = as_millis_u64 (rb_hold_down cfg);
          ttl_ms = map_option as_millis_u64 (rb_max_ttl cfg);
          cleared_due = (ae_clear_requested_at e \<noteq> None \<and> hold_ms \<le> now - ae_announced_at e);
          ttl_due = (ae_origin e = Auto \<and>
            (case ttl_ms of None \<Rightarrow> False | Some ttl \<Rightarrow> ttl \<le> now - ae_last_activity e))
      in cleared_due \<or> ttl_due)"

definition rtbh_tick :: "rtbh_controller \<Rightarrow> nat \<Rightarrow> rtbh_action list \<times> rtbh_controller" where
  "rtbh_tick c now =
     (let expired = map fst (filter (\<lambda>(target, e). rtbh_due (rc_config c) now e) (rc_active c))
      in (map (\<lambda>t. Withdraw (host_prefix t)) expired,
          c\<lparr>rc_active := fold hm_remove expired (rc_active c)\<rparr>))"

definition rtbh_resume ::
  "contains \<Rightarrow> rtbh_controller \<Rightarrow> ip_addr \<Rightarrow> nat \<Rightarrow> blackhole_origin \<Rightarrow> rtbh_action list \<times> rtbh_controller"
where
  "rtbh_resume contains c target announced_at orig = insert_blackhole contains c target announced_at orig"

definition active_blackholes :: "rtbh_controller \<Rightarrow> (ip_addr \<times> nat \<times> blackhole_origin) list" where
  "active_blackholes c = map (\<lambda>(t, e). (t, ae_announced_at e, ae_origin e)) (rc_active c)"

definition rtbh_rollback :: "rtbh_controller \<Rightarrow> ip_addr \<Rightarrow> rtbh_controller" where
  "rtbh_rollback c target = c\<lparr>rc_active := hm_remove target (rc_active c)\<rparr>"

section \<open>Runs of the controller\<close>

datatype rtbh_op =
    OnEvent detection_event nat
  | ManualAdd ip_addr nat
  | ManualRemove ip_addr
  | Tick nat
  | Resume ip_addr nat blackhole_origin
  | Rollback ip_addr

fun rtbh_exec :: "contains \<Rightarrow> rtbh_op \<Rightarrow> rtbh_controller \<Rightarrow> rtbh_action list \<times> rtbh_controller" where
  "rtbh_exec contains (OnEvent ev now) c = rtbh_on_event contains c ev now"
| "rtbh_exec contains (ManualAdd t now) c = rtbh_manual_add contains c t now"
| "rtbh_exec contains (ManualRemove t) c = rtbh_manual_remove c t"
| "rtbh_exec contains (Tick now) c = rtbh_tick c now"
| "rtbh_exec contains (Resume t at_ms orig) c = rtbh_resume contains c t at_ms orig"
| "rtbh_exec contains (Rollback t) c = ([], rtbh_rollback c t)"

fun rtbh_run :: "contains \<Rightarrow> rtbh_op list \<Rightarrow> rtbh_controller \<Rightarrow> rtbh_action list \<times> rtbh_controller" where
  "rtbh_run contains [] c = ([], c)"
| "rtbh_run contains (oper # opers) c =
     (case rtbh_exec contains oper c of (acts, c') \<Rightarrow>
        case rtbh_run contains opers c' of (acts', c'') \<Rightarrow> (acts @ acts', c''))"

lemma snd_rtbh_run:
  "snd (rtbh_run contains opers c) = fold (\<lambda>oper c. snd (rtbh_exec contains oper c)) opers c"
  by (induction opers arbitrary: c) (simp_all add: case_prod_beta)

lemma rtbh_run_append:
  "rtbh_run contains (xs @ ys) c =
     (case rtbh_run contains xs c of (a, c') \<Rightarrow> case rtbh_run contains ys c' of (b, c'') \<Rightarrow> (a @ b, c''))"
  by (induction xs arbitrary: c) (simp_all add: case_prod_beta)

text \<open>The target an operation is about; a tick is about none in particular.\<close>

fun rtbh_op_target :: "rtbh_op \<Rightarrow> ip_addr option" where
  "rtbh_op_target (OnEvent ev now) = Some (event_target ev)"
| "rtbh_op_target (ManualAdd t now) = Some t"
| "rtbh_op_target (ManualRemove t) = Some t"
| "rtbh_op_target (Tick now) = None"
| "rtbh_op_target (Resume t at_ms orig) = Some t"
| "rtbh_op_target (Rollback t) = Some t"

lemmas rtbh_op_defs =
  insert_blackhole_def rtbh_blackhole_def request_clear_def rtbh_manual_add_def
  rtbh_manual_remove_def rtbh_tick_def rtbh_resume_def rtbh_rollback_def Let_def

lemma host_prefix_inject [simp]: "host_prefix a = host_prefix b \<longleftrightarrow> a = b"
  by (cases a; cases b) simp_all

lemma host_prefix_host: "is_host_route (host_prefix t)"
  by (cases t) simp_all

lemma net_addr_host_prefix [simp]: "net_addr (host_prefix t) = t"
  by (cases t) simp_all

lemma rtbh_host_route_Some:
  "rtbh_host_route cfg t = Some r \<Longrightarrow> r_prefix r = host_prefix t \<and> r_origin r = Igp
     \<and> r_communities r = rb_blackhole_communities cfg \<and> r_large_communities r = []"
  by (auto simp: rtbh_host_route_def split: option.splits)

lemma rtbh_host_route_ex: "rtbh_host_route cfg t \<noteq> None \<longleftrightarrow> rtbh_has_next_hop cfg t"
  by (auto simp: rtbh_host_route_def rtbh_has_next_hop_def split: ip_addr.splits option.splits)

lemma rtbh_exec_config [simp]: "rc_config (snd (rtbh_exec contains oper c)) = rc_config c"
proof (cases oper)
  case (OnEvent ev now)
  then show ?thesis by (cases ev) (auto simp: rtbh_op_defs split: option.splits)
qed (auto simp: rtbh_op_defs split: option.splits)

subsection \<open>The shape of one operation\<close>

text \<open>
  Every operation is one of four changes of the table: nothing but adjusting entries, inserting
  one admissible target with a matching announce, removing targets with matching withdraws, or
  the silent removal of a rollback.
\<close>

definition rtbh_admissible :: "contains \<Rightarrow> rtbh_config \<Rightarrow> ip_addr \<Rightarrow> bool" where
  "rtbh_admissible contains cfg t \<longleftrightarrow>
     rtbh_is_eligible contains cfg t \<and> \<not> rtbh_is_protected contains cfg t \<and> rtbh_has_next_hop cfg t"

lemma insert_blackhole_cases:
  obtains (refused) "fst (insert_blackhole contains c t now orig) = []"
      "rc_active (snd (insert_blackhole contains c t now orig)) = rc_active c"
  | (refreshed) "fst (insert_blackhole contains c t now orig) = []" "hm_get (rc_active c) t \<noteq> None"
      "rc_active (snd (insert_blackhole contains c t now orig)) = hm_adjust t
         (\<lambda>e. e\<lparr>ae_clear_requested_at := None, ae_last_activity := now\<rparr>) (rc_active c)"
  | (inserted) r where "fst (insert_blackhole contains c t now orig) = [Announce r]"
      "rtbh_host_route (rc_config c) t = Some r" "rtbh_admissible contains (rc_config c) t"
      "hm_get (rc_active c) t = None" "hm_len (rc_active c) < rb_max_blackholes (rc_config c)"
      "rc_active (snd (insert_blackhole contains c t now orig)) = hm_insert t
         \<lparr>ae_announced_at = now, ae_last_activity = now, ae_origin = orig,
          ae_clear_requested_at = None\<rparr> (rc_active c)"
proof -
  consider "rtbh_is_protected contains (rc_config c) t \<or> \<not> rtbh_is_eligible contains (rc_config c) t"
    | "\<not> rtbh_is_protected contains (rc_config c) t" "rtbh_is_eligible contains (rc_config c) t"
      "hm_get (rc_active c) t \<noteq> None"
    | "\<not> rtbh_is_protected contains (rc_config c) t" "rtbh_is_eligible contains (rc_config c) t"
      "hm_get (rc_active c) t = None"
    by blast
  then show thesis
  proof cases
    case 1 then show thesis by (intro refused) (auto simp: insert_blackhole_def Let_def)
  next
    case 2 then show thesis by (intro refreshed) (auto simp: insert_blackhole_def Let_def)
  next
    case 3
    show thesis
    proof (cases "rb_max_blackholes (rc_config c) \<le> hm_len (rc_active c)
        \<or> rtbh_host_route (rc_config c) t = None")
      case True with 3 show thesis by (intro refused) (auto simp: insert_blackhole_def Let_def)
    next
      case False
      then obtain r where r: "rtbh_host_route (rc_config c) t = Some r" by auto
      with 3 False show thesis
        by (intro inserted [of r])
          (auto simp: insert_blackhole_def Let_def rtbh_admissible_def rtbh_host_route_ex [symmetric])
    qed
  qed
qed

lemma rtbh_exec_cases:
  obtains (adjusted) t f where "fst (rtbh_exec contains oper c) = []"
      "rc_active (snd (rtbh_exec contains oper c)) = hm_adjust t f (rc_active c)"
  | (inserted) t r e where "fst (rtbh_exec contains oper c) = [Announce r]"
      "r_prefix r = host_prefix t" "rtbh_host_route (rc_config c) t = Some r"
      "rtbh_admissible contains (rc_config c) t"
      "hm_len (rc_active c) < rb_max_blackholes (rc_config c)"
      "rc_active (snd (rtbh_exec contains oper c)) = hm_insert t e (rc_active c)"
  | (removed) ts where "fst (rtbh_exec contains oper c) = map (\<lambda>t. Withdraw (host_prefix t)) ts"
      "rc_active (snd (rtbh_exec contains oper c)) = fold hm_remove ts (rc_active c)"
  | (rolled_back) t where "oper = Rollback t" "fst (rtbh_exec contains oper c) = []"
      "rc_active (snd (rtbh_exec contains oper c)) = hm_remove t (rc_active c)"
proof -
  have ins: thesis if "rtbh_exec contains oper c = insert_blackhole contains c t now orig" for t now orig
    by (rule insert_blackhole_cases [of contains c t now orig])
      (auto simp: that dest: rtbh_host_route_Some intro: adjusted inserted removed [of "[]"])
  have clear: thesis if op: "rtbh_exec contains oper c = request_clear c t now" for t now
  proof (cases "hm_get (rc_active c) t")
    case None then show thesis by (intro removed [of "[]"]) (simp_all add: op request_clear_def)
  next
    case (Some e)
    then show thesis
      by (cases "ae_origin e = Manual";
          cases "as_millis_u64 (rb_hold_down (rc_config c)) \<le> now - ae_announced_at e")
        (auto simp: op request_clear_def Let_def
          intro: removed [of "[]"] removed [of "[t]"] adjusted [of t "\<lambda>e. e\<lparr>ae_clear_requested_at := Some now\<rparr>"])
  qed
  show thesis
  proof (cases oper)
    case (OnEvent ev now)
    show thesis
    proof (cases ev)
      case (Opened d) then show thesis by (intro ins) (simp add: OnEvent rtbh_blackhole_def)
    next
      case (Updated d) then show thesis by (auto simp: OnEvent intro: adjusted)
    next
      case (Cleared t a) then show thesis by (intro clear) (simp add: OnEvent)
    qed
  next
    case (ManualAdd t now)
    show thesis
    proof (cases "hm_get (rc_active c) t = None")
      case True then show thesis by (intro ins) (simp add: ManualAdd rtbh_manual_add_def rtbh_blackhole_def)
    next
      case False then show thesis
        by (intro adjusted [of t "\<lambda>e. e\<lparr>ae_origin := Manual, ae_clear_requested_at := None\<rparr>"])
          (auto simp: ManualAdd rtbh_manual_add_def)
    qed
  next
    case (ManualRemove t)
    then show thesis
      by (cases "hm_get (rc_active c) t") (auto simp: rtbh_manual_remove_def intro: removed [of "[]"] removed [of "[t]"])
  next
    case (Tick now)
    then show thesis
      by (intro removed [of "map fst (filter (\<lambda>(t, e). rtbh_due (rc_config c) now e) (rc_active c))"])
        (simp_all add: rtbh_tick_def)
  next
    case (Resume t a orig) then show thesis by (intro ins) (simp add: rtbh_resume_def)
  next
    case (Rollback t) then show thesis by (intro rolled_back) (simp_all add: rtbh_rollback_def)
  qed
qed

lemma rtbh_exec_wf:
  "hm_wf (rc_active c) \<Longrightarrow> hm_wf (rc_active (snd (rtbh_exec contains oper c)))"
  by (rule rtbh_exec_cases [of contains oper c]) auto

lemma rtbh_run_wf:
  "hm_wf (rc_active c) \<Longrightarrow> hm_wf (rc_active (snd (rtbh_run contains opers c)))"
  unfolding snd_rtbh_run by (induction opers arbitrary: c) (simp_all add: rtbh_exec_wf)

lemma rtbh_run_config [simp]: "rc_config (snd (rtbh_run contains opers c)) = rc_config c"
  unfolding snd_rtbh_run by (induction opers arbitrary: c) simp_all

interpretation rtbh: mitigation_table "\<lambda>c. hm_keys (rc_active c)" rc_config rb_max_blackholes
  "rtbh_admissible contains" "\<lambda>oper c. snd (rtbh_exec contains oper c)"
  for contains
proof unfold_locales
  fix oper c
  show "rc_config (snd (rtbh_exec contains oper c)) = rc_config c" by simp
  assume "distinct (hm_keys (rc_active c))"
  then have wf: "hm_wf (rc_active c)" by (simp add: hm_wf_def hm_keys_def)
  show "(table_step (rtbh_admissible contains (rc_config c)) (rb_max_blackholes (rc_config c)))\<^sup>*\<^sup>*
     (hm_keys (rc_active c)) (hm_keys (rc_active (snd (rtbh_exec contains oper c))))"
    by (rule r_into_rtranclp, rule rtbh_exec_cases [of contains oper c])
      (auto simp: wf intro: table_step_insert table_step_same)
qed

section \<open>Announce and withdraw streams\<close>

text \<open>The routing table a stream of actions builds, as a set of prefixes.\<close>

fun rib_apply :: "rtbh_action \<Rightarrow> ip_net set \<Rightarrow> ip_net set" where
  "rib_apply (Announce r) S = insert (r_prefix r) S"
| "rib_apply (Withdraw p) S = S - {p}"

definition rtbh_prefixes :: "rtbh_controller \<Rightarrow> ip_net set" where
  "rtbh_prefixes c = host_prefix ` set (hm_keys (rc_active c))"

lemma fold_rib_withdraw:
  "fold rib_apply (map (\<lambda>t. Withdraw (host_prefix t)) ts) S = S - host_prefix ` set ts"
  by (induction ts arbitrary: S) auto

lemma rtbh_exec_sync:
  assumes "\<forall>t. oper \<noteq> Rollback t"
  shows "fold rib_apply (fst (rtbh_exec contains oper c)) (rtbh_prefixes c)
    = rtbh_prefixes (snd (rtbh_exec contains oper c))"
  by (rule rtbh_exec_cases [of contains oper c])
    (use assms in \<open>auto simp: rtbh_prefixes_def fold_rib_withdraw\<close>)

lemma rtbh_run_sync:
  assumes "\<forall>t. Rollback t \<notin> set opers"
  shows "fold rib_apply (fst (rtbh_run contains opers c)) (rtbh_prefixes c)
    = rtbh_prefixes (snd (rtbh_run contains opers c))"
  using assms
proof (induction opers arbitrary: c)
  case (Cons oper opers)
  have "fold rib_apply (fst (rtbh_exec contains oper c)) (rtbh_prefixes c)
    = rtbh_prefixes (snd (rtbh_exec contains oper c))"
    using Cons.prems by (intro rtbh_exec_sync) auto
  with Cons show ?case by (simp add: case_prod_beta)
qed simp

section \<open>Manual blackholes\<close>

text \<open>A manual entry never has a pending clear.\<close>

definition manual_uncleared :: "rtbh_controller \<Rightarrow> bool" where
  "manual_uncleared c \<longleftrightarrow> hm_wf (rc_active c) \<and>
     (\<forall>t e. hm_get (rc_active c) t = Some e \<longrightarrow> ae_origin e = Manual \<longrightarrow> ae_clear_requested_at e = None)"

lemma manual_uncleared_new: "manual_uncleared (rtbh_new cfg)"
  by (simp add: manual_uncleared_def rtbh_new_def)

lemma manual_uncleared_insert:
  "manual_uncleared c \<Longrightarrow> manual_uncleared (snd (insert_blackhole contains c t now orig))"
  by (rule insert_blackhole_cases [of contains c t now orig]) (auto simp: manual_uncleared_def)

lemma manual_uncleared_exec:
  assumes "manual_uncleared c"
  shows "manual_uncleared (snd (rtbh_exec contains oper c))"
proof (cases oper)
  case (OnEvent ev now)
  then show ?thesis using assms
    by (cases ev) (auto simp: rtbh_blackhole_def manual_uncleared_insert,
      auto simp: manual_uncleared_def request_clear_def Let_def split: option.splits if_splits)
next
  case (Tick now)
  then show ?thesis using assms by (auto simp: manual_uncleared_def rtbh_tick_def split: if_splits)
qed (use assms in \<open>auto simp: rtbh_manual_add_def rtbh_blackhole_def rtbh_resume_def manual_uncleared_insert\<close>,
  auto simp: manual_uncleared_def rtbh_manual_remove_def rtbh_rollback_def split: if_splits)

lemma manual_uncleared_run:
  "manual_uncleared c \<Longrightarrow> manual_uncleared (snd (rtbh_run contains opers c))"
  unfolding snd_rtbh_run by (induction opers arbitrary: c) (simp_all add: manual_uncleared_exec)

text \<open>\<open>manual_at c t\<close>: an operator's blackhole of \<open>t\<close> is in force.\<close>

definition manual_at :: "rtbh_controller \<Rightarrow> ip_addr \<Rightarrow> bool" where
  "manual_at c t \<longleftrightarrow> (\<exists>e. hm_get (rc_active c) t = Some e \<and> ae_origin e = Manual)"

lemma manual_at_insert:
  assumes "manual_at c t"
  shows "manual_at (snd (insert_blackhole contains c u now orig)) t"
  by (rule insert_blackhole_cases [of contains c u now orig])
    (use assms in \<open>auto simp: manual_at_def\<close>)

lemma insert_blackhole_no_withdraw: "Withdraw p \<notin> set (fst (insert_blackhole contains c u now orig))"
  by (rule insert_blackhole_cases [of contains c u now orig]) auto

lemma rtbh_tick_get:
  "hm_wf (rc_active c) \<Longrightarrow> hm_get (rc_active (snd (rtbh_tick c now))) t =
     (case hm_get (rc_active c) t of None \<Rightarrow> None
      | Some e \<Rightarrow> if rtbh_due (rc_config c) now e then None else Some e)"
  by (simp add: rtbh_tick_def Let_def hm_get_fold_remove_select del: hm_get_fold_remove)

lemma rtbh_tick_withdraws:
  "hm_wf (rc_active c) \<Longrightarrow> Withdraw p \<in> set (fst (rtbh_tick c now)) \<longleftrightarrow>
     (\<exists>t e. p = host_prefix t \<and> hm_get (rc_active c) t = Some e \<and> rtbh_due (rc_config c) now e)"
  by (auto simp: rtbh_tick_def hm_mem_get image_iff)

lemma manual_not_due:
  "manual_uncleared c \<Longrightarrow> hm_get (rc_active c) t = Some e \<Longrightarrow> ae_origin e = Manual \<Longrightarrow>
     \<not> rtbh_due (rc_config c) now e"
  by (auto simp: manual_uncleared_def rtbh_due_def Let_def)

lemma manual_at_exec:
  assumes inv: "manual_uncleared c" and man: "manual_at c t"
    and oper: "oper \<noteq> ManualRemove t" "oper \<noteq> Rollback t"
  shows "manual_at (snd (rtbh_exec contains oper c)) t"
    and "Withdraw (host_prefix t) \<notin> set (fst (rtbh_exec contains oper c))"
proof -
  have clear: "manual_at (snd (request_clear c u now)) t \<and>
      Withdraw (host_prefix t) \<notin> set (fst (request_clear c u now))" for u now
    using man by (auto simp: request_clear_def Let_def manual_at_def split: option.splits)
  have tick: "manual_at (snd (rtbh_tick c now)) t \<and> Withdraw (host_prefix t) \<notin> set (fst (rtbh_tick c now))" for now
    using man inv manual_not_due [OF inv]
    by (auto simp: rtbh_tick_get rtbh_tick_withdraws manual_at_def manual_uncleared_def)
  have "manual_at (snd (rtbh_exec contains oper c)) t \<and>
      Withdraw (host_prefix t) \<notin> set (fst (rtbh_exec contains oper c))"
  proof (cases oper)
    case (OnEvent ev now)
    then show ?thesis using man clear
      by (cases ev) (auto simp: rtbh_blackhole_def manual_at_insert insert_blackhole_no_withdraw,
        auto simp: manual_at_def)
  next
    case (ManualAdd u now)
    then show ?thesis using man
      by (auto simp: rtbh_manual_add_def rtbh_blackhole_def manual_at_insert insert_blackhole_no_withdraw)
        (auto simp: manual_at_def)
  next
    case (ManualRemove u)
    then show ?thesis using man oper by (auto simp: rtbh_manual_remove_def manual_at_def)
  next
    case (Tick now) then show ?thesis using tick by simp
  next
    case (Resume u a orig)
    then show ?thesis using man by (simp add: rtbh_resume_def manual_at_insert insert_blackhole_no_withdraw)
  next
    case (Rollback u)
    then show ?thesis using man oper by (auto simp: rtbh_rollback_def manual_at_def)
  qed
  then show "manual_at (snd (rtbh_exec contains oper c)) t"
    and "Withdraw (host_prefix t) \<notin> set (fst (rtbh_exec contains oper c))" by auto
qed

lemma manual_at_run:
  assumes "manual_uncleared c" "manual_at c t" "ManualRemove t \<notin> set opers" "Rollback t \<notin> set opers"
  shows "manual_at (snd (rtbh_run contains opers c)) t \<and>
    Withdraw (host_prefix t) \<notin> set (fst (rtbh_run contains opers c))"
  using assms
proof (induction opers arbitrary: c)
  case (Cons oper opers)
  have "manual_uncleared (snd (rtbh_exec contains oper c))"
    using Cons.prems by (intro manual_uncleared_exec)
  moreover have "manual_at (snd (rtbh_exec contains oper c)) t"
    "Withdraw (host_prefix t) \<notin> set (fst (rtbh_exec contains oper c))"
    using Cons.prems manual_at_exec by auto
  ultimately show ?case using Cons by (auto simp: case_prod_beta)
qed simp

section \<open>When a blackhole is withdrawn\<close>

text \<open>
  The reasons for which the code may withdraw \<open>t\<close>: the operator removed it, or an automatic entry
  was cleared after its hold-down, or it outlived its time-to-live without activity.
\<close>

definition hold_elapsed :: "rtbh_config \<Rightarrow> active_entry \<Rightarrow> nat \<Rightarrow> bool" where
  "hold_elapsed cfg e now \<longleftrightarrow> as_millis_u64 (rb_hold_down cfg) \<le> now - ae_announced_at e"

definition ttl_elapsed :: "rtbh_config \<Rightarrow> active_entry \<Rightarrow> nat \<Rightarrow> bool" where
  "ttl_elapsed cfg e now \<longleftrightarrow>
     (\<exists>d. rb_max_ttl cfg = Some d \<and> as_millis_u64 d \<le> now - ae_last_activity e)"

definition withdraw_reason :: "rtbh_controller \<Rightarrow> ip_addr \<Rightarrow> rtbh_op \<Rightarrow> bool" where
  "withdraw_reason c t oper \<longleftrightarrow> oper = ManualRemove t \<or>
     (\<exists>e now. hm_get (rc_active c) t = Some e \<and> ae_origin e = Auto \<and>
        ((\<exists>a. oper = OnEvent (Cleared t a) now) \<and> hold_elapsed (rc_config c) e now \<or>
         oper = Tick now \<and> ae_clear_requested_at e \<noteq> None \<and> hold_elapsed (rc_config c) e now \<or>
         oper = Tick now \<and> ttl_elapsed (rc_config c) e now))"

lemma rtbh_due_iff:
  "rtbh_due cfg now e \<longleftrightarrow>
     ae_clear_requested_at e \<noteq> None \<and> hold_elapsed cfg e now \<or> ae_origin e = Auto \<and> ttl_elapsed cfg e now"
  by (auto simp: rtbh_due_def Let_def hold_elapsed_def ttl_elapsed_def split: option.splits)

lemma withdraw_justified:
  assumes inv: "manual_uncleared c"
    and w: "Withdraw p \<in> set (fst (rtbh_exec contains oper c))"
  obtains t where "p = host_prefix t" "withdraw_reason c t oper"
proof (cases oper)
  case (OnEvent ev now)
  with w obtain t a where ev: "ev = Cleared t a"
    by (cases ev) (auto simp: rtbh_blackhole_def insert_blackhole_no_withdraw)
  with OnEvent w show thesis
    by (intro that [of t]) (auto simp: request_clear_def Let_def withdraw_reason_def hold_elapsed_def
      intro: blackhole_origin.exhaust split: option.splits if_splits)
next
  case (Tick now)
  with w inv obtain t e where t: "p = host_prefix t" "hm_get (rc_active c) t = Some e"
      "rtbh_due (rc_config c) now e"
    by (auto simp: rtbh_tick_withdraws manual_uncleared_def)
  with inv have "ae_origin e = Auto" using manual_not_due [OF inv t(2)]
    by (cases "ae_origin e") auto
  with t Tick show thesis by (intro that [of t]) (auto simp: withdraw_reason_def rtbh_due_iff)
qed (use w in \<open>auto simp: rtbh_manual_add_def rtbh_blackhole_def rtbh_resume_def
    insert_blackhole_no_withdraw rtbh_manual_remove_def withdraw_reason_def intro: that split: if_splits\<close>)

section \<open>A cleared attack is withdrawn\<close>

text \<open>\<open>t\<close> is gone, or it is an automatic entry announced at \<open>a\<close> that waits for its hold-down.\<close>

definition clearing :: "rtbh_controller \<Rightarrow> ip_addr \<Rightarrow> nat \<Rightarrow> bool" where
  "clearing c t a \<longleftrightarrow> hm_wf (rc_active c) \<and>
     (case hm_get (rc_active c) t of None \<Rightarrow> True
      | Some e \<Rightarrow> ae_announced_at e = a \<and> ae_clear_requested_at e \<noteq> None)"

lemma clearing_exec:
  assumes "clearing c t a" "rtbh_op_target oper \<noteq> Some t"
  shows "clearing (snd (rtbh_exec contains oper c)) t a"
proof -
  have other: "hm_get (rc_active (snd (insert_blackhole contains c u now orig))) t = hm_get (rc_active c) t"
    if "u \<noteq> t" for u now orig
    by (rule insert_blackhole_cases [of contains c u now orig]) (use that in auto)
  have "hm_get (rc_active (snd (rtbh_exec contains oper c))) t = hm_get (rc_active c) t
      \<or> hm_get (rc_active (snd (rtbh_exec contains oper c))) t = None"
  proof (cases oper)
    case (OnEvent ev now)
    then show ?thesis using assms other
      by (cases ev) (auto simp: rtbh_blackhole_def request_clear_def Let_def split: option.splits)
  next
    case (Tick now)
    then show ?thesis using assms by (auto simp: rtbh_tick_get clearing_def split: option.splits)
  qed (use assms other in \<open>auto simp: rtbh_manual_add_def rtbh_blackhole_def rtbh_resume_def
      rtbh_manual_remove_def rtbh_rollback_def\<close>)
  with assms show ?thesis by (auto simp: clearing_def rtbh_exec_wf)
qed

lemma clearing_run:
  assumes "clearing c t a" "\<forall>oper\<in>set opers. rtbh_op_target oper \<noteq> Some t"
  shows "clearing (snd (rtbh_run contains opers c)) t a"
  using assms
proof (induction opers arbitrary: c)
  case (Cons oper opers)
  then show ?case using clearing_exec [of c t a oper contains] by (simp add: case_prod_beta)
qed simp

lemma clearing_start:
  assumes "hm_wf (rc_active c)" "hm_get (rc_active c) t = Some e" "ae_origin e = Auto"
  shows "clearing (snd (rtbh_exec contains (OnEvent (Cleared t a) now) c)) t (ae_announced_at e)"
  using assms by (auto simp: clearing_def request_clear_def Let_def)

lemma clearing_tick:
  assumes "clearing c t a" "as_millis_u64 (rb_hold_down (rc_config c)) \<le> now - a"
  shows "hm_get (rc_active (snd (rtbh_tick c now))) t = None"
  using assms by (auto simp: clearing_def rtbh_tick_get rtbh_due_iff hold_elapsed_def split: option.splits)

section \<open>Properties\<close>

text \<open>A configuration for the concrete instances: 203.0.113.0/24 is eligible, 203.0.113.53 is
  protected, at most two blackholes, ten seconds of hold-down, one minute of time-to-live.\<close>

definition sample_rtbh_config :: rtbh_config where
  "sample_rtbh_config =
     \<lparr>rb_eligible_prefixes = [NetV4 0xCB007100 24], rb_blackhole_communities = [(65535, 666)],
      rb_next_hop_v4 = Some 0xC0000201, rb_next_hop_v6 = None, rb_max_blackholes = 2,
      rb_hold_down = 10000000000, rb_max_ttl = Some 60000000000,
      rb_protected_prefixes = [NetV4 0xCB007135 32]\<rparr>"

lemmas rtbh_eval =
  rtbh_op_defs sample_rtbh_config_def rtbh_new_def rtbh_is_eligible_def rtbh_is_protected_def
  rtbh_host_route_def hm_get_def hm_insert_def hm_remove_def hm_adjust_def hm_len_def
  as_millis_u64_def rtbh_due_def

text \<open>C4. After any sequence of detection events, operator commands, ticks, restarts and rollbacks,
  each target is blackholed at most once, the number of blackholes is within the configured cap, and
  every blackholed target is eligible, is not in a protected prefix and has a next hop.\<close>

theorem rtbh_table_safe:
  "let c = snd (rtbh_run contains opers (rtbh_new cfg)) in
     distinct (hm_keys (rc_active c)) \<and> hm_len (rc_active c) \<le> rb_max_blackholes cfg \<and>
     set (hm_keys (rc_active c)) \<subseteq> {t. rtbh_is_eligible contains cfg t \<and>
       \<not> rtbh_is_protected contains cfg t \<and> rtbh_has_next_hop cfg t}"
  using rtbh.run_from_empty [of "rtbh_new cfg" contains opers]
  by (auto simp: Let_def snd_rtbh_run rtbh.run_def table_safe_def rtbh_new_def hm_keys_def
      hm.len_keys rtbh_admissible_def)

text \<open>The announces and withdraws the controller emits are exactly the changes of its active
  table: replaying them on a routing table that holds the active prefixes gives the prefixes that
  are active afterwards.\<close>

lemma rtbh_stream_sync:
  assumes "\<forall>t. Rollback t \<notin> set opers"
  shows "fold rib_apply (fst (rtbh_run contains opers c)) (rtbh_prefixes c)
    = rtbh_prefixes (snd (rtbh_run contains opers c))"
  using assms by (rule rtbh_run_sync)

text \<open>An operator's blackhole stays in force, and no withdraw of it is emitted, through any
  sequence of detection events, ticks and other commands that does not itself remove it.\<close>

lemma rtbh_manual_kept:
  assumes "manual_at (snd (rtbh_run contains before (rtbh_new cfg))) t"
    and "ManualRemove t \<notin> set after" "Rollback t \<notin> set after"
  shows "manual_at (snd (rtbh_run contains (before @ after) (rtbh_new cfg))) t \<and>
    Withdraw (host_prefix t) \<notin>
      set (fst (rtbh_run contains after (snd (rtbh_run contains before (rtbh_new cfg)))))"
  using manual_at_run [OF manual_uncleared_run [OF manual_uncleared_new] assms]
  by (auto simp: rtbh_run_append case_prod_beta)

text \<open>Every withdraw emitted in a reachable state has a reason: the operator's removal, a
  cleared attack on an automatic blackhole whose hold-down has elapsed since the announce, or the
  expiry of the time-to-live of an automatic blackhole without activity.\<close>

lemma rtbh_withdraw_justified:
  assumes "c = snd (rtbh_run contains opers (rtbh_new cfg))"
    and "Withdraw p \<in> set (fst (rtbh_exec contains oper c))"
  shows "\<exists>t. p = host_prefix t \<and> withdraw_reason c t oper"
  using withdraw_justified [OF manual_uncleared_run [OF manual_uncleared_new]] assms by metis

text \<open>C11. A cleared attack ends: once an automatic blackhole has received \<open>Cleared\<close> and nothing
  re-asserts its target, the first tick after its hold-down leaves it inactive, whatever else
  happens to other targets in between.\<close>

theorem rtbh_clear_ends:
  assumes "c = snd (rtbh_run contains opers (rtbh_new cfg))"
    and "hm_get (rc_active c) t = Some e" "ae_origin e = Auto"
    and "\<forall>oper\<in>set later. rtbh_op_target oper \<noteq> Some t"
    and "as_millis_u64 (rb_hold_down cfg) \<le> now - ae_announced_at e"
  shows "hm_get (rc_active (snd (rtbh_run contains
      (OnEvent (Cleared t at_ms) cleared_at # later @ [Tick now]) c))) t = None"
proof -
  have wf: "hm_wf (rc_active c)"
    unfolding assms(1) by (rule rtbh_run_wf) (simp add: rtbh_new_def)
  have cfg: "rc_config c = cfg" by (simp add: assms(1)) (simp add: rtbh_new_def)
  let ?c' = "snd (rtbh_run contains later (snd (rtbh_exec contains (OnEvent (Cleared t at_ms) cleared_at) c)))"
  have "clearing ?c' t (ae_announced_at e)"
    using clearing_run [OF clearing_start [OF wf assms(2,3)] assms(4)] by simp
  moreover have "rc_config ?c' = cfg" by (simp only: rtbh_run_config rtbh_exec_config cfg)
  ultimately have "hm_get (rc_active (snd (rtbh_tick ?c' now))) t = None"
    using assms(5) by (intro clearing_tick) simp_all
  then show ?thesis by (simp add: case_prod_beta rtbh_run_append)
qed

theorem rtbh_clear_ends_witness:
  "hm_get (rc_active (snd (rtbh_run net_contains
      (OnEvent (Cleared (V4 0xCB007107) 100) 100 # [ManualAdd (V4 0xCB007108) 200] @ [Tick 10005])
      (snd (rtbh_run net_contains [Resume (V4 0xCB007107) 5 Auto] (rtbh_new sample_rtbh_config))))))
    (V4 0xCB007107) = None"
  by (rule rtbh_clear_ends [OF refl, where e = "\<lparr>ae_announced_at = 5, ae_last_activity = 5,
      ae_origin = Auto, ae_clear_requested_at = None\<rparr>"])
    (simp_all add: rtbh_eval)

end
