(* ===== verification/Flowspec_Controller.thy ===== *)
theory Flowspec_Controller
  imports Rtbh_Controller
begin

text \<open>
  The FlowSpec decision engine of \<^verbatim>\<open>blackwall-rtbh/src/flowspec_controller.rs\<close>. A rule is keyed by
  destination, protocol and port; the action is not part of the key, so a re-assertion with another
  rate replaces the stored rule, announces it again and remembers the one it replaced.
\<close>

section \<open>State\<close>

type_synonym flow_key = "ip_net \<times> u8 \<times> u16"

record flow_entry =
  fe_rule :: flowspec_rule
  fe_announced_at :: nat
  fe_last_activity :: nat
  fe_origin :: blackhole_origin
  fe_clear_requested_at :: "nat option"
  fe_pending_prior :: "flowspec_rule option"

record flowspec_config =
  fs_eligible_prefixes :: "ip_net list"
  fs_max_rules :: nat
  fs_hold_down :: duration
  fs_max_ttl :: "duration option"
  fs_protected_prefixes :: "ip_net list"

datatype flowspec_action = FsAnnounce flowspec_rule | FsWithdraw flowspec_rule

record flowspec_controller =
  fc_config :: flowspec_config
  fc_active :: "(flow_key, flow_entry) hashmap"
  fc_protected_skipped :: nat

section \<open>Operations\<close>

definition fs_new :: "flowspec_config \<Rightarrow> flowspec_controller" where
  "fs_new cfg = \<lparr>fc_config = cfg, fc_active = [], fc_protected_skipped = 0\<rparr>"

definition key_of :: "flowspec_rule \<Rightarrow> flow_key" where
  "key_of rule = (fl_dst rule,
     case fl_protocol rule of None \<Rightarrow> 0 | Some p \<Rightarrow> p,
     case fl_dst_port rule of None \<Rightarrow> 0 | Some p \<Rightarrow> p)"

definition fs_is_eligible :: "contains \<Rightarrow> flowspec_config \<Rightarrow> ip_addr \<Rightarrow> bool" where
  "fs_is_eligible contains cfg target = (\<exists>p\<in>set (fs_eligible_prefixes cfg). contains p target)"

definition fs_is_protected :: "contains \<Rightarrow> flowspec_config \<Rightarrow> ip_addr \<Rightarrow> bool" where
  "fs_is_protected contains cfg target = (\<exists>p\<in>set (fs_protected_prefixes cfg). contains p target)"

text \<open>Replace the rule of an entry, remembering the previous one for a rollback.\<close>

definition fe_replace :: "flowspec_rule \<Rightarrow> flow_entry \<Rightarrow> flow_entry" where
  "fe_replace rule e = e\<lparr>fe_pending_prior := Some (fe_rule e), fe_rule := rule\<rparr>"

definition insert_rule ::
  "contains \<Rightarrow> flowspec_controller \<Rightarrow> ip_addr \<Rightarrow> flowspec_rule \<Rightarrow> nat \<Rightarrow> blackhole_origin \<Rightarrow>
   flowspec_action list \<times> flowspec_controller"
where
  "insert_rule contains c target rule announced_at orig =
     (let cfg = fc_config c; key = key_of rule in
      if fs_is_protected contains cfg target
      then ([], c\<lparr>fc_protected_skipped := sat_inc (fc_protected_skipped c)\<rparr>)
      else if \<not> fs_is_eligible contains cfg target then ([], c)
      else case hm_get (fc_active c) key of
        Some e \<Rightarrow>
          let e = e\<lparr>fe_clear_requested_at := None, fe_last_activity := announced_at\<rparr> in
          if \<not> action_eq (fl_action (fe_rule e)) (fl_action rule)
          then ([FsAnnounce rule], c\<lparr>fc_active := hm_insert key (fe_replace rule e) (fc_active c)\<rparr>)
          else ([], c\<lparr>fc_active := hm_insert key e (fc_active c)\<rparr>)
      | None \<Rightarrow>
          if fs_max_rules cfg \<le> hm_len (fc_active c) then ([], c)
          else ([FsAnnounce rule], c\<lparr>fc_active := hm_insert key
                  \<lparr>fe_rule = rule, fe_announced_at = announced_at, fe_last_activity = announced_at,
                   fe_origin = orig, fe_clear_requested_at = None, fe_pending_prior = None\<rparr> (fc_active c)\<rparr>))"

definition flow_rule_for :: "ip_addr \<Rightarrow> u8 \<times> u16 \<times> f32 \<Rightarrow> flowspec_rule" where
  "flow_rule_for target r = (case r of (protocol, dst_port, rate) \<Rightarrow>
     \<lparr>fl_dst = host_prefix target, fl_protocol = Some protocol, fl_dst_port = Some dst_port,
      fl_action = TrafficRate rate\<rparr>)"

fun fs_install ::
  "contains \<Rightarrow> flowspec_controller \<Rightarrow> ip_addr \<Rightarrow> (u8 \<times> u16 \<times> f32) list \<Rightarrow> nat \<Rightarrow>
   flowspec_action list \<times> flowspec_controller"
where
  "fs_install contains c target [] now = ([], c)"
| "fs_install contains c target (r # rules) now =
     (case insert_rule contains c target (flow_rule_for target r) now Auto of (acts, c') \<Rightarrow>
        case fs_install contains c' target rules now of (acts', c'') \<Rightarrow> (acts @ acts', c''))"

fun fs_clear_keys ::
  "flowspec_controller \<Rightarrow> flow_key list \<Rightarrow> nat \<Rightarrow> flowspec_action list \<times> flowspec_controller"
where
  "fs_clear_keys c [] now = ([], c)"
| "fs_clear_keys c (key # ks) now =
     (let hold_ms = as_millis_u64 (fs_hold_down (fc_config c));
          (acts, c') = (case hm_get (fc_active c) key of
             None \<Rightarrow> ([], c)
           | Some e \<Rightarrow>
               if fe_origin e = Manual then ([], c)
               else if hold_ms \<le> now - fe_announced_at e
               then ([FsWithdraw (fe_rule e)], c\<lparr>fc_active := hm_remove key (fc_active c)\<rparr>)
               else ([], c\<lparr>fc_active := hm_insert key (e\<lparr>fe_clear_requested_at := Some now\<rparr>) (fc_active c)\<rparr>))
      in case fs_clear_keys c' ks now of (acts', c'') \<Rightarrow> (acts @ acts', c''))"

definition fs_clear_target ::
  "flowspec_controller \<Rightarrow> ip_addr \<Rightarrow> nat \<Rightarrow> flowspec_action list \<times> flowspec_controller"
where
  "fs_clear_target c target now =
     fs_clear_keys c (filter (\<lambda>k. fst k = host_prefix target) (hm_keys (fc_active c))) now"

definition fs_manual_add ::
  "contains \<Rightarrow> flowspec_controller \<Rightarrow> flowspec_rule \<Rightarrow> nat \<Rightarrow> flowspec_action list \<times> flowspec_controller"
where
  "fs_manual_add contains c rule now =
     (let key = key_of rule in
      case hm_get (fc_active c) key of
        Some e \<Rightarrow>
          let e = e\<lparr>fe_origin := Manual, fe_clear_requested_at := None\<rparr> in
          if \<not> action_eq (fl_action (fe_rule e)) (fl_action rule)
          then ([FsAnnounce rule], c\<lparr>fc_active := hm_insert key (fe_replace rule e) (fc_active c)\<rparr>)
          else ([], c\<lparr>fc_active := hm_insert key e (fc_active c)\<rparr>)
      | None \<Rightarrow> insert_rule contains c (net_addr (fl_dst rule)) rule now Manual)"

definition fs_manual_remove ::
  "flowspec_controller \<Rightarrow> flowspec_rule \<Rightarrow> flowspec_action list \<times> flowspec_controller"
where
  "fs_manual_remove c rule =
     (case hm_get (fc_active c) (key_of rule) of
        Some e \<Rightarrow> ([FsWithdraw (fe_rule e)], c\<lparr>fc_active := hm_remove (key_of rule) (fc_active c)\<rparr>)
      | None \<Rightarrow> ([], c))"

definition fs_due :: "flowspec_config \<Rightarrow> nat \<Rightarrow> flow_entry \<Rightarrow> bool" where
  "fs_due cfg now e =
     (let hold_ms = as_millis_u64 (fs_hold_down cfg);
          ttl_ms = map_option as_millis_u64 (fs_max_ttl cfg);
          cleared_due = (fe_clear_requested_at e \<noteq> None \<and> hold_ms \<le> now - fe_announced_at e);
          ttl_due = (fe_origin e = Auto \<and>
            (case ttl_ms of None \<Rightarrow> False | Some ttl \<Rightarrow> ttl \<le> now - fe_last_activity e))
      in cleared_due \<or> ttl_due)"

fun fs_withdraw_keys ::
  "flowspec_controller \<Rightarrow> flow_key list \<Rightarrow> flowspec_action list \<times> flowspec_controller"
where
  "fs_withdraw_keys c [] = ([], c)"
| "fs_withdraw_keys c (key # ks) =
     (case hm_get (fc_active c) key of
        None \<Rightarrow> fs_withdraw_keys c ks
      | Some e \<Rightarrow>
          (case fs_withdraw_keys (c\<lparr>fc_active := hm_remove key (fc_active c)\<rparr>) ks of
             (acts, c') \<Rightarrow> (FsWithdraw (fe_rule e) # acts, c')))"

definition fs_tick :: "flowspec_controller \<Rightarrow> nat \<Rightarrow> flowspec_action list \<times> flowspec_controller" where
  "fs_tick c now =
     fs_withdraw_keys c (map fst (filter (\<lambda>(k, e). fs_due (fc_config c) now e) (fc_active c)))"

definition fs_resume ::
  "contains \<Rightarrow> flowspec_controller \<Rightarrow> flowspec_rule \<Rightarrow> nat \<Rightarrow> blackhole_origin \<Rightarrow>
   flowspec_action list \<times> flowspec_controller"
where
  "fs_resume contains c rule announced_at orig =
     insert_rule contains c (net_addr (fl_dst rule)) rule announced_at orig"

definition fs_active_rules :: "flowspec_controller \<Rightarrow> (flow_key \<times> nat \<times> blackhole_origin) list" where
  "fs_active_rules c = map (\<lambda>(k, e). (k, fe_announced_at e, fe_origin e)) (fc_active c)"

definition fs_active_rule :: "flowspec_controller \<Rightarrow> flow_key \<Rightarrow> flowspec_rule option" where
  "fs_active_rule c key = map_option fe_rule (hm_get (fc_active c) key)"

definition fs_refresh_target :: "flowspec_controller \<Rightarrow> ip_addr \<Rightarrow> nat \<Rightarrow> flowspec_controller" where
  "fs_refresh_target c target now = c\<lparr>fc_active :=
     map (\<lambda>(k, e). (k, if fst k = host_prefix target
       then e\<lparr>fe_clear_requested_at := None, fe_last_activity := now\<rparr> else e)) (fc_active c)\<rparr>"

definition fs_rollback :: "flowspec_controller \<Rightarrow> flow_key \<Rightarrow> flowspec_controller" where
  "fs_rollback c key =
     (case hm_get (fc_active c) key of
        Some e \<Rightarrow>
          (case fe_pending_prior e of
             Some prior \<Rightarrow> c\<lparr>fc_active := hm_insert key (e\<lparr>fe_pending_prior := None, fe_rule := prior\<rparr>) (fc_active c)\<rparr>
           | None \<Rightarrow> c\<lparr>fc_active := hm_remove key (fc_active c)\<rparr>)
      | None \<Rightarrow> c\<lparr>fc_active := hm_remove key (fc_active c)\<rparr>)"

section \<open>Runs of the controller\<close>

datatype fs_op =
    FsInstall ip_addr "(u8 \<times> u16 \<times> f32) list" nat
  | FsClear ip_addr nat
  | FsRefresh ip_addr nat
  | FsManualAdd flowspec_rule nat
  | FsManualRemove flowspec_rule
  | FsTick nat
  | FsResume flowspec_rule nat blackhole_origin
  | FsRollback flow_key

fun fs_exec :: "contains \<Rightarrow> fs_op \<Rightarrow> flowspec_controller \<Rightarrow> flowspec_action list \<times> flowspec_controller" where
  "fs_exec contains (FsInstall t rules now) c = fs_install contains c t rules now"
| "fs_exec contains (FsClear t now) c = fs_clear_target c t now"
| "fs_exec contains (FsRefresh t now) c = ([], fs_refresh_target c t now)"
| "fs_exec contains (FsManualAdd rule now) c = fs_manual_add contains c rule now"
| "fs_exec contains (FsManualRemove rule) c = fs_manual_remove c rule"
| "fs_exec contains (FsTick now) c = fs_tick c now"
| "fs_exec contains (FsResume rule at_ms orig) c = fs_resume contains c rule at_ms orig"
| "fs_exec contains (FsRollback key) c = ([], fs_rollback c key)"

fun fs_run :: "contains \<Rightarrow> fs_op list \<Rightarrow> flowspec_controller \<Rightarrow> flowspec_action list \<times> flowspec_controller" where
  "fs_run contains [] c = ([], c)"
| "fs_run contains (oper # opers) c =
     (case fs_exec contains oper c of (acts, c') \<Rightarrow>
        case fs_run contains opers c' of (acts', c'') \<Rightarrow> (acts @ acts', c''))"

lemma snd_fs_run:
  "snd (fs_run contains opers c) = fold (\<lambda>oper c. snd (fs_exec contains oper c)) opers c"
  by (induction opers arbitrary: c) (simp_all add: case_prod_beta)

section \<open>The effect of the operations on the rules\<close>

text \<open>The rule under each key, with the rule it replaced: all that matters for what is announced.\<close>

definition fs_core :: "flowspec_controller \<Rightarrow> flow_key \<rightharpoonup> flowspec_rule \<times> flowspec_rule option" where
  "fs_core c k = map_option (\<lambda>e. (fe_rule e, fe_pending_prior e)) (hm_get (fc_active c) k)"

definition core_put ::
  "flowspec_rule \<Rightarrow> (flow_key \<rightharpoonup> flowspec_rule \<times> flowspec_rule option) \<Rightarrow>
   (flow_key \<rightharpoonup> flowspec_rule \<times> flowspec_rule option)"
where
  "core_put rule m = m(key_of rule \<mapsto> (rule, map_option fst (m (key_of rule))))"

definition fs_admissible :: "contains \<Rightarrow> flowspec_config \<Rightarrow> flow_key \<Rightarrow> bool" where
  "fs_admissible contains cfg k \<longleftrightarrow>
     fs_is_eligible contains cfg (net_addr (fst k)) \<and> \<not> fs_is_protected contains cfg (net_addr (fst k))"

lemma fs_core_None: "fs_core c k = None \<longleftrightarrow> hm_get (fc_active c) k = None"
  by (simp add: fs_core_def)

lemma fs_keys_core: "set (hm_keys (fc_active c)) = dom (fs_core c)"
  by (auto simp: hm.keys_get fs_core_def dom_def)

lemma fst_key_of [simp]: "fst (key_of rule) = fl_dst rule"
  by (simp add: key_of_def)

text \<open>
  Inserting or re-asserting a rule: nothing changes in the rules, or the rule is put under its key
  and announced. A new key is admissible and there was room for it.
\<close>

definition fs_put_step ::
  "contains \<Rightarrow> flowspec_rule \<Rightarrow> flowspec_controller \<Rightarrow> flowspec_action list \<Rightarrow> flowspec_controller \<Rightarrow> bool"
where
  "fs_put_step contains rule c acts c' \<longleftrightarrow> fc_config c' = fc_config c \<and>
     (hm_wf (fc_active c) \<longrightarrow> hm_wf (fc_active c')) \<and>
     (acts = [] \<and> fs_core c' = fs_core c \<or>
      acts = [FsAnnounce rule] \<and> fs_core c' = core_put rule (fs_core c) \<and>
      (fs_core c (key_of rule) = None \<longrightarrow> fs_admissible contains (fc_config c) (key_of rule) \<and>
         hm_len (fc_active c) < fs_max_rules (fc_config c)))"

lemma insert_rule_put:
  assumes "net_addr (fl_dst rule) = target"
  shows "fs_put_step contains rule c (fst (insert_rule contains c target rule now orig))
    (snd (insert_rule contains c target rule now orig))"
proof (cases "fs_is_protected contains (fc_config c) target \<or> \<not> fs_is_eligible contains (fc_config c) target")
  case True
  then show ?thesis by (auto simp: fs_put_step_def insert_rule_def Let_def fs_core_def fun_eq_iff)
next
  case False
  show ?thesis
  proof (cases "hm_get (fc_active c) (key_of rule)")
    case None
    with False assms show ?thesis
      by (auto simp: fs_put_step_def insert_rule_def Let_def fs_core_def core_put_def fs_admissible_def fun_eq_iff)
  next
    case (Some e)
    with False show ?thesis
      by (auto simp: fs_put_step_def insert_rule_def Let_def fs_core_def core_put_def fe_replace_def fun_eq_iff)
  qed
qed

lemma manual_add_put:
  "fs_put_step contains rule c (fst (fs_manual_add contains c rule now))
    (snd (fs_manual_add contains c rule now))"
proof (cases "hm_get (fc_active c) (key_of rule)")
  case None
  then show ?thesis using insert_rule_put [OF refl, of contains rule c now Manual]
    by (simp add: fs_manual_add_def)
next
  case (Some e)
  then show ?thesis
    by (auto simp: fs_put_step_def fs_manual_add_def Let_def fs_core_def core_put_def fe_replace_def fun_eq_iff)
qed

lemma resume_put:
  "fs_put_step contains rule c (fst (fs_resume contains c rule at_ms orig))
    (snd (fs_resume contains c rule at_ms orig))"
  using insert_rule_put [OF refl, of contains rule c at_ms orig] by (simp add: fs_resume_def)

text \<open>Removing rules: each withdrawn rule was stored under its key, and only those keys go.\<close>

definition fs_drop_step ::
  "flowspec_controller \<Rightarrow> flowspec_action list \<Rightarrow> flowspec_controller \<Rightarrow> bool"
where
  "fs_drop_step c acts c' \<longleftrightarrow> fc_config c' = fc_config c \<and>
     (hm_wf (fc_active c) \<longrightarrow> hm_wf (fc_active c')) \<and>
     (\<exists>ks. acts = map (\<lambda>k. FsWithdraw (fst (the (fs_core c k)))) ks \<and> set ks \<subseteq> dom (fs_core c) \<and>
        distinct ks \<and> fs_core c' = (fs_core c) |` (- set ks))"

lemma fs_drop_refl: "fs_core c' = fs_core c \<Longrightarrow> fc_config c' = fc_config c \<Longrightarrow>
    (hm_wf (fc_active c) \<longrightarrow> hm_wf (fc_active c')) \<Longrightarrow> fs_drop_step c [] c'"
  by (auto simp: fs_drop_step_def intro!: exI [of _ "[]"])

lemma fs_drop_trans:
  assumes "fs_drop_step c acts c'" "fs_drop_step c' acts' c''"
  shows "fs_drop_step c (acts @ acts') c''"
proof -
  from assms obtain ks ks' where
    ks: "acts = map (\<lambda>k. FsWithdraw (fst (the (fs_core c k)))) ks" "set ks \<subseteq> dom (fs_core c)" "distinct ks"
      "fs_core c' = (fs_core c) |` (- set ks)"
    and ks': "acts' = map (\<lambda>k. FsWithdraw (fst (the (fs_core c' k)))) ks'" "set ks' \<subseteq> dom (fs_core c')" "distinct ks'"
      "fs_core c'' = (fs_core c') |` (- set ks')"
    by (auto simp: fs_drop_step_def)
  have disj: "set ks' \<inter> set ks = {}" using ks'(2) ks(4) by auto
  have "fs_core c' k = fs_core c k" if "k \<in> set ks'" for k
    using that disj ks(4) by (auto simp: restrict_map_def)
  then have "acts' = map (\<lambda>k. FsWithdraw (fst (the (fs_core c k)))) ks'" using ks'(1) by simp
  moreover have "set ks' \<subseteq> dom (fs_core c)" using ks'(2) ks(4) by auto
  moreover have "fs_core c'' = fs_core c |` (- set (ks @ ks'))"
    using ks(4) ks'(4) by (simp add: Int_commute)
  ultimately show ?thesis using assms ks(1-3) ks'(3) disj
    unfolding fs_drop_step_def by (intro conjI exI [of _ "ks @ ks'"]) auto
qed

lemma fs_drop_one:
  assumes "hm_get (fc_active c) k = Some e"
  shows "fs_drop_step c [FsWithdraw (fe_rule e)] (c\<lparr>fc_active := hm_remove k (fc_active c)\<rparr>)"
  using assms unfolding fs_drop_step_def
  by (intro conjI exI [of _ "[k]"]) (auto simp: fs_core_def restrict_map_def fun_eq_iff)

lemma clear_keys_drop:
  "fs_drop_step c (fst (fs_clear_keys c ks now)) (snd (fs_clear_keys c ks now))"
proof (induction ks arbitrary: c)
  case (Cons k ks)
  show ?case
  proof (cases "hm_get (fc_active c) k")
    case None with Cons show ?thesis by (simp add: case_prod_beta)
  next
    case (Some e)
    consider "fe_origin e = Manual" | "fe_origin e \<noteq> Manual"
        "as_millis_u64 (fs_hold_down (fc_config c)) \<le> now - fe_announced_at e"
      | "fe_origin e \<noteq> Manual" "\<not> as_millis_u64 (fs_hold_down (fc_config c)) \<le> now - fe_announced_at e"
      by blast
    then show ?thesis
    proof cases
      case 1 with Some Cons show ?thesis by (simp add: case_prod_beta)
    next
      case 2
      from fs_drop_trans [OF fs_drop_one [OF Some] Cons] 2 Some show ?thesis by (simp add: case_prod_beta)
    next
      case 3
      let ?c = "c\<lparr>fc_active := hm_insert k (e\<lparr>fe_clear_requested_at := Some now\<rparr>) (fc_active c)\<rparr>"
      have "fs_drop_step c [] ?c" using Some by (intro fs_drop_refl) (auto simp: fs_core_def fun_eq_iff)
      from fs_drop_trans [OF this Cons] 3 Some show ?thesis by (simp add: case_prod_beta)
    qed
  qed
qed (simp add: fs_drop_refl)

lemma withdraw_keys_drop:
  "fs_drop_step c (fst (fs_withdraw_keys c ks)) (snd (fs_withdraw_keys c ks))"
proof (induction ks arbitrary: c)
  case (Cons k ks)
  then show ?case using fs_drop_trans [OF fs_drop_one Cons]
    by (cases "hm_get (fc_active c) k") (simp_all add: case_prod_beta)
qed (simp add: fs_drop_refl)

lemma manual_remove_drop:
  "fs_drop_step c (fst (fs_manual_remove c rule)) (snd (fs_manual_remove c rule))"
  by (cases "hm_get (fc_active c) (key_of rule)") (auto simp: fs_manual_remove_def fs_drop_one fs_drop_refl)

lemma refresh_frame [simp]:
  "fs_core (fs_refresh_target c t now) = fs_core c" "fc_config (fs_refresh_target c t now) = fc_config c"
  "hm_wf (fc_active (fs_refresh_target c t now)) = hm_wf (fc_active c)"
proof -
  have get: "hm_get (map (\<lambda>(k, e). (k, f k e)) m) j = map_option (f j) (hm_get m j)"
    for f :: "flow_key \<Rightarrow> flow_entry \<Rightarrow> flow_entry" and m j
    by (induction m) (auto simp: hm_get_def)
  show "fs_core (fs_refresh_target c t now) = fs_core c"
    by (auto simp: fs_core_def fs_refresh_target_def get fun_eq_iff option.map_comp o_def
      intro!: option.map_cong)
  show "fc_config (fs_refresh_target c t now) = fc_config c" by (simp add: fs_refresh_target_def)
  show "hm_wf (fc_active (fs_refresh_target c t now)) = hm_wf (fc_active c)"
    by (simp add: fs_refresh_target_def hm_wf_def case_prod_beta o_def)
qed

definition core_rollback ::
  "flow_key \<Rightarrow> (flow_key \<rightharpoonup> flowspec_rule \<times> flowspec_rule option) \<Rightarrow>
   (flow_key \<rightharpoonup> flowspec_rule \<times> flowspec_rule option)"
where
  "core_rollback k m = m(k := (case m k of Some (r, Some prior) \<Rightarrow> Some (prior, None) | _ \<Rightarrow> None))"

lemma rollback_core:
  "fs_core (fs_rollback c k) = core_rollback k (fs_core c)" "fc_config (fs_rollback c k) = fc_config c"
  "hm_wf (fc_active c) \<Longrightarrow> hm_wf (fc_active (fs_rollback c k))"
  by (auto simp: fs_rollback_def core_rollback_def fs_core_def fun_eq_iff split: option.splits)

text \<open>Installing the rules of a detection is a sequence of put steps.\<close>

inductive fs_puts ::
  "contains \<Rightarrow> flowspec_rule list \<Rightarrow> flowspec_controller \<Rightarrow> flowspec_action list \<Rightarrow> flowspec_controller \<Rightarrow> bool"
for contains where
  fs_puts_nil: "fs_puts contains [] c [] c"
| fs_puts_cons: "fs_put_step contains rule c acts c' \<Longrightarrow> fs_puts contains rules c' acts' c'' \<Longrightarrow>
    fs_puts contains (rule # rules) c (acts @ acts') c''"

inductive_cases fs_puts_NilE: "fs_puts contains [] c acts c'"
inductive_cases fs_puts_ConsE: "fs_puts contains (rule # rules) c acts c'"

lemma net_addr_flow_rule_for [simp]: "net_addr (fl_dst (flow_rule_for t r)) = t"
  by (cases r) (simp add: flow_rule_for_def)

lemma install_puts:
  "fs_puts contains (map (flow_rule_for t) rules) c (fst (fs_install contains c t rules now))
     (snd (fs_install contains c t rules now))"
proof (induction rules arbitrary: c)
  case (Cons r rules)
  from fs_puts_cons [OF insert_rule_put [OF net_addr_flow_rule_for] Cons] show ?case
    by (simp add: case_prod_beta)
qed (simp add: fs_puts_nil)

lemma fs_put_step_table:
  assumes "fs_put_step contains rule c acts c'" "hm_wf (fc_active c)"
  shows "table_step (fs_admissible contains (fc_config c)) (fs_max_rules (fc_config c))
    (hm_keys (fc_active c)) (hm_keys (fc_active c'))"
proof -
  have wf': "distinct (hm_keys (fc_active c'))" using assms by (simp add: fs_put_step_def hm.wf_keys)
  from assms(1) consider "fs_core c' = fs_core c"
    | "fs_core c' = core_put rule (fs_core c)" "fs_core c (key_of rule) \<noteq> None"
    | "fs_core c' = core_put rule (fs_core c)" "fs_admissible contains (fc_config c) (key_of rule)"
      "hm_len (fc_active c) < fs_max_rules (fc_config c)"
    by (auto simp: fs_put_step_def)
  then show ?thesis
  proof cases
    case 3
    then have "set (hm_keys (fc_active c')) \<subseteq> insert (key_of rule) (set (hm_keys (fc_active c)))"
      by (auto simp: fs_keys_core core_put_def)
    with 3 wf' show ?thesis unfolding table_step_def hm.len_keys by blast
  qed (use wf' in \<open>auto simp: table_step_def fs_keys_core core_put_def\<close>)
qed

lemma fs_puts_frame:
  "fs_puts contains rules c acts c' \<Longrightarrow>
     fc_config c' = fc_config c \<and> (hm_wf (fc_active c) \<longrightarrow> hm_wf (fc_active c'))"
  by (induction rule: fs_puts.induct) (auto simp: fs_put_step_def)

lemma fs_puts_table:
  "fs_puts contains rules c acts c' \<Longrightarrow> hm_wf (fc_active c) \<Longrightarrow>
     (table_step (fs_admissible contains (fc_config c)) (fs_max_rules (fc_config c)))\<^sup>*\<^sup>*
       (hm_keys (fc_active c)) (hm_keys (fc_active c'))"
proof (induction rule: fs_puts.induct)
  case (fs_puts_cons rule c acts c' rules acts' c'')
  then have "fc_config c' = fc_config c" "hm_wf (fc_active c')" by (simp_all add: fs_put_step_def)
  with fs_puts_cons fs_put_step_table [OF fs_puts_cons(1)] show ?case
    by (metis converse_rtranclp_into_rtranclp)
qed simp

lemma fs_drop_table:
  assumes "fs_drop_step c acts c'" "hm_wf (fc_active c)"
  shows "table_step A cap (hm_keys (fc_active c)) (hm_keys (fc_active c'))"
proof -
  from assms obtain ks where "fs_core c' = (fs_core c) |` (- set ks)" by (auto simp: fs_drop_step_def)
  then have "set (hm_keys (fc_active c')) \<subseteq> set (hm_keys (fc_active c))" by (simp add: fs_keys_core)
  with assms show ?thesis by (simp add: table_step_def fs_drop_step_def hm.wf_keys)
qed

text \<open>Every operation is a sequence of puts, a drop, or a rollback.\<close>

lemma fs_exec_cases:
  obtains (puts) rules where "fs_puts contains rules c (fst (fs_exec contains oper c)) (snd (fs_exec contains oper c))"
  | (drops) "fs_drop_step c (fst (fs_exec contains oper c)) (snd (fs_exec contains oper c))"
  | (rolled_back) k where "oper = FsRollback k"
proof (cases oper)
  case (FsInstall t rules now) with install_puts show thesis by (intro puts) simp
next
  case (FsClear t now) with clear_keys_drop show thesis by (intro drops) (simp add: fs_clear_target_def)
next
  case (FsRefresh t now) then show thesis by (intro drops) (simp add: fs_drop_refl)
next
  case (FsManualAdd rule now)
  from fs_puts_cons [OF manual_add_put fs_puts_nil] FsManualAdd show thesis by (intro puts [of "[rule]"]) simp
next
  case (FsManualRemove rule) with manual_remove_drop show thesis by (intro drops) simp
next
  case (FsTick now) with withdraw_keys_drop show thesis by (intro drops) (simp add: fs_tick_def)
next
  case (FsResume rule at_ms orig)
  from fs_puts_cons [OF resume_put fs_puts_nil] FsResume show thesis by (intro puts [of "[rule]"]) simp
next
  case (FsRollback k) then show thesis by (rule rolled_back)
qed

lemma fs_exec_frame:
  "fc_config (snd (fs_exec contains oper c)) = fc_config c"
  "hm_wf (fc_active c) \<Longrightarrow> hm_wf (fc_active (snd (fs_exec contains oper c)))"
  by (rule fs_exec_cases [of contains c oper];
      auto simp: fs_drop_step_def rollback_core dest: fs_puts_frame)+

interpretation flowspec: mitigation_table "\<lambda>c. hm_keys (fc_active c)" fc_config fs_max_rules
  "fs_admissible contains" "\<lambda>oper c. snd (fs_exec contains oper c)"
  for contains
proof unfold_locales
  fix oper c
  show "fc_config (snd (fs_exec contains oper c)) = fc_config c" by (rule fs_exec_frame)
  assume "distinct (hm_keys (fc_active c))"
  then have wf: "hm_wf (fc_active c)" by (simp add: hm_wf_def hm_keys_def)
  show "(table_step (fs_admissible contains (fc_config c)) (fs_max_rules (fc_config c)))\<^sup>*\<^sup>*
      (hm_keys (fc_active c)) (hm_keys (fc_active (snd (fs_exec contains oper c))))"
  proof (rule fs_exec_cases [of contains c oper])
    fix k assume "oper = FsRollback k"
    then show ?thesis using rollback_core [of c k] wf
      by (intro r_into_rtranclp) (auto simp: table_step_def hm.wf_keys fs_keys_core core_rollback_def
        split: option.splits if_splits)
  qed (use wf in \<open>auto intro: fs_puts_table fs_drop_table\<close>)
qed

section \<open>Announce and withdraw streams\<close>

text \<open>Every stored rule lies under its own key.\<close>

definition fs_well_keyed :: "flowspec_controller \<Rightarrow> bool" where
  "fs_well_keyed c \<longleftrightarrow> (\<forall>k r p. fs_core c k = Some (r, p) \<longrightarrow>
     key_of r = k \<and> (\<forall>q. p = Some q \<longrightarrow> key_of q = k))"

lemma well_keyed_put:
  "fs_put_step contains rule c acts c' \<Longrightarrow> fs_well_keyed c \<Longrightarrow> fs_well_keyed c'"
  by (auto simp: fs_put_step_def fs_well_keyed_def core_put_def split: if_splits
    simp del: split_paired_All)

lemma well_keyed_puts:
  "fs_puts contains rules c acts c' \<Longrightarrow> fs_well_keyed c \<Longrightarrow> fs_well_keyed c'"
  by (induction rule: fs_puts.induct) (auto dest: well_keyed_put)

lemma well_keyed_drop: "fs_drop_step c acts c' \<Longrightarrow> fs_well_keyed c \<Longrightarrow> fs_well_keyed c'"
  by (auto simp: fs_drop_step_def fs_well_keyed_def restrict_map_def split: if_splits
    simp del: split_paired_All)

lemma well_keyed_rollback: "fs_well_keyed c \<Longrightarrow> fs_well_keyed (fs_rollback c k)"
  by (auto simp: fs_well_keyed_def rollback_core core_rollback_def split: option.splits if_splits
    simp del: split_paired_All)

lemma well_keyed_exec: "fs_well_keyed c \<Longrightarrow> fs_well_keyed (snd (fs_exec contains oper c))"
  by (rule fs_exec_cases [of contains c oper])
    (auto intro: well_keyed_puts well_keyed_drop well_keyed_rollback)

lemma well_keyed_run: "fs_well_keyed c \<Longrightarrow> fs_well_keyed (snd (fs_run contains opers c))"
  unfolding snd_fs_run by (induction opers arbitrary: c) (simp_all add: well_keyed_exec)

lemma well_keyed_new: "fs_well_keyed (fs_new cfg)"
  by (simp add: fs_well_keyed_def fs_core_def fs_new_def)

text \<open>The rule table a stream of actions builds.\<close>

fun frib_apply :: "flowspec_action \<Rightarrow> (flow_key \<rightharpoonup> flowspec_rule) \<Rightarrow> (flow_key \<rightharpoonup> flowspec_rule)" where
  "frib_apply (FsAnnounce f) m = m(key_of f \<mapsto> f)"
| "frib_apply (FsWithdraw f) m = m(key_of f := None)"

definition fs_rules :: "flowspec_controller \<Rightarrow> flow_key \<rightharpoonup> flowspec_rule" where
  "fs_rules c k = map_option fe_rule (hm_get (fc_active c) k)"

lemma fs_rules_core: "fs_rules c k = map_option fst (fs_core c k)"
  by (simp add: fs_rules_def fs_core_def option.map_comp o_def)

lemma put_sync:
  "fs_put_step contains rule c acts c' \<Longrightarrow> fold frib_apply acts (fs_rules c) = fs_rules c'"
  by (auto simp: fs_put_step_def fun_eq_iff fs_rules_core core_put_def)

lemma puts_sync:
  "fs_puts contains rules c acts c' \<Longrightarrow> fold frib_apply acts (fs_rules c) = fs_rules c'"
  by (induction rule: fs_puts.induct) (auto simp: put_sync)

lemma drop_sync:
  assumes "fs_drop_step c acts c'" "fs_well_keyed c"
  shows "fold frib_apply acts (fs_rules c) = fs_rules c'"
proof -
  from assms(1) obtain ks where ks: "acts = map (\<lambda>k. FsWithdraw (fst (the (fs_core c k)))) ks"
      "set ks \<subseteq> dom (fs_core c)" "fs_core c' = (fs_core c) |` (- set ks)"
    by (auto simp: fs_drop_step_def)
  have "fold frib_apply (map (\<lambda>k. FsWithdraw (fst (the (fs_core c k)))) ks) m = m |` (- set ks)"
    if "set ks \<subseteq> dom (fs_core c)" for ks and m :: "flow_key \<rightharpoonup> flowspec_rule"
    using that
  proof (induction ks arbitrary: m)
    case (Cons k ks)
    then obtain r p where "fs_core c k = Some (r, p)" by auto
    moreover from this have "key_of r = k" using assms(2) by (simp add: fs_well_keyed_def del: split_paired_All)
    ultimately show ?case using Cons by (auto simp: fun_eq_iff restrict_map_def)
  qed (simp add: restrict_map_def)
  from this [OF ks(2)] ks(1,3) show ?thesis
    by (auto simp: fun_eq_iff fs_rules_core restrict_map_def)
qed

lemma fs_run_sync:
  assumes "fs_well_keyed c" "\<forall>k. FsRollback k \<notin> set opers"
  shows "fold frib_apply (fst (fs_run contains opers c)) (fs_rules c) = fs_rules (snd (fs_run contains opers c))"
  using assms
proof (induction opers arbitrary: c)
  case (Cons oper opers)
  have "fold frib_apply (fst (fs_exec contains oper c)) (fs_rules c) = fs_rules (snd (fs_exec contains oper c))"
    by (rule fs_exec_cases [of contains c oper]) (use Cons.prems in \<open>auto intro: puts_sync drop_sync\<close>)
  with Cons well_keyed_exec [OF Cons.prems(1)] show ?case by (simp add: case_prod_beta)
qed simp

section \<open>Manual rules\<close>

definition fs_manual_uncleared :: "flowspec_controller \<Rightarrow> bool" where
  "fs_manual_uncleared c \<longleftrightarrow> hm_wf (fc_active c) \<and>
     (\<forall>k e. hm_get (fc_active c) k = Some e \<longrightarrow> fe_origin e = Manual \<longrightarrow> fe_clear_requested_at e = None)"

definition fs_manual_at :: "flowspec_controller \<Rightarrow> flow_key \<Rightarrow> bool" where
  "fs_manual_at c k \<longleftrightarrow> (\<exists>e. hm_get (fc_active c) k = Some e \<and> fe_origin e = Manual)"

text \<open>What an operation may do to the entry under a key, as far as ownership is concerned.\<close>

definition owner_ok :: "flow_entry option \<Rightarrow> flow_entry option \<Rightarrow> bool" where
  "owner_ok a b \<longleftrightarrow>
     (\<forall>e. a = Some e \<and> fe_origin e = Manual \<and> fe_clear_requested_at e = None \<longrightarrow>
        (\<exists>e'. b = Some e' \<and> fe_origin e' = Manual)) \<and>
     (\<forall>e'. b = Some e' \<and> fe_origin e' = Manual \<and> fe_clear_requested_at e' \<noteq> None \<longrightarrow>
        (\<exists>e. a = Some e \<and> fe_origin e = Manual \<and> fe_clear_requested_at e \<noteq> None))"

lemma owner_ok_refl [simp]: "owner_ok a a"
  by (simp add: owner_ok_def)

lemma owner_ok_insert_rule:
  "owner_ok (hm_get (fc_active c) k) (hm_get (fc_active (snd (insert_rule contains c t rule now orig))) k)"
  by (auto simp: insert_rule_def Let_def owner_ok_def fe_replace_def split: option.splits)

lemma owner_ok_manual_add:
  "owner_ok (hm_get (fc_active c) k) (hm_get (fc_active (snd (fs_manual_add contains c rule now))) k)"
proof (cases "hm_get (fc_active c) (key_of rule)")
  case None then show ?thesis using owner_ok_insert_rule by (simp add: fs_manual_add_def)
next
  case (Some e) then show ?thesis
    by (auto simp: fs_manual_add_def Let_def owner_ok_def fe_replace_def)
qed

lemma owner_ok_trans: "owner_ok a b \<Longrightarrow> owner_ok b d \<Longrightarrow> owner_ok a d"
  unfolding owner_ok_def by (metis option.inject)

lemma owner_ok_install:
  "owner_ok (hm_get (fc_active c) k) (hm_get (fc_active (snd (fs_install contains c t rules now))) k)"
proof (induction rules arbitrary: c)
  case (Cons r rules)
  from owner_ok_trans [OF owner_ok_insert_rule Cons] show ?case by (simp add: case_prod_beta)
qed simp

lemma owner_ok_clear_keys:
  "owner_ok (hm_get (fc_active c) k) (hm_get (fc_active (snd (fs_clear_keys c ks now))) k)"
proof (induction ks arbitrary: c)
  case (Cons j ks)
  let ?c = "case hm_get (fc_active c) j of None \<Rightarrow> c
     | Some e \<Rightarrow> if fe_origin e = Manual then c
         else if as_millis_u64 (fs_hold_down (fc_config c)) \<le> now - fe_announced_at e
         then c\<lparr>fc_active := hm_remove j (fc_active c)\<rparr>
         else c\<lparr>fc_active := hm_insert j (e\<lparr>fe_clear_requested_at := Some now\<rparr>) (fc_active c)\<rparr>"
  have "owner_ok (hm_get (fc_active c) k) (hm_get (fc_active ?c) k)"
    by (auto simp: owner_ok_def split: option.splits)
  from owner_ok_trans [OF this Cons] show ?case
    by (auto simp: Let_def case_prod_beta split: option.splits)
qed simp

lemma withdraw_keys_get:
  "hm_get (fc_active (snd (fs_withdraw_keys c ks))) k = (if k \<in> set ks then None else hm_get (fc_active c) k)"
proof (induction ks arbitrary: c)
  case (Cons j ks)
  then show ?case by (cases "hm_get (fc_active c) j") (auto simp: case_prod_beta)
qed simp

lemma owner_ok_tick:
  assumes "hm_wf (fc_active c)"
  shows "owner_ok (hm_get (fc_active c) k) (hm_get (fc_active (snd (fs_tick c now))) k)"
  using hm_select_get [OF assms, of k "fs_due (fc_config c) now"]
  by (auto simp: fs_tick_def withdraw_keys_get owner_ok_def fs_due_def Let_def simp del: set_map)

lemma owner_ok_refresh:
  "owner_ok (hm_get (fc_active c) k) (hm_get (fc_active (fs_refresh_target c t now)) k)"
proof -
  have "hm_get (map (\<lambda>(k, e). (k, f k e)) m) k = map_option (f k) (hm_get m k)"
    for f :: "flow_key \<Rightarrow> flow_entry \<Rightarrow> flow_entry" and m
    by (induction m) (auto simp: hm_get_def)
  then show ?thesis by (auto simp: fs_refresh_target_def owner_ok_def)
qed

lemma owner_ok_exec:
  assumes "hm_wf (fc_active c)" "oper \<noteq> FsRollback k" "\<forall>rule. oper = FsManualRemove rule \<longrightarrow> key_of rule \<noteq> k"
  shows "owner_ok (hm_get (fc_active c) k) (hm_get (fc_active (snd (fs_exec contains oper c))) k)"
proof (cases oper)
  case (FsManualRemove rule)
  with assms show ?thesis by (auto simp: fs_manual_remove_def split: option.splits)
next
  case (FsRollback j)
  with assms show ?thesis by (auto simp: fs_rollback_def split: option.splits)
qed (use assms in \<open>auto simp: owner_ok_install owner_ok_clear_keys fs_clear_target_def owner_ok_refresh
    owner_ok_manual_add owner_ok_tick fs_resume_def owner_ok_insert_rule\<close>)

lemma fs_manual_uncleared_exec:
  assumes "fs_manual_uncleared c"
  shows "fs_manual_uncleared (snd (fs_exec contains oper c))"
proof -
  have wf: "hm_wf (fc_active c)" using assms by (simp add: fs_manual_uncleared_def)
  have "fe_clear_requested_at e' = None"
    if e': "hm_get (fc_active (snd (fs_exec contains oper c))) k = Some e'" "fe_origin e' = Manual" for k e'
  proof (cases "oper = FsRollback k \<or> (\<exists>rule. oper = FsManualRemove rule \<and> key_of rule = k)")
    case True
    then show ?thesis using e' assms
      by (auto simp: fs_rollback_def fs_manual_remove_def fs_manual_uncleared_def split: option.splits
        simp del: split_paired_All)
  next
    case False
    with owner_ok_exec [OF wf, of oper k contains] e' assms show ?thesis
      by (auto simp: owner_ok_def fs_manual_uncleared_def simp del: split_paired_All)
  qed
  with wf fs_exec_frame(2) show ?thesis by (simp add: fs_manual_uncleared_def)
qed

lemma fs_manual_at_run:
  assumes "fs_manual_uncleared c" "fs_manual_at c k"
    "FsRollback k \<notin> set opers" "\<forall>rule. FsManualRemove rule \<in> set opers \<longrightarrow> key_of rule \<noteq> k"
  shows "fs_manual_at (snd (fs_run contains opers c)) k"
  using assms
proof (induction opers arbitrary: c)
  case (Cons oper opers)
  have wf: "hm_wf (fc_active c)" using Cons.prems by (simp add: fs_manual_uncleared_def)
  have "fs_manual_at (snd (fs_exec contains oper c)) k"
    using owner_ok_exec [OF wf, of oper k contains] Cons.prems
    by (auto simp: owner_ok_def fs_manual_at_def fs_manual_uncleared_def simp del: split_paired_All)
  with Cons fs_manual_uncleared_exec [OF Cons.prems(1)] show ?case by (auto simp: case_prod_beta)
qed simp

lemma fs_manual_uncleared_run:
  "fs_manual_uncleared c \<Longrightarrow> fs_manual_uncleared (snd (fs_run contains opers c))"
  unfolding snd_fs_run by (induction opers arbitrary: c) (simp_all add: fs_manual_uncleared_exec)

lemma fs_manual_uncleared_new: "fs_manual_uncleared (fs_new cfg)"
  by (simp add: fs_manual_uncleared_def fs_new_def)

section \<open>Properties\<close>

definition sample_fs_config :: flowspec_config where
  "sample_fs_config =
     \<lparr>fs_eligible_prefixes = [NetV4 0xCB007100 24], fs_max_rules = 2, fs_hold_down = 10000000000,
      fs_max_ttl = Some 60000000000, fs_protected_prefixes = [NetV4 0xCB007135 32]\<rparr>"

lemmas fs_eval =
  insert_rule_def flow_rule_for_def fs_clear_target_def fs_manual_add_def fs_manual_remove_def fs_tick_def
  fs_resume_def fs_refresh_target_def fs_rollback_def sample_fs_config_def fs_new_def fs_is_eligible_def
  fs_is_protected_def fe_replace_def key_of_def hm_get_def hm_insert_def hm_remove_def hm_len_def hm_keys_def
  as_millis_u64_def fs_due_def Let_def f32_eq_def f32_is_nan_def

text \<open>C9. After any sequence of installs, clears, refreshes, operator commands, ticks, restarts and
  rollbacks, each flow key has at most one rule, the number of rules is within the configured cap, and
  every rule's destination is eligible and not in a protected prefix.\<close>

theorem fs_table_safe:
  "let c = snd (fs_run contains opers (fs_new cfg)) in
     distinct (hm_keys (fc_active c)) \<and> hm_len (fc_active c) \<le> fs_max_rules cfg \<and>
     set (hm_keys (fc_active c)) \<subseteq> {k. fs_is_eligible contains cfg (net_addr (fst k)) \<and>
       \<not> fs_is_protected contains cfg (net_addr (fst k))}"
  using flowspec.run_from_empty [of "fs_new cfg" contains opers]
  by (auto simp: Let_def snd_fs_run flowspec.run_def table_safe_def fs_new_def hm_keys_def
      hm.len_keys fs_admissible_def)

text \<open>Replaying the announces and withdraws the FlowSpec controller emits on a rule table gives
  exactly the rules that are active afterwards, each with its current traffic rate: a re-assertion
  with another rate is announced, and a withdraw names the rule that is in force.\<close>

lemma fs_stream_sync:
  assumes "\<forall>k. FsRollback k \<notin> set opers"
  shows "fold frib_apply (fst (fs_run contains opers (fs_new cfg))) Map.empty
    = fs_rules (snd (fs_run contains opers (fs_new cfg)))"
proof -
  have "fs_rules (fs_new cfg) = Map.empty" by (simp add: fs_rules_def fs_new_def fun_eq_iff)
  with fs_run_sync [OF well_keyed_new assms] show ?thesis by metis
qed

text \<open>A rule the operator owns stays in force through any sequence of operations that neither
  removes its key nor rolls it back.\<close>

lemma fs_manual_kept:
  assumes "fs_manual_at (snd (fs_run contains before (fs_new cfg))) k"
    and "FsRollback k \<notin> set after" "\<forall>rule. FsManualRemove rule \<in> set after \<longrightarrow> key_of rule \<noteq> k"
  shows "fs_manual_at (snd (fs_run contains after (snd (fs_run contains before (fs_new cfg))))) k"
  using fs_manual_at_run [OF fs_manual_uncleared_run [OF fs_manual_uncleared_new] assms] .

end
