(* ===== verification/Executor.thy ===== *)
theory Executor
  imports Rtbh_Controller
begin

text \<open>
  The I/O boundary of the mitigation managers: the traits \<open>BgpExecutor\<close>, \<open>BlackholeJournal\<close> and
  \<open>FlowSpecJournal\<close> as records of state-passing functions (the boolean is \<open>Ok\<close>), the contract an
  executor keeps towards the peer's routing table, and the shadow executor and the no-op journal of
  \<^verbatim>\<open>blackwall-rtbh/src/shadow.rs\<close>.
\<close>

section \<open>Traits\<close>

record 'b bgp_executor_ops =
  bx_announce :: "route \<Rightarrow> 'b \<Rightarrow> bool \<times> 'b"
  bx_withdraw :: "ip_net \<Rightarrow> 'b \<Rightarrow> bool \<times> 'b"
  bx_announce_flowspec :: "flowspec_rule \<Rightarrow> 'b \<Rightarrow> bool \<times> 'b"
  bx_withdraw_flowspec :: "flowspec_rule \<Rightarrow> 'b \<Rightarrow> bool \<times> 'b"

record 'j blackhole_journal_ops =
  bj_record_announce :: "ip_addr \<Rightarrow> blackhole_origin \<Rightarrow> nat \<Rightarrow> 'j \<Rightarrow> bool \<times> 'j"
  bj_record_withdraw :: "ip_addr \<Rightarrow> nat \<Rightarrow> 'j \<Rightarrow> bool \<times> 'j"

record 'j flowspec_journal_ops =
  fj_record_announce :: "flowspec_rule \<Rightarrow> blackhole_origin \<Rightarrow> nat \<Rightarrow> 'j \<Rightarrow> bool \<times> 'j"
  fj_record_withdraw :: "flowspec_rule \<Rightarrow> nat \<Rightarrow> 'j \<Rightarrow> bool \<times> 'j"

section \<open>The executor contract\<close>

text \<open>
  \<open>rib\<close> and \<open>frib\<close> are the routes and FlowSpec rules the peer holds once everything accepted so far
  has been processed; a rule is identified by its encoded match \<open>nlri\<close>. An accepted call has exactly
  its effect, a refused one has none.
\<close>

locale bgp_executor =
  fixes ops :: "'b bgp_executor_ops"
    and rib :: "'b \<Rightarrow> ip_net \<rightharpoonup> route"
    and frib :: "'b \<Rightarrow> 'n \<rightharpoonup> flowspec_rule"
    and nlri :: "flowspec_rule \<Rightarrow> 'n"
  assumes announce: "bx_announce ops r b = (ok, b') \<Longrightarrow>
      rib b' = (if ok then (rib b)(r_prefix r \<mapsto> r) else rib b) \<and> frib b' = frib b"
    and withdraw: "bx_withdraw ops p b = (ok, b') \<Longrightarrow>
      rib b' = (if ok then (rib b)(p := None) else rib b) \<and> frib b' = frib b"
    and announce_flowspec: "bx_announce_flowspec ops f b = (ok, b') \<Longrightarrow>
      frib b' = (if ok then (frib b)(nlri f \<mapsto> f) else frib b) \<and> rib b' = rib b"
    and withdraw_flowspec: "bx_withdraw_flowspec ops f b = (ok, b') \<Longrightarrow>
      frib b' = (if ok then (frib b)(nlri f := None) else frib b) \<and> rib b' = rib b"
begin

lemma withdraw_shrinks: "bx_withdraw ops p b = (ok, b') \<Longrightarrow> rib b' \<subseteq>\<^sub>m rib b"
  using withdraw [of p b ok b'] by (auto simp: map_le_def)

lemma announce_keeps: "bx_announce ops r b = (ok, b') \<Longrightarrow> dom (rib b) \<subseteq> dom (rib b')"
  using announce [of r b ok b'] by auto

end

section \<open>Shadow mode\<close>

datatype shadow_action =
    RtbhAnnounce route
  | RtbhWithdraw ip_net
  | FlowSpecAnnounce flowspec_rule
  | FlowSpecWithdraw flowspec_rule

text \<open>The executor hands every intended call to a recorder and always succeeds.\<close>

definition shadow_executor :: "(shadow_action \<Rightarrow> 'r \<Rightarrow> 'r) \<Rightarrow> 'r bgp_executor_ops" where
  "shadow_executor recorder =
     \<lparr>bx_announce = (\<lambda>r s. (True, recorder (RtbhAnnounce r) s)),
      bx_withdraw = (\<lambda>p s. (True, recorder (RtbhWithdraw p) s)),
      bx_announce_flowspec = (\<lambda>f s. (True, recorder (FlowSpecAnnounce f) s)),
      bx_withdraw_flowspec = (\<lambda>f s. (True, recorder (FlowSpecWithdraw f) s))\<rparr>"

definition noop_blackhole_journal :: "unit blackhole_journal_ops" where
  "noop_blackhole_journal =
     \<lparr>bj_record_announce = (\<lambda>t orig a j. (True, j)), bj_record_withdraw = (\<lambda>t a j. (True, j))\<rparr>"

definition noop_flowspec_journal :: "unit flowspec_journal_ops" where
  "noop_flowspec_journal =
     \<lparr>fj_record_announce = (\<lambda>f orig a j. (True, j)), fj_record_withdraw = (\<lambda>f a j. (True, j))\<rparr>"

text \<open>The table a captured log of intended actions describes.\<close>

fun shadow_rib :: "shadow_action list \<Rightarrow> ip_net \<rightharpoonup> route" where
  "shadow_rib [] = Map.empty"
| "shadow_rib (RtbhAnnounce r # hist) = (shadow_rib hist)(r_prefix r \<mapsto> r)"
| "shadow_rib (RtbhWithdraw p # hist) = (shadow_rib hist)(p := None)"
| "shadow_rib (_ # hist) = shadow_rib hist"

fun shadow_frib :: "(flowspec_rule \<Rightarrow> 'n) \<Rightarrow> shadow_action list \<Rightarrow> 'n \<rightharpoonup> flowspec_rule" where
  "shadow_frib nlri [] = Map.empty"
| "shadow_frib nlri (FlowSpecAnnounce f # hist) = (shadow_frib nlri hist)(nlri f \<mapsto> f)"
| "shadow_frib nlri (FlowSpecWithdraw f # hist) = (shadow_frib nlri hist)(nlri f := None)"
| "shadow_frib nlri (_ # hist) = shadow_frib nlri hist"

interpretation shadow: bgp_executor "shadow_executor (#)" shadow_rib "shadow_frib nlri" nlri
  for nlri
  by unfold_locales (auto simp: shadow_executor_def)

end
