(* ===== verification/Journal.thy ===== *)
theory Journal
  imports Executor
begin

text \<open>
  The persistence journal of \<^verbatim>\<open>blackwall-state/src/lib.rs\<close>: the tables \<open>rtbh_blackholes\<close> and
  \<open>flowspec_rules\<close>, the statements that write and read them, and \<open>Store\<close>'s two journal trait
  implementations. Whether the next statements reach the database is a schedule in the state: a
  list of outcomes, after which every statement succeeds. The contract the managers rely on is the
  locale below.
\<close>

section \<open>Tables\<close>

record blackhole_row =
  br_target :: ip_addr
  br_origin :: blackhole_origin
  br_announced_at :: nat
  br_withdrawn_at :: "nat option"

record flowspec_row =
  fw_dst :: ip_addr
  fw_proto :: u8
  fw_dst_port :: u16
  fw_rate :: f32
  fw_origin :: blackhole_origin
  fw_announced_at :: nat
  fw_withdrawn_at :: "nat option"

record store =
  st_blackholes :: "blackhole_row list"
  st_flowspec :: "flowspec_row list"
  st_outcomes :: "bool list"

definition i64_max :: nat where
  "i64_max = 9223372036854775807"

text \<open>Run a statement if the database answers.\<close>

definition st_query :: "(store \<Rightarrow> store) \<Rightarrow> store \<Rightarrow> bool \<times> store" where
  "st_query stmt st = (case st_outcomes st of
     [] \<Rightarrow> (True, stmt st)
   | True # os \<Rightarrow> (True, stmt (st\<lparr>st_outcomes := os\<rparr>))
   | False # os \<Rightarrow> (False, st\<lparr>st_outcomes := os\<rparr>))"

section \<open>Statements\<close>

text \<open>The active row of a target, at most one by the partial unique index.\<close>

definition bh_active :: "ip_addr \<Rightarrow> blackhole_row \<Rightarrow> bool" where
  "bh_active t r \<longleftrightarrow> br_target r = t \<and> br_withdrawn_at r = None"

definition keep_manual :: "blackhole_origin \<Rightarrow> blackhole_origin \<Rightarrow> blackhole_origin" where
  "keep_manual old new = (if old = Manual then Manual else new)"

definition upsert_blackhole ::
  "ip_addr \<Rightarrow> blackhole_origin \<Rightarrow> nat \<Rightarrow> blackhole_row list \<Rightarrow> blackhole_row list"
where
  "upsert_blackhole t orig at_ms rows =
     (if \<exists>r\<in>set rows. bh_active t r
      then map (\<lambda>r. if bh_active t r then r\<lparr>br_origin := keep_manual (br_origin r) orig\<rparr> else r) rows
      else rows @ [\<lparr>br_target = t, br_origin = orig, br_announced_at = min at_ms i64_max,
             br_withdrawn_at = None\<rparr>])"

definition record_blackhole :: "ip_addr \<Rightarrow> blackhole_origin \<Rightarrow> nat \<Rightarrow> store \<Rightarrow> bool \<times> store" where
  "record_blackhole t orig at_ms =
     st_query (\<lambda>st. st\<lparr>st_blackholes := upsert_blackhole t orig at_ms (st_blackholes st)\<rparr>)"

definition mark_withdrawn :: "ip_addr \<Rightarrow> nat \<Rightarrow> bool \<Rightarrow> blackhole_row list \<Rightarrow> blackhole_row list" where
  "mark_withdrawn t at_ms only_auto rows =
     map (\<lambda>r. if bh_active t r \<and> (only_auto \<longrightarrow> br_origin r = Auto)
              then r\<lparr>br_withdrawn_at := Some (min at_ms i64_max)\<rparr> else r) rows"

definition clear_blackhole :: "ip_addr \<Rightarrow> nat \<Rightarrow> bool \<Rightarrow> store \<Rightarrow> bool \<times> store" where
  "clear_blackhole t at_ms only_auto =
     st_query (\<lambda>st. st\<lparr>st_blackholes := mark_withdrawn t at_ms only_auto (st_blackholes st)\<rparr>)"

definition active_blackhole_rows :: "store \<Rightarrow> blackhole_row list" where
  "active_blackhole_rows st = filter (\<lambda>r. br_withdrawn_at r = None) (st_blackholes st)"

text \<open>The scalar columns of a rule: absent components are stored as zero.\<close>

definition flatten_flowspec :: "flowspec_rule \<Rightarrow> ip_addr \<times> u8 \<times> u16 \<times> f32" where
  "flatten_flowspec rule =
     (net_addr (fl_dst rule),
      case fl_protocol rule of None \<Rightarrow> 0 | Some p \<Rightarrow> p,
      case fl_dst_port rule of None \<Rightarrow> 0 | Some p \<Rightarrow> p,
      case fl_action rule of TrafficRate rate \<Rightarrow> rate)"

definition fs_row_active :: "ip_addr \<Rightarrow> u8 \<Rightarrow> u16 \<Rightarrow> flowspec_row \<Rightarrow> bool" where
  "fs_row_active dst proto port r \<longleftrightarrow>
     fw_dst r = dst \<and> fw_proto r = proto \<and> fw_dst_port r = port \<and> fw_withdrawn_at r = None"

definition record_flowspec ::
  "ip_addr \<Rightarrow> u8 \<Rightarrow> u16 \<Rightarrow> f32 \<Rightarrow> blackhole_origin \<Rightarrow> nat \<Rightarrow> store \<Rightarrow> bool \<times> store"
where
  "record_flowspec dst proto port rate orig at_ms = st_query (\<lambda>st. st\<lparr>st_flowspec :=
     (if \<exists>r\<in>set (st_flowspec st). fs_row_active dst proto port r
      then map (\<lambda>r. if fs_row_active dst proto port r
             then r\<lparr>fw_origin := keep_manual (fw_origin r) orig, fw_rate := rate\<rparr> else r) (st_flowspec st)
      else st_flowspec st @ [\<lparr>fw_dst = dst, fw_proto = proto, fw_dst_port = port, fw_rate = rate,
             fw_origin = orig, fw_announced_at = min at_ms i64_max, fw_withdrawn_at = None\<rparr>])\<rparr>)"

definition clear_flowspec :: "ip_addr \<Rightarrow> u8 \<Rightarrow> u16 \<Rightarrow> nat \<Rightarrow> bool \<Rightarrow> store \<Rightarrow> bool \<times> store" where
  "clear_flowspec dst proto port at_ms only_auto = st_query (\<lambda>st. st\<lparr>st_flowspec :=
     map (\<lambda>r. if fs_row_active dst proto port r \<and> (only_auto \<longrightarrow> fw_origin r = Auto)
              then r\<lparr>fw_withdrawn_at := Some (min at_ms i64_max)\<rparr> else r) (st_flowspec st)\<rparr>)"

definition active_flowspec_rows :: "store \<Rightarrow> flowspec_row list" where
  "active_flowspec_rows st = filter (\<lambda>r. fw_withdrawn_at r = None) (st_flowspec st)"

section \<open>The journal traits of the store\<close>

definition store_blackhole_journal :: "store blackhole_journal_ops" where
  "store_blackhole_journal =
     \<lparr>bj_record_announce = (\<lambda>t orig at_ms. record_blackhole t orig at_ms),
      bj_record_withdraw = (\<lambda>t at_ms. clear_blackhole t at_ms False)\<rparr>"

definition store_flowspec_journal :: "store flowspec_journal_ops" where
  "store_flowspec_journal =
     \<lparr>fj_record_announce = (\<lambda>rule orig at_ms. case flatten_flowspec rule of
        (dst, proto, port, rate) \<Rightarrow> record_flowspec dst proto port rate orig at_ms),
      fj_record_withdraw = (\<lambda>rule at_ms. case flatten_flowspec rule of
        (dst, proto, port, _) \<Rightarrow> clear_flowspec dst proto port at_ms False)\<rparr>"

section \<open>The journal contract\<close>

text \<open>
  \<open>rows j\<close> are the targets with an active row, \<open>up j\<close> says that every later write will succeed.
  A successful write has its effect on the rows, a failed one has none.
\<close>

locale blackhole_journal =
  fixes bj :: "'j blackhole_journal_ops"
    and rows :: "'j \<Rightarrow> ip_addr set"
    and up :: "'j \<Rightarrow> bool"
  assumes record_announce: "bj_record_announce bj t orig at_ms j = (ok, j') \<Longrightarrow>
      rows j' = (if ok then insert t (rows j) else rows j) \<and> (up j \<longrightarrow> ok \<and> up j')"
    and record_withdraw: "bj_record_withdraw bj t at_ms j = (ok, j') \<Longrightarrow>
      rows j' = (if ok then rows j - {t} else rows j) \<and> (up j \<longrightarrow> ok \<and> up j')"

definition store_targets :: "store \<Rightarrow> ip_addr set" where
  "store_targets st = br_target ` set (active_blackhole_rows st)"

definition store_up :: "store \<Rightarrow> bool" where
  "store_up st = (\<forall>o'\<in>set (st_outcomes st). o')"

lemma st_query_result:
  assumes "st_query stmt st = (ok, st')"
  shows "\<exists>os. set os \<subseteq> set (st_outcomes st) \<and>
      st' = (if ok then stmt (st\<lparr>st_outcomes := os\<rparr>) else st\<lparr>st_outcomes := os\<rparr>)"
    and "store_up st \<Longrightarrow> ok"
proof -
  show "\<exists>os. set os \<subseteq> set (st_outcomes st) \<and>
      st' = (if ok then stmt (st\<lparr>st_outcomes := os\<rparr>) else st\<lparr>st_outcomes := os\<rparr>)"
  proof (cases "st_outcomes st")
    case Nil
    then have e: "st\<lparr>st_outcomes := []\<rparr> = st" by (cases st) simp
    from Nil assms show ?thesis by (intro exI [of _ "[]"]) (auto simp: st_query_def e)
  next
    case (Cons b os)
    with assms show ?thesis by (intro exI [of _ os]) (auto simp: st_query_def split: bool.splits)
  qed
  show "store_up st \<Longrightarrow> ok"
    using assms by (auto simp: st_query_def store_up_def split: list.splits bool.splits)
qed

lemma targets_map:
  assumes "\<And>r. br_target (f r) = br_target r" "\<And>r. br_withdrawn_at (f r) = br_withdrawn_at r"
  shows "br_target ` {r \<in> set (map f rows). br_withdrawn_at r = None}
    = br_target ` {r \<in> set rows. br_withdrawn_at r = None}"
proof -
  have "{r \<in> set (map f rows). br_withdrawn_at r = None} = f ` {r \<in> set rows. br_withdrawn_at r = None}"
    using assms(2) by auto
  with assms(1) show ?thesis by (simp add: image_image)
qed

lemma upsert_targets:
  "br_target ` {r \<in> set (upsert_blackhole t orig at_ms rows). br_withdrawn_at r = None}
    = insert t (br_target ` {r \<in> set rows. br_withdrawn_at r = None})"
proof (cases "\<exists>r\<in>set rows. bh_active t r")
  case True
  then have "t \<in> br_target ` {r \<in> set rows. br_withdrawn_at r = None}" by (auto simp: bh_active_def)
  moreover have "br_target ` {r \<in> set (upsert_blackhole t orig at_ms rows). br_withdrawn_at r = None}
      = br_target ` {r \<in> set rows. br_withdrawn_at r = None}"
    using True targets_map [of "\<lambda>r. if bh_active t r then r\<lparr>br_origin := keep_manual (br_origin r) orig\<rparr> else r" rows]
    by (simp add: upsert_blackhole_def)
  ultimately show ?thesis by auto
next
  case False
  let ?new = "\<lparr>br_target = t, br_origin = orig, br_announced_at = min at_ms i64_max, br_withdrawn_at = None\<rparr>"
  have "{r \<in> set (rows @ [?new]). br_withdrawn_at r = None} = insert ?new {r \<in> set rows. br_withdrawn_at r = None}"
    by auto
  with False show ?thesis by (simp add: upsert_blackhole_def)
qed

lemma mark_withdrawn_targets:
  "br_target ` {r \<in> set (mark_withdrawn t at_ms False rows). br_withdrawn_at r = None}
    = br_target ` {r \<in> set rows. br_withdrawn_at r = None} - {t}"
proof -
  have "{r \<in> set (mark_withdrawn t at_ms False rows). br_withdrawn_at r = None}
      = {r \<in> set rows. br_withdrawn_at r = None \<and> br_target r \<noteq> t}"
    by (induction rows) (auto simp: mark_withdrawn_def bh_active_def)
  then show ?thesis by auto
qed

lemma store_targets_eq: "store_targets st = br_target ` {r \<in> set (st_blackholes st). br_withdrawn_at r = None}"
  by (simp add: store_targets_def active_blackhole_rows_def)

interpretation store_bj: blackhole_journal store_blackhole_journal store_targets store_up
proof unfold_locales
  fix t orig at_ms j ok j'
  assume "bj_record_announce store_blackhole_journal t orig at_ms j = (ok, j')"
  then have "record_blackhole t orig at_ms j = (ok, j')" by (simp add: store_blackhole_journal_def)
  note q = st_query_result [OF this [unfolded record_blackhole_def]]
  show "store_targets j' = (if ok then insert t (store_targets j) else store_targets j) \<and>
      (store_up j \<longrightarrow> ok \<and> store_up j')"
    using q by (auto simp: store_targets_eq upsert_targets store_up_def split: if_splits)
next
  fix t at_ms j ok j'
  assume "bj_record_withdraw store_blackhole_journal t at_ms j = (ok, j')"
  then have "clear_blackhole t at_ms False j = (ok, j')" by (simp add: store_blackhole_journal_def)
  note q = st_query_result [OF this [unfolded clear_blackhole_def]]
  show "store_targets j' = (if ok then store_targets j - {t} else store_targets j) \<and>
      (store_up j \<longrightarrow> ok \<and> store_up j')"
    using q by (auto simp: store_targets_eq mark_withdrawn_targets store_up_def split: if_splits)
qed

end
