(* ===== verification/Rate_Limit.thy ===== *)
theory Rate_Limit
  imports Prelude
begin

text \<open>
  The cross-plane arming rate limiter of \<^verbatim>\<open>blackwall-rtbh/src/rate_limit.rs\<close>: a sliding window of
  the admitted announces' timestamps. It refines a specification that remembers every admission,
  and so bounds the admissions in every closed minute.
\<close>

definition WINDOW_MS :: nat where
  "WINDOW_MS = 60000"

record arming_rate_limiter =
  max_per_min :: nat
  window :: "nat list"

definition rl_new :: "nat \<Rightarrow> arming_rate_limiter" where
  "rl_new m = \<lparr>max_per_min = m, window = []\<rparr>"

text \<open>The eviction loop: pop the front while it is older than the window.\<close>

fun pop_aged :: "nat \<Rightarrow> nat list \<Rightarrow> nat list" where
  "pop_aged start [] = []"
| "pop_aged start (oldest # rest) =
     (if oldest < start then pop_aged start rest else oldest # rest)"

definition try_acquire :: "arming_rate_limiter \<Rightarrow> nat \<Rightarrow> bool \<times> arming_rate_limiter" where
  "try_acquire rl now_ms =
     (let window_start = now_ms - WINDOW_MS;
          w = pop_aged window_start (window rl);
          in_window = min (length w) u32_max
      in if in_window < max_per_min rl
         then (True, rl\<lparr>window := w @ [now_ms]\<rparr>)
         else (False, rl\<lparr>window := w\<rparr>))"

section \<open>Runs and the specification\<close>

text \<open>The admitted attempts of a run over a list of attempt times, oldest first.\<close>

fun rl_run :: "arming_rate_limiter \<Rightarrow> nat list \<Rightarrow> nat list" where
  "rl_run rl [] = []"
| "rl_run rl (t # ts) =
     (case try_acquire rl t of (ok, rl') \<Rightarrow> (if ok then [t] else []) @ rl_run rl' ts)"

text \<open>
  The specification keeps every admission and admits an attempt iff fewer than \<open>m\<close> of them lie in
  the minute that ends now.
\<close>

definition in_minute :: "nat \<Rightarrow> nat list \<Rightarrow> nat list" where
  "in_minute start hist = filter (\<lambda>t. start \<le> t \<and> t \<le> start + WINDOW_MS) hist"

fun spec_run :: "nat \<Rightarrow> nat list \<Rightarrow> nat list \<Rightarrow> nat list" where
  "spec_run m hist [] = []"
| "spec_run m hist (t # ts) =
     (if length (filter (\<lambda>h. t - WINDOW_MS \<le> h) hist) < m
      then t # spec_run m (hist @ [t]) ts else spec_run m hist ts)"

section \<open>Refinement\<close>

lemma pop_aged_sorted: "sorted w \<Longrightarrow> pop_aged start w = filter (\<lambda>t. start \<le> t) w"
proof (induction w)
  case (Cons a w)
  then have "start \<le> a \<Longrightarrow> filter (\<lambda>t. start \<le> t) w = w" by (auto simp: filter_id_conv)
  with Cons show ?case by simp
qed simp

lemma try_acquire_max [simp]: "max_per_min (snd (try_acquire rl t)) = max_per_min rl"
  by (simp add: try_acquire_def Let_def)

text \<open>The window holds the part of the history that the last eviction kept.\<close>

definition rl_abs :: "nat \<Rightarrow> nat list \<Rightarrow> arming_rate_limiter \<Rightarrow> bool" where
  "rl_abs lo hist rl \<longleftrightarrow> sorted hist \<and> window rl = filter (\<lambda>h. lo \<le> h) hist"

lemma rl_abs_step:
  assumes abs: "rl_abs lo hist rl" and lo: "lo \<le> t - WINDOW_MS"
    and m: "max_per_min rl \<le> u32_max" and le: "\<forall>h\<in>set hist. h \<le> t"
  defines "ok \<equiv> length (filter (\<lambda>h. t - WINDOW_MS \<le> h) hist) < max_per_min rl"
  shows "fst (try_acquire rl t) = ok"
    and "rl_abs (t - WINDOW_MS) (if ok then hist @ [t] else hist) (snd (try_acquire rl t))"
proof -
  have w: "pop_aged (t - WINDOW_MS) (window rl) = filter (\<lambda>h. t - WINDOW_MS \<le> h) hist"
    using abs lo by (auto simp: rl_abs_def pop_aged_sorted sorted_wrt_filter intro!: filter_cong)
  have ok: "min (length (filter (\<lambda>h. t - WINDOW_MS \<le> h) hist)) u32_max < max_per_min rl \<longleftrightarrow> ok"
    using m by (auto simp: ok_def)
  show "fst (try_acquire rl t) = ok"
    by (simp add: try_acquire_def Let_def w ok)
  show "rl_abs (t - WINDOW_MS) (if ok then hist @ [t] else hist) (snd (try_acquire rl t))"
    using abs le w by (auto simp: try_acquire_def Let_def w ok rl_abs_def sorted_append)
qed

lemma rl_refines:
  assumes "rl_abs lo hist rl" "max_per_min rl \<le> u32_max" "sorted ts"
    "\<forall>t\<in>set ts. lo \<le> t - WINDOW_MS \<and> (\<forall>h\<in>set hist. h \<le> t)"
  shows "rl_run rl ts = spec_run (max_per_min rl) hist ts"
  using assms
proof (induction ts arbitrary: lo hist rl)
  case (Cons t ts)
  let ?ok = "length (filter (\<lambda>h. t - WINDOW_MS \<le> h) hist) < max_per_min rl"
  note step = rl_abs_step [of lo hist rl t]
  have "rl_run (snd (try_acquire rl t)) ts
      = spec_run (max_per_min (snd (try_acquire rl t))) (if ?ok then hist @ [t] else hist) ts"
    using Cons.prems step(2) by (intro Cons.IH [of "t - WINDOW_MS"]) (auto intro: diff_le_mono)
  then show ?case using step(1) Cons.prems by (auto simp: case_prod_beta)
qed simp

lemma rl_abs_new: "rl_abs 0 [] (rl_new m)"
  by (simp add: rl_abs_def rl_new_def)

section \<open>The bound\<close>

lemma in_minute_snoc:
  assumes "\<forall>h\<in>set hist. h \<le> t" "start \<le> t" "t \<le> start + WINDOW_MS"
  shows "set (in_minute start hist) \<subseteq> set (filter (\<lambda>h. t - WINDOW_MS \<le> h) hist)"
  using assms by (auto simp: in_minute_def)

lemma in_minute_le:
  assumes "t \<le> start + WINDOW_MS"
  shows "length (in_minute start hist) \<le> length (filter (\<lambda>h. t - WINDOW_MS \<le> h) hist)"
  unfolding in_minute_def using assms by (induction hist) auto

lemma spec_run_bound:
  assumes "length (in_minute start hist) \<le> m"
  shows "length (in_minute start (hist @ spec_run m hist ts)) \<le> m"
  using assms
proof (induction ts arbitrary: hist)
  case (Cons t ts)
  show ?case
  proof (cases "length (filter (\<lambda>h. t - WINDOW_MS \<le> h) hist) < m")
    case True
    have "length (in_minute start (hist @ [t])) \<le> m"
    proof (cases "start \<le> t \<and> t \<le> start + WINDOW_MS")
      case inside: True
      then have "length (in_minute start hist) < m"
        using in_minute_le [of t start hist] True by simp
      then show ?thesis by (simp add: in_minute_def)
    next
      case False
      then show ?thesis using Cons.prems by (auto simp: in_minute_def)
    qed
    from Cons.IH [OF this] True show ?thesis by simp
  next
    case False
    with Cons show ?thesis by simp
  qed
qed simp

lemma spec_run_admits_all:
  "length hist + length ts \<le> m \<Longrightarrow> spec_run m hist ts = ts"
proof (induction ts arbitrary: hist)
  case (Cons t ts)
  have "length (filter (\<lambda>h. t - WINDOW_MS \<le> h) hist) < m"
    using Cons.prems le_less_trans [OF length_filter_le, of hist m] by simp
  with Cons show ?case by simp
qed simp

section \<open>Properties\<close>

text \<open>The limiter that keeps only the trailing window decides every attempt of a run with
  non-decreasing times exactly as the specification that remembers all admissions does.\<close>

lemma rate_limit_refines:
  assumes "m \<le> u32_max" "sorted ts"
  shows "rl_run (rl_new m) ts = spec_run m [] ts"
  using rl_refines [OF rl_abs_new _ assms(2)] assms(1) by (simp add: rl_new_def)

text \<open>No closed interval of 60 seconds contains more than \<open>max_per_min\<close> admissions of the
  limiter, whatever the attempts are, provided their times do not decrease.\<close>

lemma rate_limit_bound:
  assumes "m \<le> u32_max" "sorted ts"
  shows "length (in_minute start (rl_run (rl_new m) ts)) \<le> m"
proof -
  have "rl_run (rl_new m) ts = spec_run m [] ts"
    using rl_refines [OF rl_abs_new _ assms(2)] assms(1) by (simp add: rl_new_def)
  with spec_run_bound [of start "[]" m ts] show ?thesis by (simp add: in_minute_def)
qed

end
