(* ===== verification/Rtbh_Manager.thy ===== *)
theory Rtbh_Manager
  imports Journal Rate_Limit
begin

text \<open>
  The RTBH manager of \<^verbatim>\<open>blackwall-rtbh/src/manager.rs\<close>: it executes the controller's actions on a
  BGP executor, mirrors them into a journal, queues failed journal writes and failed re-announces
  for the next tick, gates new announces on the shared rate limiter and on the disarm switch.
  \<open>bx\<close> and \<open>bj\<close> are the executor and the journal the manager is built with.
\<close>

section \<open>State\<close>

datatype reject_reason = NotAnnouncedDisarmed | InsideProtected | OutsideEligible | NoNextHop

text \<open>The message of \<open>Rejected\<close> is kept as its kind.\<close>

datatype apply_outcome = Applied | Deferred | Rejected reject_reason

datatype mirror_op =
    MirrorAnnounce ip_addr blackhole_origin nat
  | MirrorWithdraw ip_addr nat

fun mirror_target :: "mirror_op \<Rightarrow> ip_addr" where
  "mirror_target (MirrorAnnounce t orig at_ms) = t"
| "mirror_target (MirrorWithdraw t at_ms) = t"

record reapply_op =
  ro_target :: ip_addr
  ro_route :: route

datatype announce_outcome = AoApplied | AoRateCapped | AoDisarmed | AoFailed

record ('b, 'j) rtbh_manager =
  rm_controller :: rtbh_controller
  rm_bgp :: 'b
  rm_journal :: 'j
  rm_pending_mirror :: "mirror_op list"
  rm_pending_reapply :: "reapply_op list"
  rm_apply_failures :: nat
  rm_rate_limiter :: "arming_rate_limiter option"
  rm_ratecapped :: nat
  rm_disarmed :: bool
  rm_disarmed_skips :: nat

definition rm_new :: "rtbh_controller \<Rightarrow> 'b \<Rightarrow> 'j \<Rightarrow> ('b, 'j) rtbh_manager" where
  "rm_new controller bgp journal =
     \<lparr>rm_controller = controller, rm_bgp = bgp, rm_journal = journal, rm_pending_mirror = [],
      rm_pending_reapply = [], rm_apply_failures = 0, rm_rate_limiter = None, rm_ratecapped = 0,
      rm_disarmed = False, rm_disarmed_skips = 0\<rparr>"

definition rm_with_rate_limiter :: "arming_rate_limiter \<Rightarrow> ('b, 'j) rtbh_manager \<Rightarrow> ('b, 'j) rtbh_manager"
where
  "rm_with_rate_limiter limiter m = m\<lparr>rm_rate_limiter := Some limiter\<rparr>"

section \<open>Queues\<close>

definition rm_queue_mirror :: "mirror_op \<Rightarrow> ('b, 'j) rtbh_manager \<Rightarrow> ('b, 'j) rtbh_manager" where
  "rm_queue_mirror oper m = m\<lparr>rm_pending_mirror :=
     filter (\<lambda>o'. mirror_target o' \<noteq> mirror_target oper) (rm_pending_mirror m) @ [oper]\<rparr>"

definition rm_queue_reapply :: "reapply_op \<Rightarrow> ('b, 'j) rtbh_manager \<Rightarrow> ('b, 'j) rtbh_manager" where
  "rm_queue_reapply oper m = m\<lparr>rm_pending_reapply :=
     filter (\<lambda>o'. ro_target o' \<noteq> ro_target oper) (rm_pending_reapply m) @ [oper]\<rparr>"

definition rm_active :: "('b, 'j) rtbh_manager \<Rightarrow> (ip_addr \<times> nat \<times> blackhole_origin) list" where
  "rm_active m = active_blackholes (rm_controller m)"

definition rm_is_active :: "('b, 'j) rtbh_manager \<Rightarrow> ip_addr \<Rightarrow> bool" where
  "rm_is_active m target = (\<exists>e\<in>set (active_blackholes (rm_controller m)). fst e = target)"

definition rm_rollback :: "ip_addr \<Rightarrow> ('b, 'j) rtbh_manager \<Rightarrow> ('b, 'j) rtbh_manager" where
  "rm_rollback target m = m\<lparr>rm_controller := rtbh_rollback (rm_controller m) target\<rparr>"

section \<open>Executing one action\<close>

definition rm_execute_announce ::
  "'b bgp_executor_ops \<Rightarrow> 'j blackhole_journal_ops \<Rightarrow> ip_addr \<Rightarrow> route \<Rightarrow> blackhole_origin \<Rightarrow> nat \<Rightarrow> nat \<Rightarrow>
   ('b, 'j) rtbh_manager \<Rightarrow> announce_outcome \<times> ('b, 'j) rtbh_manager"
where
  "rm_execute_announce bx bj target rt orig mono_now wall_now m =
     (if rm_disarmed m
      then (AoDisarmed, (rm_rollback target m)\<lparr>rm_disarmed_skips := sat_inc (rm_disarmed_skips m)\<rparr>)
      else
        case (case rm_rate_limiter m of None \<Rightarrow> (True, None)
              | Some rl \<Rightarrow> (case try_acquire rl mono_now of (ok, rl') \<Rightarrow> (ok, Some rl'))) of
          (allowed, rl') \<Rightarrow>
            let m = m\<lparr>rm_rate_limiter := rl'\<rparr> in
            if \<not> allowed
            then (AoRateCapped, (rm_rollback target m)\<lparr>rm_ratecapped := sat_inc (rm_ratecapped m)\<rparr>)
            else case bx_announce bx rt (rm_bgp m) of (ok, b') \<Rightarrow>
              let m = m\<lparr>rm_bgp := b'\<rparr> in
              if \<not> ok
              then (AoFailed, (rm_rollback target m)\<lparr>rm_apply_failures := sat_inc (rm_apply_failures m)\<rparr>)
              else case bj_record_announce bj target orig wall_now (rm_journal m) of (jok, j') \<Rightarrow>
                let m = m\<lparr>rm_journal := j'\<rparr> in
                (AoApplied, if jok then m else rm_queue_mirror (MirrorAnnounce target orig wall_now) m))"

definition rm_execute_withdraw ::
  "'b bgp_executor_ops \<Rightarrow> 'j blackhole_journal_ops \<Rightarrow> ip_net \<Rightarrow> nat \<Rightarrow>
   ('b, 'j) rtbh_manager \<Rightarrow> ('b, 'j) rtbh_manager"
where
  "rm_execute_withdraw bx bj p wall_now m =
     (case bx_withdraw bx p (rm_bgp m) of (ok, b') \<Rightarrow>
        let m = m\<lparr>rm_bgp := b'\<rparr>; target = net_addr p in
        if \<not> ok then m
        else case bj_record_withdraw bj target wall_now (rm_journal m) of (jok, j') \<Rightarrow>
          let m = m\<lparr>rm_journal := j'\<rparr> in
          if jok then m else rm_queue_mirror (MirrorWithdraw target wall_now) m)"

fun rm_execute ::
  "'b bgp_executor_ops \<Rightarrow> 'j blackhole_journal_ops \<Rightarrow> nat \<Rightarrow> nat \<Rightarrow> rtbh_action \<Rightarrow>
   ('b, 'j) rtbh_manager \<Rightarrow> ('b, 'j) rtbh_manager"
where
  "rm_execute bx bj mono_now wall_now (Announce rt) m =
     snd (rm_execute_announce bx bj (net_addr (r_prefix rt)) rt Auto mono_now wall_now m)"
| "rm_execute bx bj mono_now wall_now (Withdraw p) m = rm_execute_withdraw bx bj p wall_now m"

section \<open>Retries\<close>

definition rm_mirror_write ::
  "'j blackhole_journal_ops \<Rightarrow> mirror_op \<Rightarrow> 'j \<Rightarrow> bool \<times> 'j"
where
  "rm_mirror_write bj oper j = (case oper of
     MirrorAnnounce t orig at_ms \<Rightarrow> bj_record_announce bj t orig at_ms j
   | MirrorWithdraw t at_ms \<Rightarrow> bj_record_withdraw bj t at_ms j)"

fun rm_mirror_loop ::
  "'j blackhole_journal_ops \<Rightarrow> mirror_op list \<Rightarrow> ('b, 'j) rtbh_manager \<Rightarrow> ('b, 'j) rtbh_manager"
where
  "rm_mirror_loop bj [] m = m"
| "rm_mirror_loop bj (oper # opers) m =
     (case rm_mirror_write bj oper (rm_journal m) of (ok, j') \<Rightarrow>
        let m = m\<lparr>rm_journal := j'\<rparr> in
        rm_mirror_loop bj opers
          (if ok then m else m\<lparr>rm_pending_mirror := rm_pending_mirror m @ [oper]\<rparr>))"

definition rm_retry_pending_mirror ::
  "'j blackhole_journal_ops \<Rightarrow> ('b, 'j) rtbh_manager \<Rightarrow> ('b, 'j) rtbh_manager"
where
  "rm_retry_pending_mirror bj m =
     (if rm_pending_mirror m = [] then m
      else rm_mirror_loop bj (rm_pending_mirror m) (m\<lparr>rm_pending_mirror := []\<rparr>))"

fun rm_reapply_loop ::
  "'b bgp_executor_ops \<Rightarrow> reapply_op list \<Rightarrow> ('b, 'j) rtbh_manager \<Rightarrow> ('b, 'j) rtbh_manager"
where
  "rm_reapply_loop bx [] m = m"
| "rm_reapply_loop bx (oper # opers) m =
     (if \<not> rm_is_active m (ro_target oper) then rm_reapply_loop bx opers m
      else case bx_announce bx (ro_route oper) (rm_bgp m) of (ok, b') \<Rightarrow>
        let m = m\<lparr>rm_bgp := b'\<rparr> in
        rm_reapply_loop bx opers
          (if ok then m else m\<lparr>rm_pending_reapply := rm_pending_reapply m @ [oper]\<rparr>))"

definition rm_retry_pending_reapply ::
  "'b bgp_executor_ops \<Rightarrow> ('b, 'j) rtbh_manager \<Rightarrow> ('b, 'j) rtbh_manager"
where
  "rm_retry_pending_reapply bx m =
     (if rm_pending_reapply m = [] then m
      else rm_reapply_loop bx (rm_pending_reapply m) (m\<lparr>rm_pending_reapply := []\<rparr>))"

section \<open>Entry points\<close>

definition rm_apply_event ::
  "contains \<Rightarrow> 'b bgp_executor_ops \<Rightarrow> 'j blackhole_journal_ops \<Rightarrow> detection_event \<Rightarrow> nat \<Rightarrow> nat \<Rightarrow>
   ('b, 'j) rtbh_manager \<Rightarrow> ('b, 'j) rtbh_manager"
where
  "rm_apply_event contains bx bj event mono_now wall_now m =
     (case rtbh_on_event contains (rm_controller m) event mono_now of (actions, c') \<Rightarrow>
        fold (rm_execute bx bj mono_now wall_now) actions (m\<lparr>rm_controller := c'\<rparr>))"

definition rm_tick ::
  "'b bgp_executor_ops \<Rightarrow> 'j blackhole_journal_ops \<Rightarrow> nat \<Rightarrow> nat \<Rightarrow>
   ('b, 'j) rtbh_manager \<Rightarrow> ('b, 'j) rtbh_manager"
where
  "rm_tick bx bj mono_now wall_now m =
     (let m = rm_retry_pending_mirror bj m;
          m = rm_retry_pending_reapply bx m
      in case rtbh_tick (rm_controller m) mono_now of (actions, c') \<Rightarrow>
           fold (rm_execute bx bj mono_now wall_now) actions (m\<lparr>rm_controller := c'\<rparr>))"

definition rm_add_outcome :: "announce_outcome \<Rightarrow> apply_outcome" where
  "rm_add_outcome ao = (case ao of AoApplied \<Rightarrow> Applied | AoRateCapped \<Rightarrow> Deferred
     | AoDisarmed \<Rightarrow> Rejected NotAnnouncedDisarmed | AoFailed \<Rightarrow> Deferred)"

definition rm_apply_add ::
  "contains \<Rightarrow> 'b bgp_executor_ops \<Rightarrow> 'j blackhole_journal_ops \<Rightarrow> ip_addr \<Rightarrow> nat \<Rightarrow> nat \<Rightarrow>
   ('b, 'j) rtbh_manager \<Rightarrow> apply_outcome \<times> ('b, 'j) rtbh_manager"
where
  "rm_apply_add contains bx bj target mono_now wall_now m =
     (case rtbh_manual_add contains (rm_controller m) target mono_now of (actions, c') \<Rightarrow>
        let m = m\<lparr>rm_controller := c'\<rparr>; cfg = rc_config c' in
        case actions of
          Announce rt # _ \<Rightarrow>
            (case rm_execute_announce bx bj target rt Manual mono_now wall_now m of
               (ao, m') \<Rightarrow> (rm_add_outcome ao, m'))
        | _ \<Rightarrow>
            if rm_is_active m target
            then (case bj_record_announce bj target Manual wall_now (rm_journal m) of (jok, j') \<Rightarrow>
                    let m = m\<lparr>rm_journal := j'\<rparr> in
                    (Applied, if jok then m else rm_queue_mirror (MirrorAnnounce target Manual wall_now) m))
            else if rtbh_is_protected contains cfg target then (Rejected InsideProtected, m)
            else if \<not> rtbh_is_eligible contains cfg target then (Rejected OutsideEligible, m)
            else if \<not> rtbh_has_next_hop cfg target then (Rejected NoNextHop, m)
            else (Deferred, m))"

definition rm_apply_remove ::
  "'b bgp_executor_ops \<Rightarrow> 'j blackhole_journal_ops \<Rightarrow> ip_addr \<Rightarrow> nat \<Rightarrow> nat \<Rightarrow>
   ('b, 'j) rtbh_manager \<Rightarrow> ('b, 'j) rtbh_manager"
where
  "rm_apply_remove bx bj target mono_now wall_now m =
     (case rtbh_manual_remove (rm_controller m) target of (actions, c') \<Rightarrow>
        fold (rm_execute bx bj mono_now wall_now) actions (m\<lparr>rm_controller := c'\<rparr>))"

fun rm_rehydrate ::
  "contains \<Rightarrow> 'b bgp_executor_ops \<Rightarrow> (ip_addr \<times> nat \<times> blackhole_origin) list \<Rightarrow> nat \<Rightarrow>
   ('b, 'j) rtbh_manager \<Rightarrow> ('b, 'j) rtbh_manager"
where
  "rm_rehydrate contains bx [] mono_now m = m"
| "rm_rehydrate contains bx ((target, persisted_at, orig) # rows) mono_now m =
     (case rtbh_resume contains (rm_controller m) target mono_now orig of (actions, c') \<Rightarrow>
        let m = m\<lparr>rm_controller := c'\<rparr> in
        rm_rehydrate contains bx rows mono_now
          (case actions of
             Announce rt # _ \<Rightarrow>
               (case bx_announce bx rt (rm_bgp m) of (ok, b') \<Rightarrow>
                  let m = m\<lparr>rm_bgp := b'\<rparr> in
                  if ok then m else rm_queue_reapply \<lparr>ro_target = target, ro_route = rt\<rparr> m)
           | _ \<Rightarrow> m))"

fun rm_disarm_action ::
  "'b bgp_executor_ops \<Rightarrow> rtbh_action \<Rightarrow> ('b, 'j) rtbh_manager \<Rightarrow> ('b, 'j) rtbh_manager"
where
  "rm_disarm_action bx (Withdraw p) m = (case bx_withdraw bx p (rm_bgp m) of (ok, b') \<Rightarrow> m\<lparr>rm_bgp := b'\<rparr>)"
| "rm_disarm_action bx (Announce rt) m = m"

fun rm_disarm_loop ::
  "'b bgp_executor_ops \<Rightarrow> ip_addr list \<Rightarrow> ('b, 'j) rtbh_manager \<Rightarrow> ('b, 'j) rtbh_manager"
where
  "rm_disarm_loop bx [] m = m"
| "rm_disarm_loop bx (target # targets) m =
     (case rtbh_manual_remove (rm_controller m) target of (actions, c') \<Rightarrow>
        rm_disarm_loop bx targets (fold (rm_disarm_action bx) actions (m\<lparr>rm_controller := c'\<rparr>)))"

definition rm_disarm :: "'b bgp_executor_ops \<Rightarrow> nat \<Rightarrow> ('b, 'j) rtbh_manager \<Rightarrow> ('b, 'j) rtbh_manager" where
  "rm_disarm bx mono_now m =
     (if rm_disarmed m then m
      else rm_disarm_loop bx (map fst (active_blackholes (rm_controller m))) (m\<lparr>rm_disarmed := True\<rparr>))"

section \<open>Runs of the manager\<close>

datatype rtbh_mgr_op =
    ApplyEvent detection_event nat nat
  | MgrTick nat nat
  | ApplyAdd ip_addr nat nat
  | ApplyRemove ip_addr nat nat
  | Rehydrate "(ip_addr \<times> nat \<times> blackhole_origin) list" nat
  | Disarm nat

fun rm_exec ::
  "contains \<Rightarrow> 'b bgp_executor_ops \<Rightarrow> 'j blackhole_journal_ops \<Rightarrow> rtbh_mgr_op \<Rightarrow>
   ('b, 'j) rtbh_manager \<Rightarrow> ('b, 'j) rtbh_manager"
where
  "rm_exec contains bx bj (ApplyEvent ev mn wn) m = rm_apply_event contains bx bj ev mn wn m"
| "rm_exec contains bx bj (MgrTick mn wn) m = rm_tick bx bj mn wn m"
| "rm_exec contains bx bj (ApplyAdd t mn wn) m = snd (rm_apply_add contains bx bj t mn wn m)"
| "rm_exec contains bx bj (ApplyRemove t mn wn) m = rm_apply_remove bx bj t mn wn m"
| "rm_exec contains bx bj (Rehydrate rows mn) m = rm_rehydrate contains bx rows mn m"
| "rm_exec contains bx bj (Disarm mn) m = rm_disarm bx mn m"

definition rm_run ::
  "contains \<Rightarrow> 'b bgp_executor_ops \<Rightarrow> 'j blackhole_journal_ops \<Rightarrow> rtbh_mgr_op list \<Rightarrow>
   ('b, 'j) rtbh_manager \<Rightarrow> ('b, 'j) rtbh_manager"
where
  "rm_run contains bx bj opers m = fold (rm_exec contains bx bj) opers m"

section \<open>What each step changes\<close>

lemmas rm_step_defs =
  rm_execute_announce_def rm_execute_withdraw_def rm_queue_mirror_def rm_queue_reapply_def
  rm_rollback_def Let_def

lemma rm_execute_announce_cases:
  obtains (skipped) b' where
      "rm_controller (snd (rm_execute_announce bx bj t rt orig mn wn m)) = rtbh_rollback (rm_controller m) t"
      "rm_bgp (snd (rm_execute_announce bx bj t rt orig mn wn m)) = b'"
      "b' = rm_bgp m \<or> bx_announce bx rt (rm_bgp m) = (False, b')"
      "rm_journal (snd (rm_execute_announce bx bj t rt orig mn wn m)) = rm_journal m"
      "rm_pending_mirror (snd (rm_execute_announce bx bj t rt orig mn wn m)) = rm_pending_mirror m"
      "fst (rm_execute_announce bx bj t rt orig mn wn m) \<noteq> AoApplied"
  | (applied) b' jok j' where
      "\<not> rm_disarmed m" "bx_announce bx rt (rm_bgp m) = (True, b')"
      "bj_record_announce bj t orig wn (rm_journal m) = (jok, j')"
      "rm_controller (snd (rm_execute_announce bx bj t rt orig mn wn m)) = rm_controller m"
      "rm_bgp (snd (rm_execute_announce bx bj t rt orig mn wn m)) = b'"
      "rm_journal (snd (rm_execute_announce bx bj t rt orig mn wn m)) = j'"
      "rm_pending_mirror (snd (rm_execute_announce bx bj t rt orig mn wn m)) =
         (if jok then rm_pending_mirror m
          else rm_pending_mirror (rm_queue_mirror (MirrorAnnounce t orig wn) m))"
      "fst (rm_execute_announce bx bj t rt orig mn wn m) = AoApplied"
proof -
  obtain ok rl where rlo: "(case rm_rate_limiter m of None \<Rightarrow> (True, None)
      | Some rl \<Rightarrow> (case try_acquire rl mn of (ok, rl') \<Rightarrow> (ok, Some rl'))) = (ok, rl)" by fastforce
  obtain aok b' where ann: "bx_announce bx rt (rm_bgp m) = (aok, b')" by fastforce
  obtain jok j' where jrn: "bj_record_announce bj t orig wn (rm_journal m) = (jok, j')" by fastforce
  consider "rm_disarmed m \<or> \<not> ok" | "\<not> rm_disarmed m" "ok" "\<not> aok" | "\<not> rm_disarmed m" "ok" "aok"
    by blast
  then show thesis
  proof cases
    case 1 then show thesis
      by (intro skipped [of "rm_bgp m"]) (auto simp: rm_step_defs rlo)
  next
    case 2 then show thesis
      by (intro skipped [of b']) (auto simp: rm_step_defs rlo ann)
  next
    case 3 then show thesis
      by (intro applied [of b' jok j']) (auto simp: rm_step_defs rlo ann jrn)
  qed
qed

lemma rm_execute_announce_frame [simp]:
  "rm_pending_reapply (snd (rm_execute_announce bx bj t rt orig mn wn m)) = rm_pending_reapply m"
  "rm_disarmed (snd (rm_execute_announce bx bj t rt orig mn wn m)) = rm_disarmed m"
  by (auto simp: rm_step_defs split: prod.splits)

lemma rm_execute_withdraw_cases:
  obtains (refused) b' where "bx_withdraw bx p (rm_bgp m) = (False, b')"
      "rm_bgp (rm_execute_withdraw bx bj p wn m) = b'"
      "rm_journal (rm_execute_withdraw bx bj p wn m) = rm_journal m"
      "rm_pending_mirror (rm_execute_withdraw bx bj p wn m) = rm_pending_mirror m"
  | (accepted) b' jok j' where "bx_withdraw bx p (rm_bgp m) = (True, b')"
      "bj_record_withdraw bj (net_addr p) wn (rm_journal m) = (jok, j')"
      "rm_bgp (rm_execute_withdraw bx bj p wn m) = b'"
      "rm_journal (rm_execute_withdraw bx bj p wn m) = j'"
      "rm_pending_mirror (rm_execute_withdraw bx bj p wn m) =
         (if jok then rm_pending_mirror m
          else rm_pending_mirror (rm_queue_mirror (MirrorWithdraw (net_addr p) wn) m))"
proof -
  obtain ok b' where w: "bx_withdraw bx p (rm_bgp m) = (ok, b')" by fastforce
  obtain jok j' where jrn: "bj_record_withdraw bj (net_addr p) wn (rm_journal m) = (jok, j')" by fastforce
  show thesis
  proof (cases ok)
    case True then show thesis using w jrn by (intro accepted [of b' jok j']) (auto simp: rm_step_defs)
  next
    case False then show thesis using w by (intro refused [of b']) (auto simp: rm_step_defs)
  qed
qed

lemma rm_execute_withdraw_frame [simp]:
  "rm_controller (rm_execute_withdraw bx bj p wn m) = rm_controller m"
  "rm_pending_reapply (rm_execute_withdraw bx bj p wn m) = rm_pending_reapply m"
  "rm_disarmed (rm_execute_withdraw bx bj p wn m) = rm_disarmed m"
  by (auto simp: rm_step_defs split: prod.splits)

lemma rm_mirror_loop_frame [simp]:
  "rm_controller (rm_mirror_loop bj opers m) = rm_controller m"
  "rm_bgp (rm_mirror_loop bj opers m) = rm_bgp m"
  "rm_pending_reapply (rm_mirror_loop bj opers m) = rm_pending_reapply m"
  "rm_disarmed (rm_mirror_loop bj opers m) = rm_disarmed m"
  by (induction opers arbitrary: m) (auto simp: Let_def split: prod.splits)

lemma rm_retry_mirror_frame [simp]:
  "rm_controller (rm_retry_pending_mirror bj m) = rm_controller m"
  "rm_bgp (rm_retry_pending_mirror bj m) = rm_bgp m"
  "rm_pending_reapply (rm_retry_pending_mirror bj m) = rm_pending_reapply m"
  "rm_disarmed (rm_retry_pending_mirror bj m) = rm_disarmed m"
  by (auto simp: rm_retry_pending_mirror_def)

lemma rm_reapply_loop_frame [simp]:
  "rm_controller (rm_reapply_loop bx opers m) = rm_controller m"
  "rm_journal (rm_reapply_loop bx opers m) = rm_journal m"
  "rm_pending_mirror (rm_reapply_loop bx opers m) = rm_pending_mirror m"
  "rm_disarmed (rm_reapply_loop bx opers m) = rm_disarmed m"
  by (induction opers arbitrary: m) (auto simp: Let_def split: prod.splits)

lemma rm_retry_reapply_frame [simp]:
  "rm_controller (rm_retry_pending_reapply bx m) = rm_controller m"
  "rm_journal (rm_retry_pending_reapply bx m) = rm_journal m"
  "rm_pending_mirror (rm_retry_pending_reapply bx m) = rm_pending_mirror m"
  "rm_disarmed (rm_retry_pending_reapply bx m) = rm_disarmed m"
  by (auto simp: rm_retry_pending_reapply_def)

lemma rm_is_active_iff: "rm_is_active m t \<longleftrightarrow> t \<in> set (hm_keys (rc_active (rm_controller m)))"
  by (force simp: rm_is_active_def active_blackholes_def hm_keys_def)

section \<open>The manager drives the controller\<close>

text \<open>Whatever the manager does to its controller is a sequence of controller operations.\<close>

definition ctl_reach :: "contains \<Rightarrow> rtbh_controller \<Rightarrow> rtbh_controller \<Rightarrow> bool" where
  "ctl_reach contains c c' \<longleftrightarrow> (\<exists>opers. c' = snd (rtbh_run contains opers c))"

lemma ctl_reach_refl [intro, simp]: "ctl_reach contains c c"
  unfolding ctl_reach_def by (rule exI [of _ "[]"]) simp

lemma ctl_reach_trans [trans]:
  "ctl_reach contains a b \<Longrightarrow> ctl_reach contains b c \<Longrightarrow> ctl_reach contains a c"
  unfolding ctl_reach_def snd_rtbh_run by (metis fold_append comp_apply)

lemma ctl_reach_exec: "ctl_reach contains c (snd (rtbh_exec contains oper c))"
  unfolding ctl_reach_def by (rule exI [of _ "[oper]"]) (simp add: case_prod_beta)

lemma ctl_reach_rollback: "ctl_reach contains c (rtbh_rollback c t)"
  using ctl_reach_exec [of contains c "Rollback t"] by simp

lemma ctl_reach_announce:
  "ctl_reach contains (rm_controller m) (rm_controller (snd (rm_execute_announce bx bj t rt orig mn wn m)))"
  by (rule rm_execute_announce_cases [of bx bj t rt orig mn wn m]) (auto simp: ctl_reach_rollback)

lemma ctl_reach_execute:
  "ctl_reach contains (rm_controller m) (rm_controller (rm_execute bx bj mn wn act m))"
  by (cases act) (auto simp: ctl_reach_announce)

lemma ctl_reach_fold:
  "ctl_reach contains (rm_controller m) (rm_controller (fold (rm_execute bx bj mn wn) acts m))"
proof (induction acts arbitrary: m)
  case (Cons a acts)
  then show ?case using ctl_reach_trans [OF ctl_reach_execute Cons] by simp
qed simp

lemma ctl_reach_then_fold:
  assumes "ctl_reach contains (rm_controller m) c'"
  shows "ctl_reach contains (rm_controller m)
    (rm_controller (fold (rm_execute bx bj mn wn) acts (m\<lparr>rm_controller := c'\<rparr>)))"
  using ctl_reach_trans [OF assms, of "rm_controller (fold (rm_execute bx bj mn wn) acts (m\<lparr>rm_controller := c'\<rparr>))"]
    ctl_reach_fold [of contains "m\<lparr>rm_controller := c'\<rparr>"] by simp

lemma ctl_reach_rehydrate:
  "ctl_reach contains (rm_controller m) (rm_controller (rm_rehydrate contains bx rows mn m))"
proof (induction rows arbitrary: m)
  case (Cons row rows)
  obtain t a orig where row: "row = (t, a, orig)" by (cases row)
  obtain acts c' where res: "rtbh_resume contains (rm_controller m) t mn orig = (acts, c')" by fastforce
  then have step: "ctl_reach contains (rm_controller m) c'"
    using ctl_reach_exec [of contains "rm_controller m" "Resume t mn orig"] by simp
  have "\<exists>m'. rm_controller m' = c' \<and> rm_rehydrate contains bx (row # rows) mn m = rm_rehydrate contains bx rows mn m'"
    unfolding row by (simp add: res Let_def, rule exI, rule conjI [OF _ refl])
      (auto simp: rm_queue_reapply_def Let_def split: list.splits rtbh_action.splits prod.splits)
  with Cons ctl_reach_trans [OF step] show ?case by (metis (no_types))
qed simp

lemma rm_disarm_fold_frame [simp]:
  "rm_controller (fold (rm_disarm_action bx) acts m) = rm_controller m"
proof (induction acts arbitrary: m)
  case (Cons a acts)
  then show ?case by (cases a) (auto split: prod.splits)
qed simp

lemma ctl_reach_disarm_loop:
  "ctl_reach contains (rm_controller m) (rm_controller (rm_disarm_loop bx ts m))"
proof (induction ts arbitrary: m)
  case (Cons t ts)
  obtain acts c' where res: "rtbh_manual_remove (rm_controller m) t = (acts, c')" by fastforce
  then have step: "ctl_reach contains (rm_controller m) c'"
    using ctl_reach_exec [of contains "rm_controller m" "ManualRemove t"] by simp
  show ?case using ctl_reach_trans [OF step] Cons [of "fold (rm_disarm_action bx) acts (m\<lparr>rm_controller := c'\<rparr>)"]
    by (simp add: res)
qed simp

lemma ctl_reach_mgr:
  "ctl_reach contains (rm_controller m) (rm_controller (rm_exec contains bx bj oper m))"
proof (cases oper)
  case (ApplyEvent ev mn wn)
  then show ?thesis using ctl_reach_exec [of contains "rm_controller m" "OnEvent ev mn"]
    by (auto simp: rm_apply_event_def intro: ctl_reach_then_fold split: prod.splits)
next
  case (MgrTick mn wn)
  let ?m = "rm_retry_pending_reapply bx (rm_retry_pending_mirror bj m)"
  have "ctl_reach contains (rm_controller ?m) (snd (rtbh_tick (rm_controller ?m) mn))"
    using ctl_reach_exec [of contains "rm_controller ?m" "Tick mn"] by simp
  from ctl_reach_then_fold [OF this] show ?thesis
    by (simp add: MgrTick rm_tick_def Let_def case_prod_beta)
next
  case (ApplyAdd t mn wn)
  obtain acts c' where res: "rtbh_manual_add contains (rm_controller m) t mn = (acts, c')" by fastforce
  then have step: "ctl_reach contains (rm_controller m) c'"
    using ctl_reach_exec [of contains "rm_controller m" "ManualAdd t mn"] by simp
  have "ctl_reach contains c' (rm_controller (snd (rm_apply_add contains bx bj t mn wn m)))"
    using ctl_reach_announce [of contains "m\<lparr>rm_controller := c'\<rparr>"]
    by (auto simp: rm_apply_add_def res Let_def case_prod_beta rm_queue_mirror_def
      split: list.splits rtbh_action.splits)
  from ctl_reach_trans [OF step this] show ?thesis by (simp add: ApplyAdd)
next
  case (ApplyRemove t mn wn)
  then show ?thesis using ctl_reach_exec [of contains "rm_controller m" "ManualRemove t"]
    by (auto simp: rm_apply_remove_def intro: ctl_reach_then_fold split: prod.splits)
next
  case (Rehydrate rows mn) then show ?thesis by (simp add: ctl_reach_rehydrate)
next
  case (Disarm mn)
  then show ?thesis using ctl_reach_disarm_loop [of contains "m\<lparr>rm_disarmed := True\<rparr>"]
    by (simp add: rm_disarm_def)
qed

lemma ctl_reach_run:
  "ctl_reach contains (rm_controller m) (rm_controller (rm_run contains bx bj opers m))"
  unfolding rm_run_def
proof (induction opers arbitrary: m)
  case (Cons oper opers)
  then show ?case using ctl_reach_trans [OF ctl_reach_mgr Cons] by simp
qed simp

lemma ctl_reach_config: "ctl_reach contains c c' \<Longrightarrow> rc_config c' = rc_config c"
  by (auto simp: ctl_reach_def)

lemma ctl_reach_wf: "ctl_reach contains c c' \<Longrightarrow> hm_wf (rc_active c) \<Longrightarrow> hm_wf (rc_active c')"
  by (auto simp: ctl_reach_def rtbh_run_wf)

text \<open>The manager as the daemon builds it, with or without the shared limiter.\<close>

definition rm_start ::
  "arming_rate_limiter option \<Rightarrow> rtbh_config \<Rightarrow> 'b \<Rightarrow> 'j \<Rightarrow> ('b, 'j) rtbh_manager"
where
  "rm_start rlo cfg b j = (case rlo of None \<Rightarrow> rm_new (rtbh_new cfg) b j
     | Some rl \<Rightarrow> rm_with_rate_limiter rl (rm_new (rtbh_new cfg) b j))"

lemma rm_start_fields:
  "rm_controller (rm_start rlo cfg b j) = rtbh_new cfg" "rm_bgp (rm_start rlo cfg b j) = b"
  "rm_journal (rm_start rlo cfg b j) = j" "rm_pending_mirror (rm_start rlo cfg b j) = []"
  "rm_pending_reapply (rm_start rlo cfg b j) = []" "rm_disarmed (rm_start rlo cfg b j) = False"
  "rm_rate_limiter (rm_start rlo cfg b j) = rlo"
  by (cases rlo; simp add: rm_start_def rm_with_rate_limiter_def rm_new_def)+

lemma rm_run_table_safe:
  "rc_config (rm_controller (rm_run contains bx bj opers (rm_start rlo cfg b j))) = cfg \<and>
   table_safe (rtbh_admissible contains cfg) (rb_max_blackholes cfg)
     (hm_keys (rc_active (rm_controller (rm_run contains bx bj opers (rm_start rlo cfg b j)))))"
proof -
  have ctl: "ctl_reach contains (rtbh_new cfg)
      (rm_controller (rm_run contains bx bj opers (rm_start rlo cfg b j)))"
    using ctl_reach_run [of contains "rm_start rlo cfg b j"] by (simp add: rm_start_fields)
  have "rc_config (rm_controller (rm_run contains bx bj opers (rm_start rlo cfg b j))) = cfg"
    using ctl_reach_config [OF ctl] by (simp add: rtbh_new_def)
  moreover obtain copers where
    "rm_controller (rm_run contains bx bj opers (rm_start rlo cfg b j)) = snd (rtbh_run contains copers (rtbh_new cfg))"
    using ctl by (auto simp: ctl_reach_def)
  ultimately show ?thesis using rtbh.run_from_empty [of "rtbh_new cfg" contains copers]
    by (simp add: snd_rtbh_run rtbh.run_def rtbh_new_def hm_keys_def)
qed

section \<open>Commit after confirm\<close>

text \<open>
  With an executor that keeps its contract, every active target outside \<open>X\<close> is in the peer's table
  with the configured route, or waits in the re-announce queue.
\<close>

context bgp_executor
begin

definition rm_inv :: "ip_addr set \<Rightarrow> ('b, 'j) rtbh_manager \<Rightarrow> bool" where
  "rm_inv X m \<longleftrightarrow>
     (\<forall>t\<in>set (hm_keys (rc_active (rm_controller m))). t \<in> X \<or>
        rib (rm_bgp m) (host_prefix t) = rtbh_host_route (rc_config (rm_controller m)) t \<or>
        t \<in> ro_target ` set (rm_pending_reapply m)) \<and>
     (\<forall>oper\<in>set (rm_pending_reapply m).
        rtbh_host_route (rc_config (rm_controller m)) (ro_target oper) = Some (ro_route oper))"

lemma rm_inv_cong:
  assumes "rm_controller m' = rm_controller m" "rm_bgp m' = rm_bgp m"
    "rm_pending_reapply m' = rm_pending_reapply m"
  shows "rm_inv X m' = rm_inv X m"
  using assms by (simp add: rm_inv_def)

lemma rm_inv_announce:
  assumes inv: "rm_inv {t} m"
    and rt: "rtbh_host_route (rc_config (rm_controller m)) t = Some rt"
  shows "rm_inv {} (snd (rm_execute_announce ops bj t rt orig mn wn m))"
proof (rule rm_execute_announce_cases [of ops bj t rt orig mn wn m])
  fix b'
  assume r: "rm_controller (snd (rm_execute_announce ops bj t rt orig mn wn m)) = rtbh_rollback (rm_controller m) t"
    "rm_bgp (snd (rm_execute_announce ops bj t rt orig mn wn m)) = b'"
    "b' = rm_bgp m \<or> bx_announce ops rt (rm_bgp m) = (False, b')"
  from r(3) have "rib b' = rib (rm_bgp m)" using announce [of rt "rm_bgp m" False b'] by auto
  with inv r show ?thesis by (auto simp: rm_inv_def rtbh_rollback_def)
next
  fix b' jok j'
  assume r: "bx_announce ops rt (rm_bgp m) = (True, b')"
    "rm_controller (snd (rm_execute_announce ops bj t rt orig mn wn m)) = rm_controller m"
    "rm_bgp (snd (rm_execute_announce ops bj t rt orig mn wn m)) = b'"
  from announce [OF r(1)] rtbh_host_route_Some [OF rt]
  have "rib b' = (rib (rm_bgp m))(host_prefix t \<mapsto> rt)" by simp
  with inv r rt show ?thesis by (auto simp: rm_inv_def)
qed

lemma rm_inv_withdraw:
  assumes inv: "rm_inv {} m" and u: "u \<notin> set (hm_keys (rc_active (rm_controller m)))"
  shows "rm_inv {} (rm_execute_withdraw ops bj (host_prefix u) wn m)"
proof (rule rm_execute_withdraw_cases [of ops "host_prefix u" m bj wn])
  fix b' assume "bx_withdraw ops (host_prefix u) (rm_bgp m) = (False, b')"
    "rm_bgp (rm_execute_withdraw ops bj (host_prefix u) wn m) = b'"
  with inv u show ?thesis using withdraw [of "host_prefix u" "rm_bgp m" False b'] by (auto simp: rm_inv_def)
next
  fix b' jok j' assume "bx_withdraw ops (host_prefix u) (rm_bgp m) = (True, b')"
    "rm_bgp (rm_execute_withdraw ops bj (host_prefix u) wn m) = b'"
  with inv u show ?thesis using withdraw [of "host_prefix u" "rm_bgp m" True b'] by (auto simp: rm_inv_def)
qed

lemma rm_inv_withdraws:
  assumes "rm_inv {} m" "set ts \<inter> set (hm_keys (rc_active (rm_controller m))) = {}"
  shows "rm_inv {} (fold (rm_execute ops bj mn wn) (map (\<lambda>t. Withdraw (host_prefix t)) ts) m)"
  using assms by (induction ts arbitrary: m) (auto simp: rm_inv_withdraw)

lemma rm_inv_set_controller:
  assumes "rm_inv {} m" "rc_config c' = rc_config (rm_controller m)"
    "set (hm_keys (rc_active c')) \<subseteq> X \<union> set (hm_keys (rc_active (rm_controller m)))"
  shows "rm_inv X (m\<lparr>rm_controller := c'\<rparr>)"
  using assms by (auto simp: rm_inv_def)

lemma rm_inv_actions:
  assumes inv: "rm_inv {} m" and oper: "\<forall>t. oper \<noteq> Rollback t"
    and ex: "rtbh_exec contains oper (rm_controller m) = (acts, c')"
  shows "rm_inv {} (fold (rm_execute ops bj mn wn) acts (m\<lparr>rm_controller := c'\<rparr>))"
proof -
  have cfg: "rc_config c' = rc_config (rm_controller m)"
    using rtbh_exec_config [of contains oper "rm_controller m"] ex by simp
  note set_ctl = rm_inv_set_controller [OF inv cfg]
  show ?thesis
  proof (rule rtbh_exec_cases [of contains oper "rm_controller m"], unfold ex fst_conv snd_conv)
    fix t f assume "acts = []" "rc_active c' = hm_adjust t f (rc_active (rm_controller m))"
    then show ?thesis using set_ctl [of "{}"] by simp
  next
    fix t r e assume r: "acts = [Announce r]" "r_prefix r = host_prefix t"
      "rtbh_host_route (rc_config (rm_controller m)) t = Some r"
      "rc_active c' = hm_insert t e (rc_active (rm_controller m))"
    have "rm_inv {t} (m\<lparr>rm_controller := c'\<rparr>)" using set_ctl [of "{t}"] r by auto
    from rm_inv_announce [OF this] r cfg show ?thesis by simp
  next
    fix ts assume r: "acts = map (\<lambda>t. Withdraw (host_prefix t)) ts"
      "rc_active c' = fold hm_remove ts (rc_active (rm_controller m))"
    then have "rm_inv {} (m\<lparr>rm_controller := c'\<rparr>)" using set_ctl [of "{}"] by auto
    from rm_inv_withdraws [OF this] r show ?thesis by auto
  next
    fix t assume "oper = Rollback t" with oper show ?thesis by simp
  qed
qed

lemma rm_inv_reapply_loop:
  assumes "rm_inv (ro_target ` set opers) m"
    "\<forall>oper\<in>set opers. rtbh_host_route (rc_config (rm_controller m)) (ro_target oper) = Some (ro_route oper)"
  shows "rm_inv {} (rm_reapply_loop ops opers m)"
  using assms
proof (induction opers arbitrary: m)
  case (Cons oper opers)
  obtain ok b' where ann: "bx_announce ops (ro_route oper) (rm_bgp m) = (ok, b')" by fastforce
  from Cons.prems(2) have pre: "r_prefix (ro_route oper) = host_prefix (ro_target oper)"
    by (auto dest: rtbh_host_route_Some)
  show ?case
  proof (cases "rm_is_active m (ro_target oper)")
    case False
    then have "rm_inv (ro_target ` set opers) m"
      using Cons.prems(1) by (auto simp: rm_inv_def rm_is_active_iff)
    with Cons False show ?thesis by simp
  next
    case True
    let ?m = "m\<lparr>rm_bgp := b', rm_pending_reapply :=
      if ok then rm_pending_reapply m else rm_pending_reapply m @ [oper]\<rparr>"
    have "rm_inv (ro_target ` set opers) ?m"
      using Cons.prems announce [OF ann] pre by (auto simp: rm_inv_def)
    from Cons.IH [OF this] Cons.prems(2) True ann show ?thesis
      by (cases ok) (simp_all add: Let_def)
  qed
qed simp

lemma rm_inv_retry_reapply:
  assumes "rm_inv {} m"
  shows "rm_inv {} (rm_retry_pending_reapply ops m)"
  using assms rm_inv_reapply_loop [of "rm_pending_reapply m" "m\<lparr>rm_pending_reapply := []\<rparr>"]
  by (auto simp: rm_retry_pending_reapply_def rm_inv_def)

lemma rm_inv_queue_mirror [simp]: "rm_inv X (rm_queue_mirror oper m) = rm_inv X m"
  by (rule rm_inv_cong) (simp_all add: rm_queue_mirror_def)

lemma rm_inv_journal [simp]: "rm_inv X (m\<lparr>rm_journal := j\<rparr>) = rm_inv X m"
  by (rule rm_inv_cong) simp_all

lemma rm_inv_apply_add:
  assumes inv: "rm_inv {} m"
  shows "rm_inv {} (snd (rm_apply_add contains ops bj t mn wn m))"
proof -
  obtain acts c' where res: "rtbh_manual_add contains (rm_controller m) t mn = (acts, c')" by fastforce
  then have ex: "rtbh_exec contains (ManualAdd t mn) (rm_controller m) = (acts, c')" by simp
  then have cfg: "rc_config c' = rc_config (rm_controller m)"
    using rtbh_exec_config [of contains "ManualAdd t mn" "rm_controller m"] by simp
  consider "acts = []" "set (hm_keys (rc_active c')) = set (hm_keys (rc_active (rm_controller m)))"
    | r e where "acts = [Announce r]" "rtbh_host_route (rc_config (rm_controller m)) t = Some r"
      "rc_active c' = hm_insert t e (rc_active (rm_controller m))"
    using res by (cases "hm_get (rc_active (rm_controller m)) t"; rule_tac
        insert_blackhole_cases [of contains "rm_controller m" t mn Manual])
      (auto simp: rtbh_manual_add_def rtbh_blackhole_def)
  then show ?thesis
  proof cases
    case 1
    then have "rm_inv {} (m\<lparr>rm_controller := c'\<rparr>)"
      by (intro rm_inv_set_controller [OF inv cfg]) simp
    with 1 show ?thesis by (auto simp: rm_apply_add_def res Let_def case_prod_beta)
  next
    case (2 r e)
    then have "rm_inv {t} (m\<lparr>rm_controller := c'\<rparr>)"
      by (intro rm_inv_set_controller [OF inv cfg]) auto
    from rm_inv_announce [OF this, of r] 2 cfg show ?thesis
      by (simp add: rm_apply_add_def res Let_def case_prod_beta)
  qed
qed

lemma rm_inv_rehydrate: "rm_inv {} m \<Longrightarrow> rm_inv {} (rm_rehydrate contains ops rows mn m)"
proof (induction rows arbitrary: m)
  case (Cons row rows)
  obtain t a orig where row: "row = (t, a, orig)" by (cases row)
  obtain acts c' where res: "rtbh_resume contains (rm_controller m) t mn orig = (acts, c')" by fastforce
  then have cfg: "rc_config c' = rc_config (rm_controller m)"
    using rtbh_exec_config [of contains "Resume t mn orig" "rm_controller m"] by simp
  consider "acts = []" "set (hm_keys (rc_active c')) = set (hm_keys (rc_active (rm_controller m)))"
    | r e where "acts = [Announce r]" "rtbh_host_route (rc_config (rm_controller m)) t = Some r"
      "rc_active c' = hm_insert t e (rc_active (rm_controller m))"
    using res by (rule_tac insert_blackhole_cases [of contains "rm_controller m" t mn orig])
      (auto simp: rtbh_resume_def)
  then show ?case
  proof cases
    case 1
    then have "rm_inv {} (m\<lparr>rm_controller := c'\<rparr>)"
      by (intro rm_inv_set_controller [OF Cons.prems cfg]) simp
    with 1 Cons.IH show ?thesis by (simp add: row res Let_def)
  next
    case (2 r e)
    obtain ok b' where ann: "bx_announce ops r (rm_bgp m) = (ok, b')" by fastforce
    let ?m = "m\<lparr>rm_controller := c', rm_bgp := b'\<rparr>"
    have "r_prefix r = host_prefix t" using rtbh_host_route_Some [OF 2(2)] by simp
    then have "rm_inv {} (if ok then ?m else rm_queue_reapply \<lparr>ro_target = t, ro_route = r\<rparr> ?m)"
      using Cons.prems announce [OF ann] 2 cfg by (auto simp: rm_inv_def rm_queue_reapply_def)
    with 2 Cons.IH show ?thesis by (simp add: row res Let_def ann)
  qed
qed simp

lemma rm_inv_disarm_loop: "rm_inv {} m \<Longrightarrow> rm_inv {} (rm_disarm_loop ops ts m)"
proof (induction ts arbitrary: m)
  case (Cons t ts)
  obtain ok b' where w: "bx_withdraw ops (host_prefix t) (rm_bgp m) = (ok, b')" by fastforce
  let ?c = "rm_controller m"
  have "rm_inv {} (m\<lparr>rm_controller := ?c\<lparr>rc_active := hm_remove t (rc_active ?c)\<rparr>, rm_bgp := b'\<rparr>)"
    using Cons.prems withdraw [OF w] by (auto simp: rm_inv_def)
  with Cons w show ?case by (simp add: rtbh_manual_remove_def)
qed simp

lemma rm_inv_exec:
  assumes "rm_inv {} m"
  shows "rm_inv {} (rm_exec contains ops bj oper m)"
proof (cases oper)
  case (ApplyEvent ev mn wn)
  then show ?thesis using rm_inv_actions [OF assms, of "OnEvent ev mn"]
    by (auto simp: rm_apply_event_def split: prod.splits)
next
  case (MgrTick mn wn)
  have "rm_inv {} (rm_retry_pending_mirror bj m)"
    using assms by (simp add: rm_inv_def)
  then have "rm_inv {} (rm_retry_pending_reapply ops (rm_retry_pending_mirror bj m))"
    by (rule rm_inv_retry_reapply)
  from rm_inv_actions [OF this, of "Tick mn"] MgrTick show ?thesis
    by (auto simp: rm_tick_def Let_def split: prod.splits)
next
  case (ApplyAdd t mn wn) then show ?thesis using rm_inv_apply_add [OF assms] by simp
next
  case (ApplyRemove t mn wn)
  then show ?thesis using rm_inv_actions [OF assms, of "ManualRemove t"]
    by (auto simp: rm_apply_remove_def split: prod.splits)
next
  case (Rehydrate rows mn) then show ?thesis using rm_inv_rehydrate [OF assms] by simp
next
  case (Disarm mn)
  have "rm_inv {} (m\<lparr>rm_disarmed := True\<rparr>)" using assms by (simp add: rm_inv_def)
  from rm_inv_disarm_loop [OF this] Disarm assms show ?thesis by (simp add: rm_disarm_def)
qed

lemma rm_inv_run: "rm_inv {} m \<Longrightarrow> rm_inv {} (rm_run contains ops bj opers m)"
  unfolding rm_run_def by (induction opers arbitrary: m) (simp_all add: rm_inv_exec)

lemma active_confirmed:
  assumes m: "m = rm_run contains ops bj opers (rm_start rlo cfg b j)"
    and t: "t \<in> set (hm_keys (rc_active (rm_controller m)))"
  shows "(\<exists>r. rtbh_host_route cfg t = Some r \<and> rib (rm_bgp m) (host_prefix t) = Some r) \<or>
    t \<in> ro_target ` set (rm_pending_reapply m)"
proof -
  have "rm_inv {} (rm_start rlo cfg b j)"
    by (simp add: rm_inv_def rm_start_fields rtbh_new_def hm_keys_def)
  from rm_inv_run [OF this] have inv: "rm_inv {} m" by (simp add: m)
  note safe = rm_run_table_safe [of contains ops bj opers rlo cfg b j, folded m]
  from safe t have "rtbh_has_next_hop cfg t"
    by (auto simp: table_safe_def rtbh_admissible_def)
  then have "rtbh_host_route cfg t \<noteq> None" by (rule rtbh_host_route_ex [THEN iffD2])
  with inv t safe show ?thesis by (fastforce simp: rm_inv_def)
qed

text \<open>Once disarmed and empty, the manager announces nothing any more.\<close>

definition rm_quiet :: "('b, 'j) rtbh_manager \<Rightarrow> bool" where
  "rm_quiet m \<longleftrightarrow> rm_disarmed m \<and> rc_active (rm_controller m) = []"

lemma quiet_reapply_loop:
  assumes "rc_active (rm_controller m) = []"
  shows "rm_bgp (rm_reapply_loop ops opers m) = rm_bgp m"
proof -
  have "\<not> rm_is_active m t" for t using assms by (simp add: rm_is_active_iff hm_keys_def)
  then show ?thesis by (induction opers) simp_all
qed

lemma quiet_announce:
  assumes "rm_disarmed m"
  shows "rm_bgp (snd (rm_execute_announce ops bj t rt orig mn wn m)) = rm_bgp m"
    "rm_controller (snd (rm_execute_announce ops bj t rt orig mn wn m)) = rtbh_rollback (rm_controller m) t"
  using assms by (auto simp: rm_execute_announce_def rm_rollback_def)

lemma quiet_insert_blackhole:
  assumes "rc_active c = []" "insert_blackhole contains c t now orig = (acts, c')"
  shows "acts = [] \<and> rc_active c' = [] \<or>
    (\<exists>r e. acts = [Announce r] \<and> r_prefix r = host_prefix t \<and> rc_active c' = [(t, e)])"
  using assms by (rule_tac insert_blackhole_cases [of contains c t now orig])
    (auto simp: hm_adjust_def hm_get_def hm_insert_def dest: rtbh_host_route_Some)

lemma quiet_exec:
  assumes q: "rm_quiet m" and oper: "\<forall>rows mn. oper \<noteq> Rehydrate rows mn"
  shows "rm_quiet (rm_exec contains ops bj oper m) \<and> rm_bgp (rm_exec contains ops bj oper m) = rm_bgp m"
proof -
  have dis: "rm_disarmed m" and emp: "rc_active (rm_controller m) = []"
    using q by (simp_all add: rm_quiet_def)
  have ins: "rm_quiet (fold (rm_execute ops bj mn wn) acts (m\<lparr>rm_controller := c'\<rparr>)) \<and>
      rm_bgp (fold (rm_execute ops bj mn wn) acts (m\<lparr>rm_controller := c'\<rparr>)) = rm_bgp m"
    if "insert_blackhole contains (rm_controller m) t now orig = (acts, c')" for t now orig acts c' mn wn
    using quiet_insert_blackhole [OF emp that] dis
    by (auto simp: rm_quiet_def quiet_announce rtbh_rollback_def hm_remove_def)
  show ?thesis
  proof (cases oper)
    case (ApplyEvent ev mn wn)
    then show ?thesis using ins emp dis
      by (cases ev) (auto simp: rm_apply_event_def rtbh_blackhole_def request_clear_def rm_quiet_def
        hm_get_def hm_adjust_def split: prod.splits)
  next
    case (MgrTick mn wn)
    let ?m = "rm_retry_pending_reapply ops (rm_retry_pending_mirror bj m)"
    have "rm_bgp ?m = rm_bgp m"
      using emp by (simp add: rm_retry_pending_reapply_def quiet_reapply_loop)
    then show ?thesis using emp dis
      by (simp add: MgrTick rm_tick_def Let_def rtbh_tick_def rm_quiet_def)
  next
    case (ApplyAdd t mn wn)
    obtain acts c' where res: "rtbh_manual_add contains (rm_controller m) t mn = (acts, c')" by fastforce
    with emp have "insert_blackhole contains (rm_controller m) t mn Manual = (acts, c')"
      by (simp add: rtbh_manual_add_def rtbh_blackhole_def hm_get_def)
    from quiet_insert_blackhole [OF emp this] dis res show ?thesis
      by (auto simp: ApplyAdd rm_apply_add_def Let_def case_prod_beta rm_quiet_def quiet_announce
        rtbh_rollback_def hm_remove_def rm_is_active_iff hm_keys_def)
  next
    case (ApplyRemove t mn wn)
    then show ?thesis using emp dis by (simp add: rm_apply_remove_def rtbh_manual_remove_def hm_get_def rm_quiet_def)
  next
    case (Rehydrate rows mn) with oper show ?thesis by simp
  next
    case (Disarm mn) then show ?thesis using dis q by (simp add: rm_disarm_def)
  qed
qed

lemma quiet_run:
  assumes "rm_quiet m" "\<forall>rows mn. Rehydrate rows mn \<notin> set opers"
  shows "rm_quiet (rm_run contains ops bj opers m) \<and> rm_bgp (rm_run contains ops bj opers m) = rm_bgp m"
  using assms unfolding rm_run_def
proof (induction opers arbitrary: m)
  case (Cons oper opers)
  have "rm_quiet (rm_exec contains ops bj oper m) \<and> rm_bgp (rm_exec contains ops bj oper m) = rm_bgp m"
    using Cons.prems by (intro quiet_exec) auto
  with Cons show ?case by simp
qed simp

lemma disarm_loop_effect:
  "rc_active (rm_controller (rm_disarm_loop ops ts m)) = fold hm_remove ts (rc_active (rm_controller m)) \<and>
   rib (rm_bgp (rm_disarm_loop ops ts m)) \<subseteq>\<^sub>m rib (rm_bgp m) \<and>
   rm_disarmed (rm_disarm_loop ops ts m) = rm_disarmed m"
proof (induction ts arbitrary: m)
  case (Cons t ts)
  obtain ok b' where w: "bx_withdraw ops (host_prefix t) (rm_bgp m) = (ok, b')" by fastforce
  let ?c = "rm_controller m"
  show ?case
  proof (cases "hm_get (rc_active ?c) t")
    case None
    then have "hm_remove t (rc_active ?c) = rc_active ?c"
      by (auto simp: hm_remove_def hm_get_def map_of_eq_None_iff filter_id_conv)
    with Cons [of m] None show ?thesis by (simp add: rtbh_manual_remove_def)
  next
    case (Some e)
    with Cons [of "m\<lparr>rm_controller := ?c\<lparr>rc_active := hm_remove t (rc_active ?c)\<rparr>, rm_bgp := b'\<rparr>"] w
    show ?thesis using map_le_trans [OF _ withdraw_shrinks [OF w]]
      by (simp add: rtbh_manual_remove_def)
  qed
qed simp

lemma disarm_effect:
  assumes "\<not> rm_disarmed m"
  shows "rm_quiet (rm_disarm ops mn m) \<and> rib (rm_bgp (rm_disarm ops mn m)) \<subseteq>\<^sub>m rib (rm_bgp m)"
proof -
  let ?ts = "map fst (active_blackholes (rm_controller m))"
  have "fold hm_remove ?ts (rc_active (rm_controller m)) = []"
    by (force simp: hm_remove_fold filter_empty_conv active_blackholes_def)
  with disarm_loop_effect [of ?ts "m\<lparr>rm_disarmed := True\<rparr>"] assms show ?thesis
    by (simp add: rm_disarm_def rm_quiet_def)
qed

lemma disarm_loop_clears:
  assumes up: "\<And>p b. up b \<Longrightarrow> fst (bx_withdraw ops p b) \<and> up (snd (bx_withdraw ops p b))"
    and "up (rm_bgp m)" "hm_wf (rc_active (rm_controller m))"
    and "t \<in> set ts" "hm_get (rc_active (rm_controller m)) t \<noteq> None"
  shows "rib (rm_bgp (rm_disarm_loop ops ts m)) (host_prefix t) = None"
  using assms(2-)
proof (induction ts arbitrary: m)
  case (Cons u us)
  obtain b' where w: "bx_withdraw ops (host_prefix u) (rm_bgp m) = (True, b')" and b': "up b'"
    using up [OF Cons.prems(1), of "host_prefix u"]
    by (cases "bx_withdraw ops (host_prefix u) (rm_bgp m)") auto
  let ?c = "rm_controller m"
  let ?m = "m\<lparr>rm_controller := ?c\<lparr>rc_active := hm_remove u (rc_active ?c)\<rparr>, rm_bgp := b'\<rparr>"
  show ?case
  proof (cases "hm_get (rc_active ?c) u")
    case None
    with Cons show ?thesis by (auto simp: rtbh_manual_remove_def)
  next
    case (Some e)
    then have step: "rm_disarm_loop ops (u # us) m = rm_disarm_loop ops us ?m"
      by (simp add: rtbh_manual_remove_def w)
    show ?thesis
    proof (cases "t = u")
      case True
      then have "rib b' (host_prefix t) = None" using withdraw [OF w] by simp
      moreover have "dom (rib (rm_bgp (rm_disarm_loop ops us ?m))) \<subseteq> dom (rib b')"
        using disarm_loop_effect [of us ?m] map_le_implies_dom_le by fastforce
      ultimately show ?thesis unfolding step by blast
    next
      case False
      with Cons.prems b' have "rib (rm_bgp (rm_disarm_loop ops us ?m)) (host_prefix t) = None"
        by (intro Cons.IH) auto
      with step show ?thesis by simp
    qed
  qed
qed simp

lemma disarm_clears:
  assumes up: "\<And>p b. up b \<Longrightarrow> fst (bx_withdraw ops p b) \<and> up (snd (bx_withdraw ops p b))"
    and "up (rm_bgp m)" "hm_wf (rc_active (rm_controller m))"
    and "\<not> rm_disarmed m" "t \<in> set (hm_keys (rc_active (rm_controller m)))"
  shows "rib (rm_bgp (rm_disarm ops mn m)) (host_prefix t) = None"
proof -
  have "t \<in> set (map fst (active_blackholes (rm_controller m)))"
    using assms(5) by (force simp: active_blackholes_def hm_keys_def)
  with disarm_loop_clears [of up "m\<lparr>rm_disarmed := True\<rparr>" t, OF up] assms(2-) show ?thesis
    by (simp add: rm_disarm_def hm.keys_get)
qed

end

section \<open>The retry queues hold one entry per target\<close>

definition rm_queues_ok :: "('b, 'j) rtbh_manager \<Rightarrow> bool" where
  "rm_queues_ok m \<longleftrightarrow> distinct (map mirror_target (rm_pending_mirror m)) \<and>
     distinct (map ro_target (rm_pending_reapply m))"

lemma queues_ok_queue_mirror:
  "distinct (map mirror_target (rm_pending_mirror m)) \<Longrightarrow>
   distinct (map mirror_target (rm_pending_mirror (rm_queue_mirror oper m)))"
  using distinct_map_snoc_filter [of mirror_target "rm_pending_mirror m" oper]
  by (simp add: rm_queue_mirror_def)

lemma queues_ok_announce:
  "rm_queues_ok m \<Longrightarrow> rm_queues_ok (snd (rm_execute_announce bx bj t rt orig mn wn m))"
  by (rule rm_execute_announce_cases [of bx bj t rt orig mn wn m])
    (simp_all add: rm_queues_ok_def queues_ok_queue_mirror)

lemma queues_ok_withdraw:
  "rm_queues_ok m \<Longrightarrow> rm_queues_ok (rm_execute_withdraw bx bj p wn m)"
  by (rule rm_execute_withdraw_cases [of bx p m bj wn])
    (simp_all add: rm_queues_ok_def queues_ok_queue_mirror)

lemma queues_ok_fold: "rm_queues_ok m \<Longrightarrow> rm_queues_ok (fold (rm_execute bx bj mn wn) acts m)"
proof (induction acts arbitrary: m)
  case (Cons a acts)
  then show ?case by (cases a) (auto simp: queues_ok_announce queues_ok_withdraw)
qed simp

lemma queues_ok_controller [simp]: "rm_queues_ok (m\<lparr>rm_controller := c\<rparr>) = rm_queues_ok m"
  by (simp add: rm_queues_ok_def)

lemma mirror_loop_distinct:
  "distinct (map mirror_target (rm_pending_mirror m @ opers)) \<Longrightarrow>
   distinct (map mirror_target (rm_pending_mirror (rm_mirror_loop bj opers m)))"
proof (induction opers arbitrary: m)
  case (Cons oper opers)
  then show ?case by (auto simp: Let_def case_prod_beta intro!: Cons.IH)
qed simp

lemma reapply_loop_distinct:
  "distinct (map ro_target (rm_pending_reapply m @ opers)) \<Longrightarrow>
   distinct (map ro_target (rm_pending_reapply (rm_reapply_loop bx opers m)))"
proof (induction opers arbitrary: m)
  case (Cons oper opers)
  then show ?case by (auto simp: Let_def case_prod_beta intro!: Cons.IH)
qed simp

lemma queues_ok_retries:
  "rm_queues_ok m \<Longrightarrow> rm_queues_ok (rm_retry_pending_reapply bx (rm_retry_pending_mirror bj m))"
  using mirror_loop_distinct [of "m\<lparr>rm_pending_mirror := []\<rparr>" "rm_pending_mirror m" bj]
    reapply_loop_distinct [of "(rm_retry_pending_mirror bj m)\<lparr>rm_pending_reapply := []\<rparr>" "rm_pending_reapply m" bx]
  by (auto simp: rm_queues_ok_def rm_retry_pending_reapply_def rm_retry_pending_mirror_def)

lemma queues_ok_rehydrate: "rm_queues_ok m \<Longrightarrow> rm_queues_ok (rm_rehydrate contains bx rows mn m)"
proof (induction rows arbitrary: m)
  case (Cons row rows)
  have q: "rm_queues_ok (rm_queue_reapply oper m')" if "rm_queues_ok m'" for oper and m' :: "('a, 'b) rtbh_manager"
    using that distinct_map_snoc_filter [of ro_target "rm_pending_reapply m'" oper]
    by (simp add: rm_queues_ok_def rm_queue_reapply_def)
  have b: "rm_queues_ok (m'\<lparr>rm_bgp := b\<rparr>) = rm_queues_ok m'" for b and m' :: "('a, 'b) rtbh_manager"
    by (simp add: rm_queues_ok_def)
  obtain t a orig where row: "row = (t, a, orig)" by (cases row)
  show ?case unfolding row rm_rehydrate.simps Let_def case_prod_beta
    by (rule Cons.IH) (use Cons.prems in \<open>auto simp: q b split: list.splits rtbh_action.splits\<close>)
qed simp

lemma disarm_fold_queues [simp]:
  "rm_queues_ok (fold (rm_disarm_action bx) acts m) = rm_queues_ok m"
proof (induction acts arbitrary: m)
  case (Cons a acts)
  then show ?case by (cases a) (auto simp: rm_queues_ok_def split: prod.splits)
qed simp

lemma queues_ok_disarm_loop: "rm_queues_ok (rm_disarm_loop bx ts m) = rm_queues_ok m"
  by (induction ts arbitrary: m) (simp_all add: case_prod_beta)

lemma queues_ok_exec:
  assumes "rm_queues_ok m"
  shows "rm_queues_ok (rm_exec contains bx bj oper m)"
proof (cases oper)
  case (ApplyEvent ev mn wn) then show ?thesis using assms
    by (auto simp: rm_apply_event_def queues_ok_fold split: prod.splits)
next
  case (MgrTick mn wn) then show ?thesis using queues_ok_retries [OF assms]
    by (auto simp: rm_tick_def Let_def queues_ok_fold split: prod.splits)
next
  case (ApplyAdd t mn wn)
  have "rm_queues_ok (rm_queue_mirror oper m')" if "rm_queues_ok m'" for oper and m' :: "('a, 'b) rtbh_manager"
    using that queues_ok_queue_mirror [of m' oper] by (simp add: rm_queues_ok_def rm_queue_mirror_def)
  moreover have "rm_queues_ok (m'\<lparr>rm_journal := j\<rparr>) = rm_queues_ok m'" for j and m' :: "('a, 'b) rtbh_manager"
    by (simp add: rm_queues_ok_def)
  ultimately show ?thesis using assms ApplyAdd
    by (auto simp: rm_apply_add_def Let_def case_prod_beta queues_ok_announce split: list.splits rtbh_action.splits)
next
  case (ApplyRemove t mn wn) then show ?thesis using assms
    by (auto simp: rm_apply_remove_def queues_ok_fold split: prod.splits)
next
  case (Rehydrate rows mn) then show ?thesis using assms by (simp add: queues_ok_rehydrate)
next
  case (Disarm mn)
  have "rm_queues_ok (m\<lparr>rm_disarmed := True\<rparr>)" using assms by (simp add: rm_queues_ok_def)
  then show ?thesis using assms Disarm by (simp add: rm_disarm_def queues_ok_disarm_loop)
qed

lemma queues_ok_run: "rm_queues_ok m \<Longrightarrow> rm_queues_ok (rm_run contains bx bj opers m)"
  unfolding rm_run_def by (induction opers arbitrary: m) (simp_all add: queues_ok_exec)

section \<open>The journal covers the active set\<close>

context blackhole_journal
begin

definition rm_jinv :: "ip_addr set \<Rightarrow> ('b, 'j) rtbh_manager \<Rightarrow> bool" where
  "rm_jinv X m \<longleftrightarrow> up (rm_journal m) \<and> rm_pending_mirror m = [] \<and>
     set (hm_keys (rc_active (rm_controller m))) \<subseteq> X \<union> rows (rm_journal m)"

lemma jinv_announce:
  "rm_jinv {t} m \<Longrightarrow> rm_jinv {} (snd (rm_execute_announce bx bj t rt orig mn wn m))"
  by (rule rm_execute_announce_cases [of bx bj t rt orig mn wn m])
    (auto simp: rm_jinv_def rtbh_rollback_def dest!: record_announce)

lemma jinv_withdraw:
  assumes "rm_jinv {} m" "u \<notin> set (hm_keys (rc_active (rm_controller m)))"
  shows "rm_jinv {} (rm_execute_withdraw bx bj (host_prefix u) wn m)"
  by (rule rm_execute_withdraw_cases [of bx "host_prefix u" m bj wn])
    (use assms in \<open>auto simp: rm_jinv_def dest!: record_withdraw\<close>)

lemma jinv_withdraws:
  assumes "rm_jinv {} m" "set ts \<inter> set (hm_keys (rc_active (rm_controller m))) = {}"
  shows "rm_jinv {} (fold (rm_execute bx bj mn wn) (map (\<lambda>t. Withdraw (host_prefix t)) ts) m)"
  using assms by (induction ts arbitrary: m) (auto simp: jinv_withdraw)

lemma jinv_set_controller:
  assumes "rm_jinv {} m"
    "set (hm_keys (rc_active c')) \<subseteq> X \<union> set (hm_keys (rc_active (rm_controller m)))"
  shows "rm_jinv X (m\<lparr>rm_controller := c'\<rparr>)"
  using assms by (auto simp: rm_jinv_def)

lemma jinv_actions:
  assumes inv: "rm_jinv {} m" and oper: "\<forall>t. oper \<noteq> Rollback t"
    and ex: "rtbh_exec contains oper (rm_controller m) = (acts, c')"
  shows "rm_jinv {} (fold (rm_execute bx bj mn wn) acts (m\<lparr>rm_controller := c'\<rparr>))"
proof (rule rtbh_exec_cases [of contains oper "rm_controller m"], unfold ex fst_conv snd_conv)
  fix t f assume "acts = []" "rc_active c' = hm_adjust t f (rc_active (rm_controller m))"
  then show ?thesis using jinv_set_controller [OF inv, of c' "{}"] by simp
next
  fix t r e assume r: "acts = [Announce r]" "r_prefix r = host_prefix t"
    "rc_active c' = hm_insert t e (rc_active (rm_controller m))"
  then have "rm_jinv {t} (m\<lparr>rm_controller := c'\<rparr>)" using jinv_set_controller [OF inv, of c' "{t}"] by auto
  from jinv_announce [OF this] r show ?thesis by simp
next
  fix ts assume r: "acts = map (\<lambda>t. Withdraw (host_prefix t)) ts"
    "rc_active c' = fold hm_remove ts (rc_active (rm_controller m))"
  then have "rm_jinv {} (m\<lparr>rm_controller := c'\<rparr>)" using jinv_set_controller [OF inv, of c' "{}"] by auto
  from jinv_withdraws [OF this] r show ?thesis by auto
next
  fix t assume "oper = Rollback t" with oper show ?thesis by simp
qed

lemma jinv_apply_add:
  assumes inv: "rm_jinv {} m"
  shows "rm_jinv {} (snd (rm_apply_add contains bx bj t mn wn m))"
proof -
  obtain acts c' where res: "rtbh_manual_add contains (rm_controller m) t mn = (acts, c')" by fastforce
  consider "acts = []" "set (hm_keys (rc_active c')) = set (hm_keys (rc_active (rm_controller m)))"
    | r e where "acts = [Announce r]" "rc_active c' = hm_insert t e (rc_active (rm_controller m))"
    using res by (cases "hm_get (rc_active (rm_controller m)) t"; rule_tac
        insert_blackhole_cases [of contains "rm_controller m" t mn Manual])
      (auto simp: rtbh_manual_add_def rtbh_blackhole_def)
  then show ?thesis
  proof cases
    case 1
    then have inv': "rm_jinv {} (m\<lparr>rm_controller := c'\<rparr>)"
      by (intro jinv_set_controller [OF inv]) simp
    obtain jok j' where jrn: "bj_record_announce bj t Manual wn (rm_journal m) = (jok, j')" by fastforce
    from record_announce [OF jrn] inv' 1 show ?thesis
      by (auto simp: rm_apply_add_def res Let_def case_prod_beta jrn rm_jinv_def)
  next
    case (2 r e)
    then have "rm_jinv {t} (m\<lparr>rm_controller := c'\<rparr>)" by (intro jinv_set_controller [OF inv]) auto
    from jinv_announce [OF this, of bx r] 2 show ?thesis
      by (simp add: rm_apply_add_def res Let_def case_prod_beta)
  qed
qed

lemma jinv_rehydrate:
  "rm_jinv {} m \<Longrightarrow> fst ` set rws \<subseteq> rows (rm_journal m) \<Longrightarrow> rm_jinv {} (rm_rehydrate contains bx rws mn m)"
proof (induction rws arbitrary: m)
  case (Cons row rws)
  obtain t a orig where row: "row = (t, a, orig)" by (cases row)
  obtain acts c' where res: "rtbh_resume contains (rm_controller m) t mn orig = (acts, c')" by fastforce
  have keys: "set (hm_keys (rc_active c')) \<subseteq> insert t (set (hm_keys (rc_active (rm_controller m))))"
    using res by (rule_tac insert_blackhole_cases [of contains "rm_controller m" t mn orig])
      (auto simp: rtbh_resume_def)
  have t: "t \<in> rows (rm_journal m)" using Cons.prems row by simp
  show ?case unfolding row rm_rehydrate.simps res prod.case Let_def
    by (rule Cons.IH) (use Cons.prems keys t row in \<open>auto simp: rm_jinv_def rm_queue_reapply_def case_prod_beta
      split: list.splits rtbh_action.splits\<close>)
qed simp

lemma jinv_disarm_loop: "rm_jinv {} m \<Longrightarrow> rm_jinv {} (rm_disarm_loop bx ts m)"
proof (induction ts arbitrary: m)
  case (Cons t ts)
  obtain ok b' where w: "bx_withdraw bx (host_prefix t) (rm_bgp m) = (ok, b')" by fastforce
  let ?c = "rm_controller m"
  have "rm_jinv {} (m\<lparr>rm_controller := ?c\<lparr>rc_active := hm_remove t (rc_active ?c)\<rparr>, rm_bgp := b'\<rparr>)"
    using Cons.prems by (auto simp: rm_jinv_def)
  with Cons w show ?case by (simp add: rtbh_manual_remove_def)
qed simp

lemma jinv_exec:
  assumes inv: "rm_jinv {} m"
    and re: "\<forall>rws mn. oper = Rehydrate rws mn \<longrightarrow> fst ` set rws \<subseteq> rows (rm_journal m)"
  shows "rm_jinv {} (rm_exec contains bx bj oper m)"
proof (cases oper)
  case (ApplyEvent ev mn wn)
  then show ?thesis using jinv_actions [OF inv, of "OnEvent ev mn"]
    by (auto simp: rm_apply_event_def split: prod.splits)
next
  case (MgrTick mn wn)
  have "rm_retry_pending_mirror bj m = m" using inv by (simp add: rm_jinv_def rm_retry_pending_mirror_def)
  then have "rm_jinv {} (rm_retry_pending_reapply bx (rm_retry_pending_mirror bj m))"
    using inv by (simp add: rm_jinv_def)
  from jinv_actions [OF this, of "Tick mn"] MgrTick show ?thesis
    by (auto simp: rm_tick_def Let_def split: prod.splits)
next
  case (ApplyAdd t mn wn) then show ?thesis using jinv_apply_add [OF inv] by simp
next
  case (ApplyRemove t mn wn)
  then show ?thesis using jinv_actions [OF inv, of "ManualRemove t"]
    by (auto simp: rm_apply_remove_def split: prod.splits)
next
  case (Rehydrate rws mn) then show ?thesis using jinv_rehydrate [OF inv] re by simp
next
  case (Disarm mn)
  have "rm_jinv {} (m\<lparr>rm_disarmed := True\<rparr>)" using inv by (simp add: rm_jinv_def)
  from jinv_disarm_loop [OF this] Disarm inv show ?thesis by (simp add: rm_disarm_def)
qed

lemma jinv_run:
  assumes "rm_jinv {} m" "\<forall>rws mn. Rehydrate rws mn \<notin> set opers"
  shows "rm_jinv {} (rm_run contains bx bj opers m)"
  using assms unfolding rm_run_def
proof (induction opers arbitrary: m)
  case (Cons oper opers)
  have "rm_jinv {} (rm_exec contains bx bj oper m)" using Cons.prems by (intro jinv_exec) auto
  with Cons show ?case by simp
qed simp

lemma jinv_restart:
  assumes "up j" "fst ` set rws \<subseteq> rows j" "\<forall>rws mn. Rehydrate rws mn \<notin> set opers"
  shows "rm_jinv {} (rm_run contains bx bj (Rehydrate rws mn # opers) (rm_start rlo cfg b j))"
proof -
  have "rm_jinv {} (rm_start rlo cfg b j)"
    using assms(1) by (simp add: rm_jinv_def rm_start_fields rtbh_new_def hm_keys_def)
  then have "rm_jinv {} (rm_exec contains bx bj (Rehydrate rws mn) (rm_start rlo cfg b j))"
    using assms(2) by (intro jinv_exec) (simp_all add: rm_start_fields)
  from jinv_run [OF this assms(3)] show ?thesis by (simp add: rm_run_def)
qed

end

section \<open>The outcome of an operator's request\<close>

lemma apply_add_active:
  assumes "hm_get (rc_active (rm_controller m)) t \<noteq> None"
  shows "fst (rm_apply_add contains bx bj t mn wn m) = Applied \<and>
    manual_at (rm_controller (snd (rm_apply_add contains bx bj t mn wn m))) t"
  using assms by (auto simp: rm_apply_add_def rtbh_manual_add_def Let_def case_prod_beta rm_is_active_iff
    hm.keys_get manual_at_def rm_queue_mirror_def)

lemma apply_add_inactive:
  assumes none: "hm_get (rc_active (rm_controller m)) t = None"
    and res_def: "res = rm_apply_add contains bx bj t mn wn m"
  shows "(fst res = Applied \<longleftrightarrow> hm_get (rc_active (rm_controller (snd res))) t \<noteq> None) \<and>
    (fst res = Applied \<longrightarrow> manual_at (rm_controller (snd res)) t) \<and>
    (fst res = Deferred \<longrightarrow> rtbh_admissible contains (rc_config (rm_controller m)) t) \<and>
    (\<forall>r. fst res = Rejected r \<longrightarrow> rm_disarmed m \<or> \<not> rtbh_admissible contains (rc_config (rm_controller m)) t)"
proof -
  let ?c = "rm_controller m"
  have add: "rtbh_manual_add contains ?c t mn = insert_blackhole contains ?c t mn Manual"
    using none by (simp add: rtbh_manual_add_def rtbh_blackhole_def)
  have cfg: "rc_config (snd (insert_blackhole contains ?c t mn Manual)) = rc_config ?c"
    using rtbh_exec_config [of contains "Resume t mn Manual" ?c] by (simp add: rtbh_resume_def)
  show ?thesis
  proof (rule insert_blackhole_cases [of contains ?c t mn Manual])
    assume "fst (insert_blackhole contains ?c t mn Manual) = []"
      "rc_active (snd (insert_blackhole contains ?c t mn Manual)) = rc_active ?c"
    then show ?thesis using none cfg
      by (auto simp: res_def rm_apply_add_def add Let_def case_prod_beta rm_is_active_iff hm.keys_get
        rtbh_admissible_def)
  next
    assume "hm_get (rc_active ?c) t \<noteq> None" with none show ?thesis by simp
  next
    fix r assume r: "fst (insert_blackhole contains ?c t mn Manual) = [Announce r]"
      "rtbh_admissible contains (rc_config ?c) t"
      "rc_active (snd (insert_blackhole contains ?c t mn Manual)) = hm_insert t
         \<lparr>ae_announced_at = mn, ae_last_activity = mn, ae_origin = Manual, ae_clear_requested_at = None\<rparr> (rc_active ?c)"
    define m1 where "m1 = m\<lparr>rm_controller := snd (insert_blackhole contains ?c t mn Manual)\<rparr>"
    have res: "res = (rm_add_outcome (fst (rm_execute_announce bx bj t r Manual mn wn m1)),
        snd (rm_execute_announce bx bj t r Manual mn wn m1))"
      by (simp add: res_def rm_apply_add_def add r case_prod_beta m1_def Let_def)
    have dis: "fst (rm_execute_announce bx bj t r Manual mn wn m1) = AoDisarmed \<Longrightarrow> rm_disarmed m"
      by (auto simp: rm_execute_announce_def m1_def Let_def split: if_splits prod.splits option.splits)
    show ?thesis
      by (rule rm_execute_announce_cases [of bx bj t r Manual mn wn m1])
        (use r dis in \<open>auto simp: res m1_def rm_add_outcome_def rtbh_rollback_def manual_at_def
          split: announce_outcome.splits\<close>)
  qed
qed

section \<open>Properties\<close>

text \<open>An operator's add request is answered truthfully: it is \<open>Applied\<close> exactly when the target
  is afterwards active, and then as a manual blackhole; it is \<open>Deferred\<close> only for a target that the
  configuration admits, and \<open>Rejected\<close> only if the manager is disarmed or the target is one the
  configuration never admits.\<close>

lemma rm_apply_add_outcome:
  "case rm_apply_add contains bx bj t mn wn m of (oc, m') \<Rightarrow>
     (oc = Applied \<longleftrightarrow> hm_get (rc_active (rm_controller m')) t \<noteq> None) \<and>
     (oc = Applied \<longrightarrow> manual_at (rm_controller m') t) \<and>
     (oc = Deferred \<longrightarrow> rtbh_admissible contains (rc_config (rm_controller m)) t) \<and>
     (\<forall>r. oc = Rejected r \<longrightarrow> rm_disarmed m \<or> \<not> rtbh_admissible contains (rc_config (rm_controller m)) t)"
  using apply_add_active [of m t contains bx bj mn wn] apply_add_inactive [OF _ refl, of m t contains bx bj mn wn]
  by (cases "hm_get (rc_active (rm_controller m)) t") (auto simp: case_prod_beta manual_at_def)

text \<open>C12. If the database answers every write, a restart loses no mitigation: after rehydrating from
  rows the journal holds, and after any further events, ticks, operator requests and disarms, with an
  executor that may fail at any time, every active blackhole has an active journal row.\<close>

theorem rtbh_journal_covers_active:
  assumes "store_up st" "fst ` set rws \<subseteq> store_targets st"
    and "\<forall>rws mn. Rehydrate rws mn \<notin> set opers"
    and "m = rm_run contains bx store_blackhole_journal (Rehydrate rws mn # opers) (rm_start rlo cfg b st)"
  shows "set (hm_keys (rc_active (rm_controller m))) \<subseteq> store_targets (rm_journal m)"
  using store_bj.jinv_restart [OF assms(1-3), where contains = contains and bx = bx and mn = mn
      and rlo = rlo and cfg = cfg and b = b]
  by (simp add: assms(4) store_bj.rm_jinv_def)

theorem rtbh_journal_covers_active_witness:
  "V4 0xCB007107 \<in> store_targets (rm_journal (rm_run net_contains (shadow_executor (#))
     store_blackhole_journal [Rehydrate [] 0, ApplyAdd (V4 0xCB007107) 1 1]
     (rm_start None sample_rtbh_config [] \<lparr>st_blackholes = [], st_flowspec = [], st_outcomes = []\<rparr>)))"
  by (rule rtbh_journal_covers_active [THEN subsetD, OF _ _ _ refl])
    (simp_all add: store_up_def store_targets_def rm_run_def rm_start_def rm_new_def rm_apply_add_def rtbh_eval
      rm_execute_announce_def shadow_executor_def store_blackhole_journal_def record_blackhole_def
      st_query_def upsert_blackhole_def hm_keys_def)

text \<open>The retry queues stay bounded by the number of targets: whatever fails, in whatever order,
  neither the journal mirror queue nor the re-announce queue ever holds two entries for one target.\<close>

lemma rm_queues_bounded:
  "let m = rm_run contains bx bj opers (rm_start rlo cfg b j) in
     distinct (map mirror_target (rm_pending_mirror m)) \<and> distinct (map ro_target (rm_pending_reapply m))"
proof -
  have "rm_queues_ok (rm_start rlo cfg b j)" by (simp add: rm_queues_ok_def rm_start_fields)
  from queues_ok_run [OF this] show ?thesis by (simp add: rm_queues_ok_def Let_def)
qed

section \<open>A stale mirror entry is replayed\<close>






end
