(* ===== verification/Flowspec_Manager.thy ===== *)
theory Flowspec_Manager
  imports Flowspec_Controller Rtbh_Manager
begin

text \<open>
  The FlowSpec manager of \<^verbatim>\<open>blackwall-rtbh/src/flowspec_manager.rs\<close>, with the same I/O boundary as
  the RTBH manager. A failed or refused announce is rolled back to the rule that was in force; a
  queued re-announce derives the current rule of its key when it is retried.
\<close>

section \<open>State\<close>

datatype fs_mirror_op =
    FsMirrorAnnounce flowspec_rule blackhole_origin nat
  | FsMirrorWithdraw flowspec_rule nat

fun fs_mirror_key :: "fs_mirror_op \<Rightarrow> flow_key" where
  "fs_mirror_key (FsMirrorAnnounce rule orig at_ms) = key_of rule"
| "fs_mirror_key (FsMirrorWithdraw rule at_ms) = key_of rule"

text \<open>A queued re-announce is just the flow key.\<close>

type_synonym fs_reapply_op = flow_key

record ('b, 'j) flowspec_manager =
  fm_controller :: flowspec_controller
  fm_bgp :: 'b
  fm_journal :: 'j
  fm_pending_mirror :: "fs_mirror_op list"
  fm_pending_reapply :: "fs_reapply_op list"
  fm_apply_failures :: nat
  fm_rate_limiter :: "arming_rate_limiter option"
  fm_ratecapped :: nat
  fm_disarmed :: bool
  fm_disarmed_skips :: nat

definition fm_new :: "flowspec_controller \<Rightarrow> 'b \<Rightarrow> 'j \<Rightarrow> ('b, 'j) flowspec_manager" where
  "fm_new controller bgp journal =
     \<lparr>fm_controller = controller, fm_bgp = bgp, fm_journal = journal, fm_pending_mirror = [],
      fm_pending_reapply = [], fm_apply_failures = 0, fm_rate_limiter = None, fm_ratecapped = 0,
      fm_disarmed = False, fm_disarmed_skips = 0\<rparr>"

definition fm_with_rate_limiter ::
  "arming_rate_limiter \<Rightarrow> ('b, 'j) flowspec_manager \<Rightarrow> ('b, 'j) flowspec_manager"
where
  "fm_with_rate_limiter limiter m = m\<lparr>fm_rate_limiter := Some limiter\<rparr>"

section \<open>Queues\<close>

definition fm_queue_mirror :: "fs_mirror_op \<Rightarrow> ('b, 'j) flowspec_manager \<Rightarrow> ('b, 'j) flowspec_manager" where
  "fm_queue_mirror oper m = m\<lparr>fm_pending_mirror :=
     filter (\<lambda>o'. fs_mirror_key o' \<noteq> fs_mirror_key oper) (fm_pending_mirror m) @ [oper]\<rparr>"

definition fm_queue_reapply :: "fs_reapply_op \<Rightarrow> ('b, 'j) flowspec_manager \<Rightarrow> ('b, 'j) flowspec_manager" where
  "fm_queue_reapply key m = m\<lparr>fm_pending_reapply :=
     filter (\<lambda>k. k \<noteq> key) (fm_pending_reapply m) @ [key]\<rparr>"

definition fm_active :: "('b, 'j) flowspec_manager \<Rightarrow> (flow_key \<times> nat \<times> blackhole_origin) list" where
  "fm_active m = fs_active_rules (fm_controller m)"

definition fm_is_active :: "('b, 'j) flowspec_manager \<Rightarrow> flow_key \<Rightarrow> bool" where
  "fm_is_active m key = (\<exists>e\<in>set (fs_active_rules (fm_controller m)). fst e = key)"

definition fm_rollback :: "flow_key \<Rightarrow> ('b, 'j) flowspec_manager \<Rightarrow> ('b, 'j) flowspec_manager" where
  "fm_rollback key m = m\<lparr>fm_controller := fs_rollback (fm_controller m) key\<rparr>"

section \<open>Executing one action\<close>

definition fm_execute_announce ::
  "'b bgp_executor_ops \<Rightarrow> 'j flowspec_journal_ops \<Rightarrow> flowspec_rule \<Rightarrow> blackhole_origin \<Rightarrow> nat \<Rightarrow> nat \<Rightarrow>
   ('b, 'j) flowspec_manager \<Rightarrow> announce_outcome \<times> ('b, 'j) flowspec_manager"
where
  "fm_execute_announce bx fj rule orig mono_now wall_now m =
     (let key = key_of rule in
      if fm_disarmed m
      then (AoDisarmed, (fm_rollback key m)\<lparr>fm_disarmed_skips := sat_inc (fm_disarmed_skips m)\<rparr>)
      else
        case (case fm_rate_limiter m of None \<Rightarrow> (True, None)
              | Some rl \<Rightarrow> (case try_acquire rl mono_now of (ok, rl') \<Rightarrow> (ok, Some rl'))) of
          (allowed, rl') \<Rightarrow>
            let m = m\<lparr>fm_rate_limiter := rl'\<rparr> in
            if \<not> allowed
            then (AoRateCapped, (fm_rollback key m)\<lparr>fm_ratecapped := sat_inc (fm_ratecapped m)\<rparr>)
            else case bx_announce_flowspec bx rule (fm_bgp m) of (ok, b') \<Rightarrow>
              let m = m\<lparr>fm_bgp := b'\<rparr> in
              if \<not> ok
              then (AoFailed, (fm_rollback key m)\<lparr>fm_apply_failures := sat_inc (fm_apply_failures m)\<rparr>)
              else case fj_record_announce fj rule orig wall_now (fm_journal m) of (jok, j') \<Rightarrow>
                let m = m\<lparr>fm_journal := j'\<rparr> in
                (AoApplied, if jok then m else fm_queue_mirror (FsMirrorAnnounce rule orig wall_now) m))"

definition fm_execute_withdraw ::
  "'b bgp_executor_ops \<Rightarrow> 'j flowspec_journal_ops \<Rightarrow> flowspec_rule \<Rightarrow> nat \<Rightarrow>
   ('b, 'j) flowspec_manager \<Rightarrow> ('b, 'j) flowspec_manager"
where
  "fm_execute_withdraw bx fj rule wall_now m =
     (case bx_withdraw_flowspec bx rule (fm_bgp m) of (ok, b') \<Rightarrow>
        let m = m\<lparr>fm_bgp := b'\<rparr> in
        if \<not> ok then m
        else case fj_record_withdraw fj rule wall_now (fm_journal m) of (jok, j') \<Rightarrow>
          let m = m\<lparr>fm_journal := j'\<rparr> in
          if jok then m else fm_queue_mirror (FsMirrorWithdraw rule wall_now) m)"

fun fm_execute ::
  "'b bgp_executor_ops \<Rightarrow> 'j flowspec_journal_ops \<Rightarrow> nat \<Rightarrow> nat \<Rightarrow> flowspec_action \<Rightarrow>
   ('b, 'j) flowspec_manager \<Rightarrow> ('b, 'j) flowspec_manager"
where
  "fm_execute bx fj mono_now wall_now (FsAnnounce rule) m =
     snd (fm_execute_announce bx fj rule Auto mono_now wall_now m)"
| "fm_execute bx fj mono_now wall_now (FsWithdraw rule) m = fm_execute_withdraw bx fj rule wall_now m"

section \<open>Retries\<close>

definition fm_mirror_write :: "'j flowspec_journal_ops \<Rightarrow> fs_mirror_op \<Rightarrow> 'j \<Rightarrow> bool \<times> 'j" where
  "fm_mirror_write fj oper j = (case oper of
     FsMirrorAnnounce rule orig at_ms \<Rightarrow> fj_record_announce fj rule orig at_ms j
   | FsMirrorWithdraw rule at_ms \<Rightarrow> fj_record_withdraw fj rule at_ms j)"

fun fm_mirror_loop ::
  "'j flowspec_journal_ops \<Rightarrow> fs_mirror_op list \<Rightarrow> ('b, 'j) flowspec_manager \<Rightarrow> ('b, 'j) flowspec_manager"
where
  "fm_mirror_loop fj [] m = m"
| "fm_mirror_loop fj (oper # opers) m =
     (case fm_mirror_write fj oper (fm_journal m) of (ok, j') \<Rightarrow>
        let m = m\<lparr>fm_journal := j'\<rparr> in
        fm_mirror_loop fj opers
          (if ok then m else m\<lparr>fm_pending_mirror := fm_pending_mirror m @ [oper]\<rparr>))"

definition fm_retry_pending_mirror ::
  "'j flowspec_journal_ops \<Rightarrow> ('b, 'j) flowspec_manager \<Rightarrow> ('b, 'j) flowspec_manager"
where
  "fm_retry_pending_mirror fj m =
     (if fm_pending_mirror m = [] then m
      else fm_mirror_loop fj (fm_pending_mirror m) (m\<lparr>fm_pending_mirror := []\<rparr>))"

fun fm_reapply_loop ::
  "'b bgp_executor_ops \<Rightarrow> fs_reapply_op list \<Rightarrow> ('b, 'j) flowspec_manager \<Rightarrow> ('b, 'j) flowspec_manager"
where
  "fm_reapply_loop bx [] m = m"
| "fm_reapply_loop bx (key # opers) m =
     (case fs_active_rule (fm_controller m) key of
        None \<Rightarrow> fm_reapply_loop bx opers m
      | Some rule \<Rightarrow>
          (case bx_announce_flowspec bx rule (fm_bgp m) of (ok, b') \<Rightarrow>
             let m = m\<lparr>fm_bgp := b'\<rparr> in
             fm_reapply_loop bx opers
               (if ok then m else m\<lparr>fm_pending_reapply := fm_pending_reapply m @ [key]\<rparr>)))"

definition fm_retry_pending_reapply ::
  "'b bgp_executor_ops \<Rightarrow> ('b, 'j) flowspec_manager \<Rightarrow> ('b, 'j) flowspec_manager"
where
  "fm_retry_pending_reapply bx m =
     (if fm_pending_reapply m = [] then m
      else fm_reapply_loop bx (fm_pending_reapply m) (m\<lparr>fm_pending_reapply := []\<rparr>))"

section \<open>Entry points\<close>

definition fm_apply_open ::
  "contains \<Rightarrow> 'b bgp_executor_ops \<Rightarrow> 'j flowspec_journal_ops \<Rightarrow> ip_addr \<Rightarrow> flow_rule list \<Rightarrow> nat \<Rightarrow> nat \<Rightarrow>
   ('b, 'j) flowspec_manager \<Rightarrow> ('b, 'j) flowspec_manager"
where
  "fm_apply_open contains bx fj target rules mono_now wall_now m =
     (let tuples = map (\<lambda>r. (fr_proto r, fr_dst_port r, fr_rate r)) rules in
      case fs_install contains (fm_controller m) target tuples mono_now of (actions, c') \<Rightarrow>
        fold (fm_execute bx fj mono_now wall_now) actions (m\<lparr>fm_controller := c'\<rparr>))"

definition fm_apply_clear ::
  "'b bgp_executor_ops \<Rightarrow> 'j flowspec_journal_ops \<Rightarrow> ip_addr \<Rightarrow> nat \<Rightarrow> nat \<Rightarrow>
   ('b, 'j) flowspec_manager \<Rightarrow> ('b, 'j) flowspec_manager"
where
  "fm_apply_clear bx fj target mono_now wall_now m =
     (case fs_clear_target (fm_controller m) target mono_now of (actions, c') \<Rightarrow>
        fold (fm_execute bx fj mono_now wall_now) actions (m\<lparr>fm_controller := c'\<rparr>))"

definition fm_apply_updated :: "ip_addr \<Rightarrow> nat \<Rightarrow> ('b, 'j) flowspec_manager \<Rightarrow> ('b, 'j) flowspec_manager" where
  "fm_apply_updated target mono_now m =
     m\<lparr>fm_controller := fs_refresh_target (fm_controller m) target mono_now\<rparr>"

definition fm_tick ::
  "'b bgp_executor_ops \<Rightarrow> 'j flowspec_journal_ops \<Rightarrow> nat \<Rightarrow> nat \<Rightarrow>
   ('b, 'j) flowspec_manager \<Rightarrow> ('b, 'j) flowspec_manager"
where
  "fm_tick bx fj mono_now wall_now m =
     (let m = fm_retry_pending_mirror fj m;
          m = fm_retry_pending_reapply bx m
      in case fs_tick (fm_controller m) mono_now of (actions, c') \<Rightarrow>
           fold (fm_execute bx fj mono_now wall_now) actions (m\<lparr>fm_controller := c'\<rparr>))"

definition fm_apply_add ::
  "contains \<Rightarrow> 'b bgp_executor_ops \<Rightarrow> 'j flowspec_journal_ops \<Rightarrow> flowspec_rule \<Rightarrow> nat \<Rightarrow> nat \<Rightarrow>
   ('b, 'j) flowspec_manager \<Rightarrow> apply_outcome \<times> ('b, 'j) flowspec_manager"
where
  "fm_apply_add contains bx fj rule mono_now wall_now m =
     (let key = key_of rule; target = net_addr (fl_dst rule) in
      case fs_manual_add contains (fm_controller m) rule mono_now of (actions, c') \<Rightarrow>
        let m = m\<lparr>fm_controller := c'\<rparr>; cfg = fc_config c' in
        case actions of
          FsAnnounce r # _ \<Rightarrow>
            (case fm_execute_announce bx fj r Manual mono_now wall_now m of
               (ao, m') \<Rightarrow> (rm_add_outcome ao, m'))
        | _ \<Rightarrow>
            if fm_is_active m key
            then (case fj_record_announce fj rule Manual wall_now (fm_journal m) of (jok, j') \<Rightarrow>
                    let m = m\<lparr>fm_journal := j'\<rparr> in
                    (Applied, if jok then m else fm_queue_mirror (FsMirrorAnnounce rule Manual wall_now) m))
            else if fs_is_protected contains cfg target then (Rejected InsideProtected, m)
            else if \<not> fs_is_eligible contains cfg target then (Rejected OutsideEligible, m)
            else (Deferred, m))"

definition fm_apply_remove ::
  "'b bgp_executor_ops \<Rightarrow> 'j flowspec_journal_ops \<Rightarrow> flowspec_rule \<Rightarrow> nat \<Rightarrow> nat \<Rightarrow>
   ('b, 'j) flowspec_manager \<Rightarrow> ('b, 'j) flowspec_manager"
where
  "fm_apply_remove bx fj rule mono_now wall_now m =
     (case fs_manual_remove (fm_controller m) rule of (actions, c') \<Rightarrow>
        fold (fm_execute bx fj mono_now wall_now) actions (m\<lparr>fm_controller := c'\<rparr>))"

fun fm_rehydrate ::
  "contains \<Rightarrow> 'b bgp_executor_ops \<Rightarrow> (flowspec_rule \<times> nat \<times> blackhole_origin) list \<Rightarrow> nat \<Rightarrow>
   ('b, 'j) flowspec_manager \<Rightarrow> ('b, 'j) flowspec_manager"
where
  "fm_rehydrate contains bx [] mono_now m = m"
| "fm_rehydrate contains bx ((rule, persisted_at, orig) # rows) mono_now m =
     (case fs_resume contains (fm_controller m) rule mono_now orig of (actions, c') \<Rightarrow>
        let m = m\<lparr>fm_controller := c'\<rparr> in
        fm_rehydrate contains bx rows mono_now
          (case actions of
             FsAnnounce r # _ \<Rightarrow>
               (case bx_announce_flowspec bx r (fm_bgp m) of (ok, b') \<Rightarrow>
                  let m = m\<lparr>fm_bgp := b'\<rparr> in
                  if ok then m else fm_queue_reapply (key_of r) m)
           | _ \<Rightarrow> m))"

definition key_placeholder :: "flow_key \<Rightarrow> flowspec_rule" where
  "key_placeholder key = (case key of (dst, protocol, dst_port) \<Rightarrow>
     \<lparr>fl_dst = dst, fl_protocol = Some protocol, fl_dst_port = Some dst_port, fl_action = TrafficRate 0\<rparr>)"

fun fm_disarm_action ::
  "'b bgp_executor_ops \<Rightarrow> flowspec_action \<Rightarrow> ('b, 'j) flowspec_manager \<Rightarrow> ('b, 'j) flowspec_manager"
where
  "fm_disarm_action bx (FsWithdraw rule) m =
     (case bx_withdraw_flowspec bx rule (fm_bgp m) of (ok, b') \<Rightarrow> m\<lparr>fm_bgp := b'\<rparr>)"
| "fm_disarm_action bx (FsAnnounce rule) m = m"

fun fm_disarm_loop ::
  "'b bgp_executor_ops \<Rightarrow> flow_key list \<Rightarrow> ('b, 'j) flowspec_manager \<Rightarrow> ('b, 'j) flowspec_manager"
where
  "fm_disarm_loop bx [] m = m"
| "fm_disarm_loop bx (key # ks) m =
     (case fs_manual_remove (fm_controller m) (key_placeholder key) of (actions, c') \<Rightarrow>
        fm_disarm_loop bx ks (fold (fm_disarm_action bx) actions (m\<lparr>fm_controller := c'\<rparr>)))"

definition fm_disarm :: "'b bgp_executor_ops \<Rightarrow> nat \<Rightarrow> ('b, 'j) flowspec_manager \<Rightarrow> ('b, 'j) flowspec_manager" where
  "fm_disarm bx mono_now m =
     (if fm_disarmed m then m
      else fm_disarm_loop bx (map fst (fs_active_rules (fm_controller m))) (m\<lparr>fm_disarmed := True\<rparr>))"

section \<open>Runs of the manager\<close>

datatype fs_mgr_op =
    FmOpen ip_addr "flow_rule list" nat nat
  | FmClear ip_addr nat nat
  | FmUpdated ip_addr nat
  | FmTick nat nat
  | FmAdd flowspec_rule nat nat
  | FmRemove flowspec_rule nat nat
  | FmRehydrate "(flowspec_rule \<times> nat \<times> blackhole_origin) list" nat
  | FmDisarm nat

fun fm_exec ::
  "contains \<Rightarrow> 'b bgp_executor_ops \<Rightarrow> 'j flowspec_journal_ops \<Rightarrow> fs_mgr_op \<Rightarrow>
   ('b, 'j) flowspec_manager \<Rightarrow> ('b, 'j) flowspec_manager"
where
  "fm_exec contains bx fj (FmOpen t rules mn wn) m = fm_apply_open contains bx fj t rules mn wn m"
| "fm_exec contains bx fj (FmClear t mn wn) m = fm_apply_clear bx fj t mn wn m"
| "fm_exec contains bx fj (FmUpdated t mn) m = fm_apply_updated t mn m"
| "fm_exec contains bx fj (FmTick mn wn) m = fm_tick bx fj mn wn m"
| "fm_exec contains bx fj (FmAdd rule mn wn) m = snd (fm_apply_add contains bx fj rule mn wn m)"
| "fm_exec contains bx fj (FmRemove rule mn wn) m = fm_apply_remove bx fj rule mn wn m"
| "fm_exec contains bx fj (FmRehydrate rows mn) m = fm_rehydrate contains bx rows mn m"
| "fm_exec contains bx fj (FmDisarm mn) m = fm_disarm bx mn m"

definition fm_run ::
  "contains \<Rightarrow> 'b bgp_executor_ops \<Rightarrow> 'j flowspec_journal_ops \<Rightarrow> fs_mgr_op list \<Rightarrow>
   ('b, 'j) flowspec_manager \<Rightarrow> ('b, 'j) flowspec_manager"
where
  "fm_run contains bx fj opers m = fold (fm_exec contains bx fj) opers m"

definition fm_start ::
  "arming_rate_limiter option \<Rightarrow> flowspec_config \<Rightarrow> 'b \<Rightarrow> 'j \<Rightarrow> ('b, 'j) flowspec_manager"
where
  "fm_start rlo cfg b j = (case rlo of None \<Rightarrow> fm_new (fs_new cfg) b j
     | Some rl \<Rightarrow> fm_with_rate_limiter rl (fm_new (fs_new cfg) b j))"

section \<open>What each step changes\<close>

text \<open>Flow keys are triples; quantifiers over them stay unsplit.\<close>

declare split_paired_All [simp del] split_paired_Ex [simp del]

lemmas fm_step_defs =
  fm_execute_announce_def fm_execute_withdraw_def fm_queue_mirror_def fm_queue_reapply_def
  fm_rollback_def Let_def

lemma fm_execute_announce_cases:
  obtains (skipped) b' where
      "fm_controller (snd (fm_execute_announce bx fj rule orig mn wn m)) = fs_rollback (fm_controller m) (key_of rule)"
      "fm_bgp (snd (fm_execute_announce bx fj rule orig mn wn m)) = b'"
      "b' = fm_bgp m \<or> bx_announce_flowspec bx rule (fm_bgp m) = (False, b')"
  | (applied) b' where "\<not> fm_disarmed m"
      "bx_announce_flowspec bx rule (fm_bgp m) = (True, b')"
      "fm_controller (snd (fm_execute_announce bx fj rule orig mn wn m)) = fm_controller m"
      "fm_bgp (snd (fm_execute_announce bx fj rule orig mn wn m)) = b'"
proof -
  obtain ok rl where lim: "(case fm_rate_limiter m of None \<Rightarrow> (True, None)
      | Some rl \<Rightarrow> (case try_acquire rl mn of (ok, rl') \<Rightarrow> (ok, Some rl'))) = (ok, rl)" by fastforce
  obtain aok b' where ann: "bx_announce_flowspec bx rule (fm_bgp m) = (aok, b')" by fastforce
  obtain jok j' where jrn: "fj_record_announce fj rule orig wn (fm_journal m) = (jok, j')" by fastforce
  consider "fm_disarmed m \<or> \<not> ok" | "\<not> fm_disarmed m" "ok" "\<not> aok" | "\<not> fm_disarmed m" "ok" "aok"
    by blast
  then show thesis
  proof cases
    case 1 then show thesis by (intro skipped [of "fm_bgp m"]) (auto simp: fm_step_defs lim)
  next
    case 2 then show thesis by (intro skipped [of b']) (auto simp: fm_step_defs lim ann)
  next
    case 3 then show thesis by (intro applied [of b']) (auto simp: fm_step_defs lim ann jrn)
  qed
qed

lemma fm_execute_announce_frame [simp]:
  "fm_pending_reapply (snd (fm_execute_announce bx fj rule orig mn wn m)) = fm_pending_reapply m"
  "fm_disarmed (snd (fm_execute_announce bx fj rule orig mn wn m)) = fm_disarmed m"
  by (auto simp: fm_step_defs split: prod.splits)

lemma fm_execute_withdraw_frame [simp]:
  "fm_controller (fm_execute_withdraw bx fj rule wn m) = fm_controller m"
  "fm_pending_reapply (fm_execute_withdraw bx fj rule wn m) = fm_pending_reapply m"
  "fm_disarmed (fm_execute_withdraw bx fj rule wn m) = fm_disarmed m"
  "fm_bgp (fm_execute_withdraw bx fj rule wn m) = snd (bx_withdraw_flowspec bx rule (fm_bgp m))"
  by (auto simp: fm_step_defs split: prod.splits)

lemma fm_mirror_loop_frame [simp]:
  "fm_controller (fm_mirror_loop fj opers m) = fm_controller m"
  "fm_bgp (fm_mirror_loop fj opers m) = fm_bgp m"
  "fm_pending_reapply (fm_mirror_loop fj opers m) = fm_pending_reapply m"
  "fm_disarmed (fm_mirror_loop fj opers m) = fm_disarmed m"
  by (induction opers arbitrary: m) (auto simp: Let_def split: prod.splits)

lemma fm_retry_mirror_frame [simp]:
  "fm_controller (fm_retry_pending_mirror fj m) = fm_controller m"
  "fm_bgp (fm_retry_pending_mirror fj m) = fm_bgp m"
  "fm_pending_reapply (fm_retry_pending_mirror fj m) = fm_pending_reapply m"
  "fm_disarmed (fm_retry_pending_mirror fj m) = fm_disarmed m"
  by (auto simp: fm_retry_pending_mirror_def)

lemma fm_reapply_loop_frame [simp]:
  "fm_controller (fm_reapply_loop bx opers m) = fm_controller m"
  "fm_disarmed (fm_reapply_loop bx opers m) = fm_disarmed m"
  by (induction opers arbitrary: m) (auto simp: Let_def split: prod.splits option.splits)

lemma fm_retry_reapply_frame [simp]:
  "fm_controller (fm_retry_pending_reapply bx m) = fm_controller m"
  "fm_disarmed (fm_retry_pending_reapply bx m) = fm_disarmed m"
  by (auto simp: fm_retry_pending_reapply_def)

lemma fs_active_rule_core: "fs_active_rule c k = map_option fst (fs_core c k)"
  by (simp add: fs_active_rule_def fs_core_def option.map_comp o_def)

section \<open>Commit after confirm\<close>

text \<open>The rules the planes build: a host route with a protocol and a port.\<close>

definition rule_wf :: "flowspec_rule \<Rightarrow> bool" where
  "rule_wf f \<longleftrightarrow> is_host_route (fl_dst f) \<and> fl_protocol f \<noteq> None \<and> fl_dst_port f \<noteq> None"

text \<open>
  The executor must tell two rules apart exactly when their flow keys differ: the encoded match does
  not depend on the action, and different keys have different matches.
\<close>

text \<open>
  What the callers guarantee about an operation: a detection's rules have distinct protocol and port,
  and operator requests and persisted rows are host rules.
\<close>

fun fm_op_ok :: "fs_mgr_op \<Rightarrow> bool" where
  "fm_op_ok (FmOpen t rules mn wn) = distinct (map (\<lambda>r. (fr_proto r, fr_dst_port r)) rules)"
| "fm_op_ok (FmAdd rule mn wn) = rule_wf rule"
| "fm_op_ok (FmRehydrate rows mn) = (\<forall>row\<in>set rows. rule_wf (fst row))"
| "fm_op_ok _ = True"

lemma flow_rule_for_wf [simp]: "rule_wf (flow_rule_for t r)"
  by (cases r) (simp add: rule_wf_def flow_rule_for_def host_prefix_host)

lemma key_of_flow_rule_for: "key_of (flow_rule_for t (p, q, rate)) = (host_prefix t, p, q)"
  by (simp add: flow_rule_for_def key_of_def)

lemma distinct_install_keys:
  "distinct (map (\<lambda>r. (fr_proto r, fr_dst_port r)) rules) \<Longrightarrow>
   distinct (map key_of (map (flow_rule_for t) (map (\<lambda>r. (fr_proto r, fr_dst_port r, fr_rate r)) rules)))"
  by (induction rules) (auto simp: key_of_flow_rule_for)

locale flowspec_executor = bgp_executor +
  assumes nlri_key: "rule_wf f \<Longrightarrow> rule_wf g \<Longrightarrow> nlri f = nlri g \<longleftrightarrow> key_of f = key_of g"
begin

definition conf :: "'a \<Rightarrow> flowspec_rule \<Rightarrow> bool" where
  "conf b f \<longleftrightarrow> frib b (nlri f) = Some f"

definition core_inv ::
  "flow_key set \<Rightarrow> flow_key set \<Rightarrow> 'a \<Rightarrow> flow_key \<Rightarrow> flowspec_rule \<times> flowspec_rule option \<Rightarrow> bool"
where
  "core_inv X P b k v \<longleftrightarrow> (case v of (r, p) \<Rightarrow>
     rule_wf r \<and> key_of r = k \<and> (\<forall>q. p = Some q \<longrightarrow> rule_wf q \<and> key_of q = k) \<and>
     (if k \<in> X then (\<forall>q. p = Some q \<longrightarrow> conf b q \<or> k \<in> P) else conf b r \<or> k \<in> P))"

definition fm_inv :: "flow_key set \<Rightarrow> flow_key set \<Rightarrow> flowspec_controller \<Rightarrow> 'a \<Rightarrow> bool" where
  "fm_inv X P c b \<longleftrightarrow> (\<forall>k v. fs_core c k = Some v \<longrightarrow> core_inv X P b k v)"

lemma fm_invD: "fm_inv X P c b \<Longrightarrow> fs_core c k = Some v \<Longrightarrow> core_inv X P b k v"
  unfolding fm_inv_def by blast

lemma fm_invI: "(\<And>k v. fs_core c k = Some v \<Longrightarrow> core_inv X P b k v) \<Longrightarrow> fm_inv X P c b"
  by (simp add: fm_inv_def)

lemma core_inv_mono: "core_inv X P b k v \<Longrightarrow> P \<subseteq> P' \<Longrightarrow> core_inv X P' b k v"
  by (auto simp: core_inv_def split: if_splits)

lemma core_inv_other:
  assumes "core_inv X P b k v" "rule_wf f" "key_of f \<noteq> k"
    and "frib b' = (frib b)(nlri f := y) \<or> frib b' = frib b" "X' - {key_of f} = X - {key_of f}"
  shows "core_inv X' P b' k v"
proof -
  have "conf b q \<Longrightarrow> rule_wf q \<Longrightarrow> key_of q = k \<Longrightarrow> conf b' q" for q
    using assms(2-4) nlri_key [of q f] by (auto simp: conf_def)
  moreover have "k \<in> X' \<longleftrightarrow> k \<in> X" using assms(3,5) by blast
  ultimately show ?thesis using assms(1) by (auto simp: core_inv_def split: if_splits)
qed

lemma fm_inv_announce:
  assumes inv: "fm_inv X P (fm_controller m) (fm_bgp m)"
    and core: "fs_core (fm_controller m) (key_of r) = Some (r, p)" and k: "key_of r \<in> X"
  shows "fm_inv (X - {key_of r}) P (fm_controller (snd (fm_execute_announce ops fj r orig mn wn m)))
      (fm_bgp (snd (fm_execute_announce ops fj r orig mn wn m))) \<and>
    (\<forall>j. j \<noteq> key_of r \<longrightarrow> fs_core (fm_controller (snd (fm_execute_announce ops fj r orig mn wn m))) j
       = fs_core (fm_controller m) j)"
proof -
  let ?k = "key_of r"
  from fm_invD [OF inv core] k have r: "rule_wf r" "\<And>q. p = Some q \<Longrightarrow> rule_wf q \<and> key_of q = ?k \<and> (conf (fm_bgp m) q \<or> ?k \<in> P)"
    by (auto simp: core_inv_def)
  have other: "core_inv (X - {?k}) P b' j v"
    if "fs_core (fm_controller m) j = Some v" "j \<noteq> ?k" "frib b' = (frib (fm_bgp m))(nlri r := y) \<or> frib b' = frib (fm_bgp m)"
    for b' j v y
    using core_inv_other [OF fm_invD [OF inv that(1)] r(1)] that(2,3) by blast
  show ?thesis
  proof (rule fm_execute_announce_cases [of ops fj r orig mn wn m])
    fix b' assume s: "fm_controller (snd (fm_execute_announce ops fj r orig mn wn m)) = fs_rollback (fm_controller m) ?k"
      "fm_bgp (snd (fm_execute_announce ops fj r orig mn wn m)) = b'"
      "b' = fm_bgp m \<or> bx_announce_flowspec ops r (fm_bgp m) = (False, b')"
    from s(3) have b': "frib b' = frib (fm_bgp m)" using announce_flowspec [of r "fm_bgp m" False b'] by auto
    have "fm_inv (X - {?k}) P (fs_rollback (fm_controller m) ?k) b'"
    proof (rule fm_invI)
      fix j v assume j: "fs_core (fs_rollback (fm_controller m) ?k) j = Some v"
      show "core_inv (X - {?k}) P b' j v"
      proof (cases "j = ?k")
        case True
        with j core obtain q where "p = Some q" "v = (q, None)"
          by (auto simp: rollback_core core_rollback_def split: option.splits)
        with r True b' show ?thesis by (auto simp: core_inv_def conf_def)
      next
        case False
        with j have "fs_core (fm_controller m) j = Some v" by (simp add: rollback_core core_rollback_def)
        with False b' show ?thesis by (intro other) auto
      qed
    qed
    with s show ?thesis by (simp add: rollback_core core_rollback_def)
  next
    fix b' assume s: "bx_announce_flowspec ops r (fm_bgp m) = (True, b')"
      "fm_controller (snd (fm_execute_announce ops fj r orig mn wn m)) = fm_controller m"
      "fm_bgp (snd (fm_execute_announce ops fj r orig mn wn m)) = b'"
    have b': "frib b' = (frib (fm_bgp m))(nlri r \<mapsto> r)" using announce_flowspec [OF s(1)] by simp
    have "fm_inv (X - {?k}) P (fm_controller m) b'"
    proof (rule fm_invI)
      fix j v assume j: "fs_core (fm_controller m) j = Some v"
      show "core_inv (X - {?k}) P b' j v"
      proof (cases "j = ?k")
        case True
        with j core r b' show ?thesis by (auto simp: core_inv_def conf_def)
      next
        case False
        with j b' show ?thesis by (intro other) auto
      qed
    qed
    with s show ?thesis by simp
  qed
qed

lemma fm_inv_announces:
  assumes "fm_inv (key_of ` set rs) P (fm_controller m) (fm_bgp m)" "distinct (map key_of rs)"
    "\<forall>r\<in>set rs. \<exists>p. fs_core (fm_controller m) (key_of r) = Some (r, p)"
  shows "fm_inv {} P (fm_controller (fold (fm_execute ops fj mn wn) (map FsAnnounce rs) m))
      (fm_bgp (fold (fm_execute ops fj mn wn) (map FsAnnounce rs) m)) \<and>
    fm_pending_reapply (fold (fm_execute ops fj mn wn) (map FsAnnounce rs) m) = fm_pending_reapply m"
  using assms
proof (induction rs arbitrary: m)
  case (Cons r rs)
  let ?m = "snd (fm_execute_announce ops fj r Auto mn wn m)"
  obtain p where "fs_core (fm_controller m) (key_of r) = Some (r, p)" using Cons.prems(3) by auto
  from fm_inv_announce [OF Cons.prems(1) this]
  have step: "fm_inv (key_of ` set (r # rs) - {key_of r}) P (fm_controller ?m) (fm_bgp ?m)"
    "\<forall>j. j \<noteq> key_of r \<longrightarrow> fs_core (fm_controller ?m) j = fs_core (fm_controller m) j" by auto
  have "key_of ` set (r # rs) - {key_of r} = key_of ` set rs" using Cons.prems(2) by auto
  with step(1) have "fm_inv (key_of ` set rs) P (fm_controller ?m) (fm_bgp ?m)" by simp
  moreover have "\<forall>r'\<in>set rs. \<exists>p. fs_core (fm_controller ?m) (key_of r') = Some (r', p)"
  proof
    fix r' assume "r' \<in> set rs"
    with Cons.prems(2) have "key_of r' \<noteq> key_of r" by (auto simp: image_iff)
    with step(2) Cons.prems(3) \<open>r' \<in> set rs\<close> show "\<exists>p. fs_core (fm_controller ?m) (key_of r') = Some (r', p)"
      by auto
  qed
  ultimately show ?case using Cons.IH [of ?m] Cons.prems(2) by simp
qed simp

lemma fm_inv_put:
  assumes inv: "fm_inv X P c b" and put: "fs_put_step contains rule c acts c'"
    and wf: "rule_wf rule" and k: "key_of rule \<notin> X"
  shows "acts = [] \<and> fm_inv X P c' b \<and> fs_core c' = fs_core c \<or>
    acts = [FsAnnounce rule] \<and> fm_inv (insert (key_of rule) X) P c' b \<and>
    (\<exists>p. fs_core c' (key_of rule) = Some (rule, p)) \<and>
    (\<forall>j. j \<noteq> key_of rule \<longrightarrow> fs_core c' j = fs_core c j)"
proof -
  let ?k = "key_of rule"
  consider "acts = []" "fs_core c' = fs_core c"
    | "acts = [FsAnnounce rule]" "fs_core c' = core_put rule (fs_core c)"
    using put by (auto simp: fs_put_step_def)
  then show ?thesis
  proof cases
    case 1 then show ?thesis using inv by (simp add: fm_inv_def)
  next
    case 2
    have "fm_inv (insert ?k X) P c' b"
    proof (rule fm_invI)
      fix j v assume j: "fs_core c' j = Some v"
      show "core_inv (insert ?k X) P b j v"
      proof (cases "j = ?k")
        case True
        with j 2 have v: "v = (rule, map_option fst (fs_core c ?k))" by (simp add: core_put_def)
        show ?thesis
        proof (cases "fs_core c ?k")
          case None with v True wf show ?thesis by (simp add: core_inv_def)
        next
          case (Some w)
          with fm_invD [OF inv Some] k v True wf show ?thesis by (auto simp: core_inv_def)
        qed
      next
        case False
        with j 2 have "fs_core c j = Some v" by (simp add: core_put_def)
        from core_inv_other [OF fm_invD [OF inv this] wf, of b None "insert ?k X"] False show ?thesis by auto
      qed
    qed
    with 2 show ?thesis by (simp add: core_put_def)
  qed
qed

lemma fm_inv_puts:
  assumes "fs_puts contains rules c acts c'" "fm_inv X P c b" "\<forall>r\<in>set rules. rule_wf r"
    "distinct (map key_of rules)" "key_of ` set rules \<inter> X = {}"
  shows "\<exists>rs. acts = map FsAnnounce rs \<and> set rs \<subseteq> set rules \<and> distinct (map key_of rs) \<and>
    fm_inv (X \<union> key_of ` set rs) P c' b \<and>
    (\<forall>r\<in>set rs. \<exists>p. fs_core c' (key_of r) = Some (r, p)) \<and>
    (\<forall>j. j \<notin> key_of ` set rules \<longrightarrow> fs_core c' j = fs_core c j)"
  using assms
proof (induction arbitrary: X rule: fs_puts.induct)
  case (fs_puts_nil c)
  then show ?case by (intro exI [of _ "[]"]) auto
next
  case (fs_puts_cons rule c acts c' rules acts' c'')
  have wf: "rule_wf rule" and k: "key_of rule \<notin> X" using fs_puts_cons.prems by auto
  from fm_inv_put [OF fs_puts_cons.prems(1) fs_puts_cons.hyps(1) wf k] show ?case
  proof (elim disjE conjE exE)
    assume a: "acts = []" "fm_inv X P c' b" "fs_core c' = fs_core c"
    from fs_puts_cons.IH [OF a(2)] fs_puts_cons.prems obtain rs where
      "acts' = map FsAnnounce rs" "set rs \<subseteq> set rules" "distinct (map key_of rs)"
      "fm_inv (X \<union> key_of ` set rs) P c'' b" "\<forall>r\<in>set rs. \<exists>p. fs_core c'' (key_of r) = Some (r, p)"
      "\<forall>j. j \<notin> key_of ` set rules \<longrightarrow> fs_core c'' j = fs_core c' j" by auto
    with a show ?thesis by (intro exI [of _ rs]) auto
  next
    fix p assume a: "acts = [FsAnnounce rule]" "fm_inv (insert (key_of rule) X) P c' b"
      "fs_core c' (key_of rule) = Some (rule, p)" "\<forall>j. j \<noteq> key_of rule \<longrightarrow> fs_core c' j = fs_core c j"
    from fs_puts_cons.IH [OF a(2)] fs_puts_cons.prems obtain rs where
      rs: "acts' = map FsAnnounce rs" "set rs \<subseteq> set rules" "distinct (map key_of rs)"
      "fm_inv (insert (key_of rule) X \<union> key_of ` set rs) P c'' b"
      "\<forall>r\<in>set rs. \<exists>p. fs_core c'' (key_of r) = Some (r, p)"
      "\<forall>j. j \<notin> key_of ` set rules \<longrightarrow> fs_core c'' j = fs_core c' j" by auto
    have new: "key_of rule \<notin> key_of ` set rules" using fs_puts_cons.prems(3) by simp
    then have "key_of rule \<notin> key_of ` set rs" using rs(2) by blast
    moreover have "\<forall>j. j \<notin> key_of ` set (rule # rules) \<longrightarrow> fs_core c'' j = fs_core c j"
      using a(4) rs(6) by simp
    moreover have "fs_core c'' (key_of rule) = Some (rule, p)" using rs(6) new a(3) by simp
    ultimately show ?thesis using a(1) rs
      by (intro exI [of _ "rule # rs"] conjI) auto
  qed
qed

lemma fm_inv_withdraw:
  assumes inv: "fm_inv {} P (fm_controller m) (fm_bgp m)" and wf: "rule_wf r"
    and k: "fs_core (fm_controller m) (key_of r) = None"
  shows "fm_inv {} P (fm_controller (fm_execute_withdraw ops fj r wn m)) (fm_bgp (fm_execute_withdraw ops fj r wn m))"
proof (rule fm_invI)
  obtain ok b' where w: "bx_withdraw_flowspec ops r (fm_bgp m) = (ok, b')" by fastforce
  fix j v assume "fs_core (fm_controller (fm_execute_withdraw ops fj r wn m)) j = Some v"
  then have j: "fs_core (fm_controller m) j = Some v" by simp
  with k have "key_of r \<noteq> j" by auto
  with core_inv_other [OF fm_invD [OF inv j] wf, of b' None "{}"] withdraw_flowspec [OF w] w
  show "core_inv {} P (fm_bgp (fm_execute_withdraw ops fj r wn m)) j v" by (cases ok) auto
qed

lemma fm_inv_withdraws:
  assumes "fm_inv {} P (fm_controller m) (fm_bgp m)"
    "\<forall>r\<in>set rs. rule_wf r \<and> fs_core (fm_controller m) (key_of r) = None"
  shows "fm_inv {} P (fm_controller (fold (fm_execute ops fj mn wn) (map FsWithdraw rs) m))
      (fm_bgp (fold (fm_execute ops fj mn wn) (map FsWithdraw rs) m)) \<and>
    fm_pending_reapply (fold (fm_execute ops fj mn wn) (map FsWithdraw rs) m) = fm_pending_reapply m"
  using assms
proof (induction rs arbitrary: m)
  case (Cons r rs)
  then have "fm_inv {} P (fm_controller (fm_execute_withdraw ops fj r wn m)) (fm_bgp (fm_execute_withdraw ops fj r wn m))"
    by (intro fm_inv_withdraw) auto
  from Cons.IH [OF this] Cons.prems(2) show ?case by simp
qed simp

lemma fm_inv_reapply_loop:
  assumes "fm_inv {} (set (fm_pending_reapply m) \<union> set opers) (fm_controller m) (fm_bgp m)"
  shows "fm_inv {} (set (fm_pending_reapply (fm_reapply_loop ops opers m)))
    (fm_controller (fm_reapply_loop ops opers m)) (fm_bgp (fm_reapply_loop ops opers m))"
  using assms
proof (induction opers arbitrary: m)
  case (Cons k opers)
  let ?P = "set (fm_pending_reapply m) \<union> set opers"
  show ?case
  proof (cases "fs_core (fm_controller m) k")
    case None
    have "fm_inv {} ?P (fm_controller m) (fm_bgp m)"
      by (rule fm_invI) (use None Cons.prems in \<open>auto dest!: fm_invD simp: core_inv_def\<close>)
    with Cons.IH None show ?thesis by (simp add: fs_active_rule_core)
  next
    case (Some v)
    obtain r p where v: "v = (r, p)" by (cases v)
    obtain ok b' where ann: "bx_announce_flowspec ops r (fm_bgp m) = (ok, b')" by fastforce
    from fm_invD [OF Cons.prems Some] v have r: "rule_wf r" "key_of r = k" by (auto simp: core_inv_def)
    let ?m = "m\<lparr>fm_bgp := b', fm_pending_reapply := if ok then fm_pending_reapply m else fm_pending_reapply m @ [k]\<rparr>"
    have "fm_inv {} (set (fm_pending_reapply ?m) \<union> set opers) (fm_controller ?m) (fm_bgp ?m)"
    proof (rule fm_invI)
      fix j w assume "fs_core (fm_controller ?m) j = Some w"
      then have j: "fs_core (fm_controller m) j = Some w" by simp
      show "core_inv {} (set (fm_pending_reapply ?m) \<union> set opers) (fm_bgp ?m) j w"
      proof (cases "j = k")
        case True
        with j Some v announce_flowspec [OF ann] fm_invD [OF Cons.prems Some] show ?thesis
          by (auto simp: core_inv_def conf_def)
      next
        case False
        have "core_inv {} (set (fm_pending_reapply m) \<union> set (k # opers)) b' j w"
          using core_inv_other [OF fm_invD [OF Cons.prems j] r(1), of b' "Some r" "{}"] announce_flowspec [OF ann] False r(2)
          by (cases ok) auto
        with False show ?thesis by (auto simp: core_inv_def split: if_splits)
      qed
    qed
    from Cons.IH [OF this] Some v ann show ?thesis by (cases ok) (simp_all add: fs_active_rule_core Let_def)
  qed
qed simp

definition fm_ok :: "('a, 'j) flowspec_manager \<Rightarrow> bool" where
  "fm_ok m \<longleftrightarrow> fm_inv {} (set (fm_pending_reapply m)) (fm_controller m) (fm_bgp m)"

lemma fm_ok_puts:
  assumes ok: "fm_ok m" and puts: "fs_puts contains rules (fm_controller m) acts c'"
    and wf: "\<forall>r\<in>set rules. rule_wf r" "distinct (map key_of rules)"
  shows "fm_ok (fold (fm_execute ops fj mn wn) acts (m\<lparr>fm_controller := c'\<rparr>))"
proof -
  from fm_inv_puts [OF puts, of "{}" "set (fm_pending_reapply m)" "fm_bgp m"] ok wf obtain rs where
    rs: "acts = map FsAnnounce rs" "distinct (map key_of rs)"
    "fm_inv (key_of ` set rs) (set (fm_pending_reapply m)) c' (fm_bgp m)"
    "\<forall>r\<in>set rs. \<exists>p. fs_core c' (key_of r) = Some (r, p)"
    unfolding fm_ok_def by auto
  from fm_inv_announces [of rs "set (fm_pending_reapply m)" "m\<lparr>fm_controller := c'\<rparr>" fj mn wn] rs
  show ?thesis by (simp add: fm_ok_def)
qed

lemma fm_ok_drop:
  assumes ok: "fm_ok m" and drops: "fs_drop_step (fm_controller m) acts c'"
  shows "fm_ok (fold (fm_execute ops fj mn wn) acts (m\<lparr>fm_controller := c'\<rparr>))"
proof -
  let ?core = "fs_core (fm_controller m)"
  from drops obtain ks where ks: "acts = map (\<lambda>k. FsWithdraw (fst (the (?core k)))) ks" "set ks \<subseteq> dom ?core"
    "fs_core c' = ?core |` (- set ks)"
    by (auto simp: fs_drop_step_def)
  define rs where "rs = map (\<lambda>k. fst (the (?core k))) ks"
  have acts: "acts = map FsWithdraw rs" by (simp add: rs_def ks(1))
  have inv: "fm_inv {} (set (fm_pending_reapply m)) c' (fm_bgp m)"
    using ok ks(3) by (auto simp: fm_ok_def fm_inv_def restrict_map_def split: if_splits)
  have "rule_wf r \<and> fs_core c' (key_of r) = None" if "r \<in> set rs" for r
  proof -
    from that ks(2) obtain k v where k: "k \<in> set ks" "?core k = Some v" "r = fst v" by (fastforce simp: rs_def)
    with ok fm_invD [of "{}" "set (fm_pending_reapply m)" "fm_controller m" "fm_bgp m" k v]
    have "rule_wf r" "key_of r = k" by (auto simp: fm_ok_def core_inv_def)
    with k(1) ks(3) show ?thesis by simp
  qed
  with fm_inv_withdraws [of "set (fm_pending_reapply m)" "m\<lparr>fm_controller := c'\<rparr>" rs fj mn wn] inv
  show ?thesis by (simp add: fm_ok_def acts)
qed

lemma fm_ok_cong:
  "fm_controller m' = fm_controller m \<Longrightarrow> fm_bgp m' = fm_bgp m \<Longrightarrow>
   fm_pending_reapply m' = fm_pending_reapply m \<Longrightarrow> fm_ok m' = fm_ok m"
  by (simp add: fm_ok_def)

lemma fm_ok_queue_mirror [simp]: "fm_ok (fm_queue_mirror oper m) = fm_ok m"
  by (rule fm_ok_cong) (simp_all add: fm_queue_mirror_def)

lemma fm_ok_put_one:
  assumes ok: "fm_ok m" and step: "fs_put_step contains rule (fm_controller m) acts c'" and wf: "rule_wf rule"
  obtains (same) "acts = []" "fm_ok (m\<lparr>fm_controller := c'\<rparr>)"
  | (put) p where "acts = [FsAnnounce rule]"
      "fm_inv {key_of rule} (set (fm_pending_reapply m)) c' (fm_bgp m)" "fs_core c' (key_of rule) = Some (rule, p)"
  using fm_inv_put [OF ok [unfolded fm_ok_def] step wf] that by (auto simp: fm_ok_def)

lemma fm_ok_apply_add:
  assumes ok: "fm_ok m" and wf: "rule_wf rule"
  shows "fm_ok (snd (fm_apply_add contains ops fj rule mn wn m))"
proof -
  obtain acts c' where res: "fs_manual_add contains (fm_controller m) rule mn = (acts, c')" by fastforce
  with manual_add_put [of contains rule "fm_controller m" mn]
  have step: "fs_put_step contains rule (fm_controller m) acts c'" by simp
  show ?thesis
  proof (cases rule: fm_ok_put_one [OF ok step wf, case_names same put])
    case same
    then have "fm_ok (m\<lparr>fm_controller := c', fm_journal := j\<rparr>)" for j
      using fm_ok_cong [of "m\<lparr>fm_controller := c', fm_journal := j\<rparr>" "m\<lparr>fm_controller := c'\<rparr>"] by simp
    then show ?thesis using same by (simp add: fm_apply_add_def res Let_def case_prod_beta)
  next
    case (put p)
    from fm_inv_announce [of "{key_of rule}" "set (fm_pending_reapply m)" "m\<lparr>fm_controller := c'\<rparr>" rule p fj Manual mn wn] put
    show ?thesis by (simp add: fm_apply_add_def res Let_def case_prod_beta fm_ok_def)
  qed
qed

lemma fm_ok_rehydrate:
  "fm_ok m \<Longrightarrow> \<forall>row\<in>set rows. rule_wf (fst row) \<Longrightarrow> fm_ok (fm_rehydrate contains ops rows mn m)"
proof (induction rows arbitrary: m)
  case (Cons row rows)
  obtain rule a orig where row: "row = (rule, a, orig)" by (cases row)
  obtain acts c' where res: "fs_resume contains (fm_controller m) rule mn orig = (acts, c')" by fastforce
  with resume_put [of contains rule "fm_controller m" mn orig]
  have step: "fs_put_step contains rule (fm_controller m) acts c'" by simp
  have wf: "rule_wf rule" using Cons.prems(2) row by simp
  show ?case
  proof (cases rule: fm_ok_put_one [OF Cons.prems(1) step wf, case_names same put])
    case same with Cons show ?thesis by (simp add: row res Let_def)
  next
    case (put p)
    obtain ok b' where ann: "bx_announce_flowspec ops rule (fm_bgp m) = (ok, b')" by fastforce
    let ?m = "if ok then m\<lparr>fm_controller := c', fm_bgp := b'\<rparr>
      else fm_queue_reapply (key_of rule) (m\<lparr>fm_controller := c', fm_bgp := b'\<rparr>)"
    have "fm_ok ?m" unfolding fm_ok_def
    proof (rule fm_invI)
      fix j w assume "fs_core (fm_controller ?m) j = Some w"
      then have j: "fs_core c' j = Some w" by (simp add: fm_queue_reapply_def split: if_splits)
      note inv = fm_invD [OF put(2) j]
      show "core_inv {} (set (fm_pending_reapply ?m)) (fm_bgp ?m) j w"
      proof (cases "j = key_of rule")
        case True
        with j put(3) inv announce_flowspec [OF ann] wf show ?thesis
          by (auto simp: core_inv_def conf_def fm_queue_reapply_def)
      next
        case False
        have "core_inv {} (set (fm_pending_reapply m)) b' j w"
          using core_inv_other [OF inv wf, of b' "Some rule" "{}"] announce_flowspec [OF ann] False by (cases ok) auto
        with False show ?thesis by (auto simp: core_inv_def fm_queue_reapply_def split: if_splits)
      qed
    qed
    with Cons put(1) show ?thesis by (simp add: row res Let_def ann)
  qed
qed simp

lemma fm_ok_disarm_loop: "fm_ok m \<Longrightarrow> fm_ok (fm_disarm_loop ops ks m)"
proof (induction ks arbitrary: m)
  case (Cons k ks)
  show ?case
  proof (cases "hm_get (fc_active (fm_controller m)) k")
    case None
    with Cons show ?thesis by (cases k) (simp add: fs_manual_remove_def key_placeholder_def key_of_def)
  next
    case (Some e)
    let ?c = "fm_controller m"
    let ?c' = "?c\<lparr>fc_active := hm_remove k (fc_active ?c)\<rparr>"
    have rem: "fs_manual_remove ?c (key_placeholder k) = ([FsWithdraw (fe_rule e)], ?c')"
      using Some by (cases k) (simp add: fs_manual_remove_def key_placeholder_def key_of_def)
    have core: "fs_core ?c k = Some (fe_rule e, fe_pending_prior e)" using Some by (simp add: fs_core_def)
    have wf: "rule_wf (fe_rule e)" "key_of (fe_rule e) = k"
      using fm_invD [OF Cons.prems [unfolded fm_ok_def] core] by (auto simp: core_inv_def)
    obtain ok b' where w: "bx_withdraw_flowspec ops (fe_rule e) (fm_bgp m) = (ok, b')" by fastforce
    have "fm_ok (m\<lparr>fm_controller := ?c', fm_bgp := b'\<rparr>)" unfolding fm_ok_def
    proof (rule fm_invI)
      fix j v assume "fs_core (fm_controller (m\<lparr>fm_controller := ?c', fm_bgp := b'\<rparr>)) j = Some v"
      then have j: "j \<noteq> k" "fs_core ?c j = Some v" by (auto simp: fs_core_def split: if_splits)
      with core_inv_other [OF fm_invD [OF Cons.prems [unfolded fm_ok_def] j(2)] wf(1), of b' None "{}"]
        wf(2) withdraw_flowspec [OF w]
      show "core_inv {} (set (fm_pending_reapply (m\<lparr>fm_controller := ?c', fm_bgp := b'\<rparr>)))
          (fm_bgp (m\<lparr>fm_controller := ?c', fm_bgp := b'\<rparr>)) j v" by (cases ok) auto
    qed
    with Cons.IH rem w show ?thesis by simp
  qed
qed simp

lemma fm_ok_exec:
  assumes ok: "fm_ok m" and op: "fm_op_ok oper"
  shows "fm_ok (fm_exec contains ops fj oper m)"
proof (cases oper)
  case (FmOpen t rules mn wn)
  let ?tuples = "map (\<lambda>r. (fr_proto r, fr_dst_port r, fr_rate r)) rules"
  from op FmOpen have "distinct (map key_of (map (flow_rule_for t) ?tuples))"
    by (intro distinct_install_keys) simp
  with fm_ok_puts [OF ok install_puts [of contains t ?tuples "fm_controller m" mn], of fj mn wn] FmOpen
  show ?thesis by (simp add: fm_apply_open_def Let_def case_prod_beta)
next
  case (FmClear t mn wn)
  from fm_ok_drop [OF ok clear_keys_drop] FmClear show ?thesis
    by (simp add: fm_apply_clear_def fs_clear_target_def case_prod_beta)
next
  case (FmUpdated t mn)
  with ok show ?thesis by (simp add: fm_apply_updated_def fm_ok_def fm_inv_def)
next
  case (FmTick mn wn)
  let ?m1 = "fm_retry_pending_mirror fj m"
  let ?m2 = "fm_retry_pending_reapply ops ?m1"
  have "fm_ok ?m1" using ok fm_ok_cong [of ?m1 m] by simp
  then have "fm_ok ?m2"
    using fm_inv_reapply_loop [of "?m1\<lparr>fm_pending_reapply := []\<rparr>" "fm_pending_reapply ?m1"]
    by (cases "fm_pending_reapply m = []") (simp_all add: fm_ok_def fm_retry_pending_reapply_def)
  from fm_ok_drop [OF this withdraw_keys_drop] FmTick show ?thesis
    by (simp add: fm_tick_def Let_def fs_tick_def case_prod_beta)
next
  case (FmAdd rule mn wn) with ok op fm_ok_apply_add show ?thesis by simp
next
  case (FmRemove rule mn wn)
  from fm_ok_drop [OF ok manual_remove_drop] FmRemove show ?thesis
    by (simp add: fm_apply_remove_def case_prod_beta)
next
  case (FmRehydrate rows mn) with ok op fm_ok_rehydrate show ?thesis by simp
next
  case (FmDisarm mn)
  have "fm_ok (m\<lparr>fm_disarmed := True\<rparr>)" using ok fm_ok_cong [of "m\<lparr>fm_disarmed := True\<rparr>" m] by simp
  from fm_ok_disarm_loop [OF this] ok FmDisarm show ?thesis by (simp add: fm_disarm_def)
qed

lemma fm_ok_run:
  "fm_ok m \<Longrightarrow> \<forall>oper\<in>set opers. fm_op_ok oper \<Longrightarrow> fm_ok (fm_run contains ops fj opers m)"
  unfolding fm_run_def by (induction opers arbitrary: m) (simp_all add: fm_ok_exec)

lemma fm_ok_start: "fm_ok (fm_start rlo cfg b j)"
  by (cases rlo) (simp_all add: fm_ok_def fm_inv_def fm_start_def fm_with_rate_limiter_def fm_new_def
    fs_core_def fs_new_def)

lemma fs_active_confirmed:
  assumes "\<forall>oper\<in>set opers. fm_op_ok oper" "m = fm_run contains ops fj opers (fm_start rlo cfg b j)"
    "hm_get (fc_active (fm_controller m)) k = Some e"
  shows "frib (fm_bgp m) (nlri (fe_rule e)) = Some (fe_rule e) \<or> k \<in> set (fm_pending_reapply m)"
proof -
  have "fm_ok m" unfolding assms(2) by (rule fm_ok_run [OF fm_ok_start assms(1)])
  moreover have "fs_core (fm_controller m) k = Some (fe_rule e, fe_pending_prior e)"
    using assms(3) by (simp add: fs_core_def)
  ultimately show ?thesis unfolding fm_ok_def by (auto dest!: fm_invD simp: core_inv_def conf_def)
qed

subsection \<open>Disarmed\<close>

definition fm_quiet :: "('a, 'j) flowspec_manager \<Rightarrow> bool" where
  "fm_quiet m \<longleftrightarrow> fm_disarmed m \<and> fc_active (fm_controller m) = []"

lemma core_empty: "fs_core c = Map.empty \<longleftrightarrow> fc_active c = []"
proof
  assume "fs_core c = Map.empty"
  then have "set (hm_keys (fc_active c)) = {}" by (simp add: fs_keys_core)
  then show "fc_active c = []" by (simp add: hm_keys_def)
qed (simp add: fs_core_def fun_eq_iff)

lemma fm_disarmed_announce:
  assumes "fm_disarmed m"
  shows "fm_bgp (snd (fm_execute_announce ops fj r orig mn wn m)) = fm_bgp m"
    "fm_controller (snd (fm_execute_announce ops fj r orig mn wn m)) = fs_rollback (fm_controller m) (key_of r)"
  using assms by (auto simp: fm_execute_announce_def fm_rollback_def)

lemma fm_disarmed_announces:
  assumes "fm_disarmed m" "\<forall>k v. fs_core (fm_controller m) k = Some v \<longrightarrow> k \<in> key_of ` set rs \<and> snd v = None"
  shows "fm_quiet (fold (fm_execute ops fj mn wn) (map FsAnnounce rs) m) \<and>
    fm_bgp (fold (fm_execute ops fj mn wn) (map FsAnnounce rs) m) = fm_bgp m"
  using assms
proof (induction rs arbitrary: m)
  case Nil
  then have "fs_core (fm_controller m) = Map.empty" by (auto simp: fun_eq_iff intro: option.exhaust)
  with Nil show ?case by (simp add: fm_quiet_def core_empty)
next
  case (Cons r rs)
  let ?m = "snd (fm_execute_announce ops fj r Auto mn wn m)"
  have core: "fs_core (fm_controller ?m) = (fs_core (fm_controller m))(key_of r := None)"
    using Cons.prems(1) Cons.prems(2) [rule_format, of "key_of r"]
    by (cases "fs_core (fm_controller m) (key_of r)")
      (auto simp: fm_disarmed_announce rollback_core core_rollback_def split: option.splits)
  have "\<forall>k v. fs_core (fm_controller ?m) k = Some v \<longrightarrow> k \<in> key_of ` set rs \<and> snd v = None"
    using Cons.prems(2) by (auto simp: core)
  from Cons.IH [OF _ this] Cons.prems(1) show ?case by (simp add: fm_disarmed_announce)
qed

lemma fs_puts_from_empty:
  assumes "fs_puts contains rules c acts c'" "distinct (map key_of rules)"
    "\<forall>r\<in>set rules. fs_core c (key_of r) = None" "\<forall>k v. fs_core c k = Some v \<longrightarrow> k \<in> K \<and> snd v = None"
  shows "\<exists>rs. acts = map FsAnnounce rs \<and>
    (\<forall>k v. fs_core c' k = Some v \<longrightarrow> k \<in> K \<union> key_of ` set rs \<and> snd v = None)"
  using assms
proof (induction arbitrary: K rule: fs_puts.induct)
  case (fs_puts_nil c) then show ?case by (intro exI [of _ "[]"]) auto
next
  case (fs_puts_cons rule c acts c' rules acts' c'')
  from fs_puts_cons.hyps(1) consider "acts = []" "fs_core c' = fs_core c"
    | "acts = [FsAnnounce rule]" "fs_core c' = core_put rule (fs_core c)"
    by (auto simp: fs_put_step_def)
  then show ?case
  proof cases
    case 1
    from fs_puts_cons.IH [of K] fs_puts_cons.prems 1 show ?thesis by auto
  next
    case 2
    have new: "key_of r \<noteq> key_of rule" if "r \<in> set rules" for r
      using fs_puts_cons.prems(1) that by (auto simp: image_iff)
    have "\<exists>rs. acts' = map FsAnnounce rs \<and>
      (\<forall>k v. fs_core c'' k = Some v \<longrightarrow> k \<in> insert (key_of rule) K \<union> key_of ` set rs \<and> snd v = None)"
    proof (rule fs_puts_cons.IH)
      show "\<forall>r\<in>set rules. fs_core c' (key_of r) = None"
        using fs_puts_cons.prems(2) 2 new by (simp add: core_put_def)
      show "\<forall>k v. fs_core c' k = Some v \<longrightarrow> k \<in> insert (key_of rule) K \<and> snd v = None"
        using fs_puts_cons.prems(2,3) 2 by (auto simp: core_put_def)
    qed (use fs_puts_cons.prems in auto)
    then obtain rs where "acts' = map FsAnnounce rs"
      "\<forall>k v. fs_core c'' k = Some v \<longrightarrow> k \<in> insert (key_of rule) K \<union> key_of ` set rs \<and> snd v = None" by auto
    with 2 show ?thesis by (intro exI [of _ "rule # rs"]) auto
  qed
qed

lemma fm_quiet_puts:
  assumes q: "fm_quiet m" and puts: "fs_puts contains rules (fm_controller m) acts c'" "distinct (map key_of rules)"
  shows "fm_quiet (fold (fm_execute ops fj mn wn) acts (m\<lparr>fm_controller := c'\<rparr>)) \<and>
    fm_bgp (fold (fm_execute ops fj mn wn) acts (m\<lparr>fm_controller := c'\<rparr>)) = fm_bgp m"
proof -
  have "fs_core (fm_controller m) = Map.empty" using q by (simp add: fm_quiet_def core_empty)
  with fs_puts_from_empty [OF puts, of "{}"] obtain rs where "acts = map FsAnnounce rs"
    "\<forall>k v. fs_core c' k = Some v \<longrightarrow> k \<in> key_of ` set rs \<and> snd v = None" by auto
  with fm_disarmed_announces [of "m\<lparr>fm_controller := c'\<rparr>" rs fj mn wn] q show ?thesis by (simp add: fm_quiet_def)
qed

lemma fm_quiet_drop:
  assumes "fm_quiet m" "fs_drop_step (fm_controller m) acts c'"
  shows "acts = [] \<and> fm_quiet (m\<lparr>fm_controller := c'\<rparr>)"
proof -
  have "fs_core (fm_controller m) = Map.empty" using assms(1) by (simp add: fm_quiet_def core_empty)
  with assms(2) have "acts = []" "fs_core c' = Map.empty" by (auto simp: fs_drop_step_def restrict_map_def)
  with assms(1) show ?thesis by (simp add: fm_quiet_def core_empty)
qed

lemma fm_quiet_reapply_loop:
  assumes "fc_active (fm_controller m) = []"
  shows "fm_bgp (fm_reapply_loop ops opers m) = fm_bgp m"
  using assms by (induction opers) (simp_all add: fs_active_rule_def hm_get_def)

lemma fm_quiet_exec:
  assumes q: "fm_quiet m" and op: "fm_op_ok oper" "\<forall>rows mn. oper \<noteq> FmRehydrate rows mn"
  shows "fm_quiet (fm_exec contains ops fj oper m) \<and> fm_bgp (fm_exec contains ops fj oper m) = fm_bgp m"
proof (cases oper)
  case (FmOpen t rules mn wn)
  let ?tuples = "map (\<lambda>r. (fr_proto r, fr_dst_port r, fr_rate r)) rules"
  from op FmOpen have "distinct (map key_of (map (flow_rule_for t) ?tuples))"
    by (intro distinct_install_keys) simp
  from fm_quiet_puts [OF q install_puts [of contains t ?tuples "fm_controller m" mn] this, of fj mn wn] FmOpen
  show ?thesis by (simp add: fm_apply_open_def Let_def case_prod_beta)
next
  case (FmClear t mn wn)
  with fm_quiet_drop [OF q clear_keys_drop [of "fm_controller m"]] show ?thesis
    by (simp add: fm_apply_clear_def fs_clear_target_def case_prod_beta)
next
  case (FmUpdated t mn)
  with q show ?thesis by (simp add: fm_apply_updated_def fm_quiet_def fs_refresh_target_def)
next
  case (FmTick mn wn)
  let ?m2 = "fm_retry_pending_reapply ops (fm_retry_pending_mirror fj m)"
  have "fm_quiet ?m2" "fm_bgp ?m2 = fm_bgp m"
    using q by (simp_all add: fm_quiet_def fm_retry_pending_reapply_def fm_quiet_reapply_loop)
  with fm_quiet_drop [OF this(1) withdraw_keys_drop] FmTick show ?thesis
    by (simp add: fm_tick_def Let_def fs_tick_def case_prod_beta)
next
  case (FmAdd rule mn wn)
  have emp: "fc_active (fm_controller m) = []" and dis: "fm_disarmed m" using q by (simp_all add: fm_quiet_def)
  obtain acts c' where res: "fs_manual_add contains (fm_controller m) rule mn = (acts, c')" by fastforce
  with manual_add_put [of contains rule "fm_controller m" mn]
  have "fs_put_step contains rule (fm_controller m) acts c'" by simp
  with emp consider "acts = []" "fc_active c' = []"
    | "acts = [FsAnnounce rule]" "fs_core c' = [key_of rule \<mapsto> (rule, None)]"
    by (auto simp: fs_put_step_def core_put_def core_empty [symmetric])
  then show ?thesis
  proof cases
    case 1 then show ?thesis using dis
      by (auto simp: FmAdd fm_apply_add_def res Let_def case_prod_beta fm_quiet_def fm_is_active_def fs_active_rules_def)
  next
    case 2
    let ?m = "snd (fm_execute_announce ops fj rule Manual mn wn (m\<lparr>fm_controller := c'\<rparr>))"
    have "fs_core (fm_controller ?m) = Map.empty"
      using 2 dis by (simp add: fm_disarmed_announce rollback_core core_rollback_def)
    with 2 dis show ?thesis
      by (simp add: FmAdd fm_apply_add_def res Let_def case_prod_beta fm_quiet_def fm_disarmed_announce core_empty)
  qed
next
  case (FmRemove rule mn wn)
  with fm_quiet_drop [OF q manual_remove_drop [of "fm_controller m"]] show ?thesis
    by (simp add: fm_apply_remove_def case_prod_beta)
next
  case (FmRehydrate rows mn) with op show ?thesis by simp
next
  case (FmDisarm mn) with q show ?thesis by (simp add: fm_disarm_def fm_quiet_def)
qed

lemma fm_quiet_run:
  assumes "fm_quiet m" "\<forall>oper\<in>set opers. fm_op_ok oper" "\<forall>rows mn. FmRehydrate rows mn \<notin> set opers"
  shows "fm_quiet (fm_run contains ops fj opers m) \<and> fm_bgp (fm_run contains ops fj opers m) = fm_bgp m"
  using assms unfolding fm_run_def
proof (induction opers arbitrary: m)
  case (Cons oper opers)
  have "fm_quiet (fm_exec contains ops fj oper m) \<and> fm_bgp (fm_exec contains ops fj oper m) = fm_bgp m"
    using Cons.prems by (intro fm_quiet_exec) auto
  with Cons show ?case by simp
qed simp

lemma fm_disarm_loop_effect:
  "fc_active (fm_controller (fm_disarm_loop ops ks m)) = fold hm_remove ks (fc_active (fm_controller m)) \<and>
   frib (fm_bgp (fm_disarm_loop ops ks m)) \<subseteq>\<^sub>m frib (fm_bgp m) \<and>
   fm_disarmed (fm_disarm_loop ops ks m) = fm_disarmed m"
proof (induction ks arbitrary: m)
  case (Cons k ks)
  let ?c = "fm_controller m"
  have key: "key_of (key_placeholder k) = k" by (cases k) (simp add: key_of_def key_placeholder_def)
  show ?case
  proof (cases "hm_get (fc_active ?c) k")
    case None
    then have "hm_remove k (fc_active ?c) = fc_active ?c"
      by (auto simp: hm_remove_def hm_get_def map_of_eq_None_iff filter_id_conv)
    with Cons [of m] None key show ?thesis by (simp add: fs_manual_remove_def)
  next
    case (Some e)
    obtain ok b' where w: "bx_withdraw_flowspec ops (fe_rule e) (fm_bgp m) = (ok, b')" by fastforce
    have "frib b' \<subseteq>\<^sub>m frib (fm_bgp m)" using withdraw_flowspec [OF w] by (auto simp: map_le_def)
    with Cons [of "m\<lparr>fm_controller := ?c\<lparr>fc_active := hm_remove k (fc_active ?c)\<rparr>, fm_bgp := b'\<rparr>"] w Some key
    show ?thesis using map_le_trans by (fastforce simp: fs_manual_remove_def)
  qed
qed simp

lemma fm_disarm_effect:
  assumes "\<not> fm_disarmed m"
  shows "fm_quiet (fm_disarm ops mn m) \<and> frib (fm_bgp (fm_disarm ops mn m)) \<subseteq>\<^sub>m frib (fm_bgp m)"
proof -
  let ?ks = "map fst (fs_active_rules (fm_controller m))"
  have "fold hm_remove ?ks (fc_active (fm_controller m)) = []"
    by (force simp: hm_remove_fold filter_empty_conv fs_active_rules_def)
  with fm_disarm_loop_effect [of ?ks "m\<lparr>fm_disarmed := True\<rparr>"] assms show ?thesis
    by (simp add: fm_disarm_def fm_quiet_def)
qed

lemma fm_disarm_loop_clears:
  assumes up: "\<And>f b. up b \<Longrightarrow> fst (bx_withdraw_flowspec ops f b) \<and> up (snd (bx_withdraw_flowspec ops f b))"
    and "up (fm_bgp m)" "k \<in> set ks" "hm_get (fc_active (fm_controller m)) k = Some e"
  shows "frib (fm_bgp (fm_disarm_loop ops ks m)) (nlri (fe_rule e)) = None"
  using assms(2-)
proof (induction ks arbitrary: m)
  case (Cons u us)
  let ?c = "fm_controller m"
  have key: "key_of (key_placeholder u) = u" by (cases u) (simp add: key_of_def key_placeholder_def)
  show ?case
  proof (cases "hm_get (fc_active ?c) u")
    case None
    with Cons key show ?thesis by (auto simp: fs_manual_remove_def)
  next
    case (Some d)
    obtain b' where w: "bx_withdraw_flowspec ops (fe_rule d) (fm_bgp m) = (True, b')" and b': "up b'"
      using up [OF Cons.prems(1), of "fe_rule d"]
      by (cases "bx_withdraw_flowspec ops (fe_rule d) (fm_bgp m)") auto
    let ?m = "m\<lparr>fm_controller := ?c\<lparr>fc_active := hm_remove u (fc_active ?c)\<rparr>, fm_bgp := b'\<rparr>"
    have step: "fm_disarm_loop ops (u # us) m = fm_disarm_loop ops us ?m"
      using Some key by (simp add: fs_manual_remove_def w)
    show ?thesis
    proof (cases "k = u")
      case True
      with Some Cons.prems have "frib b' (nlri (fe_rule e)) = None" using withdraw_flowspec [OF w] by simp
      moreover have "dom (frib (fm_bgp (fm_disarm_loop ops us ?m))) \<subseteq> dom (frib b')"
        using fm_disarm_loop_effect [of us ?m] map_le_implies_dom_le by fastforce
      ultimately show ?thesis unfolding step by blast
    next
      case False
      with Cons.prems b' have "frib (fm_bgp (fm_disarm_loop ops us ?m)) (nlri (fe_rule e)) = None"
        by (intro Cons.IH) auto
      with step show ?thesis by simp
    qed
  qed
qed simp

lemma fm_disarm_clears:
  assumes up: "\<And>f b. up b \<Longrightarrow> fst (bx_withdraw_flowspec ops f b) \<and> up (snd (bx_withdraw_flowspec ops f b))"
    and "up (fm_bgp m)" "\<not> fm_disarmed m" "hm_get (fc_active (fm_controller m)) k = Some e"
  shows "frib (fm_bgp (fm_disarm ops mn m)) (nlri (fe_rule e)) = None"
proof -
  have "(k, e) \<in> set (fc_active (fm_controller m))"
    using assms(4) by (simp add: hm_get_def map_of_SomeD)
  then have "k \<in> set (map fst (fs_active_rules (fm_controller m)))"
    by (force simp: fs_active_rules_def)
  with fm_disarm_loop_clears [of up "m\<lparr>fm_disarmed := True\<rparr>" k _ e, OF up] assms(2-) show ?thesis
    by (simp add: fm_disarm_def)
qed

end

end
