(* ===== verification/Manager_Tasks.thy ===== *)
theory Manager_Tasks
  imports Flowspec_Manager Selection
begin

text \<open>
  The tasks of \<^verbatim>\<open>bin/blackwalld/src/main.rs\<close> that own the RTBH and FlowSpec managers, and the request
  tables of \<^verbatim>\<open>blackwall-state/src/lib.rs\<close> they drain: an operator's intent is a row, read while it
  is pending, applied to the manager, and answered in the row. The two planes have the same code up
  to the key of a request; the shared part takes the manager's \<open>apply_add\<close> and \<open>apply_remove\<close> as
  arguments. As in the journal, whether a statement reaches the database is a schedule in the state.
\<close>

section \<open>The request tables\<close>

datatype request_action = ReqAdd | ReqRemove | ReqOther string

datatype request_status = StPending | StApplied | StRejected

datatype request_note = SupersededByRemove | Reason reject_reason

record ('k, 'p) request_row =
  rq_id :: nat
  rq_key :: 'k
  rq_payload :: 'p
  rq_action :: request_action
  rq_status :: request_status
  rq_note :: "request_note option"

record ('k, 'p) request_store =
  rs_rows :: "('k, 'p) request_row list"
  rs_outcomes :: "bool list"

definition rs_query ::
  "(('k, 'p) request_row list \<Rightarrow> ('k, 'p) request_row list) \<Rightarrow> ('k, 'p) request_store \<Rightarrow> bool \<times> ('k, 'p) request_store"
where
  "rs_query stmt st = (case rs_outcomes st of
     [] \<Rightarrow> (True, st\<lparr>rs_rows := stmt (rs_rows st)\<rparr>)
   | True # os \<Rightarrow> (True, st\<lparr>rs_rows := stmt (rs_rows st), rs_outcomes := os\<rparr>)
   | False # os \<Rightarrow> (False, st\<lparr>rs_outcomes := os\<rparr>))"

definition pending_rows :: "('k, 'p) request_row list \<Rightarrow> ('k, 'p) request_row list" where
  "pending_rows rows = sort_key rq_id (filter (\<lambda>r. rq_status r = StPending) rows)"

definition pending_requests ::
  "('k, 'p) request_store \<Rightarrow> ('k, 'p) request_row list option \<times> ('k, 'p) request_store"
where
  "pending_requests st = (case rs_query id st of (ok, st') \<Rightarrow>
     (if ok then Some (pending_rows (rs_rows st)) else None, st'))"

definition supersede_row :: "'k \<Rightarrow> nat \<Rightarrow> ('k, 'p) request_row \<Rightarrow> ('k, 'p) request_row" where
  "supersede_row key before_id r =
     (if rq_action r = ReqAdd \<and> rq_key r = key \<and> rq_status r = StPending \<and> rq_id r < before_id
      then r\<lparr>rq_status := StApplied, rq_note := Some SupersededByRemove\<rparr> else r)"

definition supersede_pending_adds ::
  "'k \<Rightarrow> nat \<Rightarrow> ('k, 'p) request_store \<Rightarrow> bool \<times> ('k, 'p) request_store"
where
  "supersede_pending_adds key before_id = rs_query (map (supersede_row key before_id))"

definition set_row_status ::
  "nat \<Rightarrow> request_status \<Rightarrow> request_note option \<Rightarrow> ('k, 'p) request_row \<Rightarrow> ('k, 'p) request_row"
where
  "set_row_status i status note r = (if rq_id r = i then r\<lparr>rq_status := status, rq_note := note\<rparr> else r)"

definition set_request_status ::
  "nat \<Rightarrow> request_status \<Rightarrow> request_note option \<Rightarrow> ('k, 'p) request_store \<Rightarrow> bool \<times> ('k, 'p) request_store"
where
  "set_request_status i status note = rs_query (map (set_row_status i status note))"

text \<open>Append a row; the database picks a fresh identifier.\<close>

definition enqueue_request ::
  "nat \<Rightarrow> 'k \<Rightarrow> 'p \<Rightarrow> request_action \<Rightarrow> ('k, 'p) request_store \<Rightarrow> bool \<times> ('k, 'p) request_store"
where
  "enqueue_request fresh key payload action = rs_query (\<lambda>rows. rows @
     [\<lparr>rq_id = fresh, rq_key = key, rq_payload = payload, rq_action = action, rq_status = StPending, rq_note = None\<rparr>])"

section \<open>Applying requests\<close>

type_synonym clock = "nat \<times> nat"

definition apply_plane_request ::
  "(clock \<Rightarrow> 'k \<Rightarrow> 'p \<Rightarrow> 'm \<Rightarrow> apply_outcome \<times> 'm) \<Rightarrow> (clock \<Rightarrow> 'k \<Rightarrow> 'p \<Rightarrow> 'm \<Rightarrow> 'm) \<Rightarrow> clock \<Rightarrow>
   ('k, 'p) request_row \<Rightarrow> 'm \<times> ('k, 'p) request_store \<Rightarrow> 'm \<times> ('k, 'p) request_store"
where
  "apply_plane_request add remove now req s =
     (case s of (m, st) \<Rightarrow>
      case rq_action req of
        ReqAdd \<Rightarrow>
          (case add now (rq_key req) (rq_payload req) m of (oc, m') \<Rightarrow>
             (m', case oc of
                Applied \<Rightarrow> snd (set_request_status (rq_id req) StApplied None st)
              | Deferred \<Rightarrow> st
              | Rejected reason \<Rightarrow> snd (set_request_status (rq_id req) StRejected (Some (Reason reason)) st)))
      | ReqRemove \<Rightarrow>
          (remove now (rq_key req) (rq_payload req) m,
           snd (set_request_status (rq_id req) StApplied None
             (snd (supersede_pending_adds (rq_key req) (rq_id req) st))))
      | ReqOther a \<Rightarrow> (m, st))"

text \<open>Each request reads the clock when its turn comes.\<close>

definition drain_requests ::
  "(clock \<Rightarrow> ('k, 'p) request_row \<Rightarrow> 'm \<times> ('k, 'p) request_store \<Rightarrow> 'm \<times> ('k, 'p) request_store) \<Rightarrow>
   (nat \<Rightarrow> clock) \<Rightarrow> 'm \<times> ('k, 'p) request_store \<Rightarrow> 'm \<times> ('k, 'p) request_store"
where
  "drain_requests apply_one clk s =
     (case pending_requests (snd s) of
        (None, st) \<Rightarrow> (fst s, st)
      | (Some reqs, st) \<Rightarrow> fold (\<lambda>(i, req). apply_one (clk i) req) (enumerate 0 reqs) (fst s, st))"

definition apply_request ::
  "contains \<Rightarrow> 'b bgp_executor_ops \<Rightarrow> 'j blackhole_journal_ops \<Rightarrow> clock \<Rightarrow> (ip_addr, unit) request_row \<Rightarrow>
   ('b, 'j) rtbh_manager \<times> (ip_addr, unit) request_store \<Rightarrow> ('b, 'j) rtbh_manager \<times> (ip_addr, unit) request_store"
where
  "apply_request contains bx bj = apply_plane_request
     (\<lambda>(mn, wn) t _. rm_apply_add contains bx bj t mn wn) (\<lambda>(mn, wn) t _. rm_apply_remove bx bj t mn wn)"

text \<open>A FlowSpec request names its flow by address, protocol and port, and carries the rate.\<close>

type_synonym flow_id = "ip_addr \<times> u8 \<times> u16"

definition request_rule :: "flow_id \<Rightarrow> f32 \<Rightarrow> flowspec_rule" where
  "request_rule key rate = (case key of (dst, proto, dst_port) \<Rightarrow>
     \<lparr>fl_dst = host_prefix dst, fl_protocol = Some proto, fl_dst_port = Some dst_port, fl_action = TrafficRate rate\<rparr>)"

definition apply_flowspec_request ::
  "contains \<Rightarrow> 'b bgp_executor_ops \<Rightarrow> 'j flowspec_journal_ops \<Rightarrow> clock \<Rightarrow> (flow_id, f32) request_row \<Rightarrow>
   ('b, 'j) flowspec_manager \<times> (flow_id, f32) request_store \<Rightarrow> ('b, 'j) flowspec_manager \<times> (flow_id, f32) request_store"
where
  "apply_flowspec_request contains bx fj = apply_plane_request
     (\<lambda>(mn, wn) key rate. fm_apply_add contains bx fj (request_rule key rate) mn wn)
     (\<lambda>(mn, wn) key rate. fm_apply_remove bx fj (request_rule key rate) mn wn)"

section \<open>The tasks\<close>

text \<open>What the \<open>select!\<close> of a manager task returned.\<close>

datatype 'e task_event =
    TaskRecv 'e nat nat
  | TaskClosed
  | TaskDisarm nat
  | TaskDisarmClosed
  | TaskTick nat nat "nat \<Rightarrow> clock"

record ('m, 'k, 'p) task =
  tk_manager :: 'm
  tk_requests :: "('k, 'p) request_store"
  tk_disarm_open :: bool
  tk_exited :: bool

definition rtbh_drain ::
  "contains \<Rightarrow> 'b bgp_executor_ops \<Rightarrow> 'j blackhole_journal_ops \<Rightarrow> (nat \<Rightarrow> clock) \<Rightarrow>
   ('b, 'j) rtbh_manager \<times> (ip_addr, unit) request_store \<Rightarrow> ('b, 'j) rtbh_manager \<times> (ip_addr, unit) request_store"
where
  "rtbh_drain contains bx bj = drain_requests (apply_request contains bx bj)"

fun rtbh_task_step ::
  "contains \<Rightarrow> 'b bgp_executor_ops \<Rightarrow> 'j blackhole_journal_ops \<Rightarrow> detection_event task_event \<Rightarrow>
   (('b, 'j) rtbh_manager, ip_addr, unit) task \<Rightarrow> (('b, 'j) rtbh_manager, ip_addr, unit) task"
where
  "rtbh_task_step contains bx bj (TaskRecv ev mn wn) k =
     k\<lparr>tk_manager := rm_apply_event contains bx bj ev mn wn (tk_manager k)\<rparr>"
| "rtbh_task_step contains bx bj TaskClosed k = k\<lparr>tk_exited := True\<rparr>"
| "rtbh_task_step contains bx bj (TaskDisarm mn) k =
     (if tk_disarm_open k then k\<lparr>tk_manager := rm_disarm bx mn (tk_manager k)\<rparr> else k)"
| "rtbh_task_step contains bx bj TaskDisarmClosed k = k\<lparr>tk_disarm_open := False\<rparr>"
| "rtbh_task_step contains bx bj (TaskTick mn wn clk) k =
     (case rtbh_drain contains bx bj clk (rm_tick bx bj mn wn (tk_manager k), tk_requests k) of
        (m, st) \<Rightarrow> k\<lparr>tk_manager := m, tk_requests := st\<rparr>)"

definition flowspec_drain ::
  "contains \<Rightarrow> 'b bgp_executor_ops \<Rightarrow> 'j flowspec_journal_ops \<Rightarrow> (nat \<Rightarrow> clock) \<Rightarrow>
   ('b, 'j) flowspec_manager \<times> (flow_id, f32) request_store \<Rightarrow> ('b, 'j) flowspec_manager \<times> (flow_id, f32) request_store"
where
  "flowspec_drain contains bx fj = drain_requests (apply_flowspec_request contains bx fj)"

fun flowspec_recv ::
  "contains \<Rightarrow> 'b bgp_executor_ops \<Rightarrow> 'j flowspec_journal_ops \<Rightarrow> flow_mitigation_event \<Rightarrow> nat \<Rightarrow> nat \<Rightarrow>
   ('b, 'j) flowspec_manager \<Rightarrow> ('b, 'j) flowspec_manager"
where
  "flowspec_recv contains bx fj (MitOpen target rules) mn wn m = fm_apply_open contains bx fj target rules mn wn m"
| "flowspec_recv contains bx fj (MitUpdate target) mn wn m = fm_apply_updated target mn m"
| "flowspec_recv contains bx fj (MitClear target) mn wn m = fm_apply_clear bx fj target mn wn m"

fun flowspec_task_step ::
  "contains \<Rightarrow> 'b bgp_executor_ops \<Rightarrow> 'j flowspec_journal_ops \<Rightarrow> flow_mitigation_event task_event \<Rightarrow>
   (('b, 'j) flowspec_manager, flow_id, f32) task \<Rightarrow> (('b, 'j) flowspec_manager, flow_id, f32) task"
where
  "flowspec_task_step contains bx fj (TaskRecv ev mn wn) k =
     k\<lparr>tk_manager := flowspec_recv contains bx fj ev mn wn (tk_manager k)\<rparr>"
| "flowspec_task_step contains bx fj TaskClosed k = k\<lparr>tk_exited := True\<rparr>"
| "flowspec_task_step contains bx fj (TaskDisarm mn) k =
     (if tk_disarm_open k then k\<lparr>tk_manager := fm_disarm bx mn (tk_manager k)\<rparr> else k)"
| "flowspec_task_step contains bx fj TaskDisarmClosed k = k\<lparr>tk_disarm_open := False\<rparr>"
| "flowspec_task_step contains bx fj (TaskTick mn wn clk) k =
     (case flowspec_drain contains bx fj clk (fm_tick bx fj mn wn (tk_manager k), tk_requests k) of
        (m, st) \<Rightarrow> k\<lparr>tk_manager := m, tk_requests := st\<rparr>)"

text \<open>A task runs until its event channel is closed.\<close>

fun task_run :: "('e task_event \<Rightarrow> ('m, 'k, 'p) task \<Rightarrow> ('m, 'k, 'p) task) \<Rightarrow> 'e task_event list \<Rightarrow> ('m, 'k, 'p) task \<Rightarrow> ('m, 'k, 'p) task" where
  "task_run step [] k = k"
| "task_run step (ev # evs) k = (if tk_exited k then k else task_run step evs (step ev k))"

section \<open>A task performs a run of its manager\<close>

lemma drain_manager_run:
  assumes "\<And>now key payload m. \<exists>opers. snd (add now key payload m) = fold exec opers m"
    and "\<And>now key payload m. \<exists>opers. remove now key payload m = fold exec opers m"
  shows "\<exists>opers. fst (drain_requests (apply_plane_request add remove) clk s) = fold exec opers (fst s)"
proof -
  have one: "\<exists>opers. fst (apply_plane_request add remove now req s) = fold exec opers (fst s)" for now req s
  proof (cases "rq_action req")
    case ReqAdd
    then show ?thesis using assms(1) [of now "rq_key req" "rq_payload req" "fst s"]
      by (cases s) (auto simp: apply_plane_request_def split: prod.splits)
  next
    case ReqRemove
    then show ?thesis using assms(2) [of now "rq_key req" "rq_payload req" "fst s"]
      by (cases s) (auto simp: apply_plane_request_def)
  next
    case (ReqOther a)
    then show ?thesis by (cases s) (auto simp: apply_plane_request_def intro: exI [of _ "[]"])
  qed
  have "\<exists>opers. fst (fold (\<lambda>(i, req). apply_plane_request add remove (clk i) req) xs s) = fold exec opers (fst s)" for xs s
  proof (induction xs arbitrary: s)
    case (Cons x xs)
    obtain i req where x: "x = (i, req)" by (cases x)
    obtain o1 where o1: "fst (apply_plane_request add remove (clk i) req s) = fold exec o1 (fst s)" using one by blast
    obtain o2 where "fst (fold (\<lambda>(i, req). apply_plane_request add remove (clk i) req) xs (apply_plane_request add remove (clk i) req s)) =
        fold exec o2 (fst (apply_plane_request add remove (clk i) req s))" using Cons.IH by blast
    with o1 x show ?case by (intro exI [of _ "o1 @ o2"]) simp
  qed (auto intro: exI [of _ "[]"])
  then show ?thesis
    by (auto simp: drain_requests_def split: prod.splits option.splits intro: exI [of _ "[]"])
qed

section \<open>The contract of a request plane\<close>

lemma filter_last:
  "filter P xs = es @ [x] \<Longrightarrow> \<exists>pre post. xs = pre @ x # post \<and> P x \<and> (\<forall>y\<in>set post. \<not> P y)"
proof (induction xs rule: rev_induct)
  case (snoc y xs)
  show ?case
  proof (cases "P y")
    case True
    with snoc.prems show ?thesis by (intro exI [of _ xs] exI [of _ "[]"]) simp
  next
    case False
    with snoc obtain pre post where "xs = pre @ x # post" "P x" "\<forall>y\<in>set post. \<not> P y" by auto
    with False show ?thesis by (intro exI [of _ pre] exI [of _ "post @ [y]"]) auto
  qed
qed simp

text \<open>What a change of the rows keeps: the identity of each row, and that it was answered.\<close>

definition row_step :: "(('k, 'p) request_row \<Rightarrow> ('k, 'p) request_row) \<Rightarrow> bool" where
  "row_step F \<longleftrightarrow> (\<forall>r. rq_id (F r) = rq_id r \<and> rq_key (F r) = rq_key r \<and> rq_action (F r) = rq_action r \<and>
     (rq_status r \<noteq> StPending \<longrightarrow> rq_status (F r) \<noteq> StPending))"

definition may_touch :: "('k, 'p) request_row \<Rightarrow> ('k, 'p) request_row \<Rightarrow> bool" where
  "may_touch req r \<longleftrightarrow> rq_id r = rq_id req \<or> rq_action req = ReqRemove \<and> rq_key r = rq_key req \<and> rq_id r < rq_id req"

definition answered_by :: "('k, 'p) request_row \<Rightarrow> ('k, 'p) request_row \<Rightarrow> bool" where
  "answered_by req r \<longleftrightarrow> rq_action req = ReqRemove \<and>
     (rq_id r = rq_id req \<or> rq_action r = ReqAdd \<and> rq_key r = rq_key req \<and> rq_id r < rq_id req)"

text \<open>
  What a request does to the set of active mitigations: a remove deactivates its key, an applied add
  leaves its key active, and neither touches another key.
\<close>

locale request_plane =
  fixes add :: "clock \<Rightarrow> 'k \<Rightarrow> 'p \<Rightarrow> 'm \<Rightarrow> apply_outcome \<times> 'm"
    and remove :: "clock \<Rightarrow> 'k \<Rightarrow> 'p \<Rightarrow> 'm \<Rightarrow> 'm"
    and active :: "'m \<Rightarrow> 'k \<Rightarrow> bool"
  assumes remove_own: "\<not> active (remove now k p m) k"
    and remove_other: "j \<noteq> k \<Longrightarrow> active (remove now k p m) j = active m j"
    and add_own: "fst (add now k p m) = Applied \<Longrightarrow> active (snd (add now k p m)) k"
    and add_other: "j \<noteq> k \<Longrightarrow> active (snd (add now k p m)) j = active m j"
begin

text \<open>
  The effect of a list of requests on a reliable table and on the active keys: rows change through a
  function \<open>F\<close>, only rows the requests may touch change, and the rows they answer are not pending.
\<close>

definition drain_effect ::
  "('k, 'p) request_row list \<Rightarrow> ('k, 'p) request_store \<Rightarrow> 'm \<Rightarrow> (('k, 'p) request_row \<Rightarrow> ('k, 'p) request_row) \<Rightarrow>
   'm \<Rightarrow> ('k, 'p) request_store \<Rightarrow> bool"
where
  "drain_effect reqs st m F m' st' \<longleftrightarrow> rs_outcomes st' = [] \<and> rs_rows st' = map F (rs_rows st) \<and> row_step F \<and>
     (\<forall>r. (\<forall>req\<in>set reqs. \<not> may_touch req r) \<longrightarrow> F r = r) \<and>
     (\<forall>r. (\<exists>req\<in>set reqs. answered_by req r) \<and> rq_status r = StPending \<longrightarrow> rq_status (F r) \<noteq> StPending) \<and>
     (\<forall>k. (\<forall>req\<in>set reqs. rq_key req \<noteq> k) \<longrightarrow> active m' k = active m k)"

lemma apply_one:
  assumes "rs_outcomes st = []" "apply_plane_request add remove now req (m, st) = (m', st')"
  obtains F where "drain_effect [req] st m F m' st'"
    "rq_action req = ReqRemove \<longrightarrow> \<not> active m' (rq_key req)"
    "rq_action req = ReqAdd \<longrightarrow> (\<forall>r. rq_id r = rq_id req \<and> rq_status (F r) = StApplied \<and>
       rq_status r \<noteq> StApplied \<longrightarrow> active m' (rq_key req))"
proof (cases "rq_action req")
  case ReqAdd
  obtain oc m1 where a: "add now (rq_key req) (rq_payload req) m = (oc, m1)" by fastforce
  note laws = add_own [of now "rq_key req" "rq_payload req" m] add_other [of _ "rq_key req" now "rq_payload req" m]
  define F :: "('k, 'p) request_row \<Rightarrow> ('k, 'p) request_row" where
    "F = (case oc of Applied \<Rightarrow> set_row_status (rq_id req) StApplied None | Deferred \<Rightarrow> (\<lambda>r. r)
      | Rejected reason \<Rightarrow> set_row_status (rq_id req) StRejected (Some (Reason reason)))"
  show ?thesis
    by (rule that [of F])
      (use assms ReqAdd a laws in \<open>auto simp: drain_effect_def F_def apply_plane_request_def set_request_status_def rs_query_def
        row_step_def may_touch_def answered_by_def set_row_status_def split: apply_outcome.splits\<close>)
next
  case ReqRemove
  note laws = remove_own [of now "rq_key req" "rq_payload req" m] remove_other [of _ "rq_key req" now "rq_payload req" m]
  show ?thesis
    by (rule that [of "set_row_status (rq_id req) StApplied None \<circ> supersede_row (rq_key req) (rq_id req)"])
      (use assms ReqRemove laws in \<open>auto simp: drain_effect_def apply_plane_request_def set_request_status_def
        supersede_pending_adds_def rs_query_def row_step_def may_touch_def answered_by_def set_row_status_def supersede_row_def\<close>)
next
  case (ReqOther a)
  show ?thesis
    by (rule that [of "\<lambda>r. r"])
      (use assms ReqOther in \<open>auto simp: drain_effect_def apply_plane_request_def row_step_def answered_by_def\<close>)
qed

lemma drain_effect_trans:
  assumes F: "drain_effect xs st m F m1 st1" and G: "drain_effect ys st1 m1 G m' st'"
  shows "drain_effect (xs @ ys) st m (G \<circ> F) m' st'"
proof -
  have f: "row_step F" "row_step G" using F G by (simp_all add: drain_effect_def)
  have same: "answered_by q (F r) = answered_by q r" for q r using f(1) by (simp add: row_step_def answered_by_def)
  have "rq_status (G (F r)) \<noteq> StPending"
    if "\<exists>req\<in>set (xs @ ys). answered_by req r" "rq_status r = StPending" for r
  proof (cases "rq_status (F r) = StPending")
    case True
    with F that have "\<exists>req\<in>set ys. answered_by req (F r)" unfolding drain_effect_def same by auto
    with G True show ?thesis by (simp add: drain_effect_def)
  next
    case False
    with f(2) show ?thesis by (simp add: row_step_def)
  qed
  with F G f show ?thesis by (auto simp: drain_effect_def row_step_def)
qed

lemma apply_many:
  assumes "rs_outcomes st = []" "fold (\<lambda>(i, req). apply_plane_request add remove (clk i) req) xs (m, st) = (m', st')"
  obtains F where "drain_effect (map snd xs) st m F m' st'"
  using assms
proof (induction xs arbitrary: m st thesis)
  case Nil
  show ?case by (rule Nil(1) [of "\<lambda>r. r"]) (use Nil(2,3) in \<open>auto simp: drain_effect_def row_step_def\<close>)
next
  case (Cons x xs)
  obtain i req where x: "x = (i, req)" by (cases x)
  obtain m1 st1 where a: "apply_plane_request add remove (clk i) req (m, st) = (m1, st1)" by fastforce
  obtain F where F: "drain_effect [req] st m F m1 st1" using apply_one [OF Cons.prems(2) a] by blast
  then have up: "rs_outcomes st1 = []" by (simp add: drain_effect_def)
  have r: "fold (\<lambda>(i, req). apply_plane_request add remove (clk i) req) xs (m1, st1) = (m', st')"
    using Cons.prems(3) x a by simp
  obtain G where G: "drain_effect (map snd xs) st1 m1 G m' st'" using Cons.IH [OF _ up r] by blast
  show ?case by (rule Cons.prems(1)) (use drain_effect_trans [OF F G] x in simp)
qed

text \<open>Once a drain is over, the newest request of a key has been obeyed.\<close>

lemma drain_obeys_newest:
  assumes up: "rs_outcomes st = []" and ids: "distinct (map rq_id (rs_rows st))"
    and run: "drain_requests (apply_plane_request add remove) clk (m, st) = (m', st')"
    and newest: "filter (\<lambda>r. rq_key r = k) (pending_rows (rs_rows st)) = earlier @ [newest]"
  shows "rq_action newest = ReqRemove \<Longrightarrow> \<not> active m' k \<and>
      (\<forall>r\<in>set (rs_rows st'). rq_key r = k \<and> rq_action r \<in> {ReqAdd, ReqRemove} \<longrightarrow> rq_status r \<noteq> StPending)"
    and "rq_action newest = ReqAdd \<Longrightarrow>
      \<exists>r\<in>set (rs_rows st'). rq_id r = rq_id newest \<and> (rq_status r = StApplied \<longrightarrow> active m' k)"
proof -
  let ?rows = "rs_rows st" and ?reqs = "pending_rows (rs_rows st)"
  have mem: "set ?reqs = {r \<in> set ?rows. rq_status r = StPending}" by (auto simp: pending_rows_def)
  have "sorted (map rq_id ?reqs)" by (simp add: pending_rows_def)
  moreover have "distinct (map rq_id ?reqs)"
    using filter_neq_distinct_map [OF ids, of "\<lambda>r. rq_status r = StPending"]
    by (simp add: pending_rows_def) (metis distinct_map distinct_sort mset_eq_imp_distinct_iff mset_map mset_sort)
  ultimately have incr: "sorted_wrt (\<lambda>a b. rq_id a < rq_id b) ?reqs"
    by (metis sorted_wrt_map strict_sorted_iff)
  obtain pre post where reqs: "?reqs = pre @ newest # post" "\<forall>r\<in>set post. rq_key r \<noteq> k" and nk: "rq_key newest = k"
    using filter_last [OF newest] by blast
  have less: "\<forall>r\<in>set pre. rq_id r < rq_id newest" using incr reqs by (auto simp: sorted_wrt_append)
  have post_ids: "\<forall>r\<in>set post. rq_id newest < rq_id r" using incr reqs by (auto simp: sorted_wrt_append)
  let ?step = "\<lambda>(i, req). apply_plane_request add remove (clk i) req"
  have st: "pending_requests st = (Some ?reqs, st)" using up by (simp add: pending_requests_def rs_query_def)
  have split: "enumerate 0 ?reqs = enumerate 0 pre @ (length pre, newest) # enumerate (Suc (length pre)) post"
    using reqs(1) by (simp add: enumerate_append_eq)
  obtain m1 st1 where r1: "fold ?step (enumerate 0 pre) (m, st) = (m1, st1)" by fastforce
  obtain m2 st2 where r2: "apply_plane_request add remove (clk (length pre)) newest (m1, st1) = (m2, st2)" by fastforce
  have r3: "fold ?step (enumerate (Suc (length pre)) post) (m2, st2) = (m', st')"
    using run st split r1 r2 by (simp add: drain_requests_def)
  obtain F where F: "drain_effect (map snd (enumerate 0 pre)) st m F m1 st1" using apply_many [OF up r1] .
  have up1: "rs_outcomes st1 = []" using F by (simp add: drain_effect_def)
  obtain G where G: "drain_effect [newest] st1 m1 G m2 st2" and
    rem: "rq_action newest = ReqRemove \<longrightarrow> \<not> active m2 (rq_key newest)" and
    add: "rq_action newest = ReqAdd \<longrightarrow> (\<forall>r. rq_id r = rq_id newest \<and> rq_status (G r) = StApplied \<and>
       rq_status r \<noteq> StApplied \<longrightarrow> active m2 (rq_key newest))"
    using apply_one [OF up1 r2] by blast
  have up2: "rs_outcomes st2 = []" using G by (simp add: drain_effect_def)
  obtain H where H: "drain_effect (map snd (enumerate (Suc (length pre)) post)) st2 m2 H m' st'" using apply_many [OF up2 r3] .
  note f = F [unfolded drain_effect_def, simplified] and g = G [unfolded drain_effect_def, simplified]
    and h = H [unfolded drain_effect_def, simplified]
  have act: "active m' k = active m2 k" using h reqs(2) by blast
  have rows: "rs_rows st' = map (\<lambda>r. H (G (F r))) ?rows" using f g h by (simp add: comp_def)
  show "\<exists>r\<in>set (rs_rows st'). rq_id r = rq_id newest \<and> (rq_status r = StApplied \<longrightarrow> active m' k)" if "rq_action newest = ReqAdd"
  proof -
    have n: "newest \<in> set ?rows" "rq_status newest = StPending" using mem reqs(1) by auto
    have "\<forall>req\<in>set pre. \<not> may_touch req newest" using less by (auto simp: may_touch_def)
    then have "F newest = newest" using f by blast
    moreover have gn: "rq_id (G newest) = rq_id newest" "rq_key (G newest) = k" using g nk by (simp_all add: row_step_def)
    have "\<forall>req\<in>set post. \<not> may_touch req (G newest)" using gn reqs(2) post_ids by (fastforce simp: may_touch_def)
    then have "H (G newest) = G newest" using h by blast
    ultimately have "H (G (F newest)) = G newest" by simp
    moreover have "rq_status (G newest) = StApplied \<longrightarrow> active m' k" using add that n(2) act nk by auto
    ultimately show ?thesis using n(1) \<open>rq_id (G newest) = rq_id newest\<close> by (intro bexI [of _ "G newest"]) (auto simp: rows image_iff intro: bexI [of _ newest])
  qed
  show "\<not> active m' k \<and>
      (\<forall>r\<in>set (rs_rows st'). rq_key r = k \<and> rq_action r \<in> {ReqAdd, ReqRemove} \<longrightarrow> rq_status r \<noteq> StPending)"
    if "rq_action newest = ReqRemove"
  proof (intro conjI ballI impI)
    show "\<not> active m' k" using rem that act nk by simp
    fix r' assume "r' \<in> set (rs_rows st')" and r': "rq_key r' = k \<and> rq_action r' \<in> {ReqAdd, ReqRemove}"
    then obtain r where r: "r \<in> set ?rows" "r' = H (G (F r))" by (auto simp: rows)
    have same: "rq_key r = k" "rq_action r \<in> {ReqAdd, ReqRemove}" using r' r(2) f g h by (simp_all add: row_step_def)
    have keep: "rq_status x \<noteq> StPending \<Longrightarrow> rq_status (G x) \<noteq> StPending" "rq_status x \<noteq> StPending \<Longrightarrow> rq_status (H x) \<noteq> StPending" for x
      using g h by (simp_all add: row_step_def)
    show "rq_status r' \<noteq> StPending"
    proof (cases "rq_status (F r) = StPending")
      case True
      then have pend: "rq_status r = StPending" using f by (auto simp: row_step_def)
      with r(1) same(1) mem reqs nk have "r \<in> set pre \<or> r = newest" by auto
      then have "answered_by newest r \<or> (\<exists>q\<in>set pre. answered_by q r)"
        using same(2) that less same(1) nk by (auto simp: answered_by_def)
      moreover have "answered_by newest (F r) = answered_by newest r" using f by (simp add: row_step_def answered_by_def)
      ultimately have "rq_status (G (F r)) \<noteq> StPending" using f g True pend by auto
      then show ?thesis using keep r(2) by simp
    next
      case False
      then show ?thesis using keep r(2) by simp
    qed
  qed
qed

end

section \<open>Both planes keep the contract\<close>

definition rtbh_active :: "('b, 'j) rtbh_manager \<Rightarrow> ip_addr \<Rightarrow> bool" where
  "rtbh_active m t \<longleftrightarrow> hm_get (rc_active (rm_controller m)) t \<noteq> None"

definition flow_active :: "('b, 'j) flowspec_manager \<Rightarrow> flow_id \<Rightarrow> bool" where
  "flow_active m k \<longleftrightarrow> hm_get (fc_active (fm_controller m)) (host_prefix (fst k), snd k) \<noteq> None"

lemma rm_withdraws_controller: "rm_controller (fold (rm_execute bx bj mn wn) (map Withdraw ps) m) = rm_controller m"
proof (induction ps arbitrary: m)
  case (Cons p ps)
  have "rm_controller (rm_execute_withdraw bx bj p wn m) = rm_controller m"
    by (simp add: rm_execute_withdraw_def rm_queue_mirror_def Let_def split: prod.splits)
  with Cons show ?case by simp
qed simp

lemma fm_withdraws_controller: "fm_controller (fold (fm_execute bx fj mn wn) (map FsWithdraw rs) m) = fm_controller m"
proof (induction rs arbitrary: m)
  case (Cons r rs)
  have "fm_controller (fm_execute_withdraw bx fj r wn m) = fm_controller m"
    by (simp add: fm_execute_withdraw_def fm_queue_mirror_def Let_def split: prod.splits)
  with Cons show ?case by simp
qed simp

lemma rm_apply_remove_active:
  "rtbh_active (rm_apply_remove bx bj t mn wn m) j \<longleftrightarrow> rtbh_active m j \<and> j \<noteq> t"
  using rm_withdraws_controller [of bx bj mn wn "[host_prefix t]"]
  by (auto simp: rtbh_active_def rm_apply_remove_def rtbh_manual_remove_def)

lemma key_of_request_rule: "key_of (request_rule k rate) = (host_prefix (fst k), snd k)"
  by (cases k) (simp add: key_of_def request_rule_def)

lemma fm_apply_remove_active:
  "flow_active (fm_apply_remove bx fj (request_rule k rate) mn wn m) j \<longleftrightarrow> flow_active m j \<and> j \<noteq> k"
proof (cases "hm_get (fc_active (fm_controller m)) (key_of (request_rule k rate))")
  case None
  then show ?thesis
    by (auto simp: flow_active_def fm_apply_remove_def fs_manual_remove_def key_of_request_rule)
next
  case (Some e)
  then show ?thesis
    using fm_withdraws_controller [of bx fj mn wn "[fe_rule e]"]
    by (auto simp: flow_active_def fm_apply_remove_def fs_manual_remove_def key_of_request_rule prod_eq_iff)
qed

lemma rm_announce_applied:
  "fst (rm_execute_announce bx bj t rt orig mn wn m) = AoApplied \<Longrightarrow>
     rm_controller (snd (rm_execute_announce bx bj t rt orig mn wn m)) = rm_controller m"
  by (auto simp: rm_step_defs split: prod.splits if_splits)

lemma rm_apply_add_other:
  assumes "j \<noteq> t"
  shows "rtbh_active (snd (rm_apply_add contains bx bj t mn wn m)) j = rtbh_active m j"
proof -
  obtain acts c' where a: "rtbh_manual_add contains (rm_controller m) t mn = (acts, c')" by fastforce
  have c': "hm_get (rc_active c') j = hm_get (rc_active (rm_controller m)) j"
    using a assms by (auto simp: rtbh_manual_add_def rtbh_blackhole_def insert_blackhole_def Let_def split: if_splits option.splits)
  have r: "hm_get (rc_active (rm_controller (snd (rm_execute_announce bx bj t rt orig mn wn (m\<lparr>rm_controller := c'\<rparr>))))) j =
      hm_get (rc_active c') j" for rt orig
    by (rule rm_execute_announce_cases [of bx bj t rt orig mn wn "m\<lparr>rm_controller := c'\<rparr>"])
      (use assms in \<open>auto simp: rtbh_rollback_def\<close>)
  show ?thesis
    using r c' by (auto simp: rtbh_active_def rm_apply_add_def a Let_def case_prod_beta rm_queue_mirror_def
        split: list.splits rtbh_action.splits)
qed

lemma rm_apply_add_own:
  "fst (rm_apply_add contains bx bj t mn wn m) = Applied \<Longrightarrow> rtbh_active (snd (rm_apply_add contains bx bj t mn wn m)) t"
  using apply_add_active [of m t contains bx bj mn wn] apply_add_inactive [OF _ refl, of m t contains bx bj mn wn]
  by (cases "hm_get (rc_active (rm_controller m)) t") (auto simp: rtbh_active_def manual_at_def)

lemma fm_announce_applied:
  "fst (fm_execute_announce bx fj rule orig mn wn m) = AoApplied \<Longrightarrow>
     fm_controller (snd (fm_execute_announce bx fj rule orig mn wn m)) = fm_controller m"
  by (auto simp: fm_step_defs split: prod.splits if_splits)

lemma flow_active_core: "flow_active m k \<longleftrightarrow> fs_core (fm_controller m) (host_prefix (fst k), snd k) \<noteq> None"
  by (simp add: flow_active_def fs_core_def)

lemma fs_rollback_other: "k \<noteq> key \<Longrightarrow> fs_core (fs_rollback c key) k = fs_core c k"
  by (auto simp: fs_rollback_def fs_core_def split: option.splits)

lemma fm_is_active_core: "fm_is_active m key \<longleftrightarrow> fs_core (fm_controller m) key \<noteq> None"
proof -
  have "fm_is_active m key \<longleftrightarrow> key \<in> set (hm_keys (fc_active (fm_controller m)))"
    by (force simp: fm_is_active_def fs_active_rules_def hm_keys_def)
  then show ?thesis by (simp add: hm.keys_get fs_core_None)
qed

lemma fm_apply_add_core:
  assumes "fs_manual_add contains (fm_controller m) rule mn = (acts, c')"
  shows "key \<noteq> key_of rule \<Longrightarrow> fs_core (fm_controller (snd (fm_apply_add contains bx fj rule mn wn m))) key = fs_core (fm_controller m) key"
    and "fst (fm_apply_add contains bx fj rule mn wn m) = Applied \<Longrightarrow>
      fs_core (fm_controller (snd (fm_apply_add contains bx fj rule mn wn m))) (key_of rule) \<noteq> None"
proof -
  let ?m = "m\<lparr>fm_controller := c'\<rparr>"
  from manual_add_put [of contains rule "fm_controller m" mn] assms
  have step: "fs_put_step contains rule (fm_controller m) acts c'" by simp
  show "fs_core (fm_controller (snd (fm_apply_add contains bx fj rule mn wn m))) key = fs_core (fm_controller m) key"
    if "key \<noteq> key_of rule"
  proof -
    have c': "fs_core c' key = fs_core (fm_controller m) key" using step that by (auto simp: fs_put_step_def core_put_def)
    have "fs_core (fm_controller (snd (fm_execute_announce bx fj rule Manual mn wn ?m))) key = fs_core c' key"
      by (rule fm_execute_announce_cases [of bx fj rule Manual mn wn ?m]) (use that in \<open>auto simp: fs_rollback_other\<close>)
    then show ?thesis using step c'
      by (auto simp: fm_apply_add_def assms fs_put_step_def Let_def case_prod_beta fm_queue_mirror_def)
  qed
  show "fs_core (fm_controller (snd (fm_apply_add contains bx fj rule mn wn m))) (key_of rule) \<noteq> None"
    if "fst (fm_apply_add contains bx fj rule mn wn m) = Applied"
  proof (cases "acts = []")
    case True
    then show ?thesis using that
      by (auto simp: fm_apply_add_def assms Let_def case_prod_beta fm_queue_mirror_def fm_is_active_core split: if_splits)
  next
    case False
    then have a: "acts = [FsAnnounce rule]" "fs_core c' (key_of rule) \<noteq> None"
      using step by (auto simp: fs_put_step_def core_put_def)
    have "fst (fm_execute_announce bx fj rule Manual mn wn ?m) = AoApplied"
      using that a by (auto simp: fm_apply_add_def assms Let_def case_prod_beta rm_add_outcome_def split: announce_outcome.splits)
    from fm_announce_applied [OF this] a show ?thesis by (simp add: fm_apply_add_def assms case_prod_beta Let_def)
  qed
qed

interpretation rtbh_plane: request_plane
  "\<lambda>(mn, wn) t _. rm_apply_add contains bx bj t mn wn" "\<lambda>(mn, wn) t _. rm_apply_remove bx bj t mn wn" rtbh_active
  for contains bx bj
  by unfold_locales (auto simp: rm_apply_remove_active rm_apply_add_other rm_apply_add_own split: prod.splits)

interpretation flow_plane: request_plane
  "\<lambda>(mn, wn) key rate. fm_apply_add contains bx fj (request_rule key rate) mn wn"
  "\<lambda>(mn, wn) key rate. fm_apply_remove bx fj (request_rule key rate) mn wn" flow_active
  for contains and bx :: "'b bgp_executor_ops" and fj :: "'j flowspec_journal_ops"
proof unfold_locales
  fix now :: clock and k j p and m :: "('b, 'j) flowspec_manager"
  obtain mn wn where now: "now = (mn, wn)" by (cases now)
  obtain acts c' where a: "fs_manual_add contains (fm_controller m) (request_rule k p) mn = (acts, c')" by fastforce
  note add = fm_apply_add_core [OF a, where bx = bx and fj = fj and wn = wn, unfolded key_of_request_rule]
  show "\<not> flow_active ((case now of (mn, wn) \<Rightarrow> \<lambda>key rate. fm_apply_remove bx fj (request_rule key rate) mn wn) k p m) k"
    by (simp add: now fm_apply_remove_active)
  show "j \<noteq> k \<Longrightarrow> flow_active ((case now of (mn, wn) \<Rightarrow> \<lambda>key rate. fm_apply_remove bx fj (request_rule key rate) mn wn) k p m) j = flow_active m j"
    by (simp add: now fm_apply_remove_active)
  show "fst ((case now of (mn, wn) \<Rightarrow> \<lambda>key rate. fm_apply_add contains bx fj (request_rule key rate) mn wn) k p m) = Applied \<Longrightarrow>
      flow_active (snd ((case now of (mn, wn) \<Rightarrow> \<lambda>key rate. fm_apply_add contains bx fj (request_rule key rate) mn wn) k p m)) k"
    using add(2) by (simp add: now flow_active_core)
  show "j \<noteq> k \<Longrightarrow> flow_active (snd ((case now of (mn, wn) \<Rightarrow> \<lambda>key rate. fm_apply_add contains bx fj (request_rule key rate) mn wn) k p m)) j =
      flow_active m j"
    using add(1) by (auto simp: now flow_active_core prod_eq_iff)
qed

section \<open>Tasks are runs\<close>

lemma rtbh_drain_run: "\<exists>opers. fst (rtbh_drain contains bx bj clk s) = rm_run contains bx bj opers (fst s)"
  unfolding rtbh_drain_def apply_request_def rm_run_def
proof (rule drain_manager_run)
  fix now :: clock and t p m
  show "\<exists>opers. snd ((case now of (mn, wn) \<Rightarrow> \<lambda>t _. rm_apply_add contains bx bj t mn wn) t p m) = fold (rm_exec contains bx bj) opers m"
    by (cases now) (auto intro: exI [of _ "[ApplyAdd t (fst now) (snd now)]"])
  show "\<exists>opers. (case now of (mn, wn) \<Rightarrow> \<lambda>t _. rm_apply_remove bx bj t mn wn) t p m = fold (rm_exec contains bx bj) opers m"
    by (cases now) (auto intro: exI [of _ "[ApplyRemove t (fst now) (snd now)]"])
qed

lemma rtbh_task_run:
  "\<exists>opers. tk_manager (task_run (rtbh_task_step contains bx bj) evs k) = rm_run contains bx bj opers (tk_manager k)"
proof (induction evs arbitrary: k)
  case Nil
  show ?case by (intro exI [of _ "[]"]) (simp add: rm_run_def)
next
  case (Cons ev evs)
  have "\<exists>opers. tk_manager (rtbh_task_step contains bx bj ev k) = rm_run contains bx bj opers (tk_manager k)"
  proof (cases ev)
    case (TaskRecv e mn wn)
    then show ?thesis by (intro exI [of _ "[ApplyEvent e mn wn]"]) (simp add: rm_run_def)
  next
    case (TaskDisarm mn)
    then show ?thesis
      by (cases "tk_disarm_open k") (auto simp: rm_run_def intro: exI [of _ "[Disarm mn]"] exI [of _ "[]"])
  next
    case (TaskTick mn wn clk)
    obtain opers where "fst (rtbh_drain contains bx bj clk (rm_tick bx bj mn wn (tk_manager k), tk_requests k)) =
        rm_run contains bx bj opers (rm_tick bx bj mn wn (tk_manager k))" using rtbh_drain_run by fastforce
    then show ?thesis using TaskTick
      by (intro exI [of _ "MgrTick mn wn # opers"]) (auto simp: rm_run_def case_prod_beta)
  qed (auto simp: rm_run_def intro: exI [of _ "[]"])
  then obtain o1 where o1: "tk_manager (rtbh_task_step contains bx bj ev k) = rm_run contains bx bj o1 (tk_manager k)" by blast
  obtain o2 where "tk_manager (task_run (rtbh_task_step contains bx bj) evs (rtbh_task_step contains bx bj ev k)) =
      rm_run contains bx bj o2 (tk_manager (rtbh_task_step contains bx bj ev k))" using Cons.IH by blast
  with o1 show ?case
    by (cases "tk_exited k") (auto simp: rm_run_def intro: exI [of _ "[]"] exI [of _ "o1 @ o2"])
qed

lemma flowspec_drain_run: "\<exists>opers. fst (flowspec_drain contains bx fj clk s) = fm_run contains bx fj opers (fst s)"
  unfolding flowspec_drain_def apply_flowspec_request_def fm_run_def
proof (rule drain_manager_run)
  fix now :: clock and key rate m
  show "\<exists>opers. snd ((case now of (mn, wn) \<Rightarrow> \<lambda>key rate. fm_apply_add contains bx fj (request_rule key rate) mn wn) key rate m) =
      fold (fm_exec contains bx fj) opers m"
    by (cases now) (auto intro: exI [of _ "[FmAdd (request_rule key rate) (fst now) (snd now)]"])
  show "\<exists>opers. (case now of (mn, wn) \<Rightarrow> \<lambda>key rate. fm_apply_remove bx fj (request_rule key rate) mn wn) key rate m =
      fold (fm_exec contains bx fj) opers m"
    by (cases now) (auto intro: exI [of _ "[FmRemove (request_rule key rate) (fst now) (snd now)]"])
qed

lemma flowspec_task_run:
  "\<exists>opers. tk_manager (task_run (flowspec_task_step contains bx fj) evs k) = fm_run contains bx fj opers (tk_manager k)"
proof (induction evs arbitrary: k)
  case Nil
  show ?case by (intro exI [of _ "[]"]) (simp add: fm_run_def)
next
  case (Cons ev evs)
  have "\<exists>opers. tk_manager (flowspec_task_step contains bx fj ev k) = fm_run contains bx fj opers (tk_manager k)"
  proof (cases ev)
    case (TaskRecv e mn wn)
    then show ?thesis
      by (cases e) (auto simp: fm_run_def intro: exI [of _ "[FmOpen t rules mn wn]" for t rules] exI [of _ "[FmUpdated t mn]" for t]
          exI [of _ "[FmClear t mn wn]" for t])
  next
    case (TaskDisarm mn)
    then show ?thesis
      by (cases "tk_disarm_open k") (auto simp: fm_run_def intro: exI [of _ "[FmDisarm mn]"] exI [of _ "[]"])
  next
    case (TaskTick mn wn clk)
    obtain opers where "fst (flowspec_drain contains bx fj clk (fm_tick bx fj mn wn (tk_manager k), tk_requests k)) =
        fm_run contains bx fj opers (fm_tick bx fj mn wn (tk_manager k))" using flowspec_drain_run by fastforce
    then show ?thesis using TaskTick
      by (intro exI [of _ "FmTick mn wn # opers"]) (auto simp: fm_run_def case_prod_beta)
  qed (auto simp: fm_run_def intro: exI [of _ "[]"])
  then obtain o1 where o1: "tk_manager (flowspec_task_step contains bx fj ev k) = fm_run contains bx fj o1 (tk_manager k)" by blast
  obtain o2 where "tk_manager (task_run (flowspec_task_step contains bx fj) evs (flowspec_task_step contains bx fj ev k)) =
      fm_run contains bx fj o2 (tk_manager (flowspec_task_step contains bx fj ev k))" using Cons.IH by blast
  with o1 show ?case
    by (cases "tk_exited k") (auto simp: fm_run_def intro: exI [of _ "[]"] exI [of _ "o1 @ o2"])
qed

text \<open>
  A remove whose status write is lost stays pending and is applied again by the next drain, after a
  newer add for the same target was applied: the target ends inactive while its newest request is
  marked as applied.
\<close>

lemma remove_replayed_over_add:
  "let st = \<lparr>rs_rows = [\<lparr>rq_id = 1, rq_key = V4 0xCB007107, rq_payload = (), rq_action = ReqRemove, rq_status = StPending, rq_note = None\<rparr>,
         \<lparr>rq_id = 2, rq_key = V4 0xCB007107, rq_payload = (), rq_action = ReqAdd, rq_status = StPending, rq_note = None\<rparr>],
       rs_outcomes = [True, True, False]\<rparr>;
       drain = rtbh_drain net_contains (shadow_executor (#)) noop_blackhole_journal (\<lambda>i. (i, i));
       (m1, st1) = drain (rm_start None sample_rtbh_config [] (), st); (m2, st2) = drain (m1, st1)
   in rtbh_active m1 (V4 0xCB007107) \<and> map rq_status (rs_rows st1) = [StPending, StApplied] \<and>
      \<not> rtbh_active m2 (V4 0xCB007107) \<and> map rq_status (rs_rows st2) = [StApplied, StApplied]"
  by (simp add: rtbh_drain_def apply_request_def drain_requests_def pending_requests_def rs_query_def pending_rows_def apply_plane_request_def
      supersede_pending_adds_def set_request_status_def supersede_row_def set_row_status_def rm_start_def rm_new_def
      rm_apply_remove_def rtbh_manual_remove_def rm_apply_add_def rtbh_eval rm_execute_announce_def rm_execute_withdraw_def
      shadow_executor_def noop_blackhole_journal_def rm_add_outcome_def rtbh_active_def Let_def)

section \<open>Properties\<close>

text \<open>
  C8. The newest operator request wins: when the database answers, one drain of the pending blackhole
  requests leaves every target whose newest pending request is a remove inactive, with none of its
  requests pending; and where the newest request is an add that ends up marked as applied, the target
  is active. This holds whatever was requested before for that target, and whatever fails on the BGP
  side.
\<close>

theorem rtbh_requests_obeyed:
  assumes "rs_outcomes st = []" "distinct (map rq_id (rs_rows st))" "rtbh_drain contains bx bj clk (m, st) = (m', st')"
    and "filter (\<lambda>r. rq_key r = t) (pending_rows (rs_rows st)) = earlier @ [newest]"
  shows "(rq_action newest = ReqRemove \<longrightarrow> hm_get (rc_active (rm_controller m')) t = None \<and>
      (\<forall>r\<in>set (rs_rows st'). rq_key r = t \<and> rq_action r \<in> {ReqAdd, ReqRemove} \<longrightarrow> rq_status r \<noteq> StPending)) \<and>
    (rq_action newest = ReqAdd \<longrightarrow> (\<exists>r\<in>set (rs_rows st'). rq_id r = rq_id newest \<and>
      (rq_status r = StApplied \<longrightarrow> hm_get (rc_active (rm_controller m')) t \<noteq> None)))"
  using rtbh_plane.drain_obeys_newest [OF assms(1,2) assms(3) [unfolded rtbh_drain_def apply_request_def] assms(4)]
  by (simp add: rtbh_active_def)

theorem rtbh_requests_obeyed_witness:
  "\<exists>m' st'. rtbh_drain net_contains (shadow_executor (#)) noop_blackhole_journal (\<lambda>i. (i, i))
     (rm_start None sample_rtbh_config [] (),
      \<lparr>rs_rows = [\<lparr>rq_id = 1, rq_key = V4 0xCB007107, rq_payload = (), rq_action = ReqAdd, rq_status = StPending, rq_note = None\<rparr>,
         \<lparr>rq_id = 2, rq_key = V4 0xCB007107, rq_payload = (), rq_action = ReqRemove, rq_status = StPending, rq_note = None\<rparr>],
       rs_outcomes = []\<rparr>) = (m', st') \<and> hm_get (rc_active (rm_controller m')) (V4 0xCB007107) = None"
proof -
  let ?add = "\<lparr>rq_id = 1, rq_key = V4 0xCB007107, rq_payload = (), rq_action = ReqAdd, rq_status = StPending, rq_note = None\<rparr>"
  let ?rem = "\<lparr>rq_id = 2, rq_key = V4 0xCB007107, rq_payload = (), rq_action = ReqRemove, rq_status = StPending, rq_note = None\<rparr>"
  let ?st = "\<lparr>rs_rows = [?add, ?rem], rs_outcomes = []\<rparr>"
  obtain m' st' where r: "rtbh_drain net_contains (shadow_executor (#)) noop_blackhole_journal (\<lambda>i. (i, i))
     (rm_start None sample_rtbh_config [] (), ?st) = (m', st')" by fastforce
  have "filter (\<lambda>r. rq_key r = V4 0xCB007107) (pending_rows (rs_rows ?st)) = [?add] @ [?rem]" by (simp add: pending_rows_def)
  from rtbh_requests_obeyed [OF _ _ r this] r show ?thesis by simp
qed

end
