(* ===== verification/Bgp_Message.thy ===== *)
theory Bgp_Message
  imports Net
begin

text \<open>
  BGP message framing and the control messages of \<^verbatim>\<open>blackwall-bgp/src/message.rs\<close>. Encoders return
  \<open>Panic\<close> where the code's \<open>expect\<close> would fail; decoders index with the checked operations of the
  prelude, so that their freedom from panics is a theorem. The message of a decode error is kept as
  its kind.
\<close>

section \<open>Errors\<close>

datatype decode_reason =
    NotificationTooShort nat
  | BufferTooShort nat nat
  | UnknownType u8
  | OpenTooShort nat
  | OptParamLenExceeds nat nat
  | TruncatedOptHeader
  | TruncatedOptValue
  | TruncatedCapHeader
  | TruncatedCapValue
  | ShortHeader
  | BadMarker
  | BadLength nat

datatype bgp_error = Decode decode_reason

type_synonym 'a bgp = "(bgp_error, 'a) outcome"

section \<open>Message types\<close>

datatype msg_type = MtOpen | MtUpdate | MtNotification | MtKeepalive

fun msg_code :: "msg_type \<Rightarrow> u8" where
  "msg_code MtOpen = 1"
| "msg_code MtUpdate = 2"
| "msg_code MtNotification = 3"
| "msg_code MtKeepalive = 4"

definition msg_from_code :: "u8 \<Rightarrow> msg_type option" where
  "msg_from_code code =
     (if code = 1 then Some MtOpen else if code = 2 then Some MtUpdate
      else if code = 3 then Some MtNotification else if code = 4 then Some MtKeepalive else None)"

lemma msg_from_code_code [simp]: "msg_from_code (msg_code t) = Some t"
  by (cases t) (simp_all add: msg_from_code_def)

record open_msg =
  om_asn :: u32
  om_hold_time :: u16
  om_router_id :: u32
  om_ipv4_unicast :: bool
  om_ipv6_unicast :: bool
  om_flowspec_v4 :: bool
  om_flowspec_v6 :: bool

record notification_msg =
  nm_code :: u8
  nm_subcode :: u8
  nm_data :: "u8 list"

datatype bgp_message =
    Open open_msg
  | Keepalive
  | Update
  | Notification notification_msg

section \<open>Header\<close>

definition MARKER :: "u8 list" where
  "MARKER = replicate 16 255"

definition HEADER_LEN :: nat where
  "HEADER_LEN = 19"

definition encode_header :: "u8 \<Rightarrow> u8 list \<Rightarrow> u8 list bgp" where
  "encode_header msg_type body =
     (let total = HEADER_LEN + length body in
      obind (opt_expect (try_u16 total)) (\<lambda>len. Ok (MARKER @ be16 len @ [msg_type] @ body)))"

definition parse_header :: "u8 list \<Rightarrow> (u8 \<times> nat) bgp" where
  "parse_header bytes =
     (if length bytes < HEADER_LEN then Err (Decode ShortHeader)
      else obind (slice bytes 0 16) (\<lambda>marker.
        if marker \<noteq> MARKER then Err (Decode BadMarker)
        else obind (idx bytes 16) (\<lambda>hi. obind (idx bytes 17) (\<lambda>lo.
          let total = unat (from_be16 hi lo) in
          if \<not> (HEADER_LEN \<le> total \<and> total \<le> 4096) then Err (Decode (BadLength total))
          else obind (idx bytes 18) (\<lambda>t. Ok (t, total))))))"

section \<open>KEEPALIVE and NOTIFICATION\<close>

definition encode_keepalive :: "u8 list bgp" where
  "encode_keepalive = encode_header (msg_code MtKeepalive) []"

definition encode_notification :: "notification_msg \<Rightarrow> u8 list bgp" where
  "encode_notification n =
     encode_header (msg_code MtNotification) ([nm_code n] @ [nm_subcode n] @ nm_data n)"

definition decode_notification :: "u8 list \<Rightarrow> notification_msg bgp" where
  "decode_notification body =
     (if length body < 2 then Err (Decode (NotificationTooShort (length body)))
      else obind (idx body 0) (\<lambda>code. obind (idx body 1) (\<lambda>subcode.
        obind (slice body 2 (length body)) (\<lambda>data.
          Ok \<lparr>nm_code = code, nm_subcode = subcode, nm_data = data\<rparr>))))"

section \<open>OPEN\<close>

definition AS_TRANS :: u16 where "AS_TRANS = 23456"
definition CAP_4OCTET_AS :: u8 where "CAP_4OCTET_AS = 65"
definition CAP_MP_BGP :: u8 where "CAP_MP_BGP = 1"

text \<open>One capability on the wire: code, length byte, value.\<close>

definition mp_cap :: "u16 \<Rightarrow> u8 \<Rightarrow> u8 list" where
  "mp_cap afi safi = [CAP_MP_BGP, 4] @ be16 afi @ [0, safi]"

definition open_caps :: "open_msg \<Rightarrow> u8 list" where
  "open_caps o' =
     [CAP_4OCTET_AS, 4] @ be32 (om_asn o') @
     (if om_ipv4_unicast o' then mp_cap 1 1 else []) @
     (if om_ipv6_unicast o' then mp_cap 2 1 else []) @
     (if om_flowspec_v4 o' then mp_cap 1 133 else []) @
     (if om_flowspec_v6 o' then mp_cap 2 133 else [])"

definition encode_open_body :: "open_msg \<Rightarrow> u8 list bgp" where
  "encode_open_body o' =
     (let caps = open_caps o' in
      obind (opt_expect (try_u8 (length caps))) (\<lambda>param_len.
      let opt_params = [2, param_len] @ caps in
      obind (opt_expect (try_u8 (length opt_params))) (\<lambda>opt_param_len.
      let my_as = (case try_u16 (unat (om_asn o')) of Some a \<Rightarrow> a | None \<Rightarrow> AS_TRANS) in
      Ok ([4] @ be16 my_as @ be16 (om_hold_time o') @ be32 (om_router_id o') @
          [opt_param_len] @ opt_params))))"

definition encode_open :: "open_msg \<Rightarrow> u8 list bgp" where
  "encode_open o' = obind (encode_open_body o') (\<lambda>body. encode_header (msg_code MtOpen) body)"

text \<open>What the capability walk collects.\<close>

record open_acc =
  oa_asn_4octet :: "u32 option"
  oa_ipv4_unicast :: bool
  oa_ipv6_unicast :: bool
  oa_flowspec_v4 :: bool
  oa_flowspec_v6 :: bool

definition cap_step :: "u8 \<Rightarrow> nat \<Rightarrow> u8 list \<Rightarrow> open_acc \<Rightarrow> open_acc bgp" where
  "cap_step cap_code cap_len v acc =
     (if cap_code = CAP_4OCTET_AS \<and> cap_len = 4
      then obind (idx v 0) (\<lambda>a. obind (idx v 1) (\<lambda>b. obind (idx v 2) (\<lambda>c. obind (idx v 3) (\<lambda>d.
             Ok (acc\<lparr>oa_asn_4octet := Some (from_be32 a b c d)\<rparr>)))))
      else if cap_code = CAP_MP_BGP \<and> cap_len = 4
      then obind (idx v 0) (\<lambda>a. obind (idx v 1) (\<lambda>b. obind (idx v 3) (\<lambda>safi.
             let afi = from_be16 a b in
             Ok (if afi = 1 \<and> safi = 1 then acc\<lparr>oa_ipv4_unicast := True\<rparr>
                 else if afi = 2 \<and> safi = 1 then acc\<lparr>oa_ipv6_unicast := True\<rparr>
                 else if afi = 1 \<and> safi = 133 then acc\<lparr>oa_flowspec_v4 := True\<rparr>
                 else if afi = 2 \<and> safi = 133 then acc\<lparr>oa_flowspec_v6 := True\<rparr>
                 else acc))))
      else Ok acc)"

function walk_caps :: "u8 list \<Rightarrow> nat \<Rightarrow> open_acc \<Rightarrow> open_acc bgp" where
  "walk_caps cap_region j acc =
     (if j < length cap_region then
        if length cap_region < j + 2 then Err (Decode TruncatedCapHeader)
        else obind (idx cap_region j) (\<lambda>cap_code. obind (idx cap_region (j + 1)) (\<lambda>len.
          let cap_len = unat len; cap_value_start = j + 2; cap_value_end = cap_value_start + cap_len in
          if length cap_region < cap_value_end then Err (Decode TruncatedCapValue)
          else obind (slice cap_region cap_value_start cap_value_end) (\<lambda>cap_value.
            obind (cap_step cap_code cap_len cap_value acc) (\<lambda>acc'.
              walk_caps cap_region cap_value_end acc'))))
      else Ok acc)"
  by pat_completeness auto
termination
  by (relation "measure (\<lambda>(r, j, acc). length r - j)") auto

function walk_params :: "u8 list \<Rightarrow> nat \<Rightarrow> open_acc \<Rightarrow> open_acc bgp" where
  "walk_params opt_region i acc =
     (if i < length opt_region then
        if length opt_region < i + 2 then Err (Decode TruncatedOptHeader)
        else obind (idx opt_region i) (\<lambda>param_type. obind (idx opt_region (i + 1)) (\<lambda>len.
          let param_len = unat len; param_value_start = i + 2; param_value_end = param_value_start + param_len in
          if length opt_region < param_value_end then Err (Decode TruncatedOptValue)
          else obind
            (if param_type = 2
             then obind (slice opt_region param_value_start param_value_end) (\<lambda>cap_region.
                    walk_caps cap_region 0 acc)
             else Ok acc)
            (\<lambda>acc'. walk_params opt_region param_value_end acc')))
      else Ok acc)"
  by pat_completeness auto
termination
  by (relation "measure (\<lambda>(r, i, acc). length r - i)") auto

declare walk_caps.simps [simp del] walk_params.simps [simp del]

definition decode_open :: "u8 list \<Rightarrow> open_msg bgp" where
  "decode_open body =
     (if length body < 10 then Err (Decode (OpenTooShort (length body)))
      else obind (idx body 1) (\<lambda>b1. obind (idx body 2) (\<lambda>b2. obind (idx body 3) (\<lambda>b3.
           obind (idx body 4) (\<lambda>b4. obind (idx body 5) (\<lambda>b5. obind (idx body 6) (\<lambda>b6.
           obind (idx body 7) (\<lambda>b7. obind (idx body 8) (\<lambda>b8. obind (idx body 9) (\<lambda>b9.
             let my_as = from_be16 b1 b2; hold_time = from_be16 b3 b4; router_id = from_be32 b5 b6 b7 b8;
                 opt_param_len = unat b9; opt_end = 10 + opt_param_len in
             if length body < opt_end then Err (Decode (OptParamLenExceeds opt_param_len (length body)))
             else obind (slice body 10 opt_end) (\<lambda>opt_region.
               obind (walk_params opt_region 0
                 \<lparr>oa_asn_4octet = None, oa_ipv4_unicast = False, oa_ipv6_unicast = False,
                  oa_flowspec_v4 = False, oa_flowspec_v6 = False\<rparr>) (\<lambda>acc.
               Ok \<lparr>om_asn = (case oa_asn_4octet acc of Some a \<Rightarrow> a | None \<Rightarrow> ucast my_as),
                   om_hold_time = hold_time, om_router_id = router_id,
                   om_ipv4_unicast = oa_ipv4_unicast acc, om_ipv6_unicast = oa_ipv6_unicast acc,
                   om_flowspec_v4 = oa_flowspec_v4 acc, om_flowspec_v6 = oa_flowspec_v6 acc\<rparr>))))))))))))"

section \<open>Dispatch\<close>

definition decode_message :: "u8 list \<Rightarrow> (bgp_message \<times> nat) bgp" where
  "decode_message bytes =
     obind (parse_header bytes) (\<lambda>(msg_type, total_len).
       if length bytes < total_len then Err (Decode (BufferTooShort total_len (length bytes)))
       else obind (slice bytes HEADER_LEN total_len) (\<lambda>body.
         case msg_from_code msg_type of
           Some MtOpen \<Rightarrow> obind (decode_open body) (\<lambda>o'. Ok (Open o', total_len))
         | Some MtNotification \<Rightarrow> obind (decode_notification body) (\<lambda>n. Ok (Notification n, total_len))
         | Some MtKeepalive \<Rightarrow> Ok (Keepalive, total_len)
         | Some MtUpdate \<Rightarrow> Ok (Update, total_len)
         | None \<Rightarrow> Err (Decode (UnknownType msg_type))))"

section \<open>The decoders never panic\<close>

lemma cap_step_total: "length v = cap_len \<Longrightarrow> \<exists>acc'. cap_step code cap_len v acc = Ok acc'"
  by (auto simp: cap_step_def rust_simps Let_def)

lemma walk_caps_no_panic: "walk_caps r j acc \<noteq> Panic"
proof (induction r j acc rule: walk_caps.induct)
  case (1 r j acc)
  show ?case
  proof (cases "j < length r \<and> j + 2 \<le> length r \<and> j + 2 + unat (r ! (j + 1)) \<le> length r")
    case True
    let ?e = "j + 2 + unat (r ! (j + 1))"
    let ?v = "take (?e - (j + 2)) (drop (j + 2) r)"
    have "length ?v = unat (r ! (j + 1))" using True by (auto simp: min_def)
    then obtain acc' where acc': "cap_step (r ! j) (unat (r ! (j + 1))) ?v acc = Ok acc'"
      using cap_step_total by blast
    have "walk_caps r ?e acc' \<noteq> Panic"
      by (rule "1.IH") (use True acc' in \<open>auto simp: rust_simps\<close>)
    with True acc' show ?thesis by (subst walk_caps.simps) (simp add: rust_simps Let_def)
  next
    case False
    then show ?thesis by (subst walk_caps.simps) (auto simp: rust_simps Let_def)
  qed
qed

lemma walk_params_no_panic: "walk_params r i acc \<noteq> Panic"
proof (induction r i acc rule: walk_params.induct)
  case (1 r i acc)
  show ?case
  proof (cases "i < length r \<and> i + 2 \<le> length r \<and> i + 2 + unat (r ! (i + 1)) \<le> length r")
    case True
    let ?e = "i + 2 + unat (r ! (i + 1))"
    let ?inner = "if r ! i = 2 then walk_caps (take (?e - (i + 2)) (drop (i + 2) r)) 0 acc else Ok acc"
    have inner: "?inner \<noteq> Panic" by (simp add: walk_caps_no_panic)
    have "walk_params r ?e acc' \<noteq> Panic" if "?inner = Ok acc'" for acc'
      by (rule "1.IH") (use True that in \<open>auto simp: rust_simps split: if_splits\<close>)
    with inner True show ?thesis
      by (subst walk_params.simps) (auto simp: rust_simps Let_def obind_eq_Panic split: if_splits)
  next
    case False
    then show ?thesis by (subst walk_params.simps) (auto simp: rust_simps Let_def)
  qed
qed

lemma decode_open_no_panic: "decode_open body \<noteq> Panic"
  by (auto simp: decode_open_def Let_def rust_simps obind_eq_Panic walk_params_no_panic)

lemma decode_notification_no_panic: "decode_notification body \<noteq> Panic"
  by (auto simp: decode_notification_def idx_def slice_def)

lemma parse_header_no_panic: "parse_header bytes \<noteq> Panic"
  by (auto simp: parse_header_def HEADER_LEN_def Let_def rust_simps)

lemma parse_header_bounds: "parse_header bytes = Ok (t, n) \<Longrightarrow> 19 \<le> n \<and> n \<le> 4096"
  by (auto simp: parse_header_def HEADER_LEN_def Let_def rust_simps split: if_splits)

lemma decode_message_no_panic: "decode_message bytes \<noteq> Panic"
  by (auto simp: decode_message_def obind_eq_Panic parse_header_no_panic decode_open_no_panic
      decode_notification_no_panic slice_def HEADER_LEN_def dest: parse_header_bounds
      split: option.splits msg_type.splits)

lemma decode_message_len:
  "decode_message bytes = Ok (m, n) \<Longrightarrow> 19 \<le> n \<and> n \<le> 4096 \<and> n \<le> length bytes"
proof -
  assume dec: "decode_message bytes = Ok (m, n)"
  then obtain t k where ph: "parse_header bytes = Ok (t, k)" by (auto simp: decode_message_def obind_eq_Ok)
  have "n = k \<and> k \<le> length bytes"
  proof (cases "msg_from_code t")
    case None with dec ph show ?thesis by (auto simp: decode_message_def obind_eq_Ok split: if_splits)
  next
    case (Some y) with dec ph show ?thesis
      by (cases y) (auto simp: decode_message_def obind_eq_Ok split: if_splits)
  qed
  with parse_header_bounds [OF ph] show ?thesis by simp
qed

section \<open>Round trips\<close>

lemma parse_header_encode:
  assumes "encode_header t body = Ok bytes" "length bytes \<le> 4096"
  shows "parse_header (bytes @ rest) = Ok (t, length bytes)" and "(slice (bytes @ rest) HEADER_LEN (length bytes) :: u8 list bgp) = Ok body"
    and "HEADER_LEN \<le> length bytes"
proof -
  from assms(1) obtain len where len: "try_u16 (HEADER_LEN + length body) = Some len"
    and bytes: "bytes = MARKER @ be16 len @ [t] @ body"
    by (auto simp: encode_header_def Let_def obind_eq_Ok opt_expect_def split: option.splits)
  have n: "length bytes = 19 + length body" by (simp add: bytes MARKER_def)
  have "len = of_nat (length bytes)"
    using len by (simp add: try_u16_def HEADER_LEN_def n split: if_splits)
  then have len': "unat len = length bytes" using assms(2) by simp
  have mk: "take 16 (bytes @ rest) = MARKER" by (simp add: bytes MARKER_def)
  have split: "bytes @ rest = MARKER @ ucast (drop_bit 8 len) # ucast len # t # body @ rest"
    by (simp add: bytes be16_def)
  have i16: "(bytes @ rest) ! 16 = ucast (drop_bit 8 len)" "(bytes @ rest) ! 17 = ucast len"
      "(bytes @ rest) ! 18 = t"
    unfolding split by (simp_all add: MARKER_def nth_append)
  show "parse_header (bytes @ rest) = Ok (t, length bytes)"
    using n assms(2) mk i16 len'
    by (simp add: parse_header_def HEADER_LEN_def Let_def rust_simps)
  show "(slice (bytes @ rest) HEADER_LEN (length bytes) :: u8 list bgp) = Ok body"
    using n by (simp add: HEADER_LEN_def slice_def split MARKER_def) 
  show "HEADER_LEN \<le> length bytes" using n by (simp add: HEADER_LEN_def)
qed

text \<open>Walking a well-formed list of capabilities applies them in order.\<close>

definition enc_cap :: "u8 \<times> u8 list \<Rightarrow> u8 list" where
  "enc_cap c = [fst c, of_nat (length (snd c))] @ snd c"

fun cap_steps :: "(u8 \<times> u8 list) list \<Rightarrow> open_acc \<Rightarrow> open_acc bgp" where
  "cap_steps [] acc = Ok acc"
| "cap_steps (c # cs) acc = obind (cap_step (fst c) (length (snd c)) (snd c) acc) (cap_steps cs)"

lemma walk_caps_enc:
  assumes "\<forall>c\<in>set cs. length (snd c) < 256"
  shows "walk_caps (pre @ concat (map enc_cap cs)) (length pre) acc = cap_steps cs acc"
  using assms
proof (induction cs arbitrary: pre acc)
  case Nil then show ?case by (subst walk_caps.simps) simp
next
  case (Cons c cs)
  let ?v = "snd c"
  let ?r = "pre @ concat (map enc_cap (c # cs))"
  have len: "unat (of_nat (length ?v) :: u8) = length ?v" using Cons.prems by simp
  have r: "?r = (pre @ enc_cap c) @ concat (map enc_cap cs)" by simp
  have e: "length pre + 2 + length ?v = length (pre @ enc_cap c)" by (simp add: enc_cap_def)
  have step: "walk_caps ?r (length pre) acc =
      obind (cap_step (fst c) (length ?v) ?v acc) (\<lambda>acc'. walk_caps ?r (length pre + 2 + length ?v) acc')"
    by (subst walk_caps.simps) (simp add: rust_simps Let_def enc_cap_def nth_append len)
  show ?case unfolding step e unfolding r
    using Cons.IH [of "pre @ enc_cap c"] Cons.prems by (auto intro!: obind_cong)
qed

definition open_cap_list :: "open_msg \<Rightarrow> (u8 \<times> u8 list) list" where
  "open_cap_list o' =
     [(CAP_4OCTET_AS, be32 (om_asn o'))] @
     (if om_ipv4_unicast o' then [(CAP_MP_BGP, be16 1 @ [0, 1])] else []) @
     (if om_ipv6_unicast o' then [(CAP_MP_BGP, be16 2 @ [0, 1])] else []) @
     (if om_flowspec_v4 o' then [(CAP_MP_BGP, be16 1 @ [0, 133])] else []) @
     (if om_flowspec_v6 o' then [(CAP_MP_BGP, be16 2 @ [0, 133])] else [])"

lemma open_caps_list: "open_caps o' = concat (map enc_cap (open_cap_list o'))"
  by (simp add: open_caps_def open_cap_list_def enc_cap_def mp_cap_def)

lemma cap_steps_append: "cap_steps (xs @ ys) acc = obind (cap_steps xs acc) (cap_steps ys)"
  by (induction xs arbitrary: acc) (auto simp: obind_assoc intro!: obind_cong)

lemma cap_step_mp:
  "cap_step CAP_MP_BGP 4 (be16 afi @ [0, safi]) acc =
     Ok (if afi = 1 \<and> safi = 1 then acc\<lparr>oa_ipv4_unicast := True\<rparr>
         else if afi = 2 \<and> safi = 1 then acc\<lparr>oa_ipv6_unicast := True\<rparr>
         else if afi = 1 \<and> safi = 133 then acc\<lparr>oa_flowspec_v4 := True\<rparr>
         else if afi = 2 \<and> safi = 133 then acc\<lparr>oa_flowspec_v6 := True\<rparr> else acc)"
  by (simp add: cap_step_def CAP_4OCTET_AS_def CAP_MP_BGP_def be16_def rust_simps Let_def split del: if_split)
    (simp only: from_be16_be16)

lemma cap_step_as: "cap_step CAP_4OCTET_AS 4 (be32 a) acc = Ok (acc\<lparr>oa_asn_4octet := Some a\<rparr>)"
  by (simp add: cap_step_def be32_def rust_simps)

lemma open_caps_walk:
  "cap_steps (open_cap_list o')
     \<lparr>oa_asn_4octet = None, oa_ipv4_unicast = False, oa_ipv6_unicast = False,
      oa_flowspec_v4 = False, oa_flowspec_v6 = False\<rparr>
   = Ok \<lparr>oa_asn_4octet = Some (om_asn o'), oa_ipv4_unicast = om_ipv4_unicast o',
      oa_ipv6_unicast = om_ipv6_unicast o', oa_flowspec_v4 = om_flowspec_v4 o',
      oa_flowspec_v6 = om_flowspec_v6 o'\<rparr>"
  by (auto simp: open_cap_list_def cap_steps_append cap_step_as cap_step_mp)

lemma length_open_caps: "length (open_caps o') \<le> 30"
  by (simp add: open_caps_def mp_cap_def)

lemma encode_open_body_Ok:
  "\<exists>my_as. encode_open_body o' = Ok ([4] @ be16 my_as @ be16 (om_hold_time o') @ be32 (om_router_id o') @
     [of_nat (length (open_caps o') + 2), 2, of_nat (length (open_caps o'))] @ open_caps o')"
  using length_open_caps [of o']
  by (auto simp: encode_open_body_def Let_def try_u8_def opt_expect_def)

lemma walk_params_open:
  "walk_params ([2, of_nat (length (open_caps o'))] @ open_caps o') 0 acc = walk_caps (open_caps o') 0 acc"
proof -
  have len: "unat (of_nat (length (open_caps o')) :: u8) = length (open_caps o')"
    using length_open_caps [of o'] by simp
  have "walk_params ([2, of_nat (length (open_caps o'))] @ open_caps o') 0 acc
    = obind (walk_caps (open_caps o') 0 acc)
        (\<lambda>acc'. walk_params ([2, of_nat (length (open_caps o'))] @ open_caps o') (2 + length (open_caps o')) acc')"
    by (subst walk_params.simps) (simp add: rust_simps Let_def len)
  moreover have "walk_params ([2, of_nat (length (open_caps o'))] @ open_caps o') (2 + length (open_caps o')) acc' = Ok acc'"
    for acc' by (subst walk_params.simps) simp
  ultimately show ?thesis by (cases "walk_caps (open_caps o') 0 acc") auto
qed

lemma decode_open_encode:
  assumes "encode_open_body o' = Ok body"
  shows "decode_open body = Ok o'"
proof -
  let ?caps = "open_caps o'"
  obtain my_as where body: "body = [4] @ be16 my_as @ be16 (om_hold_time o') @ be32 (om_router_id o') @
     [of_nat (length ?caps + 2), 2, of_nat (length ?caps)] @ ?caps"
    using encode_open_body_Ok [of o'] assms by auto
  have opt: "unat (of_nat (length ?caps + 2) :: u8) = length ?caps + 2"
    using length_open_caps [of o'] by (intro unat_of_nat_u8) simp
  have walk: "walk_params ([2, of_nat (length ?caps)] @ ?caps) 0
      \<lparr>oa_asn_4octet = None, oa_ipv4_unicast = False, oa_ipv6_unicast = False,
       oa_flowspec_v4 = False, oa_flowspec_v6 = False\<rparr>
    = Ok \<lparr>oa_asn_4octet = Some (om_asn o'), oa_ipv4_unicast = om_ipv4_unicast o',
       oa_ipv6_unicast = om_ipv6_unicast o', oa_flowspec_v4 = om_flowspec_v4 o',
       oa_flowspec_v6 = om_flowspec_v6 o'\<rparr>"
  proof -
    have "\<forall>c\<in>set (open_cap_list o'). length (snd c) < 256" by (auto simp: open_cap_list_def)
    from walk_caps_enc [OF this, of "[]"] open_caps_walk [of o'] show ?thesis
      unfolding walk_params_open unfolding open_caps_list by simp
  qed
  have n: "length body = 12 + length ?caps" by (simp add: body)
  have ix: "body ! 1 = ucast (drop_bit 8 my_as)" "body ! 2 = ucast my_as"
    "body ! 3 = ucast (drop_bit 8 (om_hold_time o'))" "body ! 4 = ucast (om_hold_time o')"
    "body ! 5 = ucast (drop_bit 24 (om_router_id o'))" "body ! 6 = ucast (drop_bit 16 (om_router_id o'))"
    "body ! 7 = ucast (drop_bit 8 (om_router_id o'))" "body ! 8 = ucast (om_router_id o')"
    "body ! 9 = of_nat (length ?caps + 2)"
    by (simp_all add: body be16_def be32_def)
  have sl: "slice body 10 (10 + (length ?caps + 2)) = Ok ([2, of_nat (length ?caps)] @ ?caps)"
    by (simp add: slice_def body)
  show ?thesis
    unfolding decode_open_def Let_def using n
    by (simp only: idx_Ok ix opt obind.simps sl walk) (simp add: rust_simps n ix opt sl walk Let_def)
qed

lemma encode_open_len: "encode_open o' = Ok bytes \<Longrightarrow> length bytes \<le> 4096"
  using encode_open_body_Ok [of o'] length_open_caps [of o']
  by (auto simp: encode_open_def encode_header_def Let_def obind_eq_Ok MARKER_def opt_expect_def split: option.splits)

text \<open>The messages the speaker sends, and the encoder of each.\<close>

fun encode_message :: "bgp_message \<Rightarrow> u8 list bgp" where
  "encode_message (Open o') = encode_open o'"
| "encode_message Keepalive = encode_keepalive"
| "encode_message (Notification n) = encode_notification n"
| "encode_message Update = Panic"

lemma decode_encoded:
  assumes "encode_message m = Ok bytes" "length bytes \<le> 4096"
  shows "decode_message (bytes @ rest) = Ok (m, length bytes)"
proof -
  have dispatch: "decode_message (bytes @ rest) = (case msg_from_code t of
        Some MtOpen \<Rightarrow> obind (decode_open body) (\<lambda>o'. Ok (Open o', length bytes))
      | Some MtNotification \<Rightarrow> obind (decode_notification body) (\<lambda>n. Ok (Notification n, length bytes))
      | Some MtKeepalive \<Rightarrow> Ok (Keepalive, length bytes)
      | Some MtUpdate \<Rightarrow> Ok (Update, length bytes)
      | None \<Rightarrow> Err (Decode (UnknownType t)))"
    if "encode_header t body = Ok bytes" for t body
    using parse_header_encode(1,2) [OF that assms(2), of rest] by (simp add: decode_message_def)
  show ?thesis
  proof (cases m)
    case (Open o')
    with assms(1) obtain body where
      body: "encode_open_body o' = Ok body" "encode_header (msg_code MtOpen) body = Ok bytes"
      by (auto simp: encode_open_def obind_eq_Ok)
    from dispatch [OF body(2)] decode_open_encode [OF body(1)] Open show ?thesis
      by (simp del: msg_code.simps)
  next
    case Keepalive
    with assms(1) dispatch [of "msg_code MtKeepalive"] show ?thesis
      by (simp add: encode_keepalive_def del: msg_code.simps)
  next
    case Update with assms(1) show ?thesis by simp
  next
    case (Notification n)
    with assms(1) dispatch [of "msg_code MtNotification"] show ?thesis
      by (simp add: encode_notification_def decode_notification_def rust_simps del: msg_code.simps)
  qed
qed

lemma encode_message_header: "encode_message m = Ok bytes \<Longrightarrow> \<exists>t body. encode_header t body = Ok bytes"
  by (cases m) (auto simp: encode_open_def encode_keepalive_def encode_notification_def obind_eq_Ok)

section \<open>Properties\<close>

text \<open>Whatever bytes a peer sends, decoding neither indexes out of range nor panics, and a decoded
  message accounts for a number of bytes that lies in the buffer, is at least a header and at most
  4096, so that the read loop always advances.\<close>

lemma decode_message_total:
  "decode_message bytes \<noteq> Panic \<and>
   (\<forall>m n. decode_message bytes = Ok (m, n) \<longrightarrow> 19 \<le> n \<and> n \<le> 4096 \<and> n \<le> length bytes)"
  using decode_message_no_panic decode_message_len by blast

text \<open>C15. Decoding what an encoder produced, followed by any further bytes of the stream, gives the
  message back and consumes exactly its encoding: OPEN with all its capabilities, KEEPALIVE, and
  NOTIFICATION with any diagnostic data that fits a message.\<close>

theorem message_roundtrip:
  assumes "encode_message m = Ok bytes" "length bytes \<le> 4096"
  shows "decode_message (bytes @ rest) = Ok (m, length bytes)"
  by (rule decode_encoded [OF assms])

theorem message_roundtrip_witness:
  "\<exists>bytes. encode_message (Notification \<lparr>nm_code = 6, nm_subcode = 2, nm_data = [1, 2, 3]\<rparr>) = Ok bytes \<and>
     decode_message (bytes @ [255, 255]) = Ok (Notification \<lparr>nm_code = 6, nm_subcode = 2, nm_data = [1, 2, 3]\<rparr>, 24)"
proof -
  let ?n = "Notification \<lparr>nm_code = 6, nm_subcode = 2, nm_data = [1, 2, 3]\<rparr>"
  let ?b = "MARKER @ be16 24 @ [3, 6, 2, 1, 2, 3]"
  have e: "encode_message ?n = Ok ?b"
    by (simp add: encode_notification_def encode_header_def HEADER_LEN_def Let_def try_u16_def)
  have len: "length ?b = 24" by (simp add: MARKER_def)
  have "decode_message (?b @ [255, 255]) = Ok (?n, length ?b)"
    by (rule message_roundtrip [OF e]) (simp add: MARKER_def)
  with e show ?thesis unfolding len by blast
qed

end
