(* ===== verification/Bgp_Update.thy ===== *)
theory Bgp_Update
  imports Bgp_Message Detection
begin

text \<open>
  The UPDATE encoder of \<^verbatim>\<open>blackwall-bgp/src/update.rs\<close>: NLRI packing, path attributes, announce and
  withdraw for both families. \<open>trunc\<close> is the prefix truncation of the \<^verbatim>\<open>ipnet\<close> crate. The
  specification is a reader of UPDATE messages after RFC 4271, RFC 1997, RFC 8092 and RFC 4760: what
  a peer reads out of an encoded announce is the route that was announced.
\<close>

section \<open>Constants\<close>

definition FLAG_WELL_KNOWN :: u8 where "FLAG_WELL_KNOWN = 0x40"
definition FLAG_OPT_TRANS :: u8 where "FLAG_OPT_TRANS = 0xC0"
definition FLAG_OPT_NON_TRANS :: u8 where "FLAG_OPT_NON_TRANS = 0x80"
definition FLAG_EXTENDED_LEN :: u8 where "FLAG_EXTENDED_LEN = 0x10"
definition ATTR_ORIGIN :: u8 where "ATTR_ORIGIN = 1"
definition ATTR_AS_PATH :: u8 where "ATTR_AS_PATH = 2"
definition ATTR_NEXT_HOP :: u8 where "ATTR_NEXT_HOP = 3"
definition ATTR_COMMUNITIES :: u8 where "ATTR_COMMUNITIES = 8"
definition ATTR_MP_REACH_NLRI :: u8 where "ATTR_MP_REACH_NLRI = 14"
definition ATTR_MP_UNREACH_NLRI :: u8 where "ATTR_MP_UNREACH_NLRI = 15"
definition ATTR_EXTENDED_COMMUNITIES :: u8 where "ATTR_EXTENDED_COMMUNITIES = 16"
definition ATTR_LARGE_COMMUNITIES :: u8 where "ATTR_LARGE_COMMUNITIES = 32"
definition AFI_IPV6 :: u16 where "AFI_IPV6 = 2"
definition SAFI_UNICAST :: u8 where "SAFI_UNICAST = 1"

lemmas upd_consts =
  FLAG_WELL_KNOWN_def FLAG_OPT_TRANS_def FLAG_OPT_NON_TRANS_def FLAG_EXTENDED_LEN_def ATTR_ORIGIN_def
  ATTR_AS_PATH_def ATTR_NEXT_HOP_def ATTR_COMMUNITIES_def ATTR_MP_REACH_NLRI_def ATTR_MP_UNREACH_NLRI_def
  ATTR_EXTENDED_COMMUNITIES_def ATTR_LARGE_COMMUNITIES_def AFI_IPV6_def SAFI_UNICAST_def

section \<open>Encoder\<close>

definition encode_nlri :: "(ip_net \<Rightarrow> ip_net) \<Rightarrow> ip_net \<Rightarrow> u8 list bgp" where
  "encode_nlri trunc p =
     (let bits = prefix_len p; nbytes = (bits + 7) div 8; addr_octets = octets (net_addr (trunc p)) in
      obind (slice addr_octets 0 nbytes) (\<lambda>os. Ok ([of_nat bits] @ os)))"

definition push_attr :: "u8 list \<Rightarrow> u8 \<Rightarrow> u8 \<Rightarrow> u8 list \<Rightarrow> u8 list bgp" where
  "push_attr buf flags type_code value =
     (case try_u8 (length value) of
        Some len \<Rightarrow> Ok (buf @ [flags, type_code, len] @ value)
      | None \<Rightarrow> obind (opt_expect (try_u16 (length value))) (\<lambda>len.
          Ok (buf @ [flags OR FLAG_EXTENDED_LEN, type_code] @ be16 len @ value)))"

definition communities_val :: "(u16 \<times> u16) list \<Rightarrow> u8 list" where
  "communities_val cs = concat (map (\<lambda>(asn, community). be16 asn @ be16 community) cs)"

definition large_communities_val :: "(u32 \<times> u32 \<times> u32) list \<Rightarrow> u8 list" where
  "large_communities_val cs = concat (map (\<lambda>(g, l1, l2). be32 g @ be32 l1 @ be32 l2) cs)"

definition push_communities :: "u8 list \<Rightarrow> route \<Rightarrow> u8 list bgp" where
  "push_communities attrs r =
     obind (if r_communities r \<noteq> [] then push_attr attrs FLAG_OPT_TRANS ATTR_COMMUNITIES (communities_val (r_communities r))
            else Ok attrs) (\<lambda>attrs.
       if r_large_communities r \<noteq> []
       then push_attr attrs FLAG_OPT_TRANS ATTR_LARGE_COMMUNITIES (large_communities_val (r_large_communities r))
       else Ok attrs)"

definition build_announce :: "(ip_net \<Rightarrow> ip_net) \<Rightarrow> route \<Rightarrow> u8 list bgp" where
  "build_announce trunc r =
     (case (r_prefix r, r_next_hop r) of
        (NetV4 _ _, V4 nh) \<Rightarrow>
          obind (push_attr [] FLAG_WELL_KNOWN ATTR_ORIGIN [origin_wire (r_origin r)]) (\<lambda>attrs.
          obind (push_attr attrs FLAG_WELL_KNOWN ATTR_AS_PATH []) (\<lambda>attrs.
          obind (push_attr attrs FLAG_WELL_KNOWN ATTR_NEXT_HOP (be32 nh)) (\<lambda>attrs.
          obind (push_communities attrs r) (\<lambda>attrs.
          obind (encode_nlri trunc (r_prefix r)) (\<lambda>nlri.
          obind (opt_expect (try_u16 (length attrs))) (\<lambda>total_attr_len.
          encode_header 2 (be16 0 @ be16 total_attr_len @ attrs @ nlri)))))))
      | (NetV6 _ _, V6 nh) \<Rightarrow>
          obind (encode_nlri trunc (r_prefix r)) (\<lambda>nlri.
          let mp_reach_val = be16 AFI_IPV6 @ [SAFI_UNICAST] @ [16] @ be128 nh @ [0] @ nlri in
          obind (push_attr [] FLAG_WELL_KNOWN ATTR_ORIGIN [origin_wire (r_origin r)]) (\<lambda>attrs.
          obind (push_attr attrs FLAG_WELL_KNOWN ATTR_AS_PATH []) (\<lambda>attrs.
          obind (push_attr attrs FLAG_OPT_NON_TRANS ATTR_MP_REACH_NLRI mp_reach_val) (\<lambda>attrs.
          obind (push_communities attrs r) (\<lambda>attrs.
          obind (opt_expect (try_u16 (length attrs))) (\<lambda>total_attr_len.
          encode_header 2 (be16 0 @ be16 total_attr_len @ attrs)))))))
      | _ \<Rightarrow> Panic)"

definition build_withdraw :: "(ip_net \<Rightarrow> ip_net) \<Rightarrow> ip_net \<Rightarrow> u8 list bgp" where
  "build_withdraw trunc p =
     (case p of
        NetV4 _ _ \<Rightarrow>
          obind (encode_nlri trunc p) (\<lambda>nlri.
          obind (opt_expect (try_u16 (length nlri))) (\<lambda>withdrawn_len.
          encode_header 2 (be16 withdrawn_len @ nlri @ be16 0)))
      | NetV6 _ _ \<Rightarrow>
          obind (encode_nlri trunc p) (\<lambda>nlri.
          let mp_unreach_val = be16 AFI_IPV6 @ [SAFI_UNICAST] @ nlri in
          obind (push_attr [] FLAG_OPT_NON_TRANS ATTR_MP_UNREACH_NLRI mp_unreach_val) (\<lambda>attrs.
          obind (opt_expect (try_u16 (length attrs))) (\<lambda>total_attr_len.
          encode_header 2 (be16 0 @ be16 total_attr_len @ attrs)))))"

section \<open>What a peer reads\<close>

text \<open>A path attribute: flags without the extended-length bit, type code and value.\<close>

type_synonym path_attr = "u8 \<times> u8 \<times> u8 list"

function read_attrs :: "u8 list \<Rightarrow> path_attr list option" where
  "read_attrs [] = Some []"
| "read_attrs [x] = None"
| "read_attrs (fl # t # rest) =
     (if fl AND FLAG_EXTENDED_LEN = 0
      then (case rest of [] \<Rightarrow> None
            | l # r \<Rightarrow> if length r < unat l then None
                else map_option ((#) (fl, t, take (unat l) r)) (read_attrs (drop (unat l) r)))
      else (case rest of h # l # r \<Rightarrow>
              (let n = unat (from_be16 h l) in if length r < n then None
                else map_option ((#) (fl AND NOT FLAG_EXTENDED_LEN, t, take n r)) (read_attrs (drop n r)))
            | _ \<Rightarrow> None))"
  by pat_completeness auto
termination by (relation "measure length") auto

text \<open>A prefix: its length in bits, then the significant octets, zero-padded.\<close>

definition read_prefix :: "bool \<Rightarrow> u8 list \<Rightarrow> (ip_net \<times> u8 list) option" where
  "read_prefix v6 bs =
     (case bs of [] \<Rightarrow> None
      | b # rest \<Rightarrow>
         let bits = unat b; n = (bits + 7) div 8; width = (if v6 then 16 else 4);
             addr = take n rest @ replicate (width - n) 0 in
         if width < n \<or> length rest < n then None
         else if v6 then map_option (\<lambda>(a, _). (NetV6 a bits, drop n rest)) (read_be128 addr)
         else map_option (\<lambda>(a, _). (NetV4 a bits, drop n rest)) (read_be32 addr))"

definition attr_val :: "u8 \<Rightarrow> path_attr list \<Rightarrow> u8 list option" where
  "attr_val t attrs = map_option (\<lambda>(fl, t, v). v) (find (\<lambda>(fl, t', v). t' = t) attrs)"

fun read_communities :: "u8 list \<Rightarrow> (u16 \<times> u16) list option" where
  "read_communities [] = Some []"
| "read_communities (a # b # c # d # rest) =
     map_option ((#) (from_be16 a b, from_be16 c d)) (read_communities rest)"
| "read_communities _ = None"

fun read_large :: "u8 list \<Rightarrow> (u32 \<times> u32 \<times> u32) list option" where
  "read_large [] = Some []"
| "read_large (a # b # c # d # e # f # g # h # i # j # k # l # rest) =
     map_option ((#) (from_be32 a b c d, from_be32 e f g h, from_be32 i j k l)) (read_large rest)"
| "read_large _ = None"

definition read_origin :: "u8 list \<Rightarrow> origin option" where
  "read_origin v = (if v = [0] then Some Igp else if v = [1] then Some Egp
     else if v = [2] then Some Incomplete else None)"

text \<open>The body of an UPDATE: withdrawn prefixes, path attributes and trailing NLRI.\<close>

definition read_update_body :: "u8 list \<Rightarrow> (u8 list \<times> path_attr list \<times> u8 list) option" where
  "read_update_body body =
     (case body of a # b # r \<Rightarrow>
        let wl = unat (from_be16 a b); withdrawn = take wl r in
        if length r < wl then None
        else (case drop wl r of c # d # r' \<Rightarrow>
                let al = unat (from_be16 c d) in
                if length r' < al then None
                else map_option (\<lambda>attrs. (withdrawn, attrs, drop al r')) (read_attrs (take al r'))
              | _ \<Rightarrow> None)
      | _ \<Rightarrow> None)"

definition opt_attr :: "u8 \<Rightarrow> path_attr list \<Rightarrow> (u8 list \<Rightarrow> 'a list option) \<Rightarrow> 'a list option" where
  "opt_attr t attrs rd = (case attr_val t attrs of None \<Rightarrow> Some [] | Some v \<Rightarrow> rd v)"

datatype peer_view = SeesAnnounce route | SeesWithdraw ip_net

definition read_route :: "path_attr list \<Rightarrow> ip_net \<Rightarrow> ip_addr \<Rightarrow> peer_view option" where
  "read_route attrs p nh =
     (case attr_val ATTR_ORIGIN attrs of None \<Rightarrow> None | Some ov \<Rightarrow>
      (case (read_origin ov, opt_attr ATTR_COMMUNITIES attrs read_communities,
             opt_attr ATTR_LARGE_COMMUNITIES attrs read_large) of
         (Some og, Some cs, Some ls) \<Rightarrow> Some (SeesAnnounce
            \<lparr>r_prefix = p, r_next_hop = nh, r_origin = og, r_communities = cs, r_large_communities = ls\<rparr>)
       | _ \<Rightarrow> None))"

definition view_update :: "u8 list \<times> path_attr list \<times> u8 list \<Rightarrow> peer_view option" where
  "view_update u = (case u of (withdrawn, attrs, nlri) \<Rightarrow>
     if withdrawn \<noteq> [] then map_option (\<lambda>(p, _). SeesWithdraw p) (read_prefix False withdrawn)
     else (case attr_val ATTR_MP_UNREACH_NLRI attrs of
        Some v \<Rightarrow> if take 3 v \<noteq> [0, 2, 1] then None
          else map_option (\<lambda>(p, _). SeesWithdraw p) (read_prefix True (drop 3 v))
      | None \<Rightarrow>
        (case attr_val ATTR_MP_REACH_NLRI attrs of
           Some v \<Rightarrow> if take 4 v \<noteq> [0, 2, 1, 16] then None
             else (case read_be128 (drop 4 v) of Some (nh, reserved # v') \<Rightarrow>
                (case read_prefix True v' of Some (p, _) \<Rightarrow> read_route attrs p (V6 nh) | None \<Rightarrow> None)
              | _ \<Rightarrow> None)
         | None \<Rightarrow>
           (case (read_prefix False nlri, attr_val ATTR_NEXT_HOP attrs) of
              (Some (p, _), Some v) \<Rightarrow>
                (case read_be32 v of Some (nh, _) \<Rightarrow> read_route attrs p (V4 nh) | None \<Rightarrow> None)
            | _ \<Rightarrow> None))))"

text \<open>The frame: marker, length, type 2, then the body.\<close>

definition read_update_frame :: "u8 list \<Rightarrow> (u8 list \<times> path_attr list \<times> u8 list) option" where
  "read_update_frame bytes =
     (if take 16 bytes \<noteq> MARKER \<or> drop 18 bytes = [] \<or> bytes ! 18 \<noteq> 2
         \<or> unat (from_be16 (bytes ! 16) (bytes ! 17)) \<noteq> length bytes then None
      else read_update_body (drop 19 bytes))"

definition peer_reads :: "u8 list \<Rightarrow> peer_view option" where
  "peer_reads bytes = Option.bind (read_update_frame bytes) view_update"

section \<open>Attributes are read back\<close>

lemma bit_flags:
  "FLAG_EXTENDED_LEN AND FLAG_EXTENDED_LEN \<noteq> (0::u8)"
  by (simp add: FLAG_EXTENDED_LEN_def)

text \<open>An attribute's flags never use the extended-length bit themselves.\<close>

definition plain_flags :: "u8 \<Rightarrow> bool" where
  "plain_flags fl \<longleftrightarrow> fl AND FLAG_EXTENDED_LEN = 0"

lemma plain_flags_consts [simp]:
  "plain_flags FLAG_WELL_KNOWN" "plain_flags FLAG_OPT_TRANS" "plain_flags FLAG_OPT_NON_TRANS"
  by (simp_all add: plain_flags_def upd_consts)

lemma ext_flags:
  assumes "plain_flags fl"
  shows "(fl OR FLAG_EXTENDED_LEN) AND FLAG_EXTENDED_LEN \<noteq> 0"
    and "(fl OR FLAG_EXTENDED_LEN) AND NOT FLAG_EXTENDED_LEN = fl"
proof -
  have ext: "bit FLAG_EXTENDED_LEN n \<longleftrightarrow> n = 4" for n
  proof -
    have e: "FLAG_EXTENDED_LEN = (2 ^ 4 :: u8)" by (simp add: FLAG_EXTENDED_LEN_def)
    show ?thesis by (simp only: e bit_exp_iff) auto
  qed
  have "bit ((fl OR FLAG_EXTENDED_LEN) AND FLAG_EXTENDED_LEN) 4" by (simp add: bit_simps ext)
  then show "(fl OR FLAG_EXTENDED_LEN) AND FLAG_EXTENDED_LEN \<noteq> 0" by fastforce
  have "\<not> bit fl 4"
  proof
    assume "bit fl 4"
    then have "bit (fl AND FLAG_EXTENDED_LEN) 4" by (simp add: bit_simps ext)
    with assms show False by (simp add: plain_flags_def)
  qed
  then show "(fl OR FLAG_EXTENDED_LEN) AND NOT FLAG_EXTENDED_LEN = fl"
    by (intro bit_word_eqI) (auto simp: bit_simps ext)
qed

definition enc_attr :: "path_attr \<Rightarrow> u8 list" where
  "enc_attr a = (case a of (fl, t, v) \<Rightarrow>
     if length v < 256 then [fl, t, of_nat (length v)] @ v
     else [fl OR FLAG_EXTENDED_LEN, t] @ be16 (of_nat (length v)) @ v)"

lemma push_attr_enc:
  "length v < 65536 \<Longrightarrow> push_attr buf fl t v = Ok (buf @ enc_attr (fl, t, v))"
  by (simp add: push_attr_def enc_attr_def try_u8_def try_u16_def)

lemma read_attrs_enc:
  assumes "plain_flags fl" "length v < 65536"
  shows "read_attrs (enc_attr (fl, t, v) @ rest) = map_option ((#) (fl, t, v)) (read_attrs rest)"
proof (cases "length v < 256")
  case True
  with assms show ?thesis by (simp add: enc_attr_def plain_flags_def)
next
  case False
  have "unat (of_nat (length v) :: u16) = length v" using assms(2) by simp
  moreover have "enc_attr (fl, t, v) @ rest = (fl OR FLAG_EXTENDED_LEN) # t #
      ucast (drop_bit 8 (of_nat (length v) :: u16)) # ucast (of_nat (length v) :: u16) # v @ rest"
    using False by (simp add: enc_attr_def be16_def)
  ultimately show ?thesis
    using ext_flags [OF assms(1)] by (simp only: read_attrs.simps) (simp add: Let_def)
qed

lemma read_attrs_concat:
  assumes "\<forall>(fl, t, v)\<in>set attrs. plain_flags fl \<and> length v < 65536"
  shows "read_attrs (concat (map enc_attr attrs)) = Some attrs"
  using assms
proof (induction attrs)
  case (Cons a attrs)
  obtain fl t v where "a = (fl, t, v)" by (cases a)
  with Cons show ?case by (simp add: read_attrs_enc)
qed simp

lemma read_communities_val [simp]: "read_communities (communities_val cs) = Some cs"
  by (induction cs) (auto simp: communities_val_def be16_def)

lemma read_large_val [simp]: "read_large (large_communities_val cs) = Some cs"
  by (induction cs) (auto simp: large_communities_val_def be32_def)

lemma length_communities_val [simp]: "length (communities_val cs) = 4 * length cs"
  by (induction cs) (auto simp: communities_val_def)

lemma length_large_val [simp]: "length (large_communities_val cs) = 12 * length cs"
  by (induction cs) (auto simp: large_communities_val_def)

lemma read_origin_wire [simp]: "read_origin [origin_wire og] = Some og"
  by (cases og) (simp_all add: read_origin_def)

lemma read_update_body_enc:
  assumes "length w < 65536" "length (concat (map enc_attr attrs)) < 65536"
    and "\<forall>(fl, t, v)\<in>set attrs. plain_flags fl \<and> length v < 65536"
  shows "read_update_body (be16 (of_nat (length w)) @ w @ be16 (of_nat (length (concat (map enc_attr attrs))))
      @ concat (map enc_attr attrs) @ nlri) = Some (w, attrs, nlri)"
proof -
  have w: "unat (of_nat (length w) :: u16) = length w" using assms(1) by simp
  let ?a = "concat (map enc_attr attrs)"
  have a: "unat (of_nat (length ?a) :: u16) = length ?a" using assms(2) by (rule unat_of_nat_u16)
  define la :: u16 where "la = of_nat (length ?a)"
  define lw :: u16 where "lw = of_nat (length w)"
  have "read_update_body (be16 lw @ w @ be16 la @ ?a @ nlri) = Some (w, attrs, nlri)"
    using w a read_attrs_concat [OF assms(3)] unfolding la_def [symmetric] lw_def [symmetric]
    by (simp add: read_update_body_def be16_def Let_def)
  then show ?thesis by (simp only: la_def lw_def)
qed

section \<open>Announces and withdraws are read back\<close>

lemma encode_nlri_host:
  assumes "trunc_ok trunc" "is_host_route p"
  shows "encode_nlri trunc p = Ok ([of_nat (prefix_len p)] @ octets (net_addr p))"
  using assms(2) trunc_host [OF assms] by (cases p) (simp_all add: encode_nlri_def slice_def)

lemma read_prefix_host:
  "read_prefix False (32 # be32 a @ rest) = Some (NetV4 a 32, rest)"
  "read_prefix True (128 # be128 c @ rest) = Some (NetV6 c 128, rest)"
  using read_be(1) [of a "[]"] read_be(3) [of c "[]"] by (simp_all add: read_prefix_def Let_def)

definition community_attrs :: "route \<Rightarrow> path_attr list" where
  "community_attrs r =
     (if r_communities r \<noteq> [] then [(FLAG_OPT_TRANS, ATTR_COMMUNITIES, communities_val (r_communities r))] else []) @
     (if r_large_communities r \<noteq> [] then [(FLAG_OPT_TRANS, ATTR_LARGE_COMMUNITIES, large_communities_val (r_large_communities r))] else [])"

text \<open>The room the communities take; every route within this bound is encodable.\<close>

definition route_fits :: "route \<Rightarrow> bool" where
  "route_fits r \<longleftrightarrow> 4 * length (r_communities r) + 12 * length (r_large_communities r) \<le> 4000"

lemma push_communities_enc:
  assumes "route_fits r"
  shows "push_communities attrs r = Ok (attrs @ concat (map enc_attr (community_attrs r)))"
  using assms by (auto simp: push_communities_def community_attrs_def push_attr_enc route_fits_def)

lemma community_attrs_plain:
  "route_fits r \<Longrightarrow> \<forall>(fl, t, v)\<in>set (community_attrs r). plain_flags fl \<and> length v < 65536"
  by (auto simp: community_attrs_def route_fits_def)

lemma community_attrs_length:
  "route_fits r \<Longrightarrow> length (concat (map enc_attr (community_attrs r))) \<le> 4008"
  by (auto simp: community_attrs_def route_fits_def enc_attr_def)

lemma attr_val_simps [simp]:
  "attr_val t [] = None"
  "attr_val t ((fl, t', v) # attrs) = (if t' = t then Some v else attr_val t attrs)"
  by (simp_all add: attr_val_def)

lemma attr_val_append:
  "attr_val t (xs @ ys) = (case attr_val t xs of None \<Rightarrow> attr_val t ys | v \<Rightarrow> v)"
  by (induction xs) auto

lemma attr_val_community:
  "t \<notin> {ATTR_COMMUNITIES, ATTR_LARGE_COMMUNITIES} \<Longrightarrow> attr_val t (community_attrs r) = None"
  by (auto simp: community_attrs_def)

lemma read_route_enc:
  assumes "attr_val ATTR_ORIGIN hd_attrs = Some [origin_wire (r_origin r)]"
    and "attr_val ATTR_COMMUNITIES hd_attrs = None" "attr_val ATTR_LARGE_COMMUNITIES hd_attrs = None"
    and "attr_val ATTR_ORIGIN (hd_attrs @ community_attrs r) = attr_val ATTR_ORIGIN hd_attrs"
    and "attr_val ATTR_COMMUNITIES (hd_attrs @ community_attrs r) = attr_val ATTR_COMMUNITIES (community_attrs r)"
    and "attr_val ATTR_LARGE_COMMUNITIES (hd_attrs @ community_attrs r) = attr_val ATTR_LARGE_COMMUNITIES (community_attrs r)"
  shows "read_route (hd_attrs @ community_attrs r) (r_prefix r) (r_next_hop r) = Some (SeesAnnounce r)"
proof -
  have c: "opt_attr ATTR_COMMUNITIES (hd_attrs @ community_attrs r) read_communities = Some (r_communities r)"
    using assms(5) by (auto simp: opt_attr_def community_attrs_def upd_consts)
  have l: "opt_attr ATTR_LARGE_COMMUNITIES (hd_attrs @ community_attrs r) read_large = Some (r_large_communities r)"
    using assms(6) by (auto simp: opt_attr_def community_attrs_def upd_consts)
  show ?thesis using assms(1,4) c l by (simp add: read_route_def)
qed

lemma encode_update_frame:
  assumes "length w < 65536" "length (concat (map enc_attr attrs)) < 65536"
    and "\<forall>(fl, t, v)\<in>set attrs. plain_flags fl \<and> length v < 65536"
    and "body = be16 (of_nat (length w)) @ w @ be16 (of_nat (length (concat (map enc_attr attrs))))
      @ concat (map enc_attr attrs) @ nlri"
    and "19 + length body < 65536"
  shows "\<exists>bytes. encode_header 2 body = Ok bytes \<and> read_update_frame bytes = Some (w, attrs, nlri)"
proof -
  define n :: u16 where "n = of_nat (19 + length body)"
  have n: "unat n = 19 + length body" unfolding n_def using assms(5) by (rule unat_of_nat_u16)
  let ?b = "MARKER @ ucast (drop_bit 8 n) # ucast n # 2 # body"
  have enc: "encode_header 2 body = Ok ?b"
    using assms(5) by (simp add: encode_header_def HEADER_LEN_def try_u16_def be16_def n_def)
  have ix: "?b ! 16 = ucast (drop_bit 8 n)" "?b ! 17 = ucast n" "?b ! 18 = 2" "take 16 ?b = MARKER"
    "drop 18 ?b = 2 # body" "drop 19 ?b = body" "length ?b = 19 + length body"
    by (simp_all add: MARKER_def nth_append)
  have "read_update_frame ?b = read_update_body body"
    unfolding read_update_frame_def ix using n by simp
  also have "\<dots> = Some (w, attrs, nlri)" unfolding assms(4) by (rule read_update_body_enc [OF assms(1-3)])
  finally show ?thesis using enc by blast
qed

text \<open>An UPDATE whose multiprotocol attributes, if any, are for IPv6 unicast.\<close>

definition unicast_update :: "u8 list \<times> path_attr list \<times> u8 list \<Rightarrow> bool" where
  "unicast_update u = (case u of (withdrawn, attrs, nlri) \<Rightarrow>
     (\<forall>v. attr_val ATTR_MP_UNREACH_NLRI attrs = Some v \<longrightarrow> take 3 v = [0, 2, 1]) \<and>
     (\<forall>v. attr_val ATTR_MP_REACH_NLRI attrs = Some v \<longrightarrow> take 3 v = [0, 2, 1]))"

definition unicast_frame :: "u8 list \<Rightarrow> bool" where
  "unicast_frame bytes = (\<exists>u. read_update_frame bytes = Some u \<and> unicast_update u)"

lemma frame_view:
  "encode_header 2 body = Ok bytes \<and> read_update_frame bytes = Some u \<Longrightarrow> view_update u = Some v \<and> unicast_update u \<Longrightarrow>
   \<exists>bytes. encode_header 2 body = Ok bytes \<and> peer_reads bytes = Some v \<and> unicast_frame bytes"
  by (cases u) (simp add: peer_reads_def unicast_frame_def)

fun same_family :: "ip_net \<Rightarrow> ip_addr \<Rightarrow> bool" where
  "same_family (NetV4 _ _) (V4 _) = True"
| "same_family (NetV6 _ _) (V6 _) = True"
| "same_family _ _ = False"

definition v4_attrs :: "route \<Rightarrow> u32 \<Rightarrow> path_attr list" where
  "v4_attrs r nh = [(FLAG_WELL_KNOWN, ATTR_ORIGIN, [origin_wire (r_origin r)]), (FLAG_WELL_KNOWN, ATTR_AS_PATH, []),
     (FLAG_WELL_KNOWN, ATTR_NEXT_HOP, be32 nh)]"

definition v6_attrs :: "route \<Rightarrow> u128 \<Rightarrow> u128 \<Rightarrow> path_attr list" where
  "v6_attrs r nh c = [(FLAG_WELL_KNOWN, ATTR_ORIGIN, [origin_wire (r_origin r)]), (FLAG_WELL_KNOWN, ATTR_AS_PATH, []),
     (FLAG_OPT_NON_TRANS, ATTR_MP_REACH_NLRI, [0, 2, 1, 16] @ be128 nh @ [0] @ [128] @ be128 c)]"

lemma announce_v4:
  assumes "trunc_ok trunc" "route_fits r" "r_prefix r = NetV4 a 32" "r_next_hop r = V4 nh"
  shows "\<exists>bytes. build_announce trunc r = Ok bytes \<and> peer_reads bytes = Some (SeesAnnounce r) \<and> unicast_frame bytes"
proof -
  let ?attrs = "v4_attrs r nh @ community_attrs r"
  let ?a = "concat (map enc_attr ?attrs)"
  let ?nlri = "[32] @ be32 a"
  let ?body = "be16 0 @ be16 (of_nat (length ?a)) @ ?a @ ?nlri"
  have la: "length ?a \<le> 4050"
    using community_attrs_length [OF assms(2)] by (simp add: v4_attrs_def enc_attr_def)
  have nlri: "encode_nlri trunc (r_prefix r) = Ok ?nlri"
    using encode_nlri_host [OF assms(1), of "r_prefix r"] assms(3) by simp
  have build: "build_announce trunc r = encode_header 2 ?body"
    using la nlri assms(3,4)
    by (simp add: build_announce_def push_attr_enc push_communities_enc [OF assms(2)] v4_attrs_def try_u16_def)
  have frame: "\<exists>bytes. encode_header 2 ?body = Ok bytes \<and> read_update_frame bytes = Some ([], ?attrs, ?nlri)"
    using la community_attrs_plain [OF assms(2)]
    by (intro encode_update_frame) (auto simp: v4_attrs_def)
  have "read_route ?attrs (r_prefix r) (r_next_hop r) = Some (SeesAnnounce r)"
    by (rule read_route_enc) (simp_all add: v4_attrs_def upd_consts)
  moreover have attr_vals: "attr_val ATTR_MP_UNREACH_NLRI ?attrs = None" "attr_val ATTR_MP_REACH_NLRI ?attrs = None"
      "attr_val ATTR_NEXT_HOP ?attrs = Some (be32 nh)"
    by (simp_all add: attr_val_append attr_val_community v4_attrs_def upd_consts)
  ultimately have "view_update ([], ?attrs, ?nlri) = Some (SeesAnnounce r) \<and> unicast_update ([], ?attrs, ?nlri)"
    using assms(3,4) read_prefix_host(1) [of a "[]"] read_be(1) [of nh "[]"] attr_vals
    by (simp add: view_update_def unicast_update_def)
  with frame show ?thesis unfolding build using frame_view by blast
qed

lemma announce_v6:
  assumes "trunc_ok trunc" "route_fits r" "r_prefix r = NetV6 c 128" "r_next_hop r = V6 nh"
  shows "\<exists>bytes. build_announce trunc r = Ok bytes \<and> peer_reads bytes = Some (SeesAnnounce r) \<and> unicast_frame bytes"
proof -
  let ?attrs = "v6_attrs r nh c @ community_attrs r"
  let ?a = "concat (map enc_attr ?attrs)"
  let ?body = "be16 0 @ be16 (of_nat (length ?a)) @ ?a"
  have la: "length ?a \<le> 4090"
    using community_attrs_length [OF assms(2)] by (simp add: v6_attrs_def enc_attr_def)
  have nlri: "encode_nlri trunc (r_prefix r) = Ok ([128] @ be128 c)"
    using encode_nlri_host [OF assms(1), of "r_prefix r"] assms(3) by simp
  have build: "build_announce trunc r = encode_header 2 ?body"
    using la nlri assms(3,4)
    by (simp add: build_announce_def push_attr_enc push_communities_enc [OF assms(2)] v6_attrs_def try_u16_def
        be16_def AFI_IPV6_def SAFI_UNICAST_def)
  have frame: "\<exists>bytes. encode_header 2 ?body = Ok bytes \<and> read_update_frame bytes = Some ([], ?attrs, [])"
    using la community_attrs_plain [OF assms(2)]
    by (intro encode_update_frame) (auto simp: v6_attrs_def)
  have "read_route ?attrs (r_prefix r) (r_next_hop r) = Some (SeesAnnounce r)"
    by (rule read_route_enc) (simp_all add: v6_attrs_def upd_consts)
  moreover have "attr_val ATTR_MP_UNREACH_NLRI ?attrs = None"
      "attr_val ATTR_MP_REACH_NLRI ?attrs = Some ([0, 2, 1, 16] @ be128 nh @ [0] @ [128] @ be128 c)"
    by (simp_all add: attr_val_append attr_val_community v6_attrs_def upd_consts)
  ultimately have "view_update ([], ?attrs, []) = Some (SeesAnnounce r) \<and> unicast_update ([], ?attrs, [])"
    using assms(3,4) read_prefix_host(2) [of c "[]"] read_be(3) [of nh "0 # 128 # be128 c"]
    by (simp add: view_update_def unicast_update_def)
  with frame show ?thesis unfolding build using frame_view by blast
qed

lemma withdraw_host:
  assumes "trunc_ok trunc" "is_host_route p"
  shows "\<exists>bytes. build_withdraw trunc p = Ok bytes \<and> peer_reads bytes = Some (SeesWithdraw p) \<and> unicast_frame bytes"
proof (cases p)
  case (NetV4 a n)
  with assms(2) have n: "n = 32" by simp
  let ?nlri = "[32] @ be32 a" and ?e = "[] :: u8 list"
  let ?body = "be16 (of_nat (length ?nlri)) @ ?nlri @ be16 (of_nat (length ?e)) @ ?e @ []"
  have build: "build_withdraw trunc p = encode_header 2 ?body"
    using encode_nlri_host [OF assms] NetV4 n by (simp add: build_withdraw_def try_u16_def)
  have "\<exists>bytes. encode_header 2 ?body = Ok bytes \<and> read_update_frame bytes = Some (?nlri, [], [])"
    by (intro encode_update_frame) auto
  moreover have "view_update (?nlri, [], []) = Some (SeesWithdraw p) \<and> unicast_update (?nlri, [], [])"
    using read_prefix_host(1) [of a "[]"] NetV4 n by (simp add: view_update_def unicast_update_def)
  ultimately show ?thesis unfolding build using frame_view by blast
next
  case (NetV6 c n)
  with assms(2) have n: "n = 128" by simp
  let ?attrs = "[(FLAG_OPT_NON_TRANS, ATTR_MP_UNREACH_NLRI, [0, 2, 1] @ [128] @ be128 c)]"
  let ?a = "concat (map enc_attr ?attrs)"
  let ?body = "be16 (of_nat (length ([] :: u8 list))) @ [] @ be16 (of_nat (length ?a)) @ ?a @ []"
  have build: "build_withdraw trunc p = encode_header 2 ?body"
    using encode_nlri_host [OF assms] NetV6 n
    by (simp add: build_withdraw_def push_attr_enc try_u16_def enc_attr_def be16_def AFI_IPV6_def SAFI_UNICAST_def)
  have "\<exists>bytes. encode_header 2 ?body = Ok bytes \<and> read_update_frame bytes = Some ([], ?attrs, [])"
    by (intro encode_update_frame) (auto simp: enc_attr_def)
  moreover have "view_update ([], ?attrs, []) = Some (SeesWithdraw p) \<and> unicast_update ([], ?attrs, [])"
    using read_prefix_host(2) [of c "[]"] NetV6 n by (simp add: view_update_def unicast_update_def upd_consts)
  ultimately show ?thesis unfolding build using frame_view by blast
qed

section \<open>Properties\<close>

text \<open>
  C13. For every host route the controllers announce (a /32 or /128 whose next hop has the same
  family, with at most 4000 octets of communities) \<^verbatim>\<open>build_announce\<close> does not panic, and a peer that
  reads the produced UPDATE by the RFCs recovers exactly that route: prefix, next hop, origin, every
  community and every large community. A family mismatch is the panic of the source.
\<close>

theorem announce_read_back:
  assumes "trunc_ok trunc" "is_host_route (r_prefix r)" "route_fits r"
  shows "if same_family (r_prefix r) (r_next_hop r)
    then \<exists>bytes. build_announce trunc r = Ok bytes \<and> peer_reads bytes = Some (SeesAnnounce r)
    else build_announce trunc r = Panic"
proof (cases "same_family (r_prefix r) (r_next_hop r)")
  case True
  then show ?thesis
    using assms announce_v4 [OF assms(1,3)] announce_v6 [OF assms(1,3)]
    by (cases "r_prefix r"; cases "r_next_hop r") auto
next
  case False
  then show ?thesis by (cases "r_prefix r"; cases "r_next_hop r") (simp_all add: build_announce_def)
qed

definition sample_route :: route where
  "sample_route = \<lparr>r_prefix = NetV4 0xC6336407 32, r_next_hop = V4 0xC0000201, r_origin = Igp,
     r_communities = [(65535, 666)], r_large_communities = []\<rparr>"

theorem announce_read_back_witness:
  "\<exists>bytes. build_announce net_trunc sample_route = Ok bytes \<and> peer_reads bytes = Some (SeesAnnounce sample_route)"
  using announce_read_back [of net_trunc sample_route] by (simp add: sample_route_def route_fits_def net_trunc_ok)

text \<open>
  Withdrawing a host route never panics, and a peer reads the produced UPDATE as the withdrawal
  of exactly that prefix, for both address families.
\<close>

lemma withdraw_read_back:
  assumes "trunc_ok trunc" "is_host_route p"
  shows "\<exists>bytes. build_withdraw trunc p = Ok bytes \<and> peer_reads bytes = Some (SeesWithdraw p)"
  using withdraw_host [OF assms] by blast

end
