(* ===== verification/Bgp_Flowspec.thy ===== *)
theory Bgp_Flowspec
  imports Bgp_Update
begin

text \<open>
  The FlowSpec encoder of \<^verbatim>\<open>blackwall-bgp/src/flowspec.rs\<close> (RFC 8955 and RFC 8956, SAFI 133): the
  match components, the traffic-rate action and the announce and withdraw UPDATEs. The specification
  is again a reader of the wire format, from which it follows that two host rules have the same
  encoded match exactly when they match the same traffic.
\<close>

section \<open>Encoder\<close>

definition COMP_DST_PREFIX :: u8 where "COMP_DST_PREFIX = 1"
definition COMP_IP_PROTO :: u8 where "COMP_IP_PROTO = 3"
definition COMP_DST_PORT :: u8 where "COMP_DST_PORT = 5"
definition SAFI_FLOWSPEC :: u8 where "SAFI_FLOWSPEC = 133"

lemmas fs_consts = COMP_DST_PREFIX_def COMP_IP_PROTO_def COMP_DST_PORT_def SAFI_FLOWSPEC_def

definition push_numeric_eq :: "u8 list \<Rightarrow> u64 \<Rightarrow> nat \<Rightarrow> u8 list bgp" where
  "push_numeric_eq out v len_bytes =
     (let len_field = (if len_bytes = 1 then 0 else if len_bytes = 2 then 1 else if len_bytes = 4 then 2 else 3);
          oper = 0x80 OR push_bit 4 len_field OR 0x01 in
      if 8 < len_bytes then Panic
      else obind (slice (be64 v) (8 - len_bytes) 8) (\<lambda>bytes. Ok (out @ [oper] @ bytes)))"

definition push_two_byte_len :: "u8 list \<Rightarrow> nat \<Rightarrow> u8 list bgp" where
  "push_two_byte_len out len = obind (opt_expect (try_u16 len)) (\<lambda>l. Ok (out @ be16 (0xF000 OR l)))"

definition push_dst_prefix :: "(ip_net \<Rightarrow> ip_net) \<Rightarrow> flowspec_rule \<Rightarrow> u8 list bgp" where
  "push_dst_prefix trunc rule =
     (let dst = trunc (fl_dst rule); bits = prefix_len dst; nbytes = (bits + 7) div 8 in
      obind (slice (octets (net_addr dst)) 0 nbytes) (\<lambda>os.
        Ok ([COMP_DST_PREFIX, of_nat bits] @ (case net_addr dst of V4 _ \<Rightarrow> [] | V6 _ \<Rightarrow> [0]) @ os)))"

definition encode_flowspec_nlri :: "(ip_net \<Rightarrow> ip_net) \<Rightarrow> flowspec_rule \<Rightarrow> u8 list bgp" where
  "encode_flowspec_nlri trunc rule =
     obind (push_dst_prefix trunc rule) (\<lambda>comps.
     obind (case fl_protocol rule of None \<Rightarrow> Ok comps
            | Some proto \<Rightarrow> push_numeric_eq (comps @ [COMP_IP_PROTO]) (ucast proto) 1) (\<lambda>comps.
     obind (case fl_dst_port rule of None \<Rightarrow> Ok comps
            | Some port \<Rightarrow> push_numeric_eq (comps @ [COMP_DST_PORT]) (ucast port) (if port < 256 then 1 else 2)) (\<lambda>comps.
     obind (case try_u8 (length comps) of
              Some len \<Rightarrow> if len < 0xF0 then Ok [len] else push_two_byte_len [] (length comps)
            | None \<Rightarrow> push_two_byte_len [] (length comps)) (\<lambda>out.
     Ok (out @ comps)))))"

definition traffic_rate_community :: "f32 \<Rightarrow> u8 list" where
  "traffic_rate_community rate = [0x80, 0x06, 0, 0] @ be32 rate"

definition afi_of :: "flowspec_rule \<Rightarrow> u16" where
  "afi_of rule = (case fl_dst rule of NetV4 _ _ \<Rightarrow> 1 | NetV6 _ _ \<Rightarrow> 2)"

definition build_flowspec_announce :: "(ip_net \<Rightarrow> ip_net) \<Rightarrow> flowspec_rule \<Rightarrow> u8 list bgp" where
  "build_flowspec_announce trunc rule =
     obind (encode_flowspec_nlri trunc rule) (\<lambda>nlri.
     case fl_action rule of TrafficRate rate \<Rightarrow>
     let mp_reach = be16 (afi_of rule) @ [SAFI_FLOWSPEC] @ [0] @ [0] @ nlri in
     obind (push_attr [] FLAG_WELL_KNOWN ATTR_ORIGIN [origin_wire Igp]) (\<lambda>attrs.
     obind (push_attr attrs FLAG_WELL_KNOWN ATTR_AS_PATH []) (\<lambda>attrs.
     obind (push_attr attrs FLAG_OPT_TRANS ATTR_EXTENDED_COMMUNITIES (traffic_rate_community rate)) (\<lambda>attrs.
     obind (push_attr attrs FLAG_OPT_NON_TRANS ATTR_MP_REACH_NLRI mp_reach) (\<lambda>attrs.
     obind (opt_expect (try_u16 (length attrs))) (\<lambda>total_attr_len.
     encode_header 2 (be16 0 @ be16 total_attr_len @ attrs)))))))"

definition build_flowspec_withdraw :: "(ip_net \<Rightarrow> ip_net) \<Rightarrow> flowspec_rule \<Rightarrow> u8 list bgp" where
  "build_flowspec_withdraw trunc rule =
     obind (encode_flowspec_nlri trunc rule) (\<lambda>nlri.
     let mp_unreach = be16 (afi_of rule) @ [SAFI_FLOWSPEC] @ nlri in
     obind (push_attr [] FLAG_OPT_NON_TRANS ATTR_MP_UNREACH_NLRI mp_unreach) (\<lambda>attrs.
     obind (opt_expect (try_u16 (length attrs))) (\<lambda>total_attr_len.
     encode_header 2 (be16 0 @ be16 total_attr_len @ attrs))))"

section \<open>What a peer reads\<close>

text \<open>
  A numeric component of type \<open>t\<close> with one equality operator: operator octet \<^verbatim>\<open>0x81\<close> carries one
  value octet, \<^verbatim>\<open>0x91\<close> two. An absent component leaves the input as it is.
\<close>

definition read_numeric :: "u8 \<Rightarrow> u8 list \<Rightarrow> (u16 option \<times> u8 list) option" where
  "read_numeric t bs =
     (case bs of c # oper # v # rest \<Rightarrow>
        if c \<noteq> t then Some (None, bs)
        else if oper = 0x81 then Some (Some (ucast v), rest)
        else if oper = 0x91 then (case rest of [] \<Rightarrow> None | w # rest' \<Rightarrow> Some (Some (from_be16 v w), rest'))
        else None
      | _ \<Rightarrow> Some (None, bs))"

definition read_fs_prefix :: "bool \<Rightarrow> u8 list \<Rightarrow> (ip_net \<times> u8 list) option" where
  "read_fs_prefix v6 bs =
     (case bs of t # bits # rest \<Rightarrow>
        if t \<noteq> 1 then None
        else if v6 then (case rest of off # rest' \<Rightarrow> if off = 0 then read_prefix True (bits # rest') else None | [] \<Rightarrow> None)
        else read_prefix False (bits # rest)
      | _ \<Rightarrow> None)"

type_synonym flow_match = "ip_net \<times> u8 option \<times> u16 option"

definition read_components :: "bool \<Rightarrow> u8 list \<Rightarrow> flow_match option" where
  "read_components v6 comps =
     (case read_fs_prefix v6 comps of None \<Rightarrow> None | Some (dst, r) \<Rightarrow>
      (case read_numeric 3 r of None \<Rightarrow> None | Some (proto, r) \<Rightarrow>
       (case read_numeric 5 r of None \<Rightarrow> None | Some (port, r) \<Rightarrow>
          if r = [] then Some (dst, map_option ucast proto, port) else None)))"

text \<open>The components behind the length of RFC 8955, section 4: one octet below 240, else two.\<close>

definition read_flowspec_nlri :: "bool \<Rightarrow> u8 list \<Rightarrow> flow_match option" where
  "read_flowspec_nlri v6 bs =
     (case bs of [] \<Rightarrow> None
      | l # rest \<Rightarrow>
         if unat l < 240 then (if length rest = unat l then read_components v6 rest else None)
         else (case rest of [] \<Rightarrow> None
               | h # rest' \<Rightarrow> if length rest' = unat (from_be16 l h AND 0x0FFF) then read_components v6 rest' else None))"

datatype fs_view = SeesRule flow_match f32 | SeesRuleWithdraw flow_match

definition read_rate :: "u8 list \<Rightarrow> f32 option" where
  "read_rate v = (if take 2 v = [0x80, 0x06] then map_option fst (read_be32 (drop 4 v)) else None)"

definition fs_afi :: "u8 list \<Rightarrow> bool option" where
  "fs_afi v = (if take 3 v = [0, 1, 133] then Some False else if take 3 v = [0, 2, 133] then Some True else None)"

definition fs_view_update :: "u8 list \<times> path_attr list \<times> u8 list \<Rightarrow> fs_view option" where
  "fs_view_update u = (case u of (withdrawn, attrs, nlri) \<Rightarrow>
     (case attr_val ATTR_MP_UNREACH_NLRI attrs of
        Some v \<Rightarrow> Option.bind (fs_afi v) (\<lambda>v6. map_option SeesRuleWithdraw (read_flowspec_nlri v6 (drop 3 v)))
      | None \<Rightarrow>
        (case (attr_val ATTR_MP_REACH_NLRI attrs, attr_val ATTR_EXTENDED_COMMUNITIES attrs) of
           (Some v, Some ec) \<Rightarrow> Option.bind (fs_afi v) (\<lambda>v6. Option.bind (read_rate ec) (\<lambda>rate.
              map_option (\<lambda>m. SeesRule m rate) (read_flowspec_nlri v6 (drop 5 v))))
         | _ \<Rightarrow> None)))"

definition fs_peer_reads :: "u8 list \<Rightarrow> fs_view option" where
  "fs_peer_reads bytes = Option.bind (read_update_frame bytes) fs_view_update"

section \<open>Rules are read back\<close>

lemma be64_low:
  "slice (be64 (ucast (w :: u8))) 7 8 = Ok [w]"
  "slice (be64 (ucast (p :: u16))) 7 8 = Ok [ucast p]"
  "slice (be64 (ucast p)) 6 8 = Ok [ucast (drop_bit 8 p), ucast p]"
proof -
  have a: "(ucast (ucast (ucast (w :: u8) :: u64) :: u32) :: u8) = w"
    by (rule bit_word_eqI) (auto simp: bit_simps)
  have b: "(ucast (ucast (ucast (p :: u16) :: u64) :: u32) :: u8) = ucast p"
    by (rule bit_word_eqI) (auto simp: bit_simps)
  have c: "(ucast (drop_bit 8 (ucast (ucast p :: u64) :: u32)) :: u8) = ucast (drop_bit 8 p)"
    by (rule bit_word_eqI) (auto simp: bit_simps)
  show "slice (be64 (ucast (w :: u8))) 7 8 = Ok [w]"
    "slice (be64 (ucast (p :: u16))) 7 8 = Ok [ucast p]"
    "slice (be64 (ucast p)) 6 8 = Ok [ucast (drop_bit 8 p), ucast p]"
    using a b c by (simp_all add: slice_def be64_def be32_def)
qed

lemma ucast_small_port: "(p :: u16) < 256 \<Longrightarrow> ucast (ucast p :: u8) = p"
  by (simp add: word_unat_eq_iff unsigned_ucast_eq word_less_nat_alt unsigned_take_bit_eq take_bit_nat_eq_self_iff)

lemma ucast_u8_u16 [simp]: "(ucast (ucast (a :: u8) :: u16) :: u8) = a"
  by (rule bit_word_eqI) (auto simp: bit_simps)

definition proto_comp :: "u8 option \<Rightarrow> u8 list" where
  "proto_comp x = (case x of None \<Rightarrow> [] | Some p \<Rightarrow> [3, 0x81, p])"

definition port_comp :: "u16 option \<Rightarrow> u8 list" where
  "port_comp x = (case x of None \<Rightarrow> []
     | Some p \<Rightarrow> if p < 256 then [5, 0x81, ucast p] else [5, 0x91, ucast (drop_bit 8 p), ucast p])"

definition dst_comp :: "ip_net \<Rightarrow> u8 list" where
  "dst_comp p = (case p of NetV4 a l \<Rightarrow> [1, of_nat l] @ be32 a | NetV6 a l \<Rightarrow> [1, of_nat l, 0] @ be128 a)"

lemma encode_flowspec_nlri_host:
  assumes "trunc_ok trunc" "is_host_route (fl_dst f)"
  shows "encode_flowspec_nlri trunc f =
    (let comps = dst_comp (fl_dst f) @ proto_comp (fl_protocol f) @ port_comp (fl_dst_port f) in
     Ok (of_nat (length comps) # comps)) \<and>
    length (dst_comp (fl_dst f) @ proto_comp (fl_protocol f) @ port_comp (fl_dst_port f)) < 30"
proof -
  have dst: "push_dst_prefix trunc f = Ok (dst_comp (fl_dst f))"
    using assms(2) trunc_host [OF assms]
    by (cases "fl_dst f") (simp_all add: push_dst_prefix_def dst_comp_def slice_def Let_def fs_consts)
  have len: "length (dst_comp (fl_dst f)) \<le> 19" "length (proto_comp (fl_protocol f)) \<le> 3"
    "length (port_comp (fl_dst_port f)) \<le> 4"
    by (auto simp: dst_comp_def proto_comp_def port_comp_def split: ip_net.splits option.splits)
  have proto: "(case fl_protocol f of None \<Rightarrow> Ok comps
      | Some proto \<Rightarrow> push_numeric_eq (comps @ [COMP_IP_PROTO]) (ucast proto) 1) =
      (Ok (comps @ proto_comp (fl_protocol f)) :: u8 list bgp)" for comps
    by (cases "fl_protocol f") (simp_all add: push_numeric_eq_def be64_low proto_comp_def fs_consts)
  have port: "(case fl_dst_port f of None \<Rightarrow> Ok comps
      | Some port \<Rightarrow> push_numeric_eq (comps @ [COMP_DST_PORT]) (ucast port) (if port < 256 then 1 else 2)) =
      (Ok (comps @ port_comp (fl_dst_port f)) :: u8 list bgp)" for comps
    by (cases "fl_dst_port f") (simp_all add: push_numeric_eq_def be64_low port_comp_def fs_consts)
  have small: "n < 30 \<Longrightarrow> (of_nat n :: u8) < 0xF0" for n by (simp add: word_less_nat_alt)
  define comps where "comps = dst_comp (fl_dst f) @ proto_comp (fl_protocol f) @ port_comp (fl_dst_port f)"
  have "length comps < 30" using len by (simp add: comps_def)
  moreover from this small have "(of_nat (length comps) :: u8) < 0xF0" by simp
  ultimately show ?thesis
    unfolding encode_flowspec_nlri_def dst proto port obind.simps append_assoc comps_def [symmetric]
    by (simp add: try_u8_def Let_def)
qed

lemma read_numeric_proto:
  "rest = [] \<or> hd rest = 5 \<Longrightarrow> read_numeric 3 (proto_comp x @ rest) = Some (map_option ucast x, rest)"
  by (auto simp: read_numeric_def proto_comp_def split: option.splits list.splits)

lemma read_numeric_port: "read_numeric 5 (port_comp x) = Some (x, [])"
  by (auto simp: read_numeric_def port_comp_def ucast_small_port split: option.splits)

lemma read_fs_prefix_dst:
  assumes "is_host_route p"
  shows "read_fs_prefix (case p of NetV4 _ _ \<Rightarrow> False | NetV6 _ _ \<Rightarrow> True) (dst_comp p @ rest) = Some (p, rest)"
  using assms read_prefix_host by (cases p) (simp_all add: read_fs_prefix_def dst_comp_def)

definition is_v6 :: "ip_net \<Rightarrow> bool" where
  "is_v6 p = (case p of NetV4 _ _ \<Rightarrow> False | NetV6 _ _ \<Rightarrow> True)"

definition match_of :: "flowspec_rule \<Rightarrow> flow_match" where
  "match_of f = (fl_dst f, fl_protocol f, fl_dst_port f)"

lemma read_components_host:
  assumes "is_host_route (fl_dst f)"
  shows "read_components (is_v6 (fl_dst f)) (dst_comp (fl_dst f) @ proto_comp (fl_protocol f) @ port_comp (fl_dst_port f))
    = Some (match_of f)"
proof -
  have "port_comp (fl_dst_port f) = [] \<or> hd (port_comp (fl_dst_port f)) = 5"
    by (simp add: port_comp_def split: option.splits)
  moreover have "map_option ucast (map_option (ucast :: u8 \<Rightarrow> u16) x) = x" for x :: "u8 option"
    by (cases x) simp_all
  ultimately show ?thesis
    using read_fs_prefix_dst [OF assms]
    by (simp add: read_components_def read_numeric_proto read_numeric_port is_v6_def match_of_def)
qed

lemma flowspec_nlri_host:
  assumes "trunc_ok trunc" "is_host_route (fl_dst f)"
  obtains nlri where "encode_flowspec_nlri trunc f = Ok nlri" "length nlri < 31"
    "read_flowspec_nlri (is_v6 (fl_dst f)) nlri = Some (match_of f)"
proof -
  define comps where "comps = dst_comp (fl_dst f) @ proto_comp (fl_protocol f) @ port_comp (fl_dst_port f)"
  have enc: "encode_flowspec_nlri trunc f = Ok (of_nat (length comps) # comps)" and len: "length comps < 30"
    using encode_flowspec_nlri_host [OF assms] by (simp_all add: comps_def Let_def)
  have "unat (of_nat (length comps) :: u8) = length comps" using len by simp
  then have "read_flowspec_nlri (is_v6 (fl_dst f)) (of_nat (length comps) # comps) = Some (match_of f)"
    using len read_components_host [OF assms(2)] by (simp add: read_flowspec_nlri_def comps_def [symmetric])
  with enc len that show thesis by simp
qed

lemma nlri_family:
  assumes "trunc_ok trunc" "is_host_route (fl_dst f)" "is_host_route (fl_dst g)"
    "encode_flowspec_nlri trunc f = encode_flowspec_nlri trunc g"
  shows "is_v6 (fl_dst f) = is_v6 (fl_dst g)"
  using encode_flowspec_nlri_host [OF assms(1,2)] encode_flowspec_nlri_host [OF assms(1,3)] assms(2-4)
  by (cases "fl_dst f"; cases "fl_dst g") (simp_all add: Let_def dst_comp_def is_v6_def)

lemma nlri_match:
  assumes "trunc_ok trunc" "is_host_route (fl_dst f)" "is_host_route (fl_dst g)"
  shows "encode_flowspec_nlri trunc f = encode_flowspec_nlri trunc g \<longleftrightarrow> match_of f = match_of g"
proof
  assume eq: "encode_flowspec_nlri trunc f = encode_flowspec_nlri trunc g"
  obtain n where n: "encode_flowspec_nlri trunc f = Ok n" "read_flowspec_nlri (is_v6 (fl_dst f)) n = Some (match_of f)"
    using flowspec_nlri_host [OF assms(1,2)] by metis
  obtain k where k: "encode_flowspec_nlri trunc g = Ok k" "read_flowspec_nlri (is_v6 (fl_dst g)) k = Some (match_of g)"
    using flowspec_nlri_host [OF assms(1,3)] by metis
  from n k eq nlri_family [OF assms eq] show "match_of f = match_of g" by simp
next
  assume "match_of f = match_of g"
  then show "encode_flowspec_nlri trunc f = encode_flowspec_nlri trunc g"
    by (simp add: match_of_def encode_flowspec_nlri_def push_dst_prefix_def)
qed

lemma afi_bytes: "be16 (afi_of f) = [0, if is_v6 (fl_dst f) then 2 else 1]"
  by (cases "fl_dst f") (simp_all add: afi_of_def be16_def is_v6_def)

lemma fs_frame_view:
  "encode_header 2 body = Ok bytes \<and> read_update_frame bytes = Some u \<Longrightarrow> fs_view_update u = Some v \<and> view_update u = None \<Longrightarrow>
   \<exists>bytes. encode_header 2 body = Ok bytes \<and> fs_peer_reads bytes = Some v \<and> peer_reads bytes = None"
  by (simp add: fs_peer_reads_def peer_reads_def)

lemma flowspec_announce_view:
  assumes "trunc_ok trunc" "is_host_route (fl_dst f)" "fl_action f = TrafficRate rate"
  shows "\<exists>bytes. build_flowspec_announce trunc f = Ok bytes \<and> fs_peer_reads bytes = Some (SeesRule (match_of f) rate) \<and>
    peer_reads bytes = None"
proof -
  obtain nlri where n: "encode_flowspec_nlri trunc f = Ok nlri" "length nlri < 31"
    "read_flowspec_nlri (is_v6 (fl_dst f)) nlri = Some (match_of f)"
    using flowspec_nlri_host [OF assms(1,2)] .
  let ?mp = "be16 (afi_of f) @ [SAFI_FLOWSPEC] @ [0] @ [0] @ nlri"
  let ?attrs = "[(FLAG_WELL_KNOWN, ATTR_ORIGIN, [origin_wire Igp]), (FLAG_WELL_KNOWN, ATTR_AS_PATH, []),
    (FLAG_OPT_TRANS, ATTR_EXTENDED_COMMUNITIES, traffic_rate_community rate), (FLAG_OPT_NON_TRANS, ATTR_MP_REACH_NLRI, ?mp)]"
  let ?a = "concat (map enc_attr ?attrs)"
  let ?body = "be16 (of_nat (length ([] :: u8 list))) @ [] @ be16 (of_nat (length ?a)) @ ?a @ []"
  have la: "length ?a \<le> 100" using n(2) by (simp add: enc_attr_def traffic_rate_community_def)
  have build: "build_flowspec_announce trunc f = encode_header 2 ?body"
    using la n(1,2) by (simp add: build_flowspec_announce_def assms(3) Let_def push_attr_enc try_u16_def
        traffic_rate_community_def)
  have "\<exists>bytes. encode_header 2 ?body = Ok bytes \<and> read_update_frame bytes = Some ([], ?attrs, [])"
    using la n(2) by (intro encode_update_frame) (auto simp: traffic_rate_community_def)
  moreover have "read_rate (traffic_rate_community rate) = Some rate"
    using read_be(1) [of rate "[]"] by (simp add: read_rate_def traffic_rate_community_def)
  then have "fs_view_update ([], ?attrs, []) = Some (SeesRule (match_of f) rate) \<and> view_update ([], ?attrs, []) = None"
    using n(3) by (cases "is_v6 (fl_dst f)") (simp_all add: fs_view_update_def view_update_def upd_consts afi_bytes fs_afi_def fs_consts)
  ultimately show ?thesis unfolding build using fs_frame_view by blast
qed

lemma flowspec_withdraw_view:
  assumes "trunc_ok trunc" "is_host_route (fl_dst f)"
  shows "\<exists>bytes. build_flowspec_withdraw trunc f = Ok bytes \<and> fs_peer_reads bytes = Some (SeesRuleWithdraw (match_of f)) \<and>
    peer_reads bytes = None"
proof -
  obtain nlri where n: "encode_flowspec_nlri trunc f = Ok nlri" "length nlri < 31"
    "read_flowspec_nlri (is_v6 (fl_dst f)) nlri = Some (match_of f)"
    using flowspec_nlri_host [OF assms(1,2)] .
  let ?mp = "be16 (afi_of f) @ [SAFI_FLOWSPEC] @ nlri"
  let ?attrs = "[(FLAG_OPT_NON_TRANS, ATTR_MP_UNREACH_NLRI, ?mp)]"
  let ?a = "concat (map enc_attr ?attrs)"
  let ?body = "be16 (of_nat (length ([] :: u8 list))) @ [] @ be16 (of_nat (length ?a)) @ ?a @ []"
  have la: "length ?a \<le> 100" using n(2) by (simp add: enc_attr_def)
  have build: "build_flowspec_withdraw trunc f = encode_header 2 ?body"
    using la n(1,2) by (simp add: build_flowspec_withdraw_def Let_def push_attr_enc try_u16_def)
  have "\<exists>bytes. encode_header 2 ?body = Ok bytes \<and> read_update_frame bytes = Some ([], ?attrs, [])"
    using la n(2) by (intro encode_update_frame) auto
  moreover have "fs_view_update ([], ?attrs, []) = Some (SeesRuleWithdraw (match_of f)) \<and> view_update ([], ?attrs, []) = None"
    using n(3) by (cases "is_v6 (fl_dst f)") (simp_all add: fs_view_update_def view_update_def upd_consts afi_bytes fs_afi_def fs_consts)
  ultimately show ?thesis unfolding build using fs_frame_view by blast
qed

lemma unicast_not_flowspec: "unicast_frame bytes \<Longrightarrow> fs_peer_reads bytes = None"
  by (auto simp: unicast_frame_def unicast_update_def fs_peer_reads_def fs_view_update_def fs_afi_def
      bind_eq_None_conv split: option.splits)

section \<open>Properties\<close>

text \<open>
  C14. Encoding a host FlowSpec rule never panics, and a peer reads the announce UPDATE as exactly
  this rule: its destination, protocol and port match (each present or absent) and its rate. The
  withdraw UPDATE is read as the withdrawal of the same match.
\<close>

theorem flowspec_read_back:
  assumes "trunc_ok trunc" "is_host_route (fl_dst f)"
  shows "(\<exists>bytes rate. build_flowspec_announce trunc f = Ok bytes \<and> fl_action f = TrafficRate rate \<and>
      fs_peer_reads bytes = Some (SeesRule (match_of f) rate)) \<and>
    (\<exists>bytes. build_flowspec_withdraw trunc f = Ok bytes \<and> fs_peer_reads bytes = Some (SeesRuleWithdraw (match_of f)))"
  using flowspec_announce_view [OF assms] flowspec_withdraw_view [OF assms] by (cases "fl_action f") blast

definition sample_flow :: flowspec_rule where
  "sample_flow = \<lparr>fl_dst = NetV4 0xC6336407 32, fl_protocol = Some 17, fl_dst_port = Some 53, fl_action = TrafficRate 0\<rparr>"

theorem flowspec_read_back_witness:
  "\<exists>bytes. build_flowspec_announce net_trunc sample_flow = Ok bytes \<and>
     fs_peer_reads bytes = Some (SeesRule (NetV4 0xC6336407 32, Some 17, Some 53) 0)"
  using flowspec_read_back [of net_trunc sample_flow] by (auto simp: sample_flow_def net_trunc_ok match_of_def)

text \<open>
  The encoded match identifies a host rule: two host rules have the same NLRI octets exactly when
  they have the same destination, protocol and port, whatever their actions. The session keys its
  FlowSpec table by these octets, so a re-announce replaces exactly the rule with the same match.
\<close>

lemma flowspec_nlri_injective:
  assumes "trunc_ok trunc" "is_host_route (fl_dst f)" "is_host_route (fl_dst g)"
  shows "(\<exists>nlri. encode_flowspec_nlri trunc f = Ok nlri) \<and>
    (encode_flowspec_nlri trunc f = encode_flowspec_nlri trunc g \<longleftrightarrow>
     (fl_dst f, fl_protocol f, fl_dst_port f) = (fl_dst g, fl_protocol g, fl_dst_port g))"
  using nlri_match [OF assms] flowspec_nlri_host [OF assms(1,2)] unfolding match_of_def by metis

end
