(* ===== verification/Bgp_Handle.thy ===== *)
theory Bgp_Handle
  imports Bgp_Flowspec Flowspec_Manager
begin

text \<open>
  The session's command channel: the handle of \<^verbatim>\<open>blackwall-bgp/src/session_net.rs\<close> through which the
  managers inject routes (the \<open>BgpExecutor\<close> of \<^verbatim>\<open>blackwall-rtbh/src/lib.rs\<close>), the peer configuration,
  the capability gate, and the tables the session task builds from the commands. The handle keeps the
  executor contract, so the managers' theorems hold over the session's tables.
\<close>

section \<open>Peer configuration\<close>

record peer_config =
  pr_local_asn :: u32
  pr_peer_asn :: u32
  pr_peer_addr :: "ip_addr \<times> u16"
  pr_router_id :: u32
  pr_hold_time :: u16
  pr_md5 :: "string option"
  pr_gtsm_hops :: "u8 option"
  pr_local_addr :: "ip_addr option"

datatype peer_config_error = NotIbgp u32 u32 | BadHoldTime u16 | BadGtsmHops

definition peer_validate :: "peer_config \<Rightarrow> (peer_config_error, unit) outcome" where
  "peer_validate cfg =
     (if pr_local_asn cfg \<noteq> pr_peer_asn cfg then Err (NotIbgp (pr_local_asn cfg) (pr_peer_asn cfg))
      else if pr_hold_time cfg = 1 \<or> pr_hold_time cfg = 2 then Err (BadHoldTime (pr_hold_time cfg))
      else if pr_gtsm_hops cfg = Some 0 then Err BadGtsmHops
      else Ok ())"

section \<open>Capability gate\<close>

datatype announce_safi = Ipv4Unicast | Ipv6Unicast | FlowSpecV4 | FlowSpecV6

fun safi_for_route :: "ip_net \<Rightarrow> announce_safi" where
  "safi_for_route (NetV4 _ _) = Ipv4Unicast"
| "safi_for_route (NetV6 _ _) = Ipv6Unicast"

fun safi_for_flowspec :: "ip_net \<Rightarrow> announce_safi" where
  "safi_for_flowspec (NetV4 _ _) = FlowSpecV4"
| "safi_for_flowspec (NetV6 _ _) = FlowSpecV6"

fun safi_label :: "announce_safi \<Rightarrow> string" where
  "safi_label Ipv4Unicast = ''ipv4_unicast''"
| "safi_label Ipv6Unicast = ''ipv6_unicast''"
| "safi_label FlowSpecV4 = ''flowspec_v4''"
| "safi_label FlowSpecV6 = ''flowspec_v6''"

fun announce_allowed :: "open_msg \<Rightarrow> announce_safi \<Rightarrow> bool" where
  "announce_allowed peer Ipv4Unicast = True"
| "announce_allowed peer Ipv6Unicast = om_ipv6_unicast peer"
| "announce_allowed peer FlowSpecV4 = om_flowspec_v4 peer"
| "announce_allowed peer FlowSpecV6 = om_flowspec_v6 peer"

text \<open>The skip counters; \<open>fetch_add\<close> wraps at 64 bits.\<close>

record skip_counts =
  sk_flowspec_v4 :: u64
  sk_flowspec_v6 :: u64
  sk_ipv6_unicast :: u64

definition skip_none :: skip_counts where
  "skip_none = \<lparr>sk_flowspec_v4 = 0, sk_flowspec_v6 = 0, sk_ipv6_unicast = 0\<rparr>"

fun skip_record :: "announce_safi \<Rightarrow> skip_counts \<Rightarrow> skip_counts" where
  "skip_record FlowSpecV4 c = c\<lparr>sk_flowspec_v4 := sk_flowspec_v4 c + 1\<rparr>"
| "skip_record FlowSpecV6 c = c\<lparr>sk_flowspec_v6 := sk_flowspec_v6 c + 1\<rparr>"
| "skip_record Ipv6Unicast c = c\<lparr>sk_ipv6_unicast := sk_ipv6_unicast c + 1\<rparr>"
| "skip_record Ipv4Unicast c = c"

section \<open>Commands and the session's tables\<close>

datatype session_command =
    CmdAnnounce route
  | CmdWithdraw ip_net
  | CmdAnnounceFlowSpec flowspec_rule
  | CmdWithdrawFlowSpec flowspec_rule

type_synonym route_table = "(ip_net, route) hashmap"
type_synonym flow_table = "(u8 list, flowspec_rule) hashmap"

text \<open>
  The key of the FlowSpec table is the encoded match. A prefix never has more bits than its address,
  so the encoder always returns; the other branch has no counterpart in the code.
\<close>

definition flowspec_key :: "(ip_net \<Rightarrow> ip_net) \<Rightarrow> flowspec_rule \<Rightarrow> u8 list" where
  "flowspec_key trunc rule = (case encode_flowspec_nlri trunc rule of Ok key \<Rightarrow> key | _ \<Rightarrow> [])"

text \<open>
  The channel between the handle's clones and the task: the commands in flight, the two tables of the
  task, and how many more sends succeed before the task exits (\<open>None\<close>: it keeps running).
\<close>

record bgp_channel =
  ch_commands :: "session_command list"
  ch_active :: route_table
  ch_active_flowspec :: flow_table
  ch_exit_after :: "nat option"

definition channel_new :: bgp_channel where
  "channel_new = \<lparr>ch_commands = [], ch_active = [], ch_active_flowspec = [], ch_exit_after = None\<rparr>"

fun drain_loop ::
  "(ip_net \<Rightarrow> ip_net) \<Rightarrow> session_command list \<Rightarrow> route_table \<Rightarrow> flow_table \<Rightarrow> route_table \<times> flow_table"
where
  "drain_loop trunc [] active active_flowspec = (active, active_flowspec)"
| "drain_loop trunc (CmdAnnounce route # cs) active active_flowspec =
     drain_loop trunc cs (hm_insert (r_prefix route) route active) active_flowspec"
| "drain_loop trunc (CmdWithdraw p # cs) active active_flowspec =
     drain_loop trunc cs (hm_remove p active) active_flowspec"
| "drain_loop trunc (CmdAnnounceFlowSpec rule # cs) active active_flowspec =
     drain_loop trunc cs active (hm_insert (flowspec_key trunc rule) rule active_flowspec)"
| "drain_loop trunc (CmdWithdrawFlowSpec rule # cs) active active_flowspec =
     drain_loop trunc cs active (hm_remove (flowspec_key trunc rule) active_flowspec)"

definition drain_commands :: "(ip_net \<Rightarrow> ip_net) \<Rightarrow> bgp_channel \<Rightarrow> bgp_channel" where
  "drain_commands trunc ch =
     (case drain_loop trunc (ch_commands ch) (ch_active ch) (ch_active_flowspec ch) of
        (active, active_flowspec) \<Rightarrow>
          ch\<lparr>ch_commands := [], ch_active := active, ch_active_flowspec := active_flowspec\<rparr>)"

section \<open>The handle\<close>

definition handle_send :: "session_command \<Rightarrow> bgp_channel \<Rightarrow> bool \<times> bgp_channel" where
  "handle_send cmd ch =
     (case ch_exit_after ch of
        Some 0 \<Rightarrow> (False, ch)
      | Some (Suc n) \<Rightarrow> (True, ch\<lparr>ch_commands := ch_commands ch @ [cmd], ch_exit_after := Some n\<rparr>)
      | None \<Rightarrow> (True, ch\<lparr>ch_commands := ch_commands ch @ [cmd]\<rparr>))"

definition bgp_handle :: "bgp_channel bgp_executor_ops" where
  "bgp_handle =
     \<lparr>bx_announce = (\<lambda>route. handle_send (CmdAnnounce route)),
      bx_withdraw = (\<lambda>p. handle_send (CmdWithdraw p)),
      bx_announce_flowspec = (\<lambda>rule. handle_send (CmdAnnounceFlowSpec rule)),
      bx_withdraw_flowspec = (\<lambda>rule. handle_send (CmdWithdrawFlowSpec rule))\<rparr>"

section \<open>The handle keeps the executor contract\<close>

text \<open>The session's tables once the commands in flight are applied.\<close>

definition session_rib :: "bgp_channel \<Rightarrow> ip_net \<rightharpoonup> route" where
  "session_rib ch = hm_get (ch_active (drain_commands net_trunc ch))"

definition session_frib :: "(ip_net \<Rightarrow> ip_net) \<Rightarrow> bgp_channel \<Rightarrow> u8 list \<rightharpoonup> flowspec_rule" where
  "session_frib trunc ch = hm_get (ch_active_flowspec (drain_commands trunc ch))"

lemma drain_loop_append:
  "drain_loop trunc (cs @ ds) a f = (case drain_loop trunc cs a f of (a', f') \<Rightarrow> drain_loop trunc ds a' f')"
  by (induction trunc cs a f rule: drain_loop.induct) simp_all

text \<open>The route table does not depend on how rules are keyed.\<close>

lemma drain_loop_routes: "fst (drain_loop trunc cs a f) = fst (drain_loop trunc' cs a f')"
  by (induction trunc cs a f arbitrary: f' rule: drain_loop.induct) simp_all

lemma session_rib_drain: "hm_get (ch_active (drain_commands trunc ch)) = session_rib ch"
  unfolding session_rib_def drain_commands_def
  using drain_loop_routes [of trunc "ch_commands ch" "ch_active ch" "ch_active_flowspec ch" net_trunc "ch_active_flowspec ch"]
  by (simp add: case_prod_beta)

lemma handle_send_cases:
  assumes "handle_send cmd ch = (ok, ch')"
  shows "if ok then ch_commands ch' = ch_commands ch @ [cmd] \<and> ch_active ch' = ch_active ch \<and>
      ch_active_flowspec ch' = ch_active_flowspec ch else ch' = ch"
  using assms by (auto simp: handle_send_def split: option.splits nat.splits)

lemma session_rib_send:
  assumes "handle_send cmd ch = (ok, ch')"
  shows "session_rib ch' = (if ok then (case cmd of CmdAnnounce r \<Rightarrow> (session_rib ch)(r_prefix r \<mapsto> r)
      | CmdWithdraw p \<Rightarrow> (session_rib ch)(p := None) | _ \<Rightarrow> session_rib ch) else session_rib ch)"
    and "session_frib trunc ch' = (if ok then (case cmd of
        CmdAnnounceFlowSpec f \<Rightarrow> (session_frib trunc ch)(flowspec_key trunc f \<mapsto> f)
      | CmdWithdrawFlowSpec f \<Rightarrow> (session_frib trunc ch)(flowspec_key trunc f := None)
      | _ \<Rightarrow> session_frib trunc ch) else session_frib trunc ch)"
  using handle_send_cases [OF assms]
  by (auto simp: session_rib_def session_frib_def drain_commands_def drain_loop_append case_prod_beta fun_eq_iff
      split: session_command.splits)

interpretation handle: bgp_executor bgp_handle session_rib "session_frib trunc" "flowspec_key trunc"
  for trunc
  by unfold_locales (auto simp: bgp_handle_def session_rib_send split: if_splits)

lemma flowspec_key_match:
  assumes "trunc_ok trunc" "rule_wf f" "rule_wf g"
  shows "flowspec_key trunc f = flowspec_key trunc g \<longleftrightarrow> key_of f = key_of g"
proof -
  have host: "is_host_route (fl_dst f)" "is_host_route (fl_dst g)" using assms by (simp_all add: rule_wf_def)
  obtain x y where "encode_flowspec_nlri trunc f = Ok x" "encode_flowspec_nlri trunc g = Ok y"
    using flowspec_nlri_host [OF assms(1) host(1)] flowspec_nlri_host [OF assms(1) host(2)] by metis
  then have "flowspec_key trunc f = flowspec_key trunc g \<longleftrightarrow> match_of f = match_of g"
    using nlri_match [OF assms(1) host] by (simp add: flowspec_key_def)
  with assms(2,3) show ?thesis by (auto simp: rule_wf_def match_of_def key_of_def)
qed

lemma handle_flowspec_executor:
  "trunc_ok trunc \<Longrightarrow> flowspec_executor bgp_handle session_rib (session_frib trunc) (flowspec_key trunc)"
  by unfold_locales (simp add: flowspec_key_match)

interpretation handle_fs: flowspec_executor bgp_handle session_rib "session_frib net_trunc" "flowspec_key net_trunc"
  by (rule handle_flowspec_executor [OF net_trunc_ok])

lemma handle_up:
  "ch_exit_after ch = None \<Longrightarrow> fst (bx_withdraw bgp_handle p ch) \<and> ch_exit_after (snd (bx_withdraw bgp_handle p ch)) = None"
  "ch_exit_after ch = None \<Longrightarrow> fst (bx_withdraw_flowspec bgp_handle f ch) \<and>
     ch_exit_after (snd (bx_withdraw_flowspec bgp_handle f ch)) = None"
  by (simp_all add: bgp_handle_def handle_send_def)

section \<open>Properties\<close>

text \<open>
  C3. Commit after confirm, over the session: from any start and after any sequence of events, ticks,
  operator requests, rehydrations and disarms, with a session task that may exit at any moment, every
  target the RTBH controller holds as active has its configured blackhole route in the session's
  table once the commands in flight are applied, or is queued for re-announcement.
\<close>

theorem rtbh_active_in_session:
  assumes "m = rm_run contains bgp_handle bj opers (rm_start rlo cfg ch j)"
    and "t \<in> set (hm_keys (rc_active (rm_controller m)))"
  shows "(\<exists>r. rtbh_host_route cfg t = Some r \<and>
      hm_get (ch_active (drain_commands trunc (rm_bgp m))) (host_prefix t) = Some r) \<or>
    t \<in> ro_target ` set (rm_pending_reapply m)"
  using handle.active_confirmed [OF assms] by (simp add: session_rib_drain)

theorem rtbh_active_in_session_witness:
  "hm_get (ch_active (drain_commands net_trunc (rm_bgp (rm_run net_contains bgp_handle noop_blackhole_journal
     [ApplyAdd (V4 0xCB007107) 1 1] (rm_start None sample_rtbh_config channel_new ()))))) (host_prefix (V4 0xCB007107)) \<noteq> None"
proof -
  let ?m = "rm_run net_contains bgp_handle noop_blackhole_journal [ApplyAdd (V4 0xCB007107) 1 1]
    (rm_start None sample_rtbh_config channel_new ())"
  have "V4 0xCB007107 \<in> set (hm_keys (rc_active (rm_controller ?m)))" "rm_pending_reapply ?m = []"
    by (simp_all add: rm_run_def rm_start_def rm_new_def rm_apply_add_def rtbh_eval rm_execute_announce_def
      bgp_handle_def handle_send_def channel_new_def noop_blackhole_journal_def hm_keys_def)
  with rtbh_active_in_session [OF refl, where t = "V4 0xCB007107" and trunc = net_trunc] show ?thesis by fastforce
qed

text \<open>
  C6. The kill switch: disarming withdraws every active blackhole and never adds a route; if the
  session task keeps running, every target that was active is gone from the session's table. After
  it, whatever events, ticks, operator requests and further disarms follow, nothing more is sent to
  the session and the controller stays empty.
\<close>

theorem rtbh_disarm_silences:
  assumes "m = rm_run contains bgp_handle bj opers (rm_start rlo cfg ch j)" "\<not> rm_disarmed m"
    and "m1 = rm_disarm bgp_handle mn m"
    and "\<forall>rows mn. Rehydrate rows mn \<notin> set later" "m2 = rm_run contains bgp_handle bj later m1"
  shows "rm_bgp m2 = rm_bgp m1 \<and> rc_active (rm_controller m2) = [] \<and>
    session_rib (rm_bgp m1) \<subseteq>\<^sub>m session_rib (rm_bgp m) \<and>
    (ch_exit_after (rm_bgp m) = None \<longrightarrow>
      (\<forall>t\<in>set (hm_keys (rc_active (rm_controller m))).
        hm_get (ch_active (drain_commands trunc (rm_bgp m2))) (host_prefix t) = None))"
proof -
  have eff: "handle.rm_quiet m1 \<and> session_rib (rm_bgp m1) \<subseteq>\<^sub>m session_rib (rm_bgp m)"
    unfolding assms(3) by (rule handle.disarm_effect [OF assms(2)])
  have quiet: "handle.rm_quiet m2 \<and> rm_bgp m2 = rm_bgp m1"
    unfolding assms(5) using eff assms(4) by (intro handle.quiet_run) auto
  have wf: "hm_wf (rc_active (rm_controller m))"
    using rm_run_table_safe [of contains bgp_handle bj opers rlo cfg ch j] assms(1)
    by (simp add: table_safe_def hm_wf_def hm_keys_def)
  have "session_rib (rm_bgp m1) (host_prefix t) = None"
    if "ch_exit_after (rm_bgp m) = None" "t \<in> set (hm_keys (rc_active (rm_controller m)))" for t
    unfolding assms(3)
    by (rule handle.disarm_clears [where up = "\<lambda>ch. ch_exit_after ch = None"])
      (use handle_up that wf assms(2) in auto)
  with eff quiet show ?thesis by (simp add: session_rib_drain handle.rm_quiet_def)
qed

theorem rtbh_disarm_silences_witness:
  "let m = rm_run net_contains bgp_handle noop_blackhole_journal [ApplyAdd (V4 0xCB007107) 1 1]
       (rm_start None sample_rtbh_config channel_new ());
     m1 = rm_disarm bgp_handle 2 m;
     m2 = rm_run net_contains bgp_handle noop_blackhole_journal [ApplyAdd (V4 0xCB007107) 3 3] m1
   in rm_bgp m2 = rm_bgp m1 \<and> hm_get (ch_active (drain_commands net_trunc (rm_bgp m2))) (host_prefix (V4 0xCB007107)) = None"
proof -
  let ?m = "rm_run net_contains bgp_handle noop_blackhole_journal [ApplyAdd (V4 0xCB007107) 1 1]
    (rm_start None sample_rtbh_config channel_new ())"
  have m: "V4 0xCB007107 \<in> set (hm_keys (rc_active (rm_controller ?m)))" "\<not> rm_disarmed ?m" "ch_exit_after (rm_bgp ?m) = None"
    by (simp_all add: rm_run_def rm_start_def rm_new_def rm_apply_add_def rtbh_eval rm_execute_announce_def
      bgp_handle_def handle_send_def channel_new_def noop_blackhole_journal_def hm_keys_def)
  have later: "\<forall>rows mn. Rehydrate rows mn \<notin> set [ApplyAdd (V4 0xCB007107) 3 3]" by simp
  from rtbh_disarm_silences [OF refl m(2) refl later refl, where mn = 2 and trunc = net_trunc] m(1,3)
  show ?thesis unfolding Let_def by blast
qed

text \<open>
  The FlowSpec plane keeps the same promise: every rule its controller holds as active is in the
  session's FlowSpec table under its encoded match, with exactly its action, once the commands in
  flight are applied, or its key is queued for re-announcement.
\<close>

lemma flowspec_active_in_session:
  assumes "trunc_ok trunc" "\<forall>oper\<in>set opers. fm_op_ok oper"
    and "m = fm_run contains bgp_handle fj opers (fm_start rlo cfg ch j)"
    and "hm_get (fc_active (fm_controller m)) k = Some e"
  shows "hm_get (ch_active_flowspec (drain_commands trunc (fm_bgp m))) (flowspec_key trunc (fe_rule e)) = Some (fe_rule e) \<or>
    k \<in> set (fm_pending_reapply m)"
  using flowspec_executor.fs_active_confirmed [OF handle_flowspec_executor [OF assms(1)] assms(2-4)]
  by (simp add: session_frib_def)

lemmas fm_eval =
  fm_run_def fm_start_def fm_new_def fm_apply_add_def fs_eval fm_execute_announce_def fm_is_active_def
  bgp_handle_def handle_send_def channel_new_def noop_flowspec_journal_def

text \<open>
  The FlowSpec kill switch: disarming never adds a rule, and if the session task keeps running
  every rule that was active is gone from the session's FlowSpec table; afterwards no event, tick,
  request or further disarm sends anything to the session, and the controller stays empty.
\<close>

lemma flowspec_disarm_silences:
  assumes "trunc_ok trunc" "\<not> fm_disarmed m" "m1 = fm_disarm bgp_handle mn m"
    and "\<forall>oper\<in>set later. fm_op_ok oper" "\<forall>rows mn. FmRehydrate rows mn \<notin> set later"
    and "m2 = fm_run contains bgp_handle fj later m1"
  shows "fm_bgp m2 = fm_bgp m1 \<and> fc_active (fm_controller m2) = [] \<and>
    session_frib trunc (fm_bgp m1) \<subseteq>\<^sub>m session_frib trunc (fm_bgp m) \<and>
    (ch_exit_after (fm_bgp m) = None \<longrightarrow>
      (\<forall>k e. hm_get (fc_active (fm_controller m)) k = Some e \<longrightarrow>
        hm_get (ch_active_flowspec (drain_commands trunc (fm_bgp m2))) (flowspec_key trunc (fe_rule e)) = None))"
proof -
  note ex = handle_flowspec_executor [OF assms(1)]
  have eff: "flowspec_executor.fm_quiet m1 \<and> session_frib trunc (fm_bgp m1) \<subseteq>\<^sub>m session_frib trunc (fm_bgp m)"
    unfolding assms(3) by (rule flowspec_executor.fm_disarm_effect [OF ex assms(2)])
  have quiet: "flowspec_executor.fm_quiet m2 \<and> fm_bgp m2 = fm_bgp m1"
    unfolding assms(6) using eff assms(4,5) by (intro flowspec_executor.fm_quiet_run [OF ex]) auto
  have "session_frib trunc (fm_bgp m1) (flowspec_key trunc (fe_rule e)) = None"
    if "ch_exit_after (fm_bgp m) = None" "hm_get (fc_active (fm_controller m)) k = Some e" for k e
    unfolding assms(3)
    by (rule flowspec_executor.fm_disarm_clears [OF ex, where up = "\<lambda>ch. ch_exit_after ch = None" and k = k])
      (use handle_up that assms(2) in auto)
  with eff quiet show ?thesis by (simp add: session_frib_def flowspec_executor.fm_quiet_def [OF ex])
qed

end
