(* ===== verification/Bgp_Session.thy ===== *)
theory Bgp_Session
  imports Bgp_Handle
begin

text \<open>
  The session task of \<^verbatim>\<open>blackwall-bgp/src/session_net.rs\<close>: length-based framing of the peer's octets,
  the OPEN handshake, the confirmation wait, the re-announcement of the active set, the established
  loop with its timers, and the reconnect loop with its backoff. The network is an argument: whether
  the TCP connect succeeds, which write succeeds, what each read returns and when. A connection keeps
  the list of the packets it has written, from which the peer's table is read.
\<close>

section \<open>Why a session ends\<close>

datatype reconnect_reason =
    ConnectFailed
  | SendOpenFailed
  | PeerClosed
  | ReadError
  | ReadBufferOverflow
  | DecodeError bgp_error
  | PeerNotification u8 u8
  | PeerAsnMismatch u32 u32
  | UnacceptableHoldTime u16
  | SendKeepaliveFailed
  | ConfirmTimedOut
  | WriteFailed
  | HoldTimerExpired

datatype session_outcome = Reconnect reconnect_reason | CommandsExhausted

definition READ_BUF_LIMIT :: nat where "READ_BUF_LIMIT = 65536"

text \<open>What a read returns: the octets (none at end of file) or an error.\<close>

datatype read_result = ReadOk "u8 list" | ReadErr

section \<open>Framing\<close>

text \<open>The next complete message of the buffer and what remains behind it, if there is one.\<close>

definition next_frame :: "u8 list \<Rightarrow> (bgp_message \<times> u8 list) option bgp" where
  "next_frame buf =
     (if length buf < HEADER_LEN then Ok None
      else obind (parse_header buf) (\<lambda>(_, total_len).
        if length buf < total_len then Ok None
        else obind (slice buf 0 total_len) (\<lambda>frame.
          obind (decode_message frame) (\<lambda>(msg, _). Ok (Some (msg, drop total_len buf))))))"

lemma next_frame_shorter: "next_frame buf = Ok (Some (msg, rest)) \<Longrightarrow> length rest < length buf"
  by (auto simp: next_frame_def obind_eq_Ok HEADER_LEN_def dest!: parse_header_bounds split: if_splits)

lemma next_frame_no_panic: "next_frame buf \<noteq> Panic"
  by (auto simp: next_frame_def obind_eq_Panic parse_header_no_panic decode_message_no_panic slice_def)

datatype 'a frames = NeedMore "u8 list" | Complete 'a "u8 list" | Stop session_outcome

text \<open>The handshake skips every message but OPEN and NOTIFICATION.\<close>

function handshake_frames :: "u8 list \<Rightarrow> open_msg frames bgp" where
  "handshake_frames buf =
     (case next_frame buf of
        Panic \<Rightarrow> Panic
      | Err e \<Rightarrow> Ok (Stop (Reconnect (DecodeError e)))
      | Ok None \<Rightarrow> Ok (NeedMore buf)
      | Ok (Some (msg, rest)) \<Rightarrow>
          (case msg of
             Open o' \<Rightarrow> Ok (Complete o' rest)
           | Notification n \<Rightarrow> Ok (Stop (Reconnect (PeerNotification (nm_code n) (nm_subcode n))))
           | Keepalive \<Rightarrow> handshake_frames rest
           | Update \<Rightarrow> handshake_frames rest))"
  by pat_completeness auto
termination by (relation "measure length") (auto dest: next_frame_shorter)

declare handshake_frames.simps [simp del]

fun handshake :: "read_result list \<Rightarrow> u8 list \<Rightarrow> (open_msg frames \<times> read_result list) bgp" where
  "handshake [] buf = Ok (NeedMore buf, [])"
| "handshake (ReadErr # rs) buf = Ok (Stop (Reconnect ReadError), rs)"
| "handshake (ReadOk bs # rs) buf =
     (if bs = [] then Ok (Stop (Reconnect PeerClosed), rs)
      else let buf = buf @ bs in
        if READ_BUF_LIMIT < length buf then Ok (Stop (Reconnect ReadBufferOverflow), rs)
        else obind (handshake_frames buf) (\<lambda>fr. case fr of
            NeedMore buf \<Rightarrow> handshake rs buf
          | _ \<Rightarrow> Ok (fr, rs)))"

text \<open>The confirmation wait accepts KEEPALIVE or UPDATE and ignores a stray OPEN.\<close>

function confirm_frames :: "u8 list \<Rightarrow> unit frames bgp" where
  "confirm_frames buf =
     (case next_frame buf of
        Panic \<Rightarrow> Panic
      | Err e \<Rightarrow> Ok (Stop (Reconnect (DecodeError e)))
      | Ok None \<Rightarrow> Ok (NeedMore buf)
      | Ok (Some (msg, rest)) \<Rightarrow>
          (case msg of
             Keepalive \<Rightarrow> Ok (Complete () rest)
           | Update \<Rightarrow> Ok (Complete () rest)
           | Notification n \<Rightarrow> Ok (Stop (Reconnect (PeerNotification (nm_code n) (nm_subcode n))))
           | Open _ \<Rightarrow> confirm_frames rest))"
  by pat_completeness auto
termination by (relation "measure length") (auto dest: next_frame_shorter)

declare confirm_frames.simps [simp del]

fun await_peer_confirmation :: "read_result list \<Rightarrow> u8 list \<Rightarrow> (unit frames \<times> read_result list) bgp" where
  "await_peer_confirmation rs buf =
     obind (confirm_frames buf) (\<lambda>fr. case fr of
         NeedMore buf \<Rightarrow>
           (case rs of
              [] \<Rightarrow> Ok (NeedMore buf, [])
            | ReadErr # rs' \<Rightarrow> Ok (Stop (Reconnect ReadError), rs')
            | ReadOk bs # rs' \<Rightarrow>
                if bs = [] then Ok (Stop (Reconnect PeerClosed), rs')
                else let buf = buf @ bs in
                  if READ_BUF_LIMIT < length buf then Ok (Stop (Reconnect ReadBufferOverflow), rs')
                  else await_peer_confirmation rs' buf)
       | _ \<Rightarrow> Ok (fr, rs))"

text \<open>A complete message at the front of the buffer is found whatever follows it.\<close>

lemma next_frame_encoded:
  assumes "encode_message m = Ok bytes" "length bytes \<le> 4096"
  shows "next_frame (bytes @ rest) = Ok (Some (m, rest))"
proof -
  obtain t body where "encode_header t body = Ok bytes" using encode_message_header [OF assms(1)] by blast
  note hd = parse_header_encode [OF this assms(2)]
  show ?thesis
    using hd(1) [of rest] hd(3) decode_encoded [OF assms, of "[]"] by (simp add: next_frame_def slice_def)
qed

lemma parse_header_append:
  "HEADER_LEN \<le> length buf \<Longrightarrow> parse_header (buf @ xs) = parse_header buf"
  by (simp add: parse_header_def HEADER_LEN_def idx_def slice_def nth_append Let_def)

lemma next_frame_append:
  assumes "next_frame buf \<noteq> Ok None"
  shows "next_frame (buf @ xs) = (case next_frame buf of Ok (Some (m, rest)) \<Rightarrow> Ok (Some (m, rest @ xs)) | r \<Rightarrow> r)"
proof -
  have len: "HEADER_LEN \<le> length buf" using assms by (auto simp: next_frame_def not_less [symmetric])
  show ?thesis
  proof (cases "parse_header buf")
    case (Ok tn)
    obtain t n where tn: "tn = (t, n)" by (cases tn)
    have "n \<le> length buf" using assms len Ok tn by (auto simp: next_frame_def not_less [symmetric])
    with len Ok tn show ?thesis
      by (cases "decode_message (take n buf)") (auto simp: next_frame_def parse_header_append slice_def)
  qed (use len in \<open>simp_all add: next_frame_def parse_header_append\<close>)
qed

lemma handshake_frames_append:
  "handshake_frames (buf @ xs) = (case handshake_frames buf of
     Ok (Complete o' rest) \<Rightarrow> Ok (Complete o' (rest @ xs)) | Ok (NeedMore buf') \<Rightarrow> handshake_frames (buf' @ xs) | r \<Rightarrow> r)"
proof (induction buf rule: handshake_frames.induct)
  case (1 buf)
  show ?case
  proof (cases "next_frame buf = Ok None")
    case True
    then show ?thesis by (subst (2) handshake_frames.simps) simp
  next
    case False
    from next_frame_append [OF this, of xs] 1 False show ?thesis
      by (subst (1 2) handshake_frames.simps)
        (auto split: outcome.splits option.splits bgp_message.splits)
  qed
qed

lemma handshake_frames_rest:
  "handshake_frames buf = Ok (NeedMore buf') \<Longrightarrow> length buf' \<le> length buf \<and> handshake_frames buf' = Ok (NeedMore buf')"
proof (induction buf rule: handshake_frames.induct)
  case (1 buf)
  show ?case
  proof (cases "next_frame buf")
    case (Ok r)
    show ?thesis
    proof (cases r)
      case None
      with 1(3) Ok have "buf' = buf" by (subst (asm) handshake_frames.simps) simp
      with 1(3) show ?thesis by simp
    next
      case (Some mr)
      obtain m rest where mr: "mr = (m, rest)" by (cases mr)
      with Ok Some have "length rest < length buf" by (auto dest: next_frame_shorter)
      moreover have "handshake_frames rest = Ok (NeedMore buf')" "m = Keepalive \<or> m = Update"
        using 1(3) Ok Some mr by (subst (asm) handshake_frames.simps, simp split: bgp_message.splits)+
      ultimately show ?thesis using 1(1,2) Ok Some mr by fastforce
    qed
  qed (use 1(3) in \<open>subst (asm) handshake_frames.simps, simp\<close>)+
qed

lemma handshake_pieces:
  assumes "handshake_frames (buf @ concat pieces) = Ok (Complete peer rest)" "handshake_frames buf = Ok (NeedMore buf)"
    and "\<forall>piece\<in>set pieces. piece \<noteq> []" "length (buf @ concat pieces) \<le> READ_BUF_LIMIT"
  shows "\<exists>buf' later. handshake (map ReadOk pieces) buf = Ok (Complete peer buf', map ReadOk later) \<and>
    buf' @ concat later = rest"
  using assms
proof (induction pieces arbitrary: buf)
  case Nil then show ?case by simp
next
  case (Cons piece pieces)
  have piece: "piece \<noteq> []" "\<not> READ_BUF_LIMIT < length (buf @ piece)" using Cons.prems by auto
  from Cons.prems(1) handshake_frames_append [of "buf @ piece" "concat pieces"]
  have step: "(case handshake_frames (buf @ piece) of
     Ok (Complete o' rest) \<Rightarrow> Ok (Complete o' (rest @ concat pieces))
   | Ok (NeedMore buf') \<Rightarrow> handshake_frames (buf' @ concat pieces) | r \<Rightarrow> r) = Ok (Complete peer rest)" by simp
  show ?case
  proof (cases "handshake_frames (buf @ piece)")
    case (Ok fr)
    show ?thesis
    proof (cases fr)
      case (NeedMore buf')
      have "length buf' \<le> length (buf @ piece)" "handshake_frames buf' = Ok (NeedMore buf')"
        using handshake_frames_rest Ok NeedMore by blast+
      with Cons.IH [of buf'] Cons.prems step Ok NeedMore piece show ?thesis by (auto simp: Let_def)
    next
      case (Complete o' r)
      with step Ok piece show ?thesis by (auto simp: Let_def intro!: exI [of _ pieces])
    qed (use step Ok in simp)
  qed (use step in simp_all)
qed

section \<open>A connection\<close>

record conn =
  cn_channel :: bgp_channel
  cn_skipped :: skip_counts
  cn_wire :: "u8 list list"
  cn_buf :: "u8 list"
  cn_ka_deadline :: "nat option"
  cn_hold_deadline :: "nat option"

text \<open>\<open>wr n\<close> says whether the \<open>n\<close>-th write of the connection succeeds.\<close>

type_synonym writes = "nat \<Rightarrow> bool"

definition write_all :: "writes \<Rightarrow> u8 list \<Rightarrow> conn \<Rightarrow> bool \<times> conn" where
  "write_all wr pkt c = (if wr (length (cn_wire c)) then (True, c\<lparr>cn_wire := cn_wire c @ [pkt]\<rparr>) else (False, c))"

definition skip :: "announce_safi \<Rightarrow> conn \<Rightarrow> conn" where
  "skip safi c = c\<lparr>cn_skipped := skip_record safi (cn_skipped c)\<rparr>"

text \<open>Send a packet the encoder produced, ending the session if the write fails.\<close>

definition send_packet :: "writes \<Rightarrow> u8 list bgp \<Rightarrow> reconnect_reason \<Rightarrow> conn \<Rightarrow> (conn \<times> session_outcome option) bgp" where
  "send_packet wr enc why c =
     obind enc (\<lambda>pkt. case write_all wr pkt c of (ok, c') \<Rightarrow> Ok (c', if ok then None else Some (Reconnect why)))"

section \<open>Re-announcement\<close>

fun reannounce_routes ::
  "(ip_net \<Rightarrow> ip_net) \<Rightarrow> writes \<Rightarrow> open_msg \<Rightarrow> route list \<Rightarrow> conn \<Rightarrow> (conn \<times> session_outcome option) bgp"
where
  "reannounce_routes trunc wr peer [] c = Ok (c, None)"
| "reannounce_routes trunc wr peer (route # routes) c =
     (let safi = safi_for_route (r_prefix route) in
      if \<not> announce_allowed peer safi then reannounce_routes trunc wr peer routes (skip safi c)
      else obind (send_packet wr (build_announce trunc route) WriteFailed c) (\<lambda>(c, out).
        case out of Some oc \<Rightarrow> Ok (c, Some oc) | None \<Rightarrow> reannounce_routes trunc wr peer routes c))"

fun reannounce_flowspec ::
  "(ip_net \<Rightarrow> ip_net) \<Rightarrow> writes \<Rightarrow> open_msg \<Rightarrow> flowspec_rule list \<Rightarrow> conn \<Rightarrow> (conn \<times> session_outcome option) bgp"
where
  "reannounce_flowspec trunc wr peer [] c = Ok (c, None)"
| "reannounce_flowspec trunc wr peer (rule # rules) c =
     (let safi = safi_for_flowspec (fl_dst rule) in
      if \<not> announce_allowed peer safi then reannounce_flowspec trunc wr peer rules (skip safi c)
      else obind (send_packet wr (build_flowspec_announce trunc rule) WriteFailed c) (\<lambda>(c, out).
        case out of Some oc \<Rightarrow> Ok (c, Some oc) | None \<Rightarrow> reannounce_flowspec trunc wr peer rules c))"

section \<open>Session establishment\<close>

definition local_open :: "peer_config \<Rightarrow> open_msg" where
  "local_open cfg = \<lparr>om_asn = pr_local_asn cfg, om_hold_time = pr_hold_time cfg, om_router_id = pr_router_id cfg,
     om_ipv4_unicast = True, om_ipv6_unicast = True, om_flowspec_v4 = True, om_flowspec_v6 = True\<rparr>"

text \<open>The checks on the peer's OPEN: the NOTIFICATION subcode to send and the reason to reconnect.\<close>

definition check_open :: "peer_config \<Rightarrow> open_msg \<Rightarrow> (u8 \<times> reconnect_reason) option" where
  "check_open cfg peer =
     (if om_asn peer \<noteq> pr_peer_asn cfg then Some (2, PeerAsnMismatch (om_asn peer) (pr_peer_asn cfg))
      else if om_hold_time peer = 1 \<or> om_hold_time peer = 2 then Some (6, UnacceptableHoldTime (om_hold_time peer))
      else None)"

definition hold_secs :: "peer_config \<Rightarrow> open_msg \<Rightarrow> u16" where
  "hold_secs cfg peer = min (pr_hold_time cfg) (om_hold_time peer)"

definition confirm_timeout :: "u16 \<Rightarrow> nat" where
  "confirm_timeout hold = (if hold = 0 then 240000 else 1000 * unat hold)"

definition conn_new :: "bgp_channel \<Rightarrow> skip_counts \<Rightarrow> conn" where
  "conn_new ch skips = \<lparr>cn_channel = ch, cn_skipped = skips, cn_wire = [], cn_buf = [],
     cn_ka_deadline = None, cn_hold_deadline = None\<rparr>"

definition ka_interval :: "u16 \<Rightarrow> nat option" where
  "ka_interval hold = (if hold = 0 then None else Some (1000 * max (unat hold div 3) 1))"

definition hold_dur :: "u16 \<Rightarrow> nat option" where
  "hold_dur hold = (if hold = 0 then None else Some (1000 * unat hold))"

text \<open>
  One connect attempt up to the established loop: connect, OPEN both ways, checks, KEEPALIVE, the
  confirmation within \<open>confirm_timeout\<close> (\<open>confirmed_ms\<close> is when it comes), the re-announcement.
  The result is the connection and either the peer's OPEN or the reason the attempt ended.
\<close>

datatype established = Established open_msg | Ended session_outcome | StillWaiting

definition reannounce_all ::
  "(ip_net \<Rightarrow> ip_net) \<Rightarrow> writes \<Rightarrow> open_msg \<Rightarrow> conn \<Rightarrow> (conn \<times> session_outcome option) bgp"
where
  "reannounce_all trunc wr peer c =
     obind (reannounce_routes trunc wr peer (map snd (ch_active (cn_channel c))) c) (\<lambda>(c, out).
       case out of Some oc \<Rightarrow> Ok (c, Some oc)
       | None \<Rightarrow> reannounce_flowspec trunc wr peer (map snd (ch_active_flowspec (cn_channel c))) c)"

definition open_confirmed ::
  "(ip_net \<Rightarrow> ip_net) \<Rightarrow> writes \<Rightarrow> open_msg \<Rightarrow> u16 \<Rightarrow> read_result list \<Rightarrow> nat \<Rightarrow> nat \<Rightarrow> u8 list \<Rightarrow> conn \<Rightarrow>
   (conn \<times> established) bgp"
where
  "open_confirmed trunc wr peer hold reads confirmed_ms now buf c =
     (if confirm_timeout hold < confirmed_ms then Ok (c, Ended (Reconnect ConfirmTimedOut))
      else obind (await_peer_confirmation reads buf) (\<lambda>(fr, _). case fr of
          NeedMore _ \<Rightarrow> Ok (c, StillWaiting)
        | Stop oc \<Rightarrow> Ok (c, Ended oc)
        | Complete _ buf \<Rightarrow>
            obind (reannounce_all trunc wr peer (c\<lparr>cn_buf := buf\<rparr>)) (\<lambda>(c, out). case out of
                Some oc \<Rightarrow> Ok (c, Ended oc)
              | None \<Rightarrow> Ok (c\<lparr>cn_ka_deadline := map_option ((+) now) (ka_interval hold),
                              cn_hold_deadline := map_option ((+) now) (hold_dur hold)\<rparr>, Established peer))))"

definition session_open ::
  "(ip_net \<Rightarrow> ip_net) \<Rightarrow> peer_config \<Rightarrow> bool \<Rightarrow> writes \<Rightarrow> read_result list \<Rightarrow> nat \<Rightarrow> nat \<Rightarrow>
   bgp_channel \<Rightarrow> skip_counts \<Rightarrow> (conn \<times> established) bgp"
where
  "session_open trunc cfg tcp_up wr reads confirmed_ms now ch skips =
     (let c = conn_new ch skips in
      if \<not> tcp_up then Ok (c, Ended (Reconnect ConnectFailed))
      else obind (send_packet wr (encode_open (local_open cfg)) SendOpenFailed c) (\<lambda>(c, out). case out of
        Some oc \<Rightarrow> Ok (c, Ended oc)
      | None \<Rightarrow>
        obind (handshake reads []) (\<lambda>(fr, reads). case fr of
          NeedMore _ \<Rightarrow> Ok (c, StillWaiting)
        | Stop oc \<Rightarrow> Ok (c, Ended oc)
        | Complete peer buf \<Rightarrow>
          (case check_open cfg peer of
             Some (subcode, why) \<Rightarrow>
               obind (encode_notification \<lparr>nm_code = 2, nm_subcode = subcode, nm_data = []\<rparr>) (\<lambda>notif.
                 Ok (snd (write_all wr notif c), Ended (Reconnect why)))
           | None \<Rightarrow>
               obind (send_packet wr encode_keepalive SendKeepaliveFailed c) (\<lambda>(c, out). case out of
                 Some oc \<Rightarrow> Ok (c, Ended oc)
               | None \<Rightarrow> open_confirmed trunc wr peer (hold_secs cfg peer) reads confirmed_ms now buf c)))))"

section \<open>The established loop\<close>

text \<open>Decode every complete frame; KEEPALIVE and UPDATE reset the hold timer.\<close>

function established_frames ::
  "u16 \<Rightarrow> nat \<Rightarrow> u8 list \<Rightarrow> nat option \<Rightarrow> (u8 list \<times> nat option \<times> session_outcome option) bgp"
where
  "established_frames hold now buf deadline =
     (case next_frame buf of
        Panic \<Rightarrow> Panic
      | Err e \<Rightarrow> Ok (buf, deadline, Some (Reconnect (DecodeError e)))
      | Ok None \<Rightarrow> Ok (buf, deadline, None)
      | Ok (Some (msg, rest)) \<Rightarrow>
          (case msg of
             Keepalive \<Rightarrow> established_frames hold now rest (map_option ((+) now) (hold_dur hold))
           | Update \<Rightarrow> established_frames hold now rest (map_option ((+) now) (hold_dur hold))
           | Notification n \<Rightarrow> Ok (rest, deadline, Some (Reconnect (PeerNotification (nm_code n) (nm_subcode n))))
           | Open _ \<Rightarrow> established_frames hold now rest deadline))"
  by pat_completeness auto
termination by (relation "measure (\<lambda>(_, _, buf, _). length buf)") (auto dest: next_frame_shorter)

declare established_frames.simps [simp del]

definition set_active :: "route_table \<Rightarrow> conn \<Rightarrow> conn" where
  "set_active active c = c\<lparr>cn_channel := (cn_channel c)\<lparr>ch_active := active\<rparr>\<rparr>"

definition set_active_flowspec :: "flow_table \<Rightarrow> conn \<Rightarrow> conn" where
  "set_active_flowspec active c = c\<lparr>cn_channel := (cn_channel c)\<lparr>ch_active_flowspec := active\<rparr>\<rparr>"

fun run_command ::
  "(ip_net \<Rightarrow> ip_net) \<Rightarrow> writes \<Rightarrow> open_msg \<Rightarrow> session_command \<Rightarrow> conn \<Rightarrow> (conn \<times> session_outcome option) bgp"
where
  "run_command trunc wr peer (CmdAnnounce route) c =
     (let p = r_prefix route; safi = safi_for_route p; active = hm_insert p route (ch_active (cn_channel c)) in
      if \<not> announce_allowed peer safi then Ok (set_active active (skip safi c), None)
      else obind (build_announce trunc route) (\<lambda>pkt. send_packet wr (Ok pkt) WriteFailed (set_active active c)))"
| "run_command trunc wr peer (CmdWithdraw p) c =
     (let c = set_active (hm_remove p (ch_active (cn_channel c))) c; safi = safi_for_route p in
      if \<not> announce_allowed peer safi then Ok (skip safi c, None)
      else send_packet wr (build_withdraw trunc p) WriteFailed c)"
| "run_command trunc wr peer (CmdAnnounceFlowSpec rule) c =
     (let key = flowspec_key trunc rule; safi = safi_for_flowspec (fl_dst rule);
          active = hm_insert key rule (ch_active_flowspec (cn_channel c)) in
      if \<not> announce_allowed peer safi then Ok (set_active_flowspec active (skip safi c), None)
      else obind (build_flowspec_announce trunc rule) (\<lambda>pkt.
        send_packet wr (Ok pkt) WriteFailed (set_active_flowspec active c)))"
| "run_command trunc wr peer (CmdWithdrawFlowSpec rule) c =
     (let key = flowspec_key trunc rule;
          c = set_active_flowspec (hm_remove key (ch_active_flowspec (cn_channel c))) c;
          safi = safi_for_flowspec (fl_dst rule) in
      if \<not> announce_allowed peer safi then Ok (skip safi c, None)
      else send_packet wr (build_flowspec_withdraw trunc rule) WriteFailed c)"

text \<open>
  What one iteration finds: the time, the result of a read if the socket is ready, and whether every
  handle has been dropped. The select is biased: keepalive timer, hold timer, socket, command.
\<close>

record loop_io =
  io_now :: nat
  io_readable :: "read_result option"
  io_closed :: bool

definition due :: "nat option \<Rightarrow> nat \<Rightarrow> bool" where
  "due deadline now = (case deadline of None \<Rightarrow> False | Some d \<Rightarrow> d \<le> now)"

definition loop_select ::
  "(ip_net \<Rightarrow> ip_net) \<Rightarrow> writes \<Rightarrow> open_msg \<Rightarrow> u16 \<Rightarrow> loop_io \<Rightarrow> conn \<Rightarrow> (conn \<times> session_outcome option) bgp"
where
  "loop_select trunc wr peer hold io c =
     (if due (cn_ka_deadline c) (io_now io) then
        obind (send_packet wr encode_keepalive SendKeepaliveFailed c) (\<lambda>(c, out).
          Ok (if out = None then c\<lparr>cn_ka_deadline := map_option ((+) (io_now io)) (ka_interval hold)\<rparr> else c, out))
      else if due (cn_hold_deadline c) (io_now io) then
        obind (encode_notification \<lparr>nm_code = 4, nm_subcode = 0, nm_data = []\<rparr>) (\<lambda>notif.
          Ok (snd (write_all wr notif c), Some (Reconnect HoldTimerExpired)))
      else case io_readable io of
        Some ReadErr \<Rightarrow> Ok (c, Some (Reconnect ReadError))
      | Some (ReadOk bs) \<Rightarrow>
          if bs = [] then Ok (c, Some (Reconnect PeerClosed))
          else let c = c\<lparr>cn_buf := cn_buf c @ bs\<rparr> in
            Ok (c, if READ_BUF_LIMIT < length (cn_buf c) then Some (Reconnect ReadBufferOverflow) else None)
      | None \<Rightarrow>
          (case ch_commands (cn_channel c) of
             [] \<Rightarrow> Ok (c, if io_closed io then Some CommandsExhausted else None)
           | cmd # cmds \<Rightarrow>
               run_command trunc wr peer cmd (c\<lparr>cn_channel := (cn_channel c)\<lparr>ch_commands := cmds\<rparr>\<rparr>)))"

definition established_iter ::
  "(ip_net \<Rightarrow> ip_net) \<Rightarrow> writes \<Rightarrow> open_msg \<Rightarrow> u16 \<Rightarrow> loop_io \<Rightarrow> conn \<Rightarrow> (conn \<times> session_outcome option) bgp"
where
  "established_iter trunc wr peer hold io c =
     obind (established_frames hold (io_now io) (cn_buf c) (cn_hold_deadline c)) (\<lambda>(buf, deadline, out).
       let c = c\<lparr>cn_buf := buf, cn_hold_deadline := deadline\<rparr> in
       case out of Some oc \<Rightarrow> Ok (c, Some oc) | None \<Rightarrow> loop_select trunc wr peer hold io c)"

text \<open>
  A run of the loop: before each iteration the handles may have sent commands. The run stops at the
  first outcome.
\<close>

definition arrive :: "session_command list \<Rightarrow> conn \<Rightarrow> conn" where
  "arrive cmds c = c\<lparr>cn_channel := (cn_channel c)\<lparr>ch_commands := ch_commands (cn_channel c) @ cmds\<rparr>\<rparr>"

fun established_run ::
  "(ip_net \<Rightarrow> ip_net) \<Rightarrow> writes \<Rightarrow> open_msg \<Rightarrow> u16 \<Rightarrow> (session_command list \<times> loop_io) list \<Rightarrow> conn \<Rightarrow>
   (conn \<times> session_outcome option) bgp"
where
  "established_run trunc wr peer hold [] c = Ok (c, None)"
| "established_run trunc wr peer hold ((cmds, io) # evs) c =
     obind (established_iter trunc wr peer hold io (arrive cmds c)) (\<lambda>(c, out). case out of
         Some oc \<Rightarrow> Ok (c, Some oc)
       | None \<Rightarrow> established_run trunc wr peer hold evs c)"

section \<open>The reconnect loop\<close>

datatype session_state = Idle | Connecting | EstablishedState

record session_task =
  tk_channel :: bgp_channel
  tk_state :: session_state
  tk_reconnects :: u64
  tk_consecutive_failures :: nat
  tk_delay_secs :: nat


definition run_new :: "bgp_channel \<Rightarrow> session_task" where
  "run_new ch = \<lparr>tk_channel = ch, tk_state = Connecting, tk_reconnects = 0, tk_consecutive_failures = 0, tk_delay_secs = 0\<rparr>"

definition run_established :: "session_task \<Rightarrow> session_task" where
  "run_established tk = tk\<lparr>tk_consecutive_failures := 0, tk_state := EstablishedState\<rparr>"


section \<open>The peer's tables\<close>

text \<open>What the peer holds after reading the packets of a connection in order.\<close>

fun apply_view :: "peer_view option \<Rightarrow> (ip_net \<rightharpoonup> route) \<Rightarrow> (ip_net \<rightharpoonup> route)" where
  "apply_view None m = m"
| "apply_view (Some (SeesAnnounce r)) m = m(r_prefix r \<mapsto> r)"
| "apply_view (Some (SeesWithdraw p)) m = m(p := None)"

fun apply_fs_view :: "fs_view option \<Rightarrow> (flow_match \<rightharpoonup> f32) \<Rightarrow> (flow_match \<rightharpoonup> f32)" where
  "apply_fs_view None m = m"
| "apply_fs_view (Some (SeesRule k rate)) m = m(k \<mapsto> rate)"
| "apply_fs_view (Some (SeesRuleWithdraw k)) m = m(k := None)"

definition peer_rib :: "u8 list list \<Rightarrow> ip_net \<rightharpoonup> route" where
  "peer_rib pkts = fold (\<lambda>pkt. apply_view (peer_reads pkt)) pkts Map.empty"

definition peer_frib :: "u8 list list \<Rightarrow> flow_match \<rightharpoonup> f32" where
  "peer_frib pkts = fold (\<lambda>pkt. apply_fs_view (fs_peer_reads pkt)) pkts Map.empty"

lemma peer_rib_simps [simp]:
  "peer_rib [] = Map.empty" "peer_frib [] = Map.empty"
  "peer_rib (pkts @ [pkt]) = apply_view (peer_reads pkt) (peer_rib pkts)"
  "peer_frib (pkts @ [pkt]) = apply_fs_view (fs_peer_reads pkt) (peer_frib pkts)"
  by (simp_all add: peer_rib_def peer_frib_def)

text \<open>Routes and rules the planes may hand to the session.\<close>

definition sendable :: "route \<Rightarrow> bool" where
  "sendable r \<longleftrightarrow> is_host_route (r_prefix r) \<and> same_family (r_prefix r) (r_next_hop r) \<and> route_fits r"

fun cmd_ok :: "session_command \<Rightarrow> bool" where
  "cmd_ok (CmdAnnounce r) = sendable r"
| "cmd_ok (CmdWithdraw p) = is_host_route p"
| "cmd_ok (CmdAnnounceFlowSpec f) = is_host_route (fl_dst f)"
| "cmd_ok (CmdWithdrawFlowSpec f) = is_host_route (fl_dst f)"

fun rate_of :: "flow_action \<Rightarrow> f32" where
  "rate_of (TrafficRate rate) = rate"

lemma announce_packet:
  assumes "trunc_ok trunc" "sendable r"
  obtains pkt where "build_announce trunc r = Ok pkt" "peer_reads pkt = Some (SeesAnnounce r)" "fs_peer_reads pkt = None"
  using assms announce_v4 [OF assms(1), of r] announce_v6 [OF assms(1), of r] unicast_not_flowspec
  by (cases "r_prefix r"; cases "r_next_hop r") (fastforce simp: sendable_def)+

lemma withdraw_packet:
  assumes "trunc_ok trunc" "is_host_route p"
  obtains pkt where "build_withdraw trunc p = Ok pkt" "peer_reads pkt = Some (SeesWithdraw p)" "fs_peer_reads pkt = None"
  using withdraw_host [OF assms] unicast_not_flowspec by blast

lemma flowspec_packet:
  assumes "trunc_ok trunc" "is_host_route (fl_dst f)"
  obtains pkt where "build_flowspec_announce trunc f = Ok pkt"
    "fs_peer_reads pkt = Some (SeesRule (match_of f) (rate_of (fl_action f)))" "peer_reads pkt = None"
  using flowspec_announce_view [OF assms] by (cases "fl_action f") auto

lemma flowspec_withdraw_packet:
  assumes "trunc_ok trunc" "is_host_route (fl_dst f)"
  obtains pkt where "build_flowspec_withdraw trunc f = Ok pkt"
    "fs_peer_reads pkt = Some (SeesRuleWithdraw (match_of f))" "peer_reads pkt = None"
  using flowspec_withdraw_view [OF assms] by blast

lemma control_packet:
  assumes "encode_header t body = Ok pkt" "t \<noteq> 2"
  shows "peer_reads pkt = None \<and> fs_peer_reads pkt = None"
proof -
  from assms(1) have "pkt ! 18 = t"
    by (auto simp: encode_header_def Let_def obind_eq_Ok MARKER_def be16_def nth_append opt_expect_def split: option.splits)
  with assms(2) have "read_update_frame pkt = None" by (simp add: read_update_frame_def)
  then show ?thesis by (simp add: peer_reads_def fs_peer_reads_def)
qed

lemma keepalive_packet:
  obtains pkt where "encode_keepalive = Ok pkt" "peer_reads pkt = None" "fs_peer_reads pkt = None"
proof -
  obtain pkt where "encode_header (msg_code MtKeepalive) [] = Ok pkt"
    by (simp add: encode_header_def HEADER_LEN_def try_u16_def)
  with control_packet that show thesis by (fastforce simp: encode_keepalive_def)
qed

lemma notification_packet:
  obtains pkt where "encode_notification \<lparr>nm_code = a, nm_subcode = b, nm_data = []\<rparr> = Ok pkt"
    "peer_reads pkt = None" "fs_peer_reads pkt = None"
proof -
  obtain pkt where "encode_header (msg_code MtNotification) [a, b] = Ok pkt"
    by (simp add: encode_header_def HEADER_LEN_def try_u16_def)
  with control_packet that show thesis by (fastforce simp: encode_notification_def)
qed

lemma open_packet:
  obtains pkt where "encode_open o' = Ok pkt" "peer_reads pkt = None" "fs_peer_reads pkt = None"
proof -
  obtain body where body: "encode_open_body o' = Ok body" "length body \<le> 100"
    using encode_open_body_Ok [of o'] length_open_caps [of o'] by fastforce
  then obtain pkt where "encode_header (msg_code MtOpen) body = Ok pkt"
    by (simp add: encode_header_def HEADER_LEN_def try_u16_def)
  with control_packet that body show thesis by (fastforce simp: encode_open_def)
qed

section \<open>The session invariant\<close>

definition channel_ok :: "(ip_net \<Rightarrow> ip_net) \<Rightarrow> bgp_channel \<Rightarrow> bool" where
  "channel_ok trunc ch \<longleftrightarrow> hm_wf (ch_active ch) \<and> hm_wf (ch_active_flowspec ch) \<and>
     (\<forall>cmd\<in>set (ch_commands ch). cmd_ok cmd) \<and>
     (\<forall>p r. hm_get (ch_active ch) p = Some r \<longrightarrow> sendable r \<and> p = r_prefix r) \<and>
     (\<forall>k f. hm_get (ch_active_flowspec ch) k = Some f \<longrightarrow> is_host_route (fl_dst f) \<and> k = flowspec_key trunc f)"

text \<open>The peer's table is the session's table, restricted to what was negotiated.\<close>

definition rib_synced :: "open_msg \<Rightarrow> conn \<Rightarrow> bool" where
  "rib_synced peer c \<longleftrightarrow> (\<forall>p. peer_rib (cn_wire c) p =
     (if announce_allowed peer (safi_for_route p) then hm_get (ch_active (cn_channel c)) p else None))"

definition frib_synced :: "(ip_net \<Rightarrow> ip_net) \<Rightarrow> open_msg \<Rightarrow> conn \<Rightarrow> bool" where
  "frib_synced trunc peer c \<longleftrightarrow> (\<forall>f. is_host_route (fl_dst f) \<longrightarrow> peer_frib (cn_wire c) (match_of f) =
     (if announce_allowed peer (safi_for_flowspec (fl_dst f))
      then map_option (\<lambda>g. rate_of (fl_action g)) (hm_get (ch_active_flowspec (cn_channel c)) (flowspec_key trunc f))
      else None))"

definition synced :: "(ip_net \<Rightarrow> ip_net) \<Rightarrow> open_msg \<Rightarrow> conn \<Rightarrow> bool" where
  "synced trunc peer c \<longleftrightarrow> channel_ok trunc (cn_channel c) \<and> rib_synced peer c \<and> frib_synced trunc peer c"

lemma flowspec_key_host:
  assumes "trunc_ok trunc" "is_host_route (fl_dst f)" "is_host_route (fl_dst g)"
  shows "flowspec_key trunc f = flowspec_key trunc g \<longleftrightarrow> match_of f = match_of g"
proof -
  obtain x y where "encode_flowspec_nlri trunc f = Ok x" "encode_flowspec_nlri trunc g = Ok y"
    using flowspec_nlri_host [OF assms(1,2)] flowspec_nlri_host [OF assms(1,3)] by metis
  then show ?thesis using nlri_match [OF assms] by (simp add: flowspec_key_def)
qed

lemma send_packet_Ok:
  "send_packet wr (Ok pkt) why c = Ok (if wr (length (cn_wire c)) then (c\<lparr>cn_wire := cn_wire c @ [pkt]\<rparr>, None)
     else (c, Some (Reconnect why)))"
  by (simp add: send_packet_def write_all_def)

lemma synced_fields:
  assumes "cn_wire c' = cn_wire c" "ch_active (cn_channel c') = ch_active (cn_channel c)"
    "ch_active_flowspec (cn_channel c') = ch_active_flowspec (cn_channel c)"
    "set (ch_commands (cn_channel c')) \<subseteq> Collect cmd_ok"
    "synced trunc peer c"
  shows "synced trunc peer c'"
  using assms by (auto simp: synced_def channel_ok_def rib_synced_def frib_synced_def)

lemma synced_write:
  "synced trunc peer c \<Longrightarrow> peer_reads pkt = None \<Longrightarrow> fs_peer_reads pkt = None \<Longrightarrow>
   synced trunc peer (c\<lparr>cn_wire := cn_wire c @ [pkt]\<rparr>)"
  by (simp add: synced_def rib_synced_def frib_synced_def)

text \<open>A command keeps the tables and the peer in step; a failed write ends the session.\<close>

definition command_step :: "(ip_net \<Rightarrow> ip_net) \<Rightarrow> open_msg \<Rightarrow> session_command \<Rightarrow> conn \<Rightarrow> (conn \<times> session_outcome option) bgp \<Rightarrow> bool" where
  "command_step trunc peer cmd c res \<longleftrightarrow> (\<exists>c' out. res = Ok (c', out) \<and> channel_ok trunc (cn_channel c') \<and>
     (out = None \<longrightarrow> synced trunc peer c') \<and>
     ch_commands (cn_channel c') = ch_commands (cn_channel c) \<and>
     (ch_active (cn_channel c'), ch_active_flowspec (cn_channel c')) =
       drain_loop trunc [cmd] (ch_active (cn_channel c)) (ch_active_flowspec (cn_channel c)))"

lemma command_announce:
  assumes "trunc_ok trunc" "synced trunc peer c" "sendable r"
  shows "command_step trunc peer (CmdAnnounce r) c (run_command trunc wr peer (CmdAnnounce r) c)"
proof -
  obtain pkt where pkt: "build_announce trunc r = Ok pkt" "peer_reads pkt = Some (SeesAnnounce r)" "fs_peer_reads pkt = None"
    using announce_packet [OF assms(1,3)] .
  have ch: "channel_ok trunc ((cn_channel c)\<lparr>ch_active := hm_insert (r_prefix r) r (ch_active (cn_channel c))\<rparr>)"
    using assms(2,3) by (auto simp: synced_def channel_ok_def)
  show ?thesis
    using assms(2) pkt ch
    by (auto simp: command_step_def send_packet_Ok set_active_def skip_def synced_def rib_synced_def frib_synced_def Let_def)
qed

lemma command_withdraw:
  assumes "trunc_ok trunc" "synced trunc peer c" "is_host_route p"
  shows "command_step trunc peer (CmdWithdraw p) c (run_command trunc wr peer (CmdWithdraw p) c)"
proof -
  obtain pkt where pkt: "build_withdraw trunc p = Ok pkt" "peer_reads pkt = Some (SeesWithdraw p)" "fs_peer_reads pkt = None"
    using withdraw_packet [OF assms(1,3)] .
  have ch: "channel_ok trunc ((cn_channel c)\<lparr>ch_active := hm_remove p (ch_active (cn_channel c))\<rparr>)"
    using assms(2) by (auto simp: synced_def channel_ok_def split: if_splits)
  show ?thesis
    using assms(2) pkt ch
    by (auto simp: command_step_def send_packet_Ok set_active_def skip_def synced_def rib_synced_def frib_synced_def Let_def)
qed

lemma safi_match: "match_of f = match_of g \<Longrightarrow> safi_for_flowspec (fl_dst f) = safi_for_flowspec (fl_dst g)"
  by (simp add: match_of_def)

lemma command_flowspec:
  assumes "trunc_ok trunc" "synced trunc peer c" "is_host_route (fl_dst f)"
  shows "command_step trunc peer (CmdAnnounceFlowSpec f) c (run_command trunc wr peer (CmdAnnounceFlowSpec f) c)"
proof -
  obtain pkt where pkt: "build_flowspec_announce trunc f = Ok pkt"
    "fs_peer_reads pkt = Some (SeesRule (match_of f) (rate_of (fl_action f)))" "peer_reads pkt = None"
    using flowspec_packet [OF assms(1,3)] .
  have ch: "channel_ok trunc ((cn_channel c)\<lparr>ch_active_flowspec :=
      hm_insert (flowspec_key trunc f) f (ch_active_flowspec (cn_channel c))\<rparr>)"
    using assms(2,3) by (auto simp: synced_def channel_ok_def)
  note keys = flowspec_key_host [OF assms(1) _ assms(3)]
  show ?thesis
    using assms(2) pkt ch
    by (auto simp: command_step_def send_packet_Ok set_active_flowspec_def skip_def synced_def rib_synced_def frib_synced_def
        Let_def keys dest: safi_match)
qed

lemma command_withdraw_flowspec:
  assumes "trunc_ok trunc" "synced trunc peer c" "is_host_route (fl_dst f)"
  shows "command_step trunc peer (CmdWithdrawFlowSpec f) c (run_command trunc wr peer (CmdWithdrawFlowSpec f) c)"
proof -
  obtain pkt where pkt: "build_flowspec_withdraw trunc f = Ok pkt"
    "fs_peer_reads pkt = Some (SeesRuleWithdraw (match_of f))" "peer_reads pkt = None"
    using flowspec_withdraw_packet [OF assms(1,3)] .
  have ch: "channel_ok trunc ((cn_channel c)\<lparr>ch_active_flowspec :=
      hm_remove (flowspec_key trunc f) (ch_active_flowspec (cn_channel c))\<rparr>)"
    using assms(2,3) by (auto simp: synced_def channel_ok_def split: if_splits)
  note keys = flowspec_key_host [OF assms(1) _ assms(3)]
  show ?thesis
    using assms(2) pkt ch
    by (auto simp: command_step_def send_packet_Ok set_active_flowspec_def skip_def synced_def rib_synced_def frib_synced_def
        Let_def keys dest: safi_match)
qed

lemma run_command_step:
  assumes "trunc_ok trunc" "synced trunc peer c" "cmd_ok cmd"
  shows "command_step trunc peer cmd c (run_command trunc wr peer cmd c)"
  using assms command_announce command_withdraw command_flowspec command_withdraw_flowspec by (cases cmd) auto

section \<open>Any input of the peer is handled\<close>

lemma handshake_frames_total: "\<exists>fr. handshake_frames buf = Ok fr"
proof (induction buf rule: handshake_frames.induct)
  case (1 buf)
  then show ?case
    by (subst handshake_frames.simps)
      (auto simp: next_frame_no_panic split: outcome.splits option.splits bgp_message.splits)
qed

lemma handshake_total: "\<exists>fr rs'. handshake rs buf = Ok (fr, rs')"
proof (induction rs buf rule: handshake.induct)
  case (3 bs rs buf)
  obtain fr where "handshake_frames (buf @ bs) = Ok fr" using handshake_frames_total by blast
  with 3 show ?case by (cases fr) (auto simp: Let_def)
qed auto

lemma confirm_frames_total: "\<exists>fr. confirm_frames buf = Ok fr"
proof (induction buf rule: confirm_frames.induct)
  case (1 buf)
  then show ?case
    by (subst confirm_frames.simps)
      (auto simp: next_frame_no_panic split: outcome.splits option.splits bgp_message.splits)
qed

lemma await_total: "\<exists>fr rs'. await_peer_confirmation rs buf = Ok (fr, rs')"
proof (induction rs arbitrary: buf)
  case Nil
  obtain fr where "confirm_frames buf = Ok fr" using confirm_frames_total by blast
  then show ?case by (subst await_peer_confirmation.simps) (cases fr; simp)
next
  case (Cons r rs)
  obtain fr where fr: "confirm_frames buf = Ok fr" using confirm_frames_total by blast
  show ?case
  proof (cases fr)
    case (NeedMore buf')
    with fr Cons show ?thesis
      by (subst await_peer_confirmation.simps) (cases r; simp add: Let_def del: await_peer_confirmation.simps)
  qed (subst await_peer_confirmation.simps, simp add: fr)+
qed

declare await_peer_confirmation.simps [simp del]

lemma established_frames_total:
  "\<exists>buf' d out. established_frames hold now buf deadline = Ok (buf', d, out)"
proof (induction hold now buf deadline rule: established_frames.induct)
  case (1 hold now buf deadline)
  then show ?case
    by (subst established_frames.simps)
      (auto simp: next_frame_no_panic split: outcome.splits option.splits bgp_message.splits)
qed

section \<open>The loop keeps the peer in step\<close>

definition drained :: "(ip_net \<Rightarrow> ip_net) \<Rightarrow> conn \<Rightarrow> route_table \<times> flow_table" where
  "drained trunc c = drain_loop trunc (ch_commands (cn_channel c)) (ch_active (cn_channel c)) (ch_active_flowspec (cn_channel c))"

definition loop_step :: "(ip_net \<Rightarrow> ip_net) \<Rightarrow> open_msg \<Rightarrow> conn \<Rightarrow> (conn \<times> session_outcome option) bgp \<Rightarrow> bool" where
  "loop_step trunc peer c res \<longleftrightarrow> (\<exists>c' out. res = Ok (c', out) \<and> channel_ok trunc (cn_channel c') \<and>
     (out = None \<longrightarrow> synced trunc peer c') \<and> drained trunc c' = drained trunc c)"

lemma loop_step_same:
  "synced trunc peer c \<Longrightarrow> cn_channel c' = cn_channel c \<Longrightarrow> out = None \<longrightarrow> synced trunc peer c' \<Longrightarrow>
   loop_step trunc peer c (Ok (c', out))"
  by (simp add: loop_step_def synced_def drained_def)

lemma synced_channel: "synced trunc peer c \<Longrightarrow> cn_wire c' = cn_wire c \<Longrightarrow> cn_channel c' = cn_channel c \<Longrightarrow> synced trunc peer c'"
  by (simp add: synced_def rib_synced_def frib_synced_def)

lemma loop_select_step:
  assumes "trunc_ok trunc" "synced trunc peer c"
  shows "loop_step trunc peer c (loop_select trunc wr peer hold io c)"
proof -
  obtain kp where kp: "encode_keepalive = Ok kp" "peer_reads kp = None" "fs_peer_reads kp = None" using keepalive_packet .
  obtain nt where nt: "encode_notification \<lparr>nm_code = 4, nm_subcode = 0, nm_data = []\<rparr> = Ok nt"
    "peer_reads nt = None" "fs_peer_reads nt = None" using notification_packet .
  note same = loop_step_same [OF assms(2)]
  consider (ka) "due (cn_ka_deadline c) (io_now io)"
    | (hold) "\<not> due (cn_ka_deadline c) (io_now io)" "due (cn_hold_deadline c) (io_now io)"
    | (read) r where "\<not> due (cn_ka_deadline c) (io_now io)" "\<not> due (cn_hold_deadline c) (io_now io)" "io_readable io = Some r"
    | (idle) "\<not> due (cn_ka_deadline c) (io_now io)" "\<not> due (cn_hold_deadline c) (io_now io)" "io_readable io = None"
        "ch_commands (cn_channel c) = []"
    | (cmd) cmd cmds where "\<not> due (cn_ka_deadline c) (io_now io)" "\<not> due (cn_hold_deadline c) (io_now io)" "io_readable io = None"
        "ch_commands (cn_channel c) = cmd # cmds"
    by (cases "io_readable io"; cases "ch_commands (cn_channel c)") auto
  then show ?thesis
  proof cases
    case ka
    let ?c = "c\<lparr>cn_wire := cn_wire c @ [kp]\<rparr>"
    have "synced trunc peer (?c\<lparr>cn_ka_deadline := d\<rparr>)" for d
      by (rule synced_channel [OF synced_write [OF assms(2) kp(2,3)]]) simp_all
    then show ?thesis
      using ka by (auto simp: loop_select_def kp(1) send_packet_Ok intro!: same)
  next
    case hold
    with nt show ?thesis by (auto simp: loop_select_def write_all_def intro!: same)
  next
    case (read r)
    then show ?thesis
      using synced_channel [OF assms(2)] by (cases r) (auto simp: loop_select_def Let_def intro!: same)
  next
    case idle
    then show ?thesis using assms(2) by (auto simp: loop_select_def intro!: same)
  next
    case (cmd cm cmds)
    let ?c = "c\<lparr>cn_channel := (cn_channel c)\<lparr>ch_commands := cmds\<rparr>\<rparr>"
    have ok: "cmd_ok cm" and "synced trunc peer ?c"
      using assms(2) cmd by (auto simp: synced_def channel_ok_def rib_synced_def frib_synced_def)
    from run_command_step [OF assms(1) this(2) ok, of wr]
    show ?thesis
      using cmd by (auto simp: loop_select_def command_step_def loop_step_def drained_def
        drain_loop_append [of trunc "[cm]" cmds, simplified] case_prod_beta prod_eq_iff)
  qed
qed

lemma established_iter_step:
  assumes "trunc_ok trunc" "synced trunc peer c"
  shows "loop_step trunc peer c (established_iter trunc wr peer hold io c)"
proof -
  obtain buf d out where fr: "established_frames hold (io_now io) (cn_buf c) (cn_hold_deadline c) = Ok (buf, d, out)"
    using established_frames_total by blast
  let ?c = "c\<lparr>cn_buf := buf, cn_hold_deadline := d\<rparr>"
  have s: "synced trunc peer ?c" using synced_channel [OF assms(2), of ?c] by simp
  from loop_select_step [OF assms(1) s, of wr hold io] have "loop_step trunc peer c (loop_select trunc wr peer hold io ?c)"
    by (simp add: loop_step_def drained_def)
  then show ?thesis
    using s by (auto simp: established_iter_def fr Let_def intro: loop_step_same [OF assms(2)] split: option.splits)
qed

lemma synced_arrive:
  "synced trunc peer c \<Longrightarrow> \<forall>cmd\<in>set cmds. cmd_ok cmd \<Longrightarrow> synced trunc peer (arrive cmds c)"
  by (auto simp: arrive_def synced_def channel_ok_def rib_synced_def frib_synced_def)

lemma established_run_step:
  assumes "trunc_ok trunc" "synced trunc peer c" "\<forall>(cmds, io)\<in>set evs. \<forall>cmd\<in>set cmds. cmd_ok cmd"
  shows "\<exists>c' out. established_run trunc wr peer hold evs c = Ok (c', out) \<and> channel_ok trunc (cn_channel c') \<and>
    (out = None \<longrightarrow> synced trunc peer c' \<and> drained trunc c' = drained trunc (arrive (concat (map fst evs)) c))"
  using assms(2,3)
proof (induction evs arbitrary: c)
  case Nil
  then show ?case by (simp add: synced_def arrive_def)
next
  case (Cons ev evs)
  obtain cmds io where ev: "ev = (cmds, io)" by (cases ev)
  have "synced trunc peer (arrive cmds c)" using Cons.prems ev by (auto intro: synced_arrive)
  from established_iter_step [OF assms(1) this, of wr hold io]
  obtain c1 out where c1: "established_iter trunc wr peer hold io (arrive cmds c) = Ok (c1, out)"
    "channel_ok trunc (cn_channel c1)" "out = None \<longrightarrow> synced trunc peer c1" "drained trunc c1 = drained trunc (arrive cmds c)"
    by (auto simp: loop_step_def)
  show ?case
  proof (cases out)
    case None
    with Cons.IH [of c1] Cons.prems c1 obtain c' out' where
      c': "established_run trunc wr peer hold evs c1 = Ok (c', out')" "channel_ok trunc (cn_channel c')"
      "out' = None \<longrightarrow> synced trunc peer c' \<and> drained trunc c' = drained trunc (arrive (concat (map fst evs)) c1)" by auto
    have "drained trunc (arrive (concat (map fst evs)) c1) = drained trunc (arrive (concat (map fst (ev # evs))) c)"
      using c1(4) by (simp add: ev drained_def arrive_def drain_loop_append flip: append_assoc)
    with c' c1 None ev show ?thesis by simp
  qed (use c1 ev in auto)
qed

section \<open>Establishing a session brings the peer in step\<close>

lemma reannounce_routes_effect:
  assumes "trunc_ok trunc" "\<forall>r\<in>set rs. sendable r" "distinct (map r_prefix rs)"
  shows "\<exists>c' out. reannounce_routes trunc wr peer rs c = Ok (c', out) \<and> cn_channel c' = cn_channel c \<and>
    (out = None \<longrightarrow> peer_frib (cn_wire c') = peer_frib (cn_wire c) \<and>
      (\<forall>p. peer_rib (cn_wire c') p = (case map_of (map (\<lambda>r. (r_prefix r, r)) rs) p of
          Some r \<Rightarrow> if announce_allowed peer (safi_for_route p) then Some r else peer_rib (cn_wire c) p
        | None \<Rightarrow> peer_rib (cn_wire c) p)))"
  using assms(2,3)
proof (induction rs arbitrary: c)
  case (Cons r rs)
  obtain pkt where pkt: "build_announce trunc r = Ok pkt" "peer_reads pkt = Some (SeesAnnounce r)" "fs_peer_reads pkt = None"
    using announce_packet [OF assms(1)] Cons.prems by (metis list.set_intros(1))
  have notin: "map_of (map (\<lambda>r. (r_prefix r, r)) rs) (r_prefix r) = None"
    using Cons.prems by (simp add: map_of_eq_None_iff image_image)
  show ?case
  proof (cases "announce_allowed peer (safi_for_route (r_prefix r))")
    case False
    with Cons.IH [of "skip (safi_for_route (r_prefix r)) c"] Cons.prems notin show ?thesis
      by (fastforce simp: skip_def split: option.splits)
  next
    case True
    with Cons.IH [of "c\<lparr>cn_wire := cn_wire c @ [pkt]\<rparr>"] Cons.prems notin pkt show ?thesis
      by (fastforce simp: send_packet_Ok split: option.splits)
  qed
qed simp

lemma skip_fields [simp]: "cn_wire (skip safi c) = cn_wire c" "cn_channel (skip safi c) = cn_channel c"
  by (simp_all add: skip_def)

definition fs_overlay ::
  "(ip_net \<Rightarrow> ip_net) \<Rightarrow> open_msg \<Rightarrow> flowspec_rule list \<Rightarrow> (flow_match \<rightharpoonup> f32) \<Rightarrow> (flow_match \<rightharpoonup> f32) \<Rightarrow> bool"
where
  "fs_overlay trunc peer fs old new \<longleftrightarrow> (\<forall>f. is_host_route (fl_dst f) \<longrightarrow> new (match_of f) =
     (case map_of (map (\<lambda>g. (flowspec_key trunc g, g)) fs) (flowspec_key trunc f) of
        Some g \<Rightarrow> if announce_allowed peer (safi_for_flowspec (fl_dst f)) then Some (rate_of (fl_action g)) else old (match_of f)
      | None \<Rightarrow> old (match_of f)))"

lemma fs_overlay_cons:
  assumes keys: "\<And>f. is_host_route (fl_dst f) \<Longrightarrow> flowspec_key trunc f = flowspec_key trunc g \<longleftrightarrow> match_of f = match_of g"
    and "map_of (map (\<lambda>r. (flowspec_key trunc r, r)) fs) (flowspec_key trunc g) = None"
    and "fs_overlay trunc peer fs (if announce_allowed peer (safi_for_flowspec (fl_dst g))
      then old(match_of g \<mapsto> rate_of (fl_action g)) else old) new"
  shows "fs_overlay trunc peer (g # fs) old new"
  unfolding fs_overlay_def
proof (intro allI impI)
  fix f :: flowspec_rule assume host: "is_host_route (fl_dst f)"
  show "new (match_of f) = (case map_of (map (\<lambda>g. (flowspec_key trunc g, g)) (g # fs)) (flowspec_key trunc f) of
      Some g \<Rightarrow> if announce_allowed peer (safi_for_flowspec (fl_dst f)) then Some (rate_of (fl_action g)) else old (match_of f)
    | None \<Rightarrow> old (match_of f))"
  proof (cases "match_of f = match_of g")
    case True
    with keys [OF host] have k: "flowspec_key trunc f = flowspec_key trunc g" by simp
    with assms(2) have "map_of (map (\<lambda>r. (flowspec_key trunc r, r)) fs) (flowspec_key trunc f) = None" by simp
    with assms(3) [unfolded fs_overlay_def, rule_format, OF host] True safi_match [OF True] k show ?thesis by simp
  next
    case False
    with keys [OF host] have k: "flowspec_key trunc f \<noteq> flowspec_key trunc g" by simp
    with assms(3) [unfolded fs_overlay_def, rule_format, OF host] False show ?thesis by (simp split: option.splits)
  qed
qed

lemma reannounce_flowspec_effect:
  assumes "trunc_ok trunc" "\<forall>f\<in>set fs. is_host_route (fl_dst f)" "distinct (map (flowspec_key trunc) fs)"
  shows "\<exists>c' out. reannounce_flowspec trunc wr peer fs c = Ok (c', out) \<and> cn_channel c' = cn_channel c \<and>
    (out = None \<longrightarrow> peer_rib (cn_wire c') = peer_rib (cn_wire c) \<and>
      fs_overlay trunc peer fs (peer_frib (cn_wire c)) (peer_frib (cn_wire c')))"
  using assms(2,3)
proof (induction fs arbitrary: c)
  case Nil
  then show ?case by (simp add: fs_overlay_def)
next
  case (Cons g fs)
  have host: "is_host_route (fl_dst g)" using Cons.prems by simp
  obtain pkt where pkt: "build_flowspec_announce trunc g = Ok pkt"
    "fs_peer_reads pkt = Some (SeesRule (match_of g) (rate_of (fl_action g)))" "peer_reads pkt = None"
    using flowspec_packet [OF assms(1) host] .
  have notin: "map_of (map (\<lambda>r. (flowspec_key trunc r, r)) fs) (flowspec_key trunc g) = None"
    using Cons.prems by (simp add: map_of_eq_None_iff image_image)
  note cons = fs_overlay_cons [where old = "peer_frib (cn_wire c)", OF flowspec_key_host [OF assms(1) _ host] notin]
  show ?case
  proof (cases "announce_allowed peer (safi_for_flowspec (fl_dst g))")
    case False
    with Cons.IH [of "skip (safi_for_flowspec (fl_dst g)) c"] Cons.prems show ?thesis by (auto intro!: cons)
  next
    case True
    with Cons.IH [of "c\<lparr>cn_wire := cn_wire c @ [pkt]\<rparr>"] Cons.prems pkt show ?thesis
      by (auto simp: send_packet_Ok fun_upd_def intro!: cons)
  qed
qed

lemma hm_values:
  assumes "hm_wf m" "\<forall>k v. hm_get m k = Some v \<longrightarrow> k = key v"
  shows "map (\<lambda>v. (key v, v)) (map snd m) = m" "distinct (map key (map snd m))"
    "v \<in> set (map snd m) \<Longrightarrow> hm_get m (key v) = Some v"
proof -
  have k: "k = key v" if "(k, v) \<in> set m" for k v using assms that by (simp add: hm_mem_get)
  then show "map (\<lambda>v. (key v, v)) (map snd m) = m" by (auto intro!: map_idI)
  have "map key (map snd m) = map fst m" using k by auto
  then show "distinct (map key (map snd m))" using assms(1) by (simp only: hm_wf_def)
  show "v \<in> set (map snd m) \<Longrightarrow> hm_get m (key v) = Some v"
    using k assms(1) by (auto simp flip: hm_mem_get)
qed

lemma reannounce_all_effect:
  assumes "trunc_ok trunc" "channel_ok trunc (cn_channel c)" "peer_rib (cn_wire c) = Map.empty" "peer_frib (cn_wire c) = Map.empty"
  shows "\<exists>c' out. reannounce_all trunc wr peer c = Ok (c', out) \<and> cn_channel c' = cn_channel c \<and>
    (out = None \<longrightarrow> synced trunc peer c')"
proof -
  let ?a = "ch_active (cn_channel c)" and ?f = "ch_active_flowspec (cn_channel c)"
  have wf: "hm_wf ?a" "hm_wf ?f" and key: "\<forall>p r. hm_get ?a p = Some r \<longrightarrow> p = r_prefix r"
    "\<forall>k f. hm_get ?f k = Some f \<longrightarrow> k = flowspec_key trunc f"
    and ok: "\<And>p r. hm_get ?a p = Some r \<Longrightarrow> sendable r" "\<And>k f. hm_get ?f k = Some f \<Longrightarrow> is_host_route (fl_dst f)"
    using assms(2) by (auto simp: channel_ok_def)
  note va = hm_values [where key = r_prefix, OF wf(1) key(1)]
    and vf = hm_values [where key = "flowspec_key trunc", OF wf(2) key(2)]
  have "\<forall>r\<in>set (map snd ?a). sendable r" using va(3) ok(1) by blast
  from reannounce_routes_effect [OF assms(1) this va(2), of wr peer c, unfolded va(1) assms(3,4)]
  obtain c1 out where c1: "reannounce_routes trunc wr peer (map snd ?a) c = Ok (c1, out)" "cn_channel c1 = cn_channel c"
    "out = None \<longrightarrow> peer_frib (cn_wire c1) = Map.empty \<and> (\<forall>p. peer_rib (cn_wire c1) p = (case map_of ?a p of
       Some r \<Rightarrow> if announce_allowed peer (safi_for_route p) then Some r else None | None \<Rightarrow> None))"
    by blast
  have rib: "out = None \<Longrightarrow> rib_synced peer c1"
    using c1(2,3) by (simp add: rib_synced_def hm_get_def split: option.splits)
  show ?thesis
  proof (cases out)
    case None
    have "\<forall>f\<in>set (map snd ?f). is_host_route (fl_dst f)" using vf(3) ok(2) by blast
    from reannounce_flowspec_effect [OF assms(1) this vf(2), of wr peer c1]
    obtain c2 out2 where c2: "reannounce_flowspec trunc wr peer (map snd ?f) c1 = Ok (c2, out2)" "cn_channel c2 = cn_channel c1"
      "out2 = None \<longrightarrow> peer_rib (cn_wire c2) = peer_rib (cn_wire c1) \<and>
        fs_overlay trunc peer (map snd ?f) (peer_frib (cn_wire c1)) (peer_frib (cn_wire c2))" by blast
    have "frib_synced trunc peer c2" if "out2 = None"
      unfolding frib_synced_def
    proof (intro allI impI)
      fix f :: flowspec_rule assume host: "is_host_route (fl_dst f)"
      from c2(3) that have "fs_overlay trunc peer (map snd ?f) Map.empty (peer_frib (cn_wire c2))"
        using c1(3) None by simp
      from this [unfolded fs_overlay_def vf(1), rule_format, OF host]
      show "peer_frib (cn_wire c2) (match_of f) = (if announce_allowed peer (safi_for_flowspec (fl_dst f))
          then map_option (\<lambda>g. rate_of (fl_action g)) (hm_get (ch_active_flowspec (cn_channel c2)) (flowspec_key trunc f))
          else None)"
        using c2(2) c1(2) by (simp add: hm_get_def split: option.splits)
    qed
    moreover have "rib_synced peer c2" if "out2 = None"
      using that c2(2,3) rib [OF None] by (simp add: rib_synced_def)
    ultimately have "out2 = None \<longrightarrow> synced trunc peer c2"
      using c2(2) c1(2) assms(2) by (simp add: synced_def)
    with c1 c2 None show ?thesis by (simp add: reannounce_all_def)
  qed (use c1 in \<open>simp add: reannounce_all_def\<close>)
qed

lemma peer_rib_control:
  "peer_reads pkt = None \<Longrightarrow> peer_rib (cn_wire c) = Map.empty \<Longrightarrow> peer_rib (cn_wire (c\<lparr>cn_wire := cn_wire c @ [pkt]\<rparr>)) = Map.empty"
  "fs_peer_reads pkt = None \<Longrightarrow> peer_frib (cn_wire c) = Map.empty \<Longrightarrow> peer_frib (cn_wire (c\<lparr>cn_wire := cn_wire c @ [pkt]\<rparr>)) = Map.empty"
  by simp_all

lemma open_confirmed_effect:
  assumes "trunc_ok trunc" "channel_ok trunc (cn_channel c)" "peer_rib (cn_wire c) = Map.empty" "peer_frib (cn_wire c) = Map.empty"
  shows "\<exists>c' res. open_confirmed trunc wr peer hold reads confirmed_ms now buf c = Ok (c', res) \<and> cn_channel c' = cn_channel c \<and>
    (\<forall>peer'. res = Established peer' \<longrightarrow> peer' = peer \<and> synced trunc peer c')"
proof -
  obtain fr rs where fr: "await_peer_confirmation reads buf = Ok (fr, rs)" using await_total by blast
  show ?thesis
  proof (cases fr)
    case (Complete u buf')
    let ?c = "c\<lparr>cn_buf := buf'\<rparr>"
    obtain c1 out where c1: "reannounce_all trunc wr peer ?c = Ok (c1, out)" "cn_channel c1 = cn_channel c"
      "out = None \<longrightarrow> synced trunc peer c1"
      using reannounce_all_effect [of trunc ?c wr peer] assms by auto
    have "out = None \<longrightarrow> synced trunc peer (c1\<lparr>cn_ka_deadline := k, cn_hold_deadline := h\<rparr>)" for k h
      using c1(3) synced_channel [of trunc peer c1] by simp
    with c1 Complete show ?thesis
      by (cases out) (simp_all add: open_confirmed_def fr)
  qed (simp_all add: open_confirmed_def fr)
qed

lemma session_open_effect:
  assumes "trunc_ok trunc" "channel_ok trunc ch"
  shows "\<exists>c res. session_open trunc cfg tcp_up wr reads confirmed_ms now ch skips = Ok (c, res) \<and> cn_channel c = ch \<and>
    (\<forall>peer. res = Established peer \<longrightarrow> check_open cfg peer = None \<and> synced trunc peer c)"
proof -
  obtain op where op: "encode_open (local_open cfg) = Ok op" "peer_reads op = None" "fs_peer_reads op = None" using open_packet .
  obtain kp where kp: "encode_keepalive = Ok kp" "peer_reads kp = None" "fs_peer_reads kp = None" using keepalive_packet .
  obtain fr rs where fr: "handshake reads [] = Ok (fr, rs)" using handshake_total by blast
  let ?c0 = "conn_new ch skips"
  let ?c1 = "?c0\<lparr>cn_wire := [op]\<rparr>"
  let ?c2 = "?c0\<lparr>cn_wire := [op, kp]\<rparr>"
  have tables: "peer_rib [op, kp] = Map.empty" "peer_frib [op, kp] = Map.empty"
    using op kp by (simp_all add: peer_rib_def peer_frib_def)
  show ?thesis
  proof (cases "tcp_up \<and> wr 0")
    case False
    then show ?thesis by (auto simp: session_open_def Let_def op(1) send_packet_Ok conn_new_def)
  next
    case up: True
    show ?thesis
    proof (cases fr)
      case (Complete peer buf)
      show ?thesis
      proof (cases "check_open cfg peer")
        case (Some n)
        obtain sub why where n: "n = (sub, why)" by (cases n)
        obtain nt where "encode_notification \<lparr>nm_code = 2, nm_subcode = sub, nm_data = []\<rparr> = Ok nt"
          using notification_packet by blast
        with up Complete Some n show ?thesis
          by (simp add: session_open_def Let_def op(1) send_packet_Ok conn_new_def fr write_all_def)
      next
        case None
        obtain c res where c: "open_confirmed trunc wr peer (hold_secs cfg peer) rs confirmed_ms now buf ?c2 = Ok (c, res)"
          "cn_channel c = ch" "\<forall>peer'. res = Established peer' \<longrightarrow> peer' = peer \<and> synced trunc peer c"
          using open_confirmed_effect [of trunc ?c2 wr peer "hold_secs cfg peer" rs confirmed_ms now buf] assms tables
          by (auto simp: conn_new_def)
        then show ?thesis
          using up Complete None
          by (cases "wr 1") (auto simp: session_open_def Let_def op(1) kp(1) send_packet_Ok conn_new_def fr)
      qed
    qed (use up in \<open>auto simp: session_open_def Let_def op(1) send_packet_Ok conn_new_def fr\<close>)
  qed
qed

section \<open>Properties\<close>

text \<open>
  C5. The peer follows the session: once a session is established with a peer, and through any run of
  its loop (commands arriving at any time, KEEPALIVEs, timers, any octets from the peer), as long as
  the session stays up the peer's routing table, read from the packets by the RFCs, is exactly the
  session's active table restricted to the address families the peer negotiated, and likewise its
  FlowSpec table holds exactly the active rules with their rates.
\<close>

theorem session_peer_in_sync:
  assumes "trunc_ok trunc" "channel_ok trunc ch"
    and "session_open trunc cfg tcp_up wr reads confirmed_ms now ch skips = Ok (c0, Established peer)"
    and "\<forall>(cmds, io)\<in>set evs. \<forall>cmd\<in>set cmds. cmd_ok cmd"
    and "established_run trunc wr peer hold evs c0 = Ok (c, None)"
  shows "(\<forall>p. peer_rib (cn_wire c) p =
      (if announce_allowed peer (safi_for_route p) then hm_get (ch_active (cn_channel c)) p else None)) \<and>
    (\<forall>f. is_host_route (fl_dst f) \<longrightarrow> peer_frib (cn_wire c) (match_of f) =
      (if announce_allowed peer (safi_for_flowspec (fl_dst f))
       then map_option (\<lambda>g. rate_of (fl_action g)) (hm_get (ch_active_flowspec (cn_channel c)) (flowspec_key trunc f))
       else None))"
proof -
  have "synced trunc peer c0" using session_open_effect [OF assms(1,2), of cfg tcp_up wr reads confirmed_ms now skips] assms(3) by auto
  from established_run_step [OF assms(1) this assms(4), of wr hold] assms(5) have "synced trunc peer c" by auto
  then show ?thesis by (simp add: synced_def rib_synced_def frib_synced_def)
qed

definition sample_peer :: peer_config where
  "sample_peer = \<lparr>pr_local_asn = 64512, pr_peer_asn = 64512, pr_peer_addr = (V4 0xC0000201, 179), pr_router_id = 1,
     pr_hold_time = 90, pr_md5 = None, pr_gtsm_hops = None, pr_local_addr = None\<rparr>"

text \<open>A peer that answers with an OPEN for both unicast families, and a KEEPALIVE behind it.\<close>

definition sample_open :: open_msg where
  "sample_open = \<lparr>om_asn = 64512, om_hold_time = 30, om_router_id = 2, om_ipv4_unicast = True, om_ipv6_unicast = True,
     om_flowspec_v4 = False, om_flowspec_v6 = False\<rparr>"

lemma sample_session:
  obtains reads c0 where
    "session_open net_trunc sample_peer True (\<lambda>_. True) reads 0 0 channel_new skip_none = Ok (c0, Established sample_open)"
    "cn_channel c0 = channel_new" "cn_ka_deadline c0 = Some 10000" "cn_hold_deadline c0 = Some 30000" "cn_buf c0 = []"
proof -
  obtain op where op: "encode_open (local_open sample_peer) = Ok op" using open_packet by blast
  obtain po where po: "encode_open sample_open = Ok po" using open_packet by blast
  obtain kp where kp: "encode_keepalive = Ok kp" using keepalive_packet by blast
  have lens: "length po \<le> 4096" "length kp = 19" "po \<noteq> []"
    using po kp encode_open_len [OF po] encode_message_header [of "Open sample_open" po]
    by (auto simp: encode_keepalive_def encode_header_def Let_def obind_eq_Ok HEADER_LEN_def MARKER_def try_u16_def opt_expect_def
        split: if_splits)
  have "handshake_frames (po @ kp) = Ok (Complete sample_open kp)"
    using next_frame_encoded [of "Open sample_open" po kp] po lens by (subst handshake_frames.simps) simp
  then have hs: "handshake [ReadOk (po @ kp)] [] = Ok (Complete sample_open kp, [])"
    using lens by (simp add: READ_BUF_LIMIT_def)
  have "confirm_frames kp = Ok (Complete () [])"
    using next_frame_encoded [of Keepalive kp "[]"] kp lens by (subst confirm_frames.simps) simp
  then have cf: "await_peer_confirmation [] kp = Ok (Complete () [], [])"
    by (subst await_peer_confirmation.simps) simp
  have chk: "check_open sample_peer sample_open = None" by (simp add: check_open_def sample_peer_def sample_open_def)
  have tables: "ch_active channel_new = []" "ch_active_flowspec channel_new = []" by (simp_all add: channel_new_def)
  have hold: "hold_secs sample_peer sample_open = 30" by (simp add: hold_secs_def sample_peer_def sample_open_def)
  have "session_open net_trunc sample_peer True (\<lambda>_. True) [ReadOk (po @ kp)] 0 0 channel_new skip_none =
    Ok (\<lparr>cn_channel = channel_new, cn_skipped = skip_none, cn_wire = [op, kp], cn_buf = [],
       cn_ka_deadline = Some 10000, cn_hold_deadline = Some 30000\<rparr>, Established sample_open)"
    by (simp add: session_open_def Let_def op kp hs cf send_packet_Ok hold chk open_confirmed_def confirm_timeout_def conn_new_def
        reannounce_all_def tables ka_interval_def hold_dur_def del: handshake.simps)
  then show thesis by (rule that) simp_all
qed

theorem session_peer_in_sync_witness:
  "\<exists>reads c0 c. session_open net_trunc sample_peer True (\<lambda>_. True) reads 0 0 channel_new skip_none = Ok (c0, Established sample_open) \<and>
     established_run net_trunc (\<lambda>_. True) sample_open 30
       [([CmdAnnounce sample_route], \<lparr>io_now = 1, io_readable = None, io_closed = False\<rparr>)] c0 = Ok (c, None) \<and>
     peer_rib (cn_wire c) (r_prefix sample_route) = Some sample_route"
proof -
  obtain reads c0 where s: "session_open net_trunc sample_peer True (\<lambda>_. True) reads 0 0 channel_new skip_none = Ok (c0, Established sample_open)"
    "cn_channel c0 = channel_new" "cn_ka_deadline c0 = Some 10000" "cn_hold_deadline c0 = Some 30000" "cn_buf c0 = []"
    using sample_session .
  let ?evs = "[([CmdAnnounce sample_route], \<lparr>io_now = 1, io_readable = None, io_closed = False\<rparr>)]"
  have ok: "sendable sample_route" by (simp add: sendable_def sample_route_def route_fits_def)
  obtain pkt where pkt: "build_announce net_trunc sample_route = Ok pkt" using announce_packet [OF net_trunc_ok ok] by blast
  have "\<exists>c. established_run net_trunc (\<lambda>_. True) sample_open 30 ?evs c0 = Ok (c, None) \<and>
      hm_get (ch_active (cn_channel c)) (r_prefix sample_route) = Some sample_route"
    using s(2-5) pkt by (subst established_run.simps)
      (simp add: established_iter_def arrive_def established_frames.simps [of _ _ "[]"] next_frame_def HEADER_LEN_def loop_select_def
        due_def channel_new_def Let_def send_packet_Ok set_active_def sample_route_def)
  then obtain c where c: "established_run net_trunc (\<lambda>_. True) sample_open 30 ?evs c0 = Ok (c, None)"
    "hm_get (ch_active (cn_channel c)) (r_prefix sample_route) = Some sample_route" by blast
  have "peer_rib (cn_wire c) (r_prefix sample_route) = Some sample_route"
    using session_peer_in_sync [OF net_trunc_ok _ s(1) _ c(1)] c(2) ok
    by (simp add: channel_ok_def channel_new_def sample_route_def)
  with s(1) c(1) show ?thesis by blast
qed

text \<open>
  C10. No input brings the session down in an uncontrolled way: whatever octets the peer sends, in
  whatever pieces, whatever reads and writes fail and whenever timers fire, opening a session and
  running its loop return with a connection or with the reason to reconnect; nothing panics, and the
  tables stay well formed for the next attempt.
\<close>

theorem session_never_panics:
  assumes "trunc_ok trunc" "channel_ok trunc ch" "\<forall>(cmds, io)\<in>set evs. \<forall>cmd\<in>set cmds. cmd_ok cmd"
  shows "\<exists>c0 res. session_open trunc cfg tcp_up wr reads confirmed_ms now ch skips = Ok (c0, res) \<and>
    channel_ok trunc (cn_channel c0) \<and>
    (\<forall>peer. res = Established peer \<longrightarrow>
      (\<exists>c out. established_run trunc wr peer hold evs c0 = Ok (c, out) \<and> channel_ok trunc (cn_channel c)))"
proof -
  obtain c0 res where o: "session_open trunc cfg tcp_up wr reads confirmed_ms now ch skips = Ok (c0, res)" "cn_channel c0 = ch"
    "\<forall>peer. res = Established peer \<longrightarrow> check_open cfg peer = None \<and> synced trunc peer c0"
    using session_open_effect [OF assms(1,2), of cfg tcp_up wr reads confirmed_ms now skips] by blast
  with established_run_step [OF assms(1) _ assms(3), of _ c0 wr hold] assms(2) show ?thesis by blast
qed

theorem session_never_panics_witness:
  "\<exists>c0 res. session_open net_trunc sample_peer True (\<lambda>_. True) [ReadOk [1, 2, 3], ReadErr] 0 0 channel_new skip_none = Ok (c0, res)"
  using session_never_panics [of net_trunc channel_new "[]" sample_peer True "\<lambda>_. True" "[ReadOk [1, 2, 3], ReadErr]" 0 0 skip_none 0]
  by (auto simp: net_trunc_ok channel_ok_def channel_new_def)

text \<open>
  The handshake does not depend on how TCP cuts the stream: if the peer's octets, taken as one
  buffer, contain its OPEN, then reading them in any non-empty pieces finds the same OPEN, and the
  octets behind it are kept for the next phase, partly in the buffer and partly still to be read.
\<close>

lemma handshake_segmentation:
  assumes "handshake_frames (concat pieces) = Ok (Complete peer rest)"
    and "\<forall>piece\<in>set pieces. piece \<noteq> []" "length (concat pieces) \<le> READ_BUF_LIMIT"
  shows "\<exists>buf later. handshake (map ReadOk pieces) [] = Ok (Complete peer buf, map ReadOk later) \<and>
    buf @ concat later = rest"
proof -
  have "handshake_frames [] = Ok (NeedMore [])"
    by (subst handshake_frames.simps) (simp add: next_frame_def HEADER_LEN_def)
  with handshake_pieces [of "[]" pieces peer rest] assms show ?thesis by simp
qed


end
