(* ===== verification/Delivery.thy ===== *)
theory Delivery
  imports Bgp_Session
begin

text \<open>
  From a manager to the peer: the commands the RTBH manager queues are all encodable, so the session
  delivers them. The theorem composes the commit-after-confirm invariant of the manager
  (\<^verbatim>\<open>blackwall-rtbh/src/manager.rs\<close>) with the synchronisation of the session
  (\<^verbatim>\<open>blackwall-bgp/src/session_net.rs\<close>).
\<close>

section \<open>Executor states the manager keeps\<close>

text \<open>
  A predicate on the executor's state that survives announcing a configured blackhole route and
  withdrawing a host prefix, whatever the outcome of the call, survives every operation.
\<close>

definition executor_keeps :: "'b bgp_executor_ops \<Rightarrow> rtbh_config \<Rightarrow> ('b \<Rightarrow> bool) \<Rightarrow> bool" where
  "executor_keeps bx cfg P \<longleftrightarrow>
     (\<forall>t r b. rtbh_host_route cfg t = Some r \<longrightarrow> P b \<longrightarrow> P (snd (bx_announce bx r b))) \<and>
     (\<forall>t b. P b \<longrightarrow> P (snd (bx_withdraw bx (host_prefix t) b)))"

definition kept :: "rtbh_config \<Rightarrow> ('b \<Rightarrow> bool) \<Rightarrow> ('b, 'j) rtbh_manager \<Rightarrow> bool" where
  "kept cfg P m \<longleftrightarrow> P (rm_bgp m) \<and> rc_config (rm_controller m) = cfg \<and>
     (\<forall>oper\<in>set (rm_pending_reapply m). rtbh_host_route cfg (ro_target oper) = Some (ro_route oper))"

lemma keepsD:
  assumes "executor_keeps bx cfg P" "P b"
  shows "rtbh_host_route cfg t = Some r \<Longrightarrow> bx_announce bx r b = (ok, b') \<Longrightarrow> P b'"
    and "bx_withdraw bx (host_prefix t) b = (ok, b') \<Longrightarrow> P b'"
  using assms unfolding executor_keeps_def by (metis snd_conv)+

lemma kept_announce:
  assumes "executor_keeps bx cfg P" "kept cfg P m" "rtbh_host_route cfg t = Some r"
  shows "kept cfg P (snd (rm_execute_announce bx bj t r orig mn wn m))"
proof (rule rm_execute_announce_cases [of bx bj t r orig mn wn m])
  fix b' assume "rm_controller (snd (rm_execute_announce bx bj t r orig mn wn m)) = rtbh_rollback (rm_controller m) t"
    "rm_bgp (snd (rm_execute_announce bx bj t r orig mn wn m)) = b'"
    "b' = rm_bgp m \<or> bx_announce bx r (rm_bgp m) = (False, b')"
  with assms keepsD(1) [OF assms(1)] show ?thesis by (auto simp: kept_def rtbh_rollback_def)
next
  fix b' assume "bx_announce bx r (rm_bgp m) = (True, b')"
    "rm_controller (snd (rm_execute_announce bx bj t r orig mn wn m)) = rm_controller m"
    "rm_bgp (snd (rm_execute_announce bx bj t r orig mn wn m)) = b'"
  with assms keepsD(1) [OF assms(1)] show ?thesis by (auto simp: kept_def)
qed

lemma kept_withdraw:
  assumes "executor_keeps bx cfg P" "kept cfg P m"
  shows "kept cfg P (rm_execute_withdraw bx bj (host_prefix t) wn m)"
  by (rule rm_execute_withdraw_cases [of bx "host_prefix t" m bj wn])
    (use assms keepsD(2) [OF assms(1)] in \<open>auto simp: kept_def\<close>)

lemma kept_withdraws:
  assumes "executor_keeps bx cfg P" "kept cfg P m"
  shows "kept cfg P (fold (rm_execute bx bj mn wn) (map (\<lambda>t. Withdraw (host_prefix t)) ts) m)"
  using assms(2) by (induction ts arbitrary: m) (simp_all add: kept_withdraw [OF assms(1)])

lemma kept_controller: "kept cfg P m \<Longrightarrow> rc_config c' = cfg \<Longrightarrow> kept cfg P (m\<lparr>rm_controller := c'\<rparr>)"
  by (simp add: kept_def)

lemma kept_actions:
  assumes k: "executor_keeps bx cfg P" "kept cfg P m" and oper: "\<forall>t. oper \<noteq> Rollback t"
    and ex: "rtbh_exec contains oper (rm_controller m) = (acts, c')"
  shows "kept cfg P (fold (rm_execute bx bj mn wn) acts (m\<lparr>rm_controller := c'\<rparr>))"
proof -
  have cfg: "rc_config (rm_controller m) = cfg" "rc_config c' = cfg"
    using rtbh_exec_config [of contains oper "rm_controller m"] ex k(2) by (auto simp: kept_def)
  note m = kept_controller [OF k(2) cfg(2)]
  show ?thesis
  proof (rule rtbh_exec_cases [of contains oper "rm_controller m"], unfold ex fst_conv snd_conv)
    fix t r e assume "acts = [Announce r]" "r_prefix r = host_prefix t" "rtbh_host_route (rc_config (rm_controller m)) t = Some r"
    with kept_announce [OF k(1) m, of t r] cfg show ?thesis by simp
  next
    fix ts assume "acts = map (\<lambda>t. Withdraw (host_prefix t)) ts"
    with kept_withdraws [OF k(1) m] show ?thesis by simp
  qed (use m oper in auto)
qed

lemma kept_reapply_loop:
  assumes k: "executor_keeps bx cfg P" "kept cfg P m"
    and "\<forall>oper\<in>set opers. rtbh_host_route cfg (ro_target oper) = Some (ro_route oper)"
  shows "kept cfg P (rm_reapply_loop bx opers m)"
  using assms(2-)
proof (induction opers arbitrary: m)
  case (Cons oper opers)
  obtain ok b' where ann: "bx_announce bx (ro_route oper) (rm_bgp m) = (ok, b')" by fastforce
  have "P b'" using keepsD(1) [OF k(1) _ _ ann] Cons.prems by (auto simp: kept_def)
  then have "kept cfg P (m\<lparr>rm_bgp := b', rm_pending_reapply :=
      if ok then rm_pending_reapply m else rm_pending_reapply m @ [oper]\<rparr>)"
    using Cons.prems by (auto simp: kept_def)
  from Cons.IH [OF this] Cons.IH [OF Cons.prems(1)] Cons.prems(2) show ?case
    by (cases ok) (auto simp: ann Let_def)
qed simp

lemma kept_retry:
  "executor_keeps bx cfg P \<Longrightarrow> kept cfg P m \<Longrightarrow>
   kept cfg P (rm_retry_pending_reapply bx (rm_retry_pending_mirror bj m))"
  using kept_reapply_loop [of bx cfg P "(rm_retry_pending_mirror bj m)\<lparr>rm_pending_reapply := []\<rparr>" "rm_pending_reapply m"]
  by (simp add: rm_retry_pending_reapply_def kept_def)

lemma kept_mirror [simp]: "kept cfg P (rm_queue_mirror oper m) = kept cfg P m" "kept cfg P (m\<lparr>rm_journal := j\<rparr>) = kept cfg P m"
  by (simp_all add: kept_def rm_queue_mirror_def)

lemma kept_add:
  assumes k: "executor_keeps bx cfg P" "kept cfg P m"
  shows "kept cfg P (snd (rm_apply_add contains bx bj t mn wn m))"
proof -
  obtain acts c' where res: "rtbh_manual_add contains (rm_controller m) t mn = (acts, c')" by fastforce
  have cfg: "rc_config (rm_controller m) = cfg" "rc_config c' = cfg"
    using rtbh_exec_config [of contains "ManualAdd t mn" "rm_controller m"] res k(2) by (auto simp: kept_def)
  note m = kept_controller [OF k(2) cfg(2)]
  have "acts = [] \<or> (\<exists>r. acts = [Announce r] \<and> rtbh_host_route cfg t = Some r)"
    using res cfg(1) by (cases "hm_get (rc_active (rm_controller m)) t"; rule_tac
        insert_blackhole_cases [of contains "rm_controller m" t mn Manual])
      (auto simp: rtbh_manual_add_def rtbh_blackhole_def)
  then show ?thesis
    using m kept_announce [OF k(1) m, of t] by (auto simp: rm_apply_add_def res Let_def case_prod_beta)
qed

lemma kept_rehydrate:
  assumes k: "executor_keeps bx cfg P"
  shows "kept cfg P m \<Longrightarrow> kept cfg P (rm_rehydrate contains bx rows mn m)"
proof (induction rows arbitrary: m)
  case (Cons row rows)
  obtain t a orig where row: "row = (t, a, orig)" by (cases row)
  obtain acts c' where res: "rtbh_resume contains (rm_controller m) t mn orig = (acts, c')" by fastforce
  have cfg: "rc_config (rm_controller m) = cfg" "rc_config c' = cfg"
    using rtbh_exec_config [of contains "Resume t mn orig" "rm_controller m"] res Cons.prems by (auto simp: kept_def)
  consider "acts = []" | r where "acts = [Announce r]" "rtbh_host_route cfg t = Some r"
    using res cfg(1) by (rule_tac insert_blackhole_cases [of contains "rm_controller m" t mn orig])
      (auto simp: rtbh_resume_def)
  then show ?case
  proof cases
    case 1
    with Cons kept_controller [OF Cons.prems cfg(2)] show ?thesis by (simp add: row res Let_def)
  next
    case (2 r)
    obtain ok b' where ann: "bx_announce bx r (rm_bgp m) = (ok, b')" by fastforce
    have "P b'" using keepsD(1) [OF k _ 2(2) ann] Cons.prems by (simp add: kept_def)
    then have "kept cfg P (let m = m\<lparr>rm_controller := c', rm_bgp := b'\<rparr> in
        if ok then m else rm_queue_reapply \<lparr>ro_target = t, ro_route = r\<rparr> m)"
      using Cons.prems 2 cfg by (auto simp: kept_def rm_queue_reapply_def Let_def)
    with 2 Cons.IH show ?thesis by (simp add: row res Let_def ann)
  qed
qed simp

lemma kept_disarm_loop:
  assumes k: "executor_keeps bx cfg P"
  shows "kept cfg P m \<Longrightarrow> kept cfg P (rm_disarm_loop bx ts m)"
proof (induction ts arbitrary: m)
  case (Cons t ts)
  obtain ok b' where w: "bx_withdraw bx (host_prefix t) (rm_bgp m) = (ok, b')" by fastforce
  let ?c = "rm_controller m"
  have "P b'" using keepsD(2) [OF k _ w] Cons.prems by (simp add: kept_def)
  then have "kept cfg P (m\<lparr>rm_controller := ?c\<lparr>rc_active := hm_remove t (rc_active ?c)\<rparr>, rm_bgp := b'\<rparr>)"
    using Cons.prems by (simp add: kept_def)
  with Cons w show ?case by (simp add: rtbh_manual_remove_def)
qed simp

lemma kept_exec:
  assumes k: "executor_keeps bx cfg P" "kept cfg P m"
  shows "kept cfg P (rm_exec contains bx bj oper m)"
proof (cases oper)
  case (ApplyEvent ev mn wn)
  then show ?thesis using kept_actions [OF k, of "OnEvent ev mn"] by (auto simp: rm_apply_event_def split: prod.splits)
next
  case (MgrTick mn wn)
  then show ?thesis using kept_actions [OF k(1) kept_retry [OF k], of "Tick mn"]
    by (auto simp: rm_tick_def Let_def split: prod.splits)
next
  case (ApplyAdd t mn wn) then show ?thesis using kept_add [OF k] by simp
next
  case (ApplyRemove t mn wn)
  then show ?thesis using kept_actions [OF k, of "ManualRemove t"] by (auto simp: rm_apply_remove_def split: prod.splits)
next
  case (Rehydrate rows mn) then show ?thesis using kept_rehydrate [OF k(1)] k(2) by simp
next
  case (Disarm mn)
  have "kept cfg P (m\<lparr>rm_disarmed := True\<rparr>)" using k(2) by (simp add: kept_def)
  from kept_disarm_loop [OF k(1) this] k(2) Disarm show ?thesis by (simp add: rm_disarm_def)
qed

lemma kept_run: "executor_keeps bx cfg P \<Longrightarrow> kept cfg P m \<Longrightarrow> kept cfg P (rm_run contains bx bj opers m)"
  unfolding rm_run_def by (induction opers arbitrary: m) (simp_all add: kept_exec)

section \<open>The queued commands are encodable\<close>

definition config_fits :: "rtbh_config \<Rightarrow> bool" where
  "config_fits cfg \<longleftrightarrow> length (rb_blackhole_communities cfg) \<le> 1000"

lemma host_route_sendable:
  assumes "rtbh_host_route cfg t = Some r" "config_fits cfg"
  shows "sendable r"
  using assms by (cases t) (auto simp: rtbh_host_route_def sendable_def config_fits_def route_fits_def host_prefix_host
      split: option.splits)

text \<open>Sending only queues: the tables change when the session works off the queue.\<close>

definition queued_on :: "(ip_net \<Rightarrow> ip_net) \<Rightarrow> bgp_channel \<Rightarrow> bgp_channel \<Rightarrow> bool" where
  "queued_on trunc ch ch' \<longleftrightarrow> channel_ok trunc ch' \<and> ch_active ch' = ch_active ch \<and>
     ch_active_flowspec ch' = ch_active_flowspec ch"

lemma handle_keeps_queued:
  assumes "config_fits cfg"
  shows "executor_keeps bgp_handle cfg (queued_on trunc ch0)"
proof -
  have "queued_on trunc ch0 (snd (handle_send cmd ch))" if "queued_on trunc ch0 ch" "cmd_ok cmd" for cmd ch
    using handle_send_cases [of cmd ch "fst (handle_send cmd ch)" "snd (handle_send cmd ch)"] that
    by (auto simp: queued_on_def channel_ok_def split: if_splits)
  with host_route_sendable [OF _ assms] show ?thesis
    by (simp add: executor_keeps_def bgp_handle_def host_prefix_host)
qed

section \<open>Delivery\<close>

lemma active_delivered:
  assumes "trunc_ok trunc" "config_fits cfg" "channel_ok trunc ch"
    and "session_open trunc pcfg tcp_up wr reads confirmed_ms now ch skips = Ok (c0, Established peer)"
    and "m = rm_run contains bgp_handle bj opers (rm_start rlo cfg ch j)"
    and "established_run trunc wr peer hold (map (Pair []) ios) (c0\<lparr>cn_channel := rm_bgp m\<rparr>) = Ok (c, None)"
    and "ch_commands (cn_channel c) = []"
    and "t \<in> set (hm_keys (rc_active (rm_controller m)))" "announce_allowed peer (safi_for_route (host_prefix t))"
  shows "(\<exists>r. rtbh_host_route cfg t = Some r \<and> peer_rib (cn_wire c) (host_prefix t) = Some r) \<or>
    t \<in> ro_target ` set (rm_pending_reapply m)"
proof -
  have c0: "synced trunc peer c0" "cn_channel c0 = ch"
    using session_open_effect [OF assms(1,3), of pcfg tcp_up wr reads confirmed_ms now skips] assms(4) by auto
  have "kept cfg (queued_on trunc ch) (rm_start rlo cfg ch j)"
    using assms(3) by (simp add: kept_def queued_on_def rm_start_fields rtbh_new_def)
  from kept_run [OF handle_keeps_queued [OF assms(2)] this] have ok: "queued_on trunc ch (rm_bgp m)"
    by (simp add: kept_def assms(5))
  let ?c = "c0\<lparr>cn_channel := rm_bgp m\<rparr>"
  have "synced trunc peer ?c"
    using c0 ok by (simp add: queued_on_def synced_def rib_synced_def frib_synced_def)
  from established_run_step [OF assms(1) this, of "map (Pair []) ios" wr hold] assms(6)
  have c: "synced trunc peer c" "drained trunc c = drained trunc (arrive (concat (map fst (map (Pair []) ios))) ?c)" by auto
  have none: "concat (map fst (map (Pair []) ios)) = ([] :: session_command list)" by (induction ios) simp_all
  have "(ch_active (cn_channel c), ch_active_flowspec (cn_channel c)) =
      drain_loop trunc (ch_commands (rm_bgp m)) (ch_active (rm_bgp m)) (ch_active_flowspec (rm_bgp m))"
    using c(2) assms(7) unfolding none by (simp add: drained_def arrive_def)
  then have "hm_get (ch_active (cn_channel c)) = session_rib (rm_bgp m)"
    by (simp add: session_rib_drain [of trunc, symmetric] drain_commands_def case_prod_beta prod_eq_iff)
  with c(1) assms(9) handle.active_confirmed [OF assms(5,8)] show ?thesis
    by (simp add: synced_def rib_synced_def)
qed

text \<open>One quiet turn of the sample session's loop sends the one queued announcement.\<close>

lemma sample_delivery:
  assumes "session_open net_trunc sample_peer True (\<lambda>_. True) reads 0 0 channel_new skip_none = Ok (c0, Established sample_open)"
    and "cn_channel c0 = channel_new" "cn_ka_deadline c0 = Some 10000" "cn_hold_deadline c0 = Some 30000" "cn_buf c0 = []"
    and "ch_commands ch = [CmdAnnounce r]" "rtbh_host_route sample_rtbh_config (V4 0xCB007107) = Some r" "config_fits sample_rtbh_config"
  shows "\<exists>c. established_run net_trunc (\<lambda>_. True) sample_open 30
      (map (Pair []) [\<lparr>io_now = 1, io_readable = None, io_closed = False\<rparr>]) (c0\<lparr>cn_channel := ch\<rparr>) = Ok (c, None) \<and>
    ch_commands (cn_channel c) = []"
proof -
  obtain pkt where pkt: "build_announce net_trunc r = Ok pkt"
    using announce_packet [OF net_trunc_ok host_route_sendable [OF assms(7,8)]] by blast
  have "safi_for_route (r_prefix r) = Ipv4Unicast" using rtbh_host_route_Some [OF assms(7)] by simp
  with assms(3-6) pkt show ?thesis
    by (simp add: established_iter_def arrive_def established_frames.simps [of _ _ "[]"] next_frame_def HEADER_LEN_def
        loop_select_def due_def Let_def send_packet_Ok set_active_def)
qed

section \<open>Properties\<close>

text \<open>
  C2. A mitigation reaches the network: with an established session, after any sequence of RTBH
  events, ticks, operator requests, rehydrations and disarms, and once the session loop has worked
  off the queued commands without being interrupted, the peer's routing table (read from the octets
  on the wire) holds the configured blackhole route of every target the controller holds as active,
  unless that target is queued for re-announcement or the peer did not negotiate its family.
\<close>

theorem rtbh_reaches_peer:
  assumes "trunc_ok trunc" "config_fits cfg" "channel_ok trunc ch"
    and "session_open trunc pcfg tcp_up wr reads confirmed_ms now ch skips = Ok (c0, Established peer)"
    and "m = rm_run contains bgp_handle bj opers (rm_start rlo cfg ch j)"
    and "established_run trunc wr peer hold (map (Pair []) ios) (c0\<lparr>cn_channel := rm_bgp m\<rparr>) = Ok (c, None)"
    and "ch_commands (cn_channel c) = []"
    and "t \<in> set (hm_keys (rc_active (rm_controller m)))" "announce_allowed peer (safi_for_route (host_prefix t))"
  shows "(\<exists>r. rtbh_host_route cfg t = Some r \<and> peer_rib (cn_wire c) (host_prefix t) = Some r) \<or>
    t \<in> ro_target ` set (rm_pending_reapply m)"
  by (rule active_delivered [OF assms])

theorem rtbh_reaches_peer_witness:
  "\<exists>reads c0 c r. session_open net_trunc sample_peer True (\<lambda>_. True) reads 0 0 channel_new skip_none = Ok (c0, Established sample_open) \<and>
     (let m = rm_run net_contains bgp_handle noop_blackhole_journal [ApplyAdd (V4 0xCB007107) 1 1]
            (rm_start None sample_rtbh_config channel_new ()) in
        established_run net_trunc (\<lambda>_. True) sample_open 30
          (map (Pair []) [\<lparr>io_now = 1, io_readable = None, io_closed = False\<rparr>]) (c0\<lparr>cn_channel := rm_bgp m\<rparr>) = Ok (c, None)) \<and>
     rtbh_host_route sample_rtbh_config (V4 0xCB007107) = Some r \<and>
     peer_rib (cn_wire c) (host_prefix (V4 0xCB007107)) = Some r"
proof -
  let ?m = "rm_run net_contains bgp_handle noop_blackhole_journal [ApplyAdd (V4 0xCB007107) 1 1]
    (rm_start None sample_rtbh_config channel_new ())"
  let ?io = "\<lparr>io_now = 1, io_readable = None, io_closed = False\<rparr>"
  obtain reads c0 where s: "session_open net_trunc sample_peer True (\<lambda>_. True) reads 0 0 channel_new skip_none = Ok (c0, Established sample_open)"
    "cn_channel c0 = channel_new" "cn_ka_deadline c0 = Some 10000" "cn_hold_deadline c0 = Some 30000" "cn_buf c0 = []"
    using sample_session .
  obtain r where r: "rtbh_host_route sample_rtbh_config (V4 0xCB007107) = Some r" by (simp add: rtbh_eval)
  have m: "V4 0xCB007107 \<in> set (hm_keys (rc_active (rm_controller ?m)))" "rm_pending_reapply ?m = []"
    "ch_commands (rm_bgp ?m) = [CmdAnnounce r]"
    using r by (simp_all add: rm_run_def rm_start_def rm_new_def rm_apply_add_def rtbh_eval rm_execute_announce_def
      bgp_handle_def handle_send_def channel_new_def noop_blackhole_journal_def hm_keys_def)
  have fits: "config_fits sample_rtbh_config" by (simp add: config_fits_def sample_rtbh_config_def)
  obtain c where c: "established_run net_trunc (\<lambda>_. True) sample_open 30 (map (Pair []) [?io]) (c0\<lparr>cn_channel := rm_bgp ?m\<rparr>) = Ok (c, None)"
    "ch_commands (cn_channel c) = []" using sample_delivery [OF s m(3) r fits] by blast
  have new: "channel_ok net_trunc channel_new" by (simp add: channel_ok_def channel_new_def)
  from rtbh_reaches_peer [OF net_trunc_ok fits new s(1) refl c m(1)] m(2) r s(1) c(1) show ?thesis
    unfolding Let_def by fastforce
qed

end
