(* ===== verification/Pipeline.thy ===== *)
theory Pipeline
  imports Collector Manager_Tasks Delivery
begin

text \<open>
  The mitigation pipeline end to end: from the sFlow datagrams the collector receives, through the
  detector, the event channel and the RTBH manager's task, to the routing table of the BGP peer. The
  theorems compose the components' own ones.
\<close>

section \<open>A batch of events at the manager\<close>







lemma rm_apply_event_reapply [simp]: "rm_pending_reapply (rm_apply_event contains bx bj ev mn wn m) = rm_pending_reapply m"
proof -
  have "rm_pending_reapply (rm_execute bx bj mn wn a m) = rm_pending_reapply m" for a m
    by (cases a) (auto simp: rm_execute_withdraw_def rm_queue_mirror_def Let_def split: prod.splits)
  then have "rm_pending_reapply (fold (rm_execute bx bj mn wn) acts m) = rm_pending_reapply m" for acts m
    by (induction acts arbitrary: m) simp_all
  then show ?thesis by (simp add: rm_apply_event_def split: prod.splits)
qed





section \<open>From datagrams to detections\<close>


section \<open>A flood, concretely\<close>










section \<open>Properties\<close>



end
