(* ===== verification/Xdp_Controller.thy ===== *)
theory Xdp_Controller
  imports Mitigation_Table
begin

text \<open>
  The XDP decision engine of \<^verbatim>\<open>blackwall-xdp/src/control.rs\<close>: detections of attacks on the own prefixes
  become rate limits on the attacking sources, operators block networks and limit sources. A hash set
  is a list without duplicates; prefix containment of addresses (\<open>contains\<close>) and of networks
  (\<open>covers\<close>) is a parameter.
\<close>

section \<open>Data\<close>

datatype xdp_origin = XdpAuto | XdpManual

record rate_limit_entry =
  re_origin :: xdp_origin
  re_pps :: u64
  re_burst :: u64
  re_victim :: "ip_addr option"

datatype xdp_action =
    RateLimit ip_addr u64 u64 "ip_addr option"
  | Block ip_net
  | Unblock ip_net
  | ClearRate ip_addr

datatype xdp_refusal = SelfBlock | AtCapacity

record xdp_controller =
  xc_prefixes :: "ip_net list"
  xc_max_entries :: nat
  xc_default_rate_pps :: u64
  xc_protected_prefixes :: "ip_net list"
  xc_rate_limited :: "(ip_addr, rate_limit_entry) hashmap"
  xc_blocked_nets :: "(ip_net, xdp_origin) hashmap"
  xc_by_target :: "(ip_addr, ip_addr list) hashmap"
  xc_protected_skipped :: nat

type_synonym addr_test = "ip_net \<Rightarrow> ip_addr \<Rightarrow> bool"

type_synonym net_test = "ip_net \<Rightarrow> ip_net \<Rightarrow> bool"

definition hs_insert :: "'a \<Rightarrow> 'a list \<Rightarrow> 'a list" where
  "hs_insert x xs = (if x \<in> set xs then xs else xs @ [x])"

definition hs_remove :: "'a \<Rightarrow> 'a list \<Rightarrow> 'a list" where
  "hs_remove x xs = filter (\<lambda>y. y \<noteq> x) xs"

section \<open>Operations\<close>

definition xc_new :: "ip_net list \<Rightarrow> nat \<Rightarrow> u64 \<Rightarrow> ip_net list \<Rightarrow> xdp_controller" where
  "xc_new prefixes max_entries default_rate_pps protected_prefixes =
     \<lparr>xc_prefixes = prefixes, xc_max_entries = max_entries, xc_default_rate_pps = default_rate_pps,
      xc_protected_prefixes = protected_prefixes, xc_rate_limited = [], xc_blocked_nets = [], xc_by_target = [],
      xc_protected_skipped = 0\<rparr>"

definition xc_total_active :: "xdp_controller \<Rightarrow> nat" where
  "xc_total_active c = hm_len (xc_rate_limited c) + hm_len (xc_blocked_nets c)"

definition xc_at_capacity :: "xdp_controller \<Rightarrow> bool" where
  "xc_at_capacity c = (xc_max_entries c \<le> xc_total_active c)"

definition xc_overlaps_own_prefix :: "net_test \<Rightarrow> xdp_controller \<Rightarrow> ip_net \<Rightarrow> bool" where
  "xc_overlaps_own_prefix covers c net = (\<exists>p \<in> set (xc_prefixes c). covers p net \<or> covers net p)"

definition xc_is_blocked :: "xdp_controller \<Rightarrow> ip_net \<Rightarrow> bool" where
  "xc_is_blocked c net = (hm_get (xc_blocked_nets c) net \<noteq> None)"

definition xc_is_rate_limited :: "xdp_controller \<Rightarrow> ip_addr \<Rightarrow> bool" where
  "xc_is_rate_limited c src = (hm_get (xc_rate_limited c) src \<noteq> None)"

definition xc_current_rate_limit :: "xdp_controller \<Rightarrow> ip_addr \<Rightarrow> xdp_action option" where
  "xc_current_rate_limit c src =
     map_option (\<lambda>e. RateLimit src (re_pps e) (re_burst e) (re_victim e)) (hm_get (xc_rate_limited c) src)"

definition xc_current_block :: "xdp_controller \<Rightarrow> ip_net \<Rightarrow> xdp_action option" where
  "xc_current_block c net = (if hm_get (xc_blocked_nets c) net \<noteq> None then Some (Block net) else None)"

definition xc_manual_block :: "net_test \<Rightarrow> xdp_controller \<Rightarrow> ip_net \<Rightarrow> (xdp_refusal + xdp_action) \<times> xdp_controller" where
  "xc_manual_block covers c net =
     (if xc_overlaps_own_prefix covers c net then (Inl SelfBlock, c)
      else if hm_get (xc_blocked_nets c) net \<noteq> None \<or> \<not> xc_max_entries c \<le> xc_total_active c
      then (Inr (Block net), c\<lparr>xc_blocked_nets := hm_insert net XdpManual (xc_blocked_nets c)\<rparr>)
      else (Inl AtCapacity, c))"

definition xc_manual_unblock :: "xdp_controller \<Rightarrow> ip_net \<Rightarrow> xdp_action \<times> xdp_controller" where
  "xc_manual_unblock c net = (Unblock net, c\<lparr>xc_blocked_nets := hm_remove net (xc_blocked_nets c)\<rparr>)"

definition xc_manual_rate_limit ::
  "xdp_controller \<Rightarrow> ip_addr \<Rightarrow> u64 \<Rightarrow> u64 \<Rightarrow> (xdp_refusal + xdp_action) \<times> xdp_controller"
where
  "xc_manual_rate_limit c addr pps burst =
     (let entry = \<lparr>re_origin = XdpManual, re_pps = pps, re_burst = burst, re_victim = None\<rparr> in
      if hm_get (xc_rate_limited c) addr \<noteq> None \<or> \<not> xc_max_entries c \<le> xc_total_active c
      then (Inr (RateLimit addr pps burst None), c\<lparr>xc_rate_limited := hm_insert addr entry (xc_rate_limited c)\<rparr>)
      else (Inl AtCapacity, c))"

definition xc_manual_clear_rate :: "xdp_controller \<Rightarrow> ip_addr \<Rightarrow> xdp_action \<times> xdp_controller" where
  "xc_manual_clear_rate c src =
     (ClearRate src, c\<lparr>xc_rate_limited := hm_remove src (xc_rate_limited c),
        xc_by_target := map (\<lambda>(t, sources). (t, hs_remove src sources)) (xc_by_target c)\<rparr>)"

fun xc_rollback :: "xdp_controller \<Rightarrow> xdp_action \<Rightarrow> xdp_controller" where
  "xc_rollback c (RateLimit src pps burst victim) =
     c\<lparr>xc_rate_limited := hm_remove src (xc_rate_limited c),
       xc_by_target := (case victim of None \<Rightarrow> xc_by_target c | Some v \<Rightarrow> hm_adjust v (hs_remove src) (xc_by_target c))\<rparr>"
| "xc_rollback c (Block net) = c\<lparr>xc_blocked_nets := hm_remove net (xc_blocked_nets c)\<rparr>"
| "xc_rollback c (Unblock net) = c"
| "xc_rollback c (ClearRate src) = c"

definition xc_active_entries :: "xdp_controller \<Rightarrow> (xdp_action \<times> xdp_origin) list" where
  "xc_active_entries c =
     map (\<lambda>(src, e). (RateLimit src (re_pps e) (re_burst e) (re_victim e), re_origin e)) (xc_rate_limited c) @
     map (\<lambda>(net, orig). (Block net, orig)) (xc_blocked_nets c)"

text \<open>\<open>by_target.entry(victim).or_default().insert(src)\<close>\<close>

definition xc_note :: "ip_addr \<Rightarrow> ip_addr \<Rightarrow> xdp_controller \<Rightarrow> xdp_controller" where
  "xc_note victim src c = c\<lparr>xc_by_target := hm_insert victim
     (hs_insert src (case hm_get (xc_by_target c) victim of None \<Rightarrow> [] | Some s \<Rightarrow> s)) (xc_by_target c)\<rparr>"

fun xc_mark_resumed :: "xdp_controller \<Rightarrow> xdp_action \<Rightarrow> xdp_origin \<Rightarrow> xdp_controller" where
  "xc_mark_resumed c (RateLimit src pps burst victim) orig =
     (let c = c\<lparr>xc_rate_limited := hm_insert src \<lparr>re_origin = orig, re_pps = pps, re_burst = burst, re_victim = victim\<rparr>
                  (xc_rate_limited c)\<rparr>
      in case victim of None \<Rightarrow> c | Some v \<Rightarrow> xc_note v src c)"
| "xc_mark_resumed c (Block net) orig = c\<lparr>xc_blocked_nets := hm_insert net orig (xc_blocked_nets c)\<rparr>"
| "xc_mark_resumed c (Unblock net) orig = c"
| "xc_mark_resumed c (ClearRate src) orig = c"

fun xc_limit_sources :: "ip_addr \<Rightarrow> ip_addr list \<Rightarrow> xdp_controller \<Rightarrow> xdp_action list \<times> xdp_controller" where
  "xc_limit_sources target [] c = ([], c)"
| "xc_limit_sources target (src # srcs) c =
     (if hm_get (xc_rate_limited c) src \<noteq> None then xc_limit_sources target srcs (xc_note target src c)
      else if xc_max_entries c \<le> xc_total_active c then ([], c)
      else let pps = xc_default_rate_pps c;
               entry = \<lparr>re_origin = XdpAuto, re_pps = pps, re_burst = pps, re_victim = Some target\<rparr>;
               c = xc_note target src (c\<lparr>xc_rate_limited := hm_insert src entry (xc_rate_limited c)\<rparr>)
           in case xc_limit_sources target srcs c of (acts, c) \<Rightarrow> (RateLimit src pps pps (Some target) # acts, c))"

definition xc_handle_detection :: "addr_test \<Rightarrow> xdp_controller \<Rightarrow> detection \<Rightarrow> xdp_action list \<times> xdp_controller" where
  "xc_handle_detection contains c d =
     (if \<exists>p \<in> set (xc_protected_prefixes c). contains p (d_target d)
      then ([], c\<lparr>xc_protected_skipped := sat_inc (xc_protected_skipped c)\<rparr>)
      else if \<not> (\<exists>p \<in> set (xc_prefixes c). contains p (d_target d)) then ([], c)
      else xc_limit_sources (d_target d) (map fst (d_top_sources d)) c)"

fun xc_release :: "ip_addr list \<Rightarrow> xdp_controller \<Rightarrow> xdp_action list \<times> xdp_controller" where
  "xc_release [] c = ([], c)"
| "xc_release (src # srcs) c =
     (if \<exists>others \<in> set (map snd (xc_by_target c)). src \<in> set others then xc_release srcs c
      else case hm_get (xc_rate_limited c) src of
          None \<Rightarrow> xc_release srcs c
        | Some e \<Rightarrow> (case re_origin e of
            XdpManual \<Rightarrow> xc_release srcs c
          | XdpAuto \<Rightarrow> (case xc_release srcs (c\<lparr>xc_rate_limited := hm_remove src (xc_rate_limited c)\<rparr>) of (acts, c) \<Rightarrow>
              (ClearRate src # acts, c))))"

definition xc_handle_cleared :: "xdp_controller \<Rightarrow> ip_addr \<Rightarrow> xdp_action list \<times> xdp_controller" where
  "xc_handle_cleared c target =
     (case hm_get (xc_by_target c) target of
        None \<Rightarrow> ([], c)
      | Some sources \<Rightarrow> xc_release sources (c\<lparr>xc_by_target := hm_remove target (xc_by_target c)\<rparr>))"

fun xc_on_detection :: "addr_test \<Rightarrow> xdp_controller \<Rightarrow> detection_event \<Rightarrow> xdp_action list \<times> xdp_controller" where
  "xc_on_detection contains c (Opened d) = xc_handle_detection contains c d"
| "xc_on_detection contains c (Updated d) = xc_handle_detection contains c d"
| "xc_on_detection contains c (Cleared target at_ms) = xc_handle_cleared c target"

section \<open>Runs\<close>

datatype xdp_op =
    XDetect detection_event
  | XBlock ip_net
  | XUnblock ip_net
  | XRateLimit ip_addr u64 u64
  | XClearRate ip_addr
  | XRollback xdp_action

fun xc_exec :: "addr_test \<Rightarrow> net_test \<Rightarrow> xdp_op \<Rightarrow> xdp_controller \<Rightarrow> xdp_controller" where
  "xc_exec contains covers (XDetect ev) c = snd (xc_on_detection contains c ev)"
| "xc_exec contains covers (XBlock net) c = snd (xc_manual_block covers c net)"
| "xc_exec contains covers (XUnblock net) c = snd (xc_manual_unblock c net)"
| "xc_exec contains covers (XRateLimit src pps burst) c = snd (xc_manual_rate_limit c src pps burst)"
| "xc_exec contains covers (XClearRate src) c = snd (xc_manual_clear_rate c src)"
| "xc_exec contains covers (XRollback a) c = xc_rollback c a"

definition xc_run :: "addr_test \<Rightarrow> net_test \<Rightarrow> xdp_op list \<Rightarrow> xdp_controller \<Rightarrow> xdp_controller" where
  "xc_run contains covers opers c = fold (xc_exec contains covers) opers c"

section \<open>The table\<close>

text \<open>The identity of an entry: a limited source or a blocked network.\<close>

datatype mirror_key = KeySrc ip_addr | KeyNet ip_net

definition xc_keys :: "xdp_controller \<Rightarrow> mirror_key list" where
  "xc_keys c = map KeySrc (hm_keys (xc_rate_limited c)) @ map KeyNet (hm_keys (xc_blocked_nets c))"

definition xc_config :: "xdp_controller \<Rightarrow> ip_net list \<times> nat \<times> ip_net list" where
  "xc_config c = (xc_prefixes c, xc_max_entries c, xc_protected_prefixes c)"

fun xc_admissible :: "net_test \<Rightarrow> ip_net list \<times> nat \<times> ip_net list \<Rightarrow> mirror_key \<Rightarrow> bool" where
  "xc_admissible covers (prefixes, cap, protected) (KeySrc src) = True"
| "xc_admissible covers (prefixes, cap, protected) (KeyNet net) = (\<not> (\<exists>p \<in> set prefixes. covers p net \<or> covers net p))"

lemma distinct_xc_keys: "distinct (xc_keys c) \<longleftrightarrow> hm_wf (xc_rate_limited c) \<and> hm_wf (xc_blocked_nets c)"
  by (auto simp: xc_keys_def hm_wf_def hm_keys_def distinct_map inj_on_def)

lemma set_xc_keys: "set (xc_keys c) = KeySrc ` set (hm_keys (xc_rate_limited c)) \<union> KeyNet ` set (hm_keys (xc_blocked_nets c))"
  by (simp add: xc_keys_def)

lemma length_xc_keys: "length (xc_keys c) = xc_total_active c"
  by (simp add: xc_keys_def xc_total_active_def hm.len_keys)

lemma xc_note_simps [simp]:
  "xc_rate_limited (xc_note v src c) = xc_rate_limited c" "xc_blocked_nets (xc_note v src c) = xc_blocked_nets c"
  "xc_prefixes (xc_note v src c) = xc_prefixes c" "xc_max_entries (xc_note v src c) = xc_max_entries c"
  "xc_protected_prefixes (xc_note v src c) = xc_protected_prefixes c" "xc_total_active (xc_note v src c) = xc_total_active c"
  "xc_keys (xc_note v src c) = xc_keys c" "xc_config (xc_note v src c) = xc_config c"
  "xc_default_rate_pps (xc_note v src c) = xc_default_rate_pps c"
  by (simp_all add: xc_note_def xc_total_active_def xc_keys_def xc_config_def)

text \<open>The changes an operation makes to the two tables, one at a time.\<close>

abbreviation xc_step :: "net_test \<Rightarrow> xdp_controller \<Rightarrow> xdp_controller \<Rightarrow> bool" where
  "xc_step covers c c' \<equiv> (table_step (xc_admissible covers (xc_config c)) (xc_max_entries c))\<^sup>*\<^sup>* (xc_keys c) (xc_keys c')"

lemma step_shrink:
  "distinct (xc_keys c) \<Longrightarrow> distinct (xc_keys c') \<Longrightarrow> set (xc_keys c') \<subseteq> set (xc_keys c) \<Longrightarrow> xc_step covers c c'"
  by (rule r_into_rtranclp) (simp add: table_step_def)

lemma step_grow:
  "distinct (xc_keys c') \<Longrightarrow> set (xc_keys c') \<subseteq> insert k (set (xc_keys c)) \<Longrightarrow> xc_admissible covers (xc_config c) k \<Longrightarrow>
   xc_total_active c < xc_max_entries c \<Longrightarrow> xc_step covers c c'"
  by (rule r_into_rtranclp) (auto simp: table_step_def length_xc_keys)

lemma limit_sources_config [simp]: "xc_config (snd (xc_limit_sources t srcs c)) = xc_config c"
  by (induction t srcs c rule: xc_limit_sources.induct) (simp_all add: Let_def case_prod_beta, simp add: xc_config_def)

lemma limit_sources_step:
  "distinct (xc_keys c) \<Longrightarrow> xc_step covers c (snd (xc_limit_sources t srcs c))"
proof (induction t srcs c rule: xc_limit_sources.induct)
  case (2 t src srcs c)
  consider "hm_get (xc_rate_limited c) src \<noteq> None" | "hm_get (xc_rate_limited c) src = None" "xc_max_entries c \<le> xc_total_active c"
    | "hm_get (xc_rate_limited c) src = None" "xc_total_active c < xc_max_entries c" by linarith
  then show ?case
  proof cases
    case 1
    then show ?thesis using "2.IH"(1) "2.prems" by simp
  next
    case 3
    define entry where "entry = \<lparr>re_origin = XdpAuto, re_pps = xc_default_rate_pps c, re_burst = xc_default_rate_pps c, re_victim = Some t\<rparr>"
    define c' where "c' = xc_note t src (c\<lparr>xc_rate_limited := hm_insert src entry (xc_rate_limited c)\<rparr>)"
    have d: "distinct (xc_keys c')" using "2.prems" by (simp add: c'_def distinct_xc_keys)
    have "xc_config c' = xc_config c" "xc_max_entries c' = xc_max_entries c" by (simp_all add: c'_def xc_config_def)
    moreover have "xc_step covers c c'"
      using 3 d by (intro step_grow [where k = "KeySrc src"]) (auto simp: c'_def set_xc_keys xc_config_def)
    moreover have "xc_step covers c' (snd (xc_limit_sources t srcs c'))"
      using "2.IH"(2) 3 d by (simp add: c'_def entry_def)
    moreover have "snd (xc_limit_sources t (src # srcs) c) = snd (xc_limit_sources t srcs c')"
      using 3 by (simp add: c'_def entry_def Let_def case_prod_beta)
    ultimately show ?thesis by (metis (no_types) rtranclp_trans)
  qed simp
qed simp

lemma release_simps [simp]:
  "xc_config (snd (xc_release srcs c)) = xc_config c" "xc_by_target (snd (xc_release srcs c)) = xc_by_target c"
  "xc_blocked_nets (snd (xc_release srcs c)) = xc_blocked_nets c" "xc_max_entries (snd (xc_release srcs c)) = xc_max_entries c"
  by (induction srcs c rule: xc_release.induct)
    (simp_all add: case_prod_beta xc_config_def split: option.split xdp_origin.split)

lemma release_rate:
  "hm_get (xc_rate_limited (snd (xc_release srcs c))) src =
     (case hm_get (xc_rate_limited c) src of
        None \<Rightarrow> None
      | Some e \<Rightarrow> if src \<in> set srcs \<and> re_origin e = XdpAuto \<and> \<not> (\<exists>others \<in> set (map snd (xc_by_target c)). src \<in> set others)
          then None else Some e)"
  by (induction srcs c rule: xc_release.induct)
    (auto simp: case_prod_beta split: option.split xdp_origin.split)

lemma release_wf: "hm_wf (xc_rate_limited c) \<Longrightarrow> hm_wf (xc_rate_limited (snd (xc_release srcs c)))"
  by (induction srcs c rule: xc_release.induct) (auto simp: case_prod_beta split: option.split xdp_origin.split)

definition xc_needed :: "xdp_controller \<Rightarrow> ip_addr \<Rightarrow> bool" where
  "xc_needed c src \<longleftrightarrow> (\<exists>others \<in> set (map snd (xc_by_target c)). src \<in> set others)"

definition xc_is_auto :: "xdp_controller \<Rightarrow> ip_addr \<Rightarrow> bool" where
  "xc_is_auto c src \<longleftrightarrow> (case hm_get (xc_rate_limited c) src of None \<Rightarrow> False | Some e \<Rightarrow> re_origin e = XdpAuto)"

lemma release_actions:
  "set (fst (xc_release srcs c)) = ClearRate ` {src \<in> set srcs. xc_is_auto c src \<and> \<not> xc_needed c src}"
proof (induction srcs arbitrary: c)
  case (Cons src srcs)
  show ?case
  proof (cases "xc_is_auto c src \<and> \<not> xc_needed c src")
    case True
    let ?c = "c\<lparr>xc_rate_limited := hm_remove src (xc_rate_limited c)\<rparr>"
    have rel: "fst (xc_release (src # srcs) c) = ClearRate src # fst (xc_release srcs ?c)"
      using True by (simp add: xc_is_auto_def xc_needed_def case_prod_beta split: option.splits)
    have "xc_is_auto ?c x \<longleftrightarrow> xc_is_auto c x \<and> x \<noteq> src" "xc_needed ?c x \<longleftrightarrow> xc_needed c x" for x
      by (auto simp: xc_is_auto_def xc_needed_def)
    then show ?thesis unfolding rel using True Cons.IH [of ?c] by auto
  next
    case False
    then have "fst (xc_release (src # srcs) c) = fst (xc_release srcs c)"
      by (auto simp: xc_is_auto_def xc_needed_def split: option.splits xdp_origin.splits)
    then show ?thesis using Cons.IH [of c] False by auto
  qed
qed simp

lemma exec_config: "xc_config (xc_exec contains covers oper c) = xc_config c"
proof (cases oper)
  case (XDetect ev)
  then show ?thesis
    by (cases ev) (auto simp: xc_handle_detection_def xc_handle_cleared_def xc_config_def [symmetric] split: option.split,
        simp_all add: xc_config_def)
next
  case (XRollback a)
  then show ?thesis by (cases a) (simp_all add: xc_config_def)
qed (auto simp: xc_manual_block_def xc_manual_unblock_def xc_manual_rate_limit_def xc_manual_clear_rate_def xc_config_def Let_def)

lemma handle_cleared_step:
  assumes "distinct (xc_keys c)"
  shows "xc_step covers c (snd (xc_handle_cleared c t))"
proof (cases "hm_get (xc_by_target c) t")
  case (Some srcs)
  let ?c = "c\<lparr>xc_by_target := hm_remove t (xc_by_target c)\<rparr>"
  have "set (hm_keys (xc_rate_limited (snd (xc_release srcs ?c)))) \<subseteq> set (hm_keys (xc_rate_limited c))"
    by (auto simp: hm.keys_get release_rate split: option.splits)
  then show ?thesis using assms Some
    by (intro step_shrink) (auto simp: xc_handle_cleared_def distinct_xc_keys release_wf set_xc_keys)
qed (use assms in \<open>simp add: xc_handle_cleared_def\<close>)

lemma exec_step:
  assumes "distinct (xc_keys c)"
  shows "xc_step covers c (xc_exec contains covers oper c)"
proof (cases oper)
  case (XDetect ev)
  have "xc_step covers c (snd (xc_handle_detection contains c d))" for d
    using limit_sources_step [OF assms] assms
    by (auto simp: xc_handle_detection_def intro: step_shrink) (simp_all add: xc_keys_def)
  then show ?thesis using handle_cleared_step [OF assms] XDetect by (cases ev) simp_all
next
  case (XBlock net)
  show ?thesis
  proof (cases "hm_get (xc_blocked_nets c) net")
    case None
    show ?thesis
    proof (cases "xc_overlaps_own_prefix covers c net \<or> xc_max_entries c \<le> xc_total_active c")
      case False
      then have "xc_exec contains covers oper c = c\<lparr>xc_blocked_nets := hm_insert net XdpManual (xc_blocked_nets c)\<rparr>"
        by (auto simp: XBlock xc_manual_block_def)
      then show ?thesis using False assms
        by (simp only:) (rule step_grow [where k = "KeyNet net"],
            auto simp: distinct_xc_keys set_xc_keys xc_config_def xc_overlaps_own_prefix_def)
    qed (use None XBlock in \<open>auto simp: xc_manual_block_def\<close>)
  next
    case (Some orig)
    then have "net \<in> set (hm_keys (xc_blocked_nets c))" by (rule hm_get_keys)
    then show ?thesis using XBlock assms
      by (intro step_shrink) (auto simp: xc_manual_block_def distinct_xc_keys set_xc_keys)
  qed
next
  case (XRateLimit src pps burst)
  show ?thesis
  proof (cases "hm_get (xc_rate_limited c) src")
    case None
    show ?thesis
    proof (cases "xc_max_entries c \<le> xc_total_active c")
      case False
      with None XRateLimit assms show ?thesis
        by (intro step_grow [where k = "KeySrc src"])
          (auto simp: xc_manual_rate_limit_def Let_def distinct_xc_keys set_xc_keys xc_config_def)
    qed (use None XRateLimit in \<open>auto simp: xc_manual_rate_limit_def Let_def\<close>)
  next
    case (Some e)
    then have "src \<in> set (hm_keys (xc_rate_limited c))" by (rule hm_get_keys)
    then show ?thesis using XRateLimit assms
      by (intro step_shrink) (auto simp: xc_manual_rate_limit_def Let_def distinct_xc_keys set_xc_keys)
  qed
next
  case (XRollback a)
  then show ?thesis using assms by (intro step_shrink) (cases a; auto simp: distinct_xc_keys set_xc_keys)+
qed (use assms in \<open>auto intro!: step_shrink simp: xc_manual_unblock_def xc_manual_clear_rate_def distinct_xc_keys set_xc_keys\<close>)

interpretation xdp: mitigation_table xc_keys xc_config "\<lambda>cfg. fst (snd cfg)" "xc_admissible covers" "xc_exec contains covers"
  for contains covers
proof unfold_locales
  fix oper c
  show "xc_config (xc_exec contains covers oper c) = xc_config c" by (rule exec_config)
  assume "distinct (xc_keys c)"
  from exec_step [OF this] show "(table_step (xc_admissible covers (xc_config c)) (fst (snd (xc_config c))))\<^sup>*\<^sup>*
     (xc_keys c) (xc_keys (xc_exec contains covers oper c))"
    by (simp add: xc_config_def)
qed

section \<open>Whom an automatic limit is for\<close>

definition tracked :: "xdp_controller \<Rightarrow> ip_addr \<Rightarrow> ip_addr \<Rightarrow> bool" where
  "tracked c victim src \<longleftrightarrow> (case hm_get (xc_by_target c) victim of None \<Rightarrow> False | Some s \<Rightarrow> src \<in> set s)"

definition guarded :: "addr_test \<Rightarrow> xdp_controller \<Rightarrow> ip_addr \<Rightarrow> bool" where
  "guarded contains c v \<longleftrightarrow> (\<exists>p \<in> set (xc_prefixes c). contains p v) \<and> \<not> (\<exists>p \<in> set (xc_protected_prefixes c). contains p v)"

text \<open>Every automatic limit belongs to an attack on a guarded victim and is tracked for some victim.\<close>

definition xc_inv :: "addr_test \<Rightarrow> xdp_controller \<Rightarrow> bool" where
  "xc_inv contains c \<longleftrightarrow> hm_wf (xc_by_target c) \<and>
     (\<forall>src e. hm_get (xc_rate_limited c) src = Some e \<and> re_origin e = XdpAuto \<longrightarrow>
        (\<exists>v. re_victim e = Some v \<and> guarded contains c v) \<and> (\<exists>v. tracked c v src))"

lemma needed_tracked:
  assumes "hm_wf (xc_by_target c)"
  shows "xc_needed c src \<longleftrightarrow> (\<exists>v. tracked c v src)"
proof -
  have t: "tracked c v src \<longleftrightarrow> (\<exists>s. (v, s) \<in> set (xc_by_target c) \<and> src \<in> set s)" for v
    using assms by (auto simp: tracked_def hm_mem_get split: option.split)
  show ?thesis unfolding xc_needed_def t by force
qed

lemma xc_invI:
  assumes "hm_wf (xc_by_target c)"
    and "\<And>src e. hm_get (xc_rate_limited c) src = Some e \<Longrightarrow> re_origin e = XdpAuto \<Longrightarrow>
      (\<exists>v. re_victim e = Some v \<and> guarded contains c v) \<and> (\<exists>v. tracked c v src)"
  shows "xc_inv contains c"
  using assms unfolding xc_inv_def by blast

lemma xc_invD:
  assumes "xc_inv contains c"
  shows "hm_wf (xc_by_target c)"
    and "hm_get (xc_rate_limited c) src = Some e \<Longrightarrow> re_origin e = XdpAuto \<Longrightarrow>
      (\<exists>v. re_victim e = Some v \<and> guarded contains c v) \<and> (\<exists>v. tracked c v src)"
  using assms unfolding xc_inv_def by blast+

lemma tracked_note [simp]: "tracked (xc_note v src c) v' x \<longleftrightarrow> tracked c v' x \<or> v' = v \<and> x = src"
  by (auto simp: tracked_def xc_note_def hs_insert_def split: option.splits)

lemma guarded_note [simp]: "guarded contains (xc_note v src c) = guarded contains c"
  by (simp add: guarded_def fun_eq_iff)

lemma inv_note: "xc_inv contains c \<Longrightarrow> xc_inv contains (xc_note v src c)"
proof (rule xc_invI)
  assume inv: "xc_inv contains c"
  then show "hm_wf (xc_by_target (xc_note v src c))" using xc_invD(1) [OF inv] by (simp add: xc_note_def)
  show "(\<exists>v'. re_victim e = Some v' \<and> guarded contains (xc_note v src c) v') \<and> (\<exists>v'. tracked (xc_note v src c) v' x)"
    if "hm_get (xc_rate_limited (xc_note v src c)) x = Some e" "re_origin e = XdpAuto" for x e
    using xc_invD(2) [OF inv, of x e] that by auto
qed

lemma inv_limit_sources:
  assumes "xc_inv contains c" "guarded contains c t"
  shows "xc_inv contains (snd (xc_limit_sources t srcs c))"
  using assms
proof (induction t srcs c rule: xc_limit_sources.induct)
  case (2 t src srcs c)
  define c' where "c' = c\<lparr>xc_rate_limited := hm_insert src
    \<lparr>re_origin = XdpAuto, re_pps = xc_default_rate_pps c, re_burst = xc_default_rate_pps c, re_victim = Some t\<rparr> (xc_rate_limited c)\<rparr>"
  have g: "guarded contains c' = guarded contains c" by (simp add: c'_def guarded_def fun_eq_iff)
  have tr: "tracked c' = tracked c" by (simp add: c'_def tracked_def fun_eq_iff)
  have inv: "xc_inv contains (xc_note t src c')"
  proof (rule xc_invI)
    show "hm_wf (xc_by_target (xc_note t src c'))" using xc_invD(1) [OF "2.prems"(1)] by (simp add: xc_note_def c'_def)
    show "(\<exists>v. re_victim e = Some v \<and> guarded contains (xc_note t src c') v) \<and> (\<exists>v. tracked (xc_note t src c') v x)"
      if "hm_get (xc_rate_limited (xc_note t src c')) x = Some e" "re_origin e = XdpAuto" for x e
    proof (cases "x = src")
      case True
      then show ?thesis using that "2.prems"(2) by (auto simp: g) (auto simp: c'_def)
    next
      case False
      then have "hm_get (xc_rate_limited c) x = Some e" using that by (simp add: c'_def)
      from xc_invD(2) [OF "2.prems"(1) this that(2)] show ?thesis by (auto simp: g tr)
    qed
  qed
  have gn: "guarded contains (xc_note t src c') t" "guarded contains (xc_note t src c) t" using "2.prems"(2) g by simp_all
  show ?case
  proof (cases "hm_get (xc_rate_limited c) src")
    case None
    then show ?thesis using "2.IH"(2) [OF _ _ refl refl refl] inv gn(1) "2.prems"(1) by (auto simp: Let_def case_prod_beta c'_def)
  next
    case (Some e)
    then show ?thesis using "2.IH"(1) inv_note [OF "2.prems"(1), of t src] gn(2) by simp
  qed
qed simp

lemma inv_new: "xc_inv contains (xc_new ps m r prot)"
  by (simp add: xc_inv_def xc_new_def)

lemma map_snd_keys: "hm_wf (map (\<lambda>(t, s). (t, f s)) m) = hm_wf m"
  by (simp add: hm_wf_def case_prod_beta comp_def)

lemma tracked_remove_source:
  "tracked (c\<lparr>xc_rate_limited := r, xc_by_target := map (\<lambda>(t, s). (t, hs_remove src s)) (xc_by_target c)\<rparr>) v x \<longleftrightarrow> tracked c v x \<and> x \<noteq> src"
  by (auto simp: tracked_def hm_get_def map_of_map hs_remove_def split: option.splits)

lemma tracked_rollback:
  "tracked (xc_rollback c (RateLimit src pps burst victim)) v x \<longleftrightarrow> tracked c v x \<and> \<not> (x = src \<and> victim = Some v)"
  by (auto simp: tracked_def hs_remove_def split: option.splits)

text \<open>The effect of the end of an attack on the sources.\<close>

lemma cleared_effect:
  fixes t :: ip_addr
  assumes "xc_inv contains c"
  defines "c' \<equiv> snd (xc_handle_cleared c t)"
  shows "hm_get (xc_rate_limited c') src =
      (if tracked c t src \<and> xc_is_auto c src \<and> \<not> (\<exists>v. v \<noteq> t \<and> tracked c v src) then None else hm_get (xc_rate_limited c) src)"
    and "tracked c' v src \<longleftrightarrow> v \<noteq> t \<and> tracked c v src"
    and "set (fst (xc_handle_cleared c t)) =
      ClearRate ` {src. tracked c t src \<and> xc_is_auto c src \<and> \<not> (\<exists>v. v \<noteq> t \<and> tracked c v src)}"
proof -
  let ?c = "c\<lparr>xc_by_target := hm_remove t (xc_by_target c)\<rparr>"
  have wf: "hm_wf (xc_by_target ?c)" using xc_invD(1) [OF assms(1)] by simp
  have tr: "tracked ?c v x \<longleftrightarrow> v \<noteq> t \<and> tracked c v x" for v x by (simp add: tracked_def)
  have need: "xc_needed ?c x \<longleftrightarrow> (\<exists>v. v \<noteq> t \<and> tracked c v x)" for x by (simp add: needed_tracked [OF wf] tr)
  have auto: "xc_is_auto ?c x = xc_is_auto c x" for x by (simp add: xc_is_auto_def)
  have none: "hm_get (xc_by_target c) t = None \<Longrightarrow> \<not> tracked c t x" for x by (simp add: tracked_def)
  have some: "hm_get (xc_by_target c) t = Some srcs \<Longrightarrow> tracked c t x \<longleftrightarrow> x \<in> set srcs" for srcs x by (simp add: tracked_def)
  show "hm_get (xc_rate_limited c') src =
      (if tracked c t src \<and> xc_is_auto c src \<and> \<not> (\<exists>v. v \<noteq> t \<and> tracked c v src) then None else hm_get (xc_rate_limited c) src)"
    unfolding c'_def need [symmetric]
    by (cases "hm_get (xc_by_target c) t")
      (auto simp: xc_handle_cleared_def none some release_rate xc_needed_def xc_is_auto_def split: option.splits)
  show "tracked c' v src \<longleftrightarrow> v \<noteq> t \<and> tracked c v src"
    unfolding c'_def by (cases "hm_get (xc_by_target c) t") (auto simp: xc_handle_cleared_def tracked_def)
  show "set (fst (xc_handle_cleared c t)) =
      ClearRate ` {src. tracked c t src \<and> xc_is_auto c src \<and> \<not> (\<exists>v. v \<noteq> t \<and> tracked c v src)}"
    by (cases "hm_get (xc_by_target c) t")
      (simp_all add: xc_handle_cleared_def none some release_actions auto need)
qed

lemma guarded_config: "xc_config c' = xc_config c \<Longrightarrow> guarded contains c' = guarded contains c"
  by (simp add: guarded_def xc_config_def fun_eq_iff)

lemma inv_shrink:
  assumes "xc_inv contains c" "xc_config c' = xc_config c" "hm_wf (xc_by_target c')"
    and "\<And>src e. hm_get (xc_rate_limited c') src = Some e \<Longrightarrow> re_origin e = XdpAuto \<Longrightarrow>
      hm_get (xc_rate_limited c) src = Some e \<and> ((\<exists>v. tracked c v src) \<longrightarrow> (\<exists>v. tracked c' v src))"
  shows "xc_inv contains c'"
  by (rule xc_invI [OF assms(3)]) (use xc_invD(2) [OF assms(1)] assms(4) guarded_config [OF assms(2)] in metis)

lemma inv_exec:
  assumes "xc_inv contains c"
  shows "xc_inv contains (xc_exec contains covers oper c)"
proof (cases oper)
  case (XDetect ev)
  have det: "xc_inv contains (snd (xc_handle_detection contains c d))" for d
  proof (cases "guarded contains c (d_target d)")
    case True
    then show ?thesis using inv_limit_sources [OF assms True]
      by (auto simp: xc_handle_detection_def guarded_def)
  next
    case False
    have "xc_inv contains (c\<lparr>xc_protected_skipped := n\<rparr>)" for n
      by (rule inv_shrink [OF assms]) (use xc_invD(1) [OF assms] in \<open>simp_all add: xc_config_def tracked_def\<close>)
    then show ?thesis using False assms by (auto simp: xc_handle_detection_def guarded_def)
  qed
  have "xc_inv contains (snd (xc_handle_cleared c t))" for t
  proof (rule inv_shrink [OF assms])
    show "xc_config (snd (xc_handle_cleared c t)) = xc_config c"
      using exec_config [of contains covers "XDetect (Cleared t 0)" c] by simp
    show "hm_wf (xc_by_target (snd (xc_handle_cleared c t)))"
      using xc_invD(1) [OF assms] by (simp add: xc_handle_cleared_def split: option.split)
    fix src e assume e: "hm_get (xc_rate_limited (snd (xc_handle_cleared c t))) src = Some e" "re_origin e = XdpAuto"
    then have "hm_get (xc_rate_limited c) src = Some e" "\<not> (tracked c t src \<and> xc_is_auto c src \<and> \<not> (\<exists>v. v \<noteq> t \<and> tracked c v src))"
      unfolding cleared_effect(1) [OF assms] by (auto split: if_splits)
    then show "hm_get (xc_rate_limited c) src = Some e \<and> ((\<exists>v. tracked c v src) \<longrightarrow> (\<exists>v. tracked (snd (xc_handle_cleared c t)) v src))"
      using e(2) unfolding cleared_effect(2) [OF assms] by (auto simp: xc_is_auto_def)
  qed
  then show ?thesis using det XDetect by (cases ev) simp_all
next
  case (XClearRate src)
  then show ?thesis
    by (intro inv_shrink [OF assms])
      (use xc_invD(1) [OF assms] in \<open>auto simp: xc_manual_clear_rate_def xc_config_def map_snd_keys tracked_remove_source split: if_splits\<close>)
next
  case (XRollback a)
  then show ?thesis
  proof (cases a)
    case (RateLimit src pps burst victim)
    have "hm_wf (xc_by_target (xc_rollback c a))"
      using xc_invD(1) [OF assms] by (simp add: RateLimit split: option.split)
    then have "xc_inv contains (xc_rollback c (RateLimit src pps burst victim))"
      by (intro inv_shrink [OF assms]) (auto simp: RateLimit tracked_rollback simp del: xc_rollback.simps, auto simp: xc_config_def split: if_splits)
    then show ?thesis using XRollback RateLimit by simp
  qed (use assms in \<open>auto intro!: inv_shrink [OF assms] simp: xc_config_def tracked_def dest: xc_invD(1)\<close>)
qed (use xc_invD(1) [OF assms] assms in
    \<open>auto intro!: inv_shrink [OF assms] simp: xc_manual_block_def xc_manual_unblock_def xc_manual_rate_limit_def Let_def xc_config_def tracked_def split: if_splits\<close>)

lemma inv_run: "xc_inv contains c \<Longrightarrow> xc_inv contains (xc_run contains covers opers c)"
  unfolding xc_run_def by (induction opers arbitrary: c) (simp_all add: inv_exec)

lemma xc_run_config: "xc_config (xc_run contains covers opers c) = xc_config c"
  using xdp.run_config [of contains covers opers c] by (simp add: xc_run_def xdp.run_def)

section \<open>Properties\<close>

text \<open>An attack on 203.0.113.7 by two sources, and a controller for 203.0.113.0/24 without 203.0.113.53.\<close>

definition sample_attack :: "ip_addr \<Rightarrow> detection" where
  "sample_attack victim = \<lparr>d_target = victim, d_kind = Volumetric, d_observed_pps = Num False 1, d_observed_bps = Num False 8, d_proto = 17,
     d_top_sources = [(V4 0xC6336401, Num False 1), (V4 0xC6336402, Num False 1)], d_top_ports = [], d_pops = [], d_top_source_blocks = [],
     d_severity = High, d_first_seen_ms = 0, d_last_seen_ms = 0\<rparr>"

definition sample_xc :: xdp_controller where
  "sample_xc = xc_new [NetV4 0xCB007100 24] 3 1000 [NetV4 0xCB007135 32]"

fun sample_covers :: net_test where
  "sample_covers (NetV4 a l) (NetV4 b m) = (l \<le> m \<and> net_contains (NetV4 a l) (V4 b))"
| "sample_covers (NetV6 a l) (NetV6 b m) = (l \<le> m \<and> net_contains (NetV6 a l) (V6 b))"
| "sample_covers _ _ = False"

text \<open>
  C24. The XDP tables stay safe under any sequence of detections, operator commands and rollbacks: limits
  and blocks together stay within the cap of the kernel maps, no blocked network overlaps an own
  prefix in either direction, and every automatic limit was made for a victim inside an own prefix
  and outside every protected one.
\<close>

theorem xdp_table_safe:
  "let c = xc_run contains covers opers (xc_new prefixes cap rate protected) in
     xc_total_active c \<le> cap \<and>
     (\<forall>net. xc_is_blocked c net \<longrightarrow> \<not> (\<exists>p \<in> set prefixes. covers p net \<or> covers net p)) \<and>
     (\<forall>src e. hm_get (xc_rate_limited c) src = Some e \<and> re_origin e = XdpAuto \<longrightarrow>
        (\<exists>v. re_victim e = Some v \<and> (\<exists>p \<in> set prefixes. contains p v) \<and> \<not> (\<exists>p \<in> set protected. contains p v)))"
proof -
  let ?c0 = "xc_new prefixes cap rate protected"
  define c where "c = xc_run contains covers opers ?c0"
  have cfg: "xc_config c = (prefixes, cap, protected)" by (simp add: c_def xc_run_config) (simp add: xc_new_def xc_config_def)
  have "xc_keys ?c0 = []" by (simp add: xc_new_def xc_keys_def hm_keys_def)
  from xdp.run_from_empty [OF this, of covers contains opers]
  have safe: "xc_total_active c \<le> cap" "\<forall>k \<in> set (xc_keys c). xc_admissible covers (prefixes, cap, protected) k"
    by (simp_all add: c_def xc_run_def xdp.run_def table_safe_def length_xc_keys) (simp_all add: xc_new_def xc_config_def)
  have "\<not> (\<exists>p \<in> set prefixes. covers p net \<or> covers net p)" if "xc_is_blocked c net" for net
  proof -
    have "KeyNet net \<in> set (xc_keys c)" using that by (simp add: xc_is_blocked_def set_xc_keys hm.keys_get)
    then show ?thesis using safe(2) by fastforce
  qed
  moreover have "\<exists>v. re_victim e = Some v \<and> (\<exists>p \<in> set prefixes. contains p v) \<and> \<not> (\<exists>p \<in> set protected. contains p v)"
    if "hm_get (xc_rate_limited c) src = Some e" "re_origin e = XdpAuto" for src e
    using xc_invD(2) [OF inv_run [OF inv_new] that [unfolded c_def]] cfg
    by (auto simp: c_def [symmetric] guarded_def xc_config_def)
  ultimately show ?thesis using safe(1) unfolding c_def [symmetric] Let_def by blast
qed

theorem xdp_table_safe_witness:
  "\<not> xc_is_blocked (xc_run net_contains sample_covers [XBlock (NetV4 0xCB000000 16)] sample_xc) (NetV4 0xCB007100 24)"
  using xdp_table_safe [of net_contains sample_covers "[XBlock (NetV4 0xCB000000 16)]" "[NetV4 0xCB007100 24]" 3 1000 "[NetV4 0xCB007135 32]"]
  by (auto simp: sample_xc_def Let_def)

text \<open>
  C25. The end of an attack releases exactly the sources nobody else needs. In every reachable state,
  when the attack on a victim is cleared, a source is released if and only if its limit is automatic,
  it was tracked for this victim and it is not tracked for another one; one command to clear it is
  emitted for each of them and for no other; every other limit, in particular every operator's, is
  unchanged. Afterwards each remaining automatic limit is still tracked for some victim, so none is
  left behind when the last attack ends.
\<close>

theorem xdp_clear_exact:
  assumes "c = xc_run contains covers opers (xc_new prefixes cap rate protected)"
    and "xc_on_detection contains c (Cleared t now) = (acts, c')"
  defines "freed \<equiv> {src. tracked c t src \<and> xc_is_auto c src \<and> \<not> (\<exists>v. v \<noteq> t \<and> tracked c v src)}"
  shows "set acts = ClearRate ` freed \<and>
    (\<forall>src. hm_get (xc_rate_limited c') src = (if src \<in> freed then None else hm_get (xc_rate_limited c) src)) \<and>
    (\<forall>src. xc_is_auto c' src \<longrightarrow> (\<exists>v. v \<noteq> t \<and> tracked c' v src))"
proof -
  have inv: "xc_inv contains c" unfolding assms(1) by (rule inv_run [OF inv_new])
  have r: "acts = fst (xc_handle_cleared c t)" "c' = snd (xc_handle_cleared c t)" using assms(2) by simp_all
  have inv': "xc_inv contains c'" using inv_exec [OF inv, of undefined "XDetect (Cleared t now)"] r by simp
  have "\<exists>v. v \<noteq> t \<and> tracked c' v src" if au: "xc_is_auto c' src" for src
  proof -
    obtain e where "hm_get (xc_rate_limited c') src = Some e" "re_origin e = XdpAuto"
      using au unfolding xc_is_auto_def by (cases "hm_get (xc_rate_limited c') src") auto
    from xc_invD(2) [OF inv' this] show ?thesis using cleared_effect(2) [OF inv, of t] r by blast
  qed
  then show ?thesis using cleared_effect(1,3) [OF inv, of t] r by (auto simp: freed_def)
qed

theorem xdp_clear_exact_witness:
  "\<exists>c'. xc_on_detection net_contains (xc_run net_contains sample_covers
       [XDetect (Opened (sample_attack (V4 0xCB007107))), XRateLimit (V4 0xC6336402) 500 500] sample_xc) (Cleared (V4 0xCB007107) 9)
     = ([ClearRate (V4 0xC6336401)], c') \<and> \<not> xc_is_auto c' (V4 0xC6336402)"
proof -
  let ?c = "xc_run net_contains sample_covers
       [XDetect (Opened (sample_attack (V4 0xCB007107))), XRateLimit (V4 0xC6336402) 500 500] sample_xc"
  obtain acts c' where r: "xc_on_detection net_contains ?c (Cleared (V4 0xCB007107) 9) = (acts, c')" by fastforce
  from xdp_clear_exact [OF refl r [unfolded sample_xc_def]]
  have "xc_is_auto c' (V4 0xC6336402) \<longrightarrow> (\<exists>v. v \<noteq> V4 0xCB007107 \<and> tracked c' v (V4 0xC6336402))" by blast
  moreover have "acts = [ClearRate (V4 0xC6336401)]" "\<not> (\<exists>v. v \<noteq> V4 0xCB007107 \<and> tracked c' v (V4 0xC6336402))"
    using r by (auto simp: xc_run_def sample_attack_def sample_xc_def xc_new_def xc_handle_detection_def xc_handle_cleared_def
        xc_manual_rate_limit_def xc_total_active_def xc_note_def hs_insert_def hm_get_def hm_insert_def hm_remove_def hm_len_def
        Let_def tracked_def)
  ultimately show ?thesis using r by auto
qed

end
