(* ===== verification/Cookie.thy ===== *)
theory Cookie
  imports Net
begin

text \<open>
  The stateless SYN cookies of \<^verbatim>\<open>blackwall-cookie/src/lib.rs\<close>, with the wrappers of
  \<^verbatim>\<open>blackwall-deception/src/cookie.rs\<close> over address pairs and the key encoding of
  \<^verbatim>\<open>blackwall-xdp/src/keys.rs\<close>. The keyed SipHash-2-4 is the \<^verbatim>\<open>siphasher\<close> crate's and a parameter:
  every theorem holds for all hash functions.
\<close>

section \<open>The cookie core\<close>

type_synonym siphash = "u64 \<Rightarrow> u64 \<Rightarrow> u8 list \<Rightarrow> u64"

definition MSS_TABLE :: "u16 list" where
  "MSS_TABLE = [216, 536, 1200, 1360, 1400, 1440, 1460, 8960]"

definition COUNTER_SHIFT :: nat where
  "COUNTER_SHIFT = 6"

definition HASH_MASK :: u64 where
  "HASH_MASK = 0x001FFFFF"

definition MAX_TUPLE_BUF :: nat where
  "MAX_TUPLE_BUF = 16 + 2 + 16 + 2 + 8 + 1"

definition mss_index_for :: "u16 \<Rightarrow> u8" where
  "mss_index_for client_mss =
     fold (\<lambda>(i, mss) i0. if mss \<le> client_mss then of_nat i else i0) (enumerate 0 MSS_TABLE) 0"

definition decode_mss_index :: "u32 \<Rightarrow> u8" where
  "decode_mss_index cookie = ucast (drop_bit 21 cookie AND 7)"

text \<open>The scratch buffer is filled from the front; a slice past its end panics.\<close>

definition cookie_for_slot ::
  "siphash \<Rightarrow> u64 \<Rightarrow> u64 \<Rightarrow> u8 list \<Rightarrow> u16 \<Rightarrow> u8 list \<Rightarrow> u16 \<Rightarrow> u8 \<Rightarrow> u64 \<Rightarrow> (unit, u32) outcome"
where
  "cookie_for_slot sip k0 k1 src src_port dst dst_port mss_index t =
     (let buf = src @ be16 src_port @ dst @ be16 dst_port @ be64 t @ [mss_index] in
      if MAX_TUPLE_BUF < length buf then Panic
      else let hash = sip k0 k1 buf;
               t_low = (ucast (t AND 0xFF) :: u8);
               hash_low = (ucast (hash AND HASH_MASK) :: u32)
           in Ok (push_bit 24 (ucast t_low) OR push_bit 21 (ucast (mss_index AND 7)) OR hash_low))"

definition make_cookie_raw ::
  "siphash \<Rightarrow> u64 \<Rightarrow> u64 \<Rightarrow> u8 list \<Rightarrow> u16 \<Rightarrow> u8 list \<Rightarrow> u16 \<Rightarrow> u16 \<Rightarrow> u64 \<Rightarrow> (unit, u32 \<times> u16) outcome"
where
  "make_cookie_raw sip k0 k1 src src_port dst dst_port client_mss now_secs =
     (let mss_index = mss_index_for client_mss in
      obind (idx MSS_TABLE (unat mss_index)) (\<lambda>mss_used.
      let t = drop_bit COUNTER_SHIFT now_secs in
      obind (cookie_for_slot sip k0 k1 src src_port dst dst_port mss_index t) (\<lambda>cookie.
      Ok (cookie, mss_used))))"

fun check_slots ::
  "siphash \<Rightarrow> u64 \<Rightarrow> u64 \<Rightarrow> u8 list \<Rightarrow> u16 \<Rightarrow> u8 list \<Rightarrow> u16 \<Rightarrow> u8 \<Rightarrow> u32 \<Rightarrow> u64 list \<Rightarrow> (unit, u16 option) outcome"
where
  "check_slots sip k0 k1 src src_port dst dst_port mss_index cookie [] = Ok None"
| "check_slots sip k0 k1 src src_port dst dst_port mss_index cookie (t # ts) =
     obind (cookie_for_slot sip k0 k1 src src_port dst dst_port mss_index t) (\<lambda>expected.
     if expected = cookie then obind (idx MSS_TABLE (unat mss_index)) (\<lambda>m. Ok (Some m))
     else check_slots sip k0 k1 src src_port dst dst_port mss_index cookie ts)"

definition check_cookie_raw ::
  "siphash \<Rightarrow> u64 \<Rightarrow> u64 \<Rightarrow> u8 list \<Rightarrow> u16 \<Rightarrow> u8 list \<Rightarrow> u16 \<Rightarrow> u32 \<Rightarrow> u64 \<Rightarrow> (unit, u16 option) outcome"
where
  "check_cookie_raw sip k0 k1 src src_port dst dst_port ack_seq now_secs =
     (let cookie = ack_seq - 1; mss_index = decode_mss_index cookie;
          t_now = drop_bit COUNTER_SHIFT now_secs
      in check_slots sip k0 k1 src src_port dst dst_port mss_index cookie [t_now, t_now - 1])"

section \<open>Keys and address pairs\<close>

text \<open>A key is its sixteen bytes.\<close>

type_synonym cookie_key = "u8 list"

definition from_le64 :: "u8 list \<Rightarrow> u64" where
  "from_le64 bs = foldr (\<lambda>b acc. push_bit 8 acc OR ucast b) bs 0"

definition to_u64_pair :: "cookie_key \<Rightarrow> u64 \<times> u64" where
  "to_u64_pair key = (from_le64 (take 8 key), from_le64 (take 8 (drop 8 key)))"

record conn_tuple =
  ct_src :: ip_addr
  ct_src_port :: u16
  ct_dst :: ip_addr
  ct_dst_port :: u16

definition make_cookie :: "siphash \<Rightarrow> cookie_key \<Rightarrow> conn_tuple \<Rightarrow> u16 \<Rightarrow> u64 \<Rightarrow> (unit, u32 \<times> u16) outcome" where
  "make_cookie sip key tuple client_mss now_secs =
     (case to_u64_pair key of (k0, k1) \<Rightarrow>
        make_cookie_raw sip k0 k1 (octets (ct_src tuple)) (ct_src_port tuple)
          (octets (ct_dst tuple)) (ct_dst_port tuple) client_mss now_secs)"

definition check_cookie :: "siphash \<Rightarrow> cookie_key \<Rightarrow> conn_tuple \<Rightarrow> u32 \<Rightarrow> u64 \<Rightarrow> (unit, u16 option) outcome" where
  "check_cookie sip key tuple ack_seq now_secs =
     (case to_u64_pair key of (k0, k1) \<Rightarrow>
        check_cookie_raw sip k0 k1 (octets (ct_src tuple)) (ct_src_port tuple)
          (octets (ct_dst tuple)) (ct_dst_port tuple) ack_seq now_secs)"

text \<open>The key as the map of the kernel program holds it.\<close>

record cookie_key_value =
  ck_k0 :: u64
  ck_k1 :: u64

definition encode_cookie_key :: "cookie_key \<Rightarrow> cookie_key_value" where
  "encode_cookie_key key = \<lparr>ck_k0 = from_le64 (take 8 key), ck_k1 = from_le64 (take 8 (drop 8 key))\<rparr>"

section \<open>The segments a cookie value is made of\<close>

lemma mss_index_cases:
  "mss_index_for m \<in> {0, 1, 2, 3, 4, 5, 6, 7}"
  by (auto simp: mss_index_for_def MSS_TABLE_def)

lemma mss_index_less: "unat (mss_index_for m) < length MSS_TABLE"
  using mss_index_cases [of m] by (auto simp: MSS_TABLE_def)

lemma mss_index_small: "mss_index_for m AND 7 = mss_index_for m"
  using mss_index_cases [of m] by auto

lemma and7_le: "unat (w AND 7) \<le> 7" for w :: "'a::len word"
proof -
  have "w AND 7 = take_bit 3 w" by (simp add: take_bit_eq_mask mask_eq_exp_minus_1)
  then show ?thesis using take_bit_nat_less_exp [of 3 "unat w"] by (simp add: unsigned_take_bit_eq)
qed

lemma decode_index_less: "unat (decode_mss_index c) < length MSS_TABLE"
  using and7_le [of "drop_bit 21 c"] by (simp add: decode_mss_index_def MSS_TABLE_def unsigned_ucast_eq take_bit_nat_def)

definition cookie_value :: "u64 \<Rightarrow> u8 \<Rightarrow> u64 \<Rightarrow> u32" where
  "cookie_value t i h = push_bit 24 (ucast (ucast (t AND 0xFF) :: u8)) OR push_bit 21 (ucast (i AND 7)) OR ucast (h AND HASH_MASK)"

lemma masks: "(0xFF :: u64) = mask 8" "(7 :: u8) = mask 3" "(7 :: u32) = mask 3" "HASH_MASK = mask 21"
  by (simp_all add: mask_eq_exp_minus_1 HASH_MASK_def)

lemma cookie_value_index: "decode_mss_index (cookie_value t i h) = i AND 7"
  unfolding decode_mss_index_def cookie_value_def masks
  by (rule bit_word_eqI) (auto simp: bit_simps)

lemma cookie_value_time: "(ucast (drop_bit 24 (cookie_value t i h)) :: u8) = ucast t"
  unfolding cookie_value_def masks
  by (rule bit_word_eqI) (auto simp: bit_simps)

lemma cookie_for_slot_value:
  assumes "length src + length dst \<le> 32"
  shows "cookie_for_slot sip k0 k1 src sp dst dp i t =
    Ok (cookie_value t i (sip k0 k1 (src @ be16 sp @ dst @ be16 dp @ be64 t @ [i])))"
  using assms by (simp add: cookie_for_slot_def cookie_value_def MAX_TUPLE_BUF_def)

text \<open>Checking decides whether a value is the cookie of one of the two slots, whatever the hash.\<close>

lemma check_cookie_raw_eq:
  assumes "length src + length dst \<le> 32"
  shows "check_cookie_raw sip k0 k1 src sp dst dp ack now =
    (let c = ack - 1; i = decode_mss_index c; t = drop_bit COUNTER_SHIFT now;
         h = \<lambda>t. sip k0 k1 (src @ be16 sp @ dst @ be16 dp @ be64 t @ [i])
     in Ok (if cookie_value t i (h t) = c \<or> cookie_value (t - 1) i (h (t - 1)) = c
            then Some (MSS_TABLE ! unat i) else None))"
  using assms by (simp add: check_cookie_raw_def cookie_for_slot_value Let_def idx_Ok [OF decode_index_less])

lemma make_cookie_raw_eq:
  assumes "length src + length dst \<le> 32"
  shows "make_cookie_raw sip k0 k1 src sp dst dp m now =
    (let i = mss_index_for m; t = drop_bit COUNTER_SHIFT now
     in Ok (cookie_value t i (sip k0 k1 (src @ be16 sp @ dst @ be16 dp @ be64 t @ [i])), MSS_TABLE ! unat i))"
  using assms by (simp add: make_cookie_raw_def cookie_for_slot_value Let_def idx_Ok [OF mss_index_less])

lemma length_octets: "length (octets a) \<le> 16"
  by (cases a) simp_all

lemma octets_fit: "length (octets a) + length (octets b) \<le> 32"
  using length_octets [of a] length_octets [of b] by linarith

text \<open>The slots a cookie is accepted in: its own and the next one.\<close>

lemma low_byte_neq:
  fixes t t' :: u64
  assumes "(ucast t :: u8) = ucast t'"
  shows "unat (t' - t) mod 256 = 0"
proof -
  have "uint (ucast t :: u8) = uint (ucast t' :: u8)" using assms by simp
  then have "uint t' mod 256 = uint t mod 256" by (simp add: unsigned_ucast_eq take_bit_int_def)
  then have "(uint t' - uint t) mod 256 = 0" by (simp add: mod_eq_dvd_iff)
  moreover have "uint (t' - t) mod 256 = (uint t' - uint t) mod 256"
    by (simp add: uint_word_ariths mod_mod_cancel)
  ultimately have "uint (t' - t) mod 256 = 0" by simp
  then show ?thesis by (metis nat_mod_distrib nat_0 nat_numeral uint_nat uint_ge_0 nat_int zero_le_numeral unat_eq_nat_uint)
qed

lemma cookie_raw_lifetime:
  assumes fit: "length src + length dst \<le> 32"
    and made: "make_cookie_raw sip k0 k1 src sp dst dp m now = Ok (c, mss)"
    and d: "d = unat (drop_bit COUNTER_SHIFT now' - drop_bit COUNTER_SHIFT now)"
  shows "d \<le> 1 \<Longrightarrow> check_cookie_raw sip k0 k1 src sp dst dp (c + 1) now' = Ok (Some mss)"
    and "2 \<le> d \<Longrightarrow> d \<le> 255 \<Longrightarrow> check_cookie_raw sip k0 k1 src sp dst dp (c + 1) now' = Ok None"
proof -
  let ?t = "drop_bit COUNTER_SHIFT now" and ?t' = "drop_bit COUNTER_SHIFT now'" and ?i = "mss_index_for m"
  let ?h = "\<lambda>t. sip k0 k1 (src @ be16 sp @ dst @ be16 dp @ be64 t @ [?i])"
  have c: "c = cookie_value ?t ?i (?h ?t)" "mss = MSS_TABLE ! unat ?i"
    using made by (simp_all add: make_cookie_raw_eq [OF fit] Let_def)
  have i: "decode_mss_index c = ?i" by (simp add: c cookie_value_index mss_index_small)
  have top: "(ucast (drop_bit 24 c) :: u8) = ucast ?t" by (simp add: c cookie_value_time)
  have chk: "check_cookie_raw sip k0 k1 src sp dst dp (c + 1) now' =
      Ok (if cookie_value ?t' ?i (?h ?t') = c \<or> cookie_value (?t' - 1) ?i (?h (?t' - 1)) = c then Some mss else None)"
    by (simp add: check_cookie_raw_eq [OF fit] i c(2))
  show "check_cookie_raw sip k0 k1 src sp dst dp (c + 1) now' = Ok (Some mss)" if "d \<le> 1"
  proof -
    have "?t' - ?t = 0 \<or> ?t' - ?t = 1" using that d by (metis One_nat_def le_Suc_eq le_zero_eq unat_1 unat_eq_0 word_unat_eq_iff)
    then have "?t' = ?t \<or> ?t' - 1 = ?t" by (auto simp: algebra_simps)
    then show ?thesis unfolding chk using c(1) by auto
  qed
  show "check_cookie_raw sip k0 k1 src sp dst dp (c + 1) now' = Ok None" if "2 \<le> d" "d \<le> 255"
  proof -
    have "cookie_value u ?i (?h u) = c \<Longrightarrow> (ucast ?t :: u8) = ucast u" for u
      using top cookie_value_time [of u ?i "?h u"] by simp
    moreover have "(ucast ?t :: u8) \<noteq> ucast ?t'"
      using low_byte_neq [of ?t ?t'] that d by auto
    moreover have "(ucast ?t :: u8) \<noteq> ucast (?t' - 1)"
    proof
      assume "(ucast ?t :: u8) = ucast (?t' - 1)"
      from low_byte_neq [OF this] have "unat (?t' - ?t - 1) mod 256 = 0" by (simp add: algebra_simps)
      moreover have "unat (?t' - ?t - 1) = d - 1" using that d by (simp add: unat_sub word_le_nat_alt)
      ultimately show False using that by auto
    qed
    ultimately show ?thesis unfolding chk by auto
  qed
qed

text \<open>The advertised segment size: the largest table entry the client can take, or the smallest one.\<close>

definition best_mss :: "u16 \<Rightarrow> u16" where
  "best_mss m = (if m < 216 then 216 else Max {e \<in> set MSS_TABLE. e \<le> m})"

lemma mss_index_value: "MSS_TABLE ! unat (mss_index_for m) = best_mss m"
proof (cases "m < 216")
  case True
  then have "mss_index_for m = 0" by (auto simp: mss_index_for_def MSS_TABLE_def word_le_nat_alt word_less_nat_alt)
  with True show ?thesis by (simp add: MSS_TABLE_def best_mss_def)
next
  case False
  have "best_mss m = e" if "e \<in> set MSS_TABLE" "e \<le> m" "\<forall>x \<in> set MSS_TABLE. x \<le> m \<longrightarrow> x \<le> e" for e
    using that False unfolding best_mss_def by (auto intro: Max_eqI)
  then show ?thesis using False
    by (auto simp: mss_index_for_def MSS_TABLE_def not_less)
qed

lemma make_cookie_total: "\<exists>c. make_cookie sip key tuple m now = Ok (c, best_mss m)"
  by (simp add: make_cookie_def make_cookie_raw_eq [OF octets_fit] Let_def mss_index_value split: prod.split)

lemma check_cookie_total: "\<exists>r. check_cookie sip key tuple ack now = Ok r"
  by (simp add: check_cookie_def check_cookie_raw_eq [OF octets_fit] Let_def split: prod.split)

lemma mss_index_table:
  assumes "i < length MSS_TABLE"
  shows "mss_index_for (MSS_TABLE ! i) = of_nat i"
proof -
  have "i = 0 \<or> i = 1 \<or> i = 2 \<or> i = 3 \<or> i = 4 \<or> i = 5 \<or> i = 6 \<or> i = 7"
    using assms unfolding MSS_TABLE_def by (simp del: One_nat_def) presburger
  then show ?thesis by (elim disjE) (simp_all add: mss_index_for_def MSS_TABLE_def)
qed

definition sample_tuple :: conn_tuple where
  "sample_tuple = \<lparr>ct_src = V4 0xC6336401, ct_src_port = 40000, ct_dst = V4 0xCB007107, ct_dst_port = 443\<rparr>"

definition sample_key :: cookie_key where
  "sample_key = map of_nat [0..<16]"

definition sample_sip :: siphash where
  "sample_sip k0 k1 bs = foldl (\<lambda>acc b. acc * 31 + ucast b) (k0 + k1) bs"

section \<open>Properties\<close>

text \<open>
  C26. A SYN cookie completes its own handshake and nothing later. The acknowledgement of a cookie
  made for a connection is accepted in the 64-second slot it was made in and in the next one, and
  yields the segment size that was advertised, which is the largest of the table the client can
  take. From the second slot after it and for the 254 slots that follow, it is rejected. This holds
  for every key and every hash function.
\<close>

theorem cookie_lifetime:
  assumes "make_cookie sip key tuple m now = Ok (c, mss)"
    and "d = unat (drop_bit COUNTER_SHIFT now' - drop_bit COUNTER_SHIFT now)"
  shows "mss = best_mss m \<and>
    (d \<le> 1 \<longrightarrow> check_cookie sip key tuple (c + 1) now' = Ok (Some mss)) \<and>
    (2 \<le> d \<and> d \<le> 255 \<longrightarrow> check_cookie sip key tuple (c + 1) now' = Ok None)"
proof -
  obtain k0 k1 where k: "to_u64_pair key = (k0, k1)" by fastforce
  note made = assms(1) [unfolded make_cookie_def k prod.case]
  have "mss = best_mss m" using made by (simp add: make_cookie_raw_eq [OF octets_fit] Let_def mss_index_value)
  then show ?thesis using cookie_raw_lifetime [OF octets_fit made assms(2)] by (simp add: check_cookie_def k)
qed

theorem cookie_lifetime_witness:
  "\<exists>c. make_cookie sample_sip sample_key sample_tuple 1410 1000 = Ok (c, 1400) \<and>
     check_cookie sample_sip sample_key sample_tuple (c + 1) 1064 = Ok (Some 1400) \<and>
     check_cookie sample_sip sample_key sample_tuple (c + 1) 1200 = Ok None"
proof -
  obtain c where c: "make_cookie sample_sip sample_key sample_tuple 1410 1000 = Ok (c, best_mss 1410)"
    using make_cookie_total by blast
  have mss: "best_mss 1410 = 1400" by (simp add: mss_index_value [symmetric] mss_index_for_def MSS_TABLE_def)
  have d: "unat (drop_bit COUNTER_SHIFT (1064 :: u64) - drop_bit COUNTER_SHIFT 1000) = 1"
    "unat (drop_bit COUNTER_SHIFT (1200 :: u64) - drop_bit COUNTER_SHIFT 1000) = 3"
    by (simp_all add: COUNTER_SHIFT_def)
  show ?thesis using cookie_lifetime [OF c d(1) [symmetric]] cookie_lifetime [OF c d(2) [symmetric]] c mss by auto
qed

text \<open>
  Checking a cookie is exact: an acknowledgement number is accepted, with a segment size, if and
  only if its predecessor is the cookie of this connection for the current or the previous time slot
  and that table entry. In particular the check always returns.
\<close>

lemma cookie_check_exact:
  "check_cookie sip key tuple ack now = Ok (Some mss) \<longleftrightarrow>
     (\<exists>i t. i < 8 \<and> mss = MSS_TABLE ! i \<and> t \<in> {drop_bit COUNTER_SHIFT now, drop_bit COUNTER_SHIFT now - 1} \<and>
        cookie_for_slot sip (fst (to_u64_pair key)) (snd (to_u64_pair key)) (octets (ct_src tuple)) (ct_src_port tuple)
          (octets (ct_dst tuple)) (ct_dst_port tuple) (of_nat i) t = Ok (ack - 1))"
  (is "?L \<longleftrightarrow> ?R")
proof
  let ?i = "decode_mss_index (ack - 1)"
  assume ?L
  then show ?R using decode_index_less [of "ack - 1"]
    by (intro exI [of _ "unat ?i"])
      (auto simp: check_cookie_def check_cookie_raw_eq [OF octets_fit] cookie_for_slot_value [OF octets_fit] Let_def MSS_TABLE_def
        split: prod.splits if_splits)
next
  assume ?R
  then obtain i t where i: "i < 8" "mss = MSS_TABLE ! i" "t = drop_bit COUNTER_SHIFT now \<or> t = drop_bit COUNTER_SHIFT now - 1"
    and c: "cookie_value t (of_nat i) (sip (fst (to_u64_pair key)) (snd (to_u64_pair key))
      (octets (ct_src tuple) @ be16 (ct_src_port tuple) @ octets (ct_dst tuple) @ be16 (ct_dst_port tuple) @ be64 t @ [of_nat i])) = ack - 1"
    by (auto simp: cookie_for_slot_value [OF octets_fit])
  have "decode_mss_index (ack - 1) = of_nat i"
    unfolding c [symmetric] cookie_value_index
    using i(1) by (simp add: mss_index_table [symmetric] mss_index_small MSS_TABLE_def)
  with i c show ?L
    by (auto simp: check_cookie_def check_cookie_raw_eq [OF octets_fit] Let_def split: prod.splits)
qed

end
