(* ===== verification/Xdp_Filter.thy ===== *)
theory Xdp_Filter
  imports Cookie
begin

text \<open>
  The packet filter of \<^verbatim>\<open>blackwall-xdp-ebpf/src/main.rs\<close> with the shared map values of
  \<^verbatim>\<open>blackwall-xdp-common/src/lib.rs\<close>. A handler is a state transformer over the frame, this CPU's map
  values and the capture ring, which returns a value or fails (\<open>Err(())\<close>); a failure keeps what was
  written to the frame before it. The kernel (map lookups, clock, helpers) and the header accessors
  of the \<^verbatim>\<open>network-types\<close> crate are parameters, collected in \<open>xdp_env\<close>.
\<close>

section \<open>Shared map values\<close>

definition REASON_PASS :: nat where "REASON_PASS = 0"

definition REASON_BLOCKLIST :: nat where "REASON_BLOCKLIST = 1"

definition REASON_RATELIMIT :: nat where "REASON_RATELIMIT = 2"

definition REASON_SYNCOOKIE :: nat where "REASON_SYNCOOKIE = 3"

definition REASON_REDIRECT :: nat where "REASON_REDIRECT = 4"

definition REASON_SYNCOOKIE_TXCAPPED :: nat where "REASON_SYNCOOKIE_TXCAPPED = 5"

definition REASON_COUNT :: nat where "REASON_COUNT = 6"

record rate_bucket =
  bk_tokens :: u64
  bk_last_ns :: u64
  bk_rate_pps :: u64
  bk_burst :: u64

record tx_bucket =
  tx_tokens :: u64
  tx_last_ns :: u64
  tx_rate_pps :: u64

record xdp_stat =
  sx_packets :: u64
  sx_bytes :: u64

definition CAP_SNAP_LEN :: nat where "CAP_SNAP_LEN = 96"

datatype xdp_verdict = XdpDrop | XdpPass | XdpTx | XdpRedirect

record capture_frame =
  cf_timestamp_ns :: u64
  cf_reason :: nat
  cf_verdict :: xdp_verdict
  cf_pkt_len :: u32
  cf_cap_len :: u32
  cf_data :: "u8 list"

section \<open>Environment and state\<close>

datatype ether_type = EtherIpv4 | EtherIpv6 | EtherOther

text \<open>The accessors of the header structures, on the bytes of a header.\<close>

record net_types =
  nt_ether_type :: "u8 list \<Rightarrow> ether_type"
  nt_ip4_src :: "u8 list \<Rightarrow> u8 list"
  nt_ip4_ihl :: "u8 list \<Rightarrow> u8"
  nt_ip4_proto :: "u8 list \<Rightarrow> u8"
  nt_ip4_tot_len :: "u8 list \<Rightarrow> u16"
  nt_ip6_src :: "u8 list \<Rightarrow> u8 list"
  nt_ip6_next_hdr :: "u8 list \<Rightarrow> u8"
  nt_ip6_payload_len :: "u8 list \<Rightarrow> u16"
  nt_tcp_syn :: "u8 list \<Rightarrow> bool"
  nt_tcp_ack :: "u8 list \<Rightarrow> bool"
  nt_tcp_doff :: "u8 list \<Rightarrow> u16"

text \<open>
  What the kernel answers while one packet is handled: lookups in the maps the program only reads,
  the clock at its four reading points, the redirect helper, whether the ring has room, and the copy
  helper.
\<close>

record xdp_env =
  xe_types :: net_types
  xe_sip :: siphash
  xe_block_v4 :: "u8 list \<Rightarrow> bool"
  xe_block_v6 :: "u8 list \<Rightarrow> bool"
  xe_protect_v4 :: "u8 list \<Rightarrow> bool"
  xe_protect_v6 :: "u8 list \<Rightarrow> bool"
  xe_protect_port :: "u16 \<Rightarrow> bool"
  xe_redirect_port :: "u16 \<Rightarrow> bool"
  xe_cookie_key :: "cookie_key_value option"
  xe_capture_enabled :: "u8 option"
  xe_rx_queue :: u32
  xe_xsk_redirect :: "u32 \<Rightarrow> xdp_verdict option"
  xe_ktime_rate :: u64
  xe_ktime_syn :: u64
  xe_ktime_cookie :: u64
  xe_ktime_capture :: u64
  xe_reserve :: "capture_frame list \<Rightarrow> bool"
  xe_load_bytes :: "u8 list \<Rightarrow> nat \<Rightarrow> u8 list option"

record xdp_state =
  xs_frame :: "u8 list"
  xs_rate :: "u8 list \<Rightarrow> rate_bucket option"
  xs_tx_budget :: tx_bucket
  xs_stats :: "nat \<Rightarrow> xdp_stat"
  xs_ring :: "capture_frame list"

type_synonym 'a xprog = "xdp_state \<Rightarrow> 'a option \<times> xdp_state"

definition xret :: "'a \<Rightarrow> 'a xprog" where
  "xret x s = (Some x, s)"

definition xfail :: "'a xprog" where
  "xfail s = (None, s)"

definition xbind :: "'a xprog \<Rightarrow> ('a \<Rightarrow> 'b xprog) \<Rightarrow> 'b xprog" where
  "xbind m f s = (case m s of (None, s') \<Rightarrow> (None, s') | (Some x, s') \<Rightarrow> f x s')"

definition xthen :: "unit xprog \<Rightarrow> 'b xprog \<Rightarrow> 'b xprog" where
  "xthen m k = xbind m (\<lambda>_. k)"

text \<open>\<open>if let Ok(x) = m { ok(x) }\<close>, continuing with \<open>err\<close> otherwise.\<close>

definition xcatch :: "'a xprog \<Rightarrow> ('a \<Rightarrow> 'b xprog) \<Rightarrow> 'b xprog \<Rightarrow> 'b xprog" where
  "xcatch m ok err s = (case m s of (Some x, s') \<Rightarrow> ok x s' | (None, s') \<Rightarrow> err s')"

text \<open>The cookie core only panics on addresses longer than sixteen bytes, which no caller passes.\<close>

definition xcookie :: "(unit, 'a) outcome \<Rightarrow> 'a xprog" where
  "xcookie r s = (case r of Ok x \<Rightarrow> (Some x, s) | _ \<Rightarrow> (None, s))"

section \<open>Offsets and constants\<close>

definition OFF_MAC_DST :: nat where "OFF_MAC_DST = 0"

definition OFF_MAC_SRC :: nat where "OFF_MAC_SRC = 6"

definition OFF_IP :: nat where "OFF_IP = 14"

definition OFF_IP_CHECK :: nat where "OFF_IP_CHECK = OFF_IP + 10"

definition OFF_IP_SRC :: nat where "OFF_IP_SRC = OFF_IP + 12"

definition OFF_IP_DST :: nat where "OFF_IP_DST = OFF_IP + 16"

definition OFF_TCP :: nat where "OFF_TCP = OFF_IP + 20"

definition OFF_TCP_SRCPORT :: nat where "OFF_TCP_SRCPORT = OFF_TCP"

definition OFF_TCP_DSTPORT :: nat where "OFF_TCP_DSTPORT = OFF_TCP + 2"

definition OFF_UDP_DSTPORT :: nat where "OFF_UDP_DSTPORT = OFF_TCP + 2"

definition OFF_TCP_SEQ :: nat where "OFF_TCP_SEQ = OFF_TCP + 4"

definition OFF_TCP_ACK :: nat where "OFF_TCP_ACK = OFF_TCP + 8"

definition OFF_TCP_DATAOFF :: nat where "OFF_TCP_DATAOFF = OFF_TCP + 12"

definition OFF_TCP_FLAGS :: nat where "OFF_TCP_FLAGS = OFF_TCP + 13"

definition OFF_TCP_WINDOW :: nat where "OFF_TCP_WINDOW = OFF_TCP + 14"

definition OFF_TCP_CHECK :: nat where "OFF_TCP_CHECK = OFF_TCP + 16"

definition OFF_TCP_URG :: nat where "OFF_TCP_URG = OFF_TCP + 18"

definition OFF_TCP_OPTS :: nat where "OFF_TCP_OPTS = OFF_TCP + 20"

definition OFF_IP6 :: nat where "OFF_IP6 = 14"

definition OFF_IP6_SRC :: nat where "OFF_IP6_SRC = OFF_IP6 + 8"

definition OFF_IP6_DST :: nat where "OFF_IP6_DST = OFF_IP6 + 24"

definition OFF_TCP6 :: nat where "OFF_TCP6 = OFF_IP6 + 40"

definition OFF_TCP6_SRCPORT :: nat where "OFF_TCP6_SRCPORT = OFF_TCP6"

definition OFF_TCP6_DSTPORT :: nat where "OFF_TCP6_DSTPORT = OFF_TCP6 + 2"

definition OFF_TCP6_SEQ :: nat where "OFF_TCP6_SEQ = OFF_TCP6 + 4"

definition OFF_TCP6_ACK :: nat where "OFF_TCP6_ACK = OFF_TCP6 + 8"

definition OFF_TCP6_DATAOFF :: nat where "OFF_TCP6_DATAOFF = OFF_TCP6 + 12"

definition OFF_TCP6_FLAGS :: nat where "OFF_TCP6_FLAGS = OFF_TCP6 + 13"

definition OFF_TCP6_WINDOW :: nat where "OFF_TCP6_WINDOW = OFF_TCP6 + 14"

definition OFF_TCP6_CHECK :: nat where "OFF_TCP6_CHECK = OFF_TCP6 + 16"

definition OFF_TCP6_URG :: nat where "OFF_TCP6_URG = OFF_TCP6 + 18"

definition OFF_TCP6_OPTS :: nat where "OFF_TCP6_OPTS = OFF_TCP6 + 20"

lemmas offsets = OFF_MAC_DST_def OFF_MAC_SRC_def OFF_IP_def OFF_IP_CHECK_def OFF_IP_SRC_def OFF_IP_DST_def OFF_TCP_def
  OFF_TCP_SRCPORT_def OFF_TCP_DSTPORT_def OFF_UDP_DSTPORT_def OFF_TCP_SEQ_def OFF_TCP_ACK_def OFF_TCP_DATAOFF_def
  OFF_TCP_FLAGS_def OFF_TCP_WINDOW_def OFF_TCP_CHECK_def OFF_TCP_URG_def OFF_TCP_OPTS_def OFF_IP6_def OFF_IP6_SRC_def
  OFF_IP6_DST_def OFF_TCP6_def OFF_TCP6_SRCPORT_def OFF_TCP6_DSTPORT_def OFF_TCP6_SEQ_def OFF_TCP6_ACK_def
  OFF_TCP6_DATAOFF_def OFF_TCP6_FLAGS_def OFF_TCP6_WINDOW_def OFF_TCP6_CHECK_def OFF_TCP6_URG_def OFF_TCP6_OPTS_def

definition TCP_FLAGS_SYN_ACK :: u8 where "TCP_FLAGS_SYN_ACK = 0x12"

definition SYNACK_WINDOW :: u16 where "SYNACK_WINDOW = 65535"

definition DEFAULT_CLIENT_MSS :: u16 where "DEFAULT_CLIENT_MSS = 1460"

definition MAX_TCP_OPTS :: nat where "MAX_TCP_OPTS = 40"

definition MAX_TCP_SEG :: nat where "MAX_TCP_SEG = 64"

definition NS_PER_SEC :: u64 where "NS_PER_SEC = 1000000000"

definition TX_BUDGET_BURST_MAX :: u64 where "TX_BUDGET_BURST_MAX = 1000000"

definition IPPROTO_TCP :: u8 where "IPPROTO_TCP = 6"

definition IPPROTO_UDP :: u8 where "IPPROTO_UDP = 17"

section \<open>Access to the frame\<close>

text \<open>\<open>ptr_at\<close> yields the bytes at the pointer, or fails when they pass the end of the frame.\<close>

definition ptr_at :: "nat \<Rightarrow> nat \<Rightarrow> (u8 list) xprog" where
  "ptr_at n offset s =
     (if length (xs_frame s) < offset + n then (None, s) else (Some (take n (drop offset (xs_frame s))), s))"

definition load_u8 :: "nat \<Rightarrow> u8 xprog" where
  "load_u8 offset = xbind (ptr_at 1 offset) (\<lambda>p. xret (hd p))"

definition store_u8 :: "nat \<Rightarrow> u8 \<Rightarrow> unit xprog" where
  "store_u8 offset v = xbind (ptr_at 1 offset) (\<lambda>_ s. (Some (), s\<lparr>xs_frame := (xs_frame s)[offset := v]\<rparr>))"

definition load_be16 :: "nat \<Rightarrow> u16 xprog" where
  "load_be16 offset = xbind (load_u8 offset) (\<lambda>hi. xbind (load_u8 (offset + 1)) (\<lambda>lo. xret (from_be16 hi lo)))"

definition store_be16 :: "nat \<Rightarrow> u16 \<Rightarrow> unit xprog" where
  "store_be16 offset v = xthen (store_u8 offset (ucast (drop_bit 8 v))) (store_u8 (offset + 1) (ucast (v AND 0xff)))"

definition load_be32 :: "nat \<Rightarrow> u32 xprog" where
  "load_be32 offset = xbind (load_be16 offset) (\<lambda>hi. xbind (load_be16 (offset + 2)) (\<lambda>lo.
     xret (push_bit 16 (ucast hi) OR ucast lo)))"

definition store_be32 :: "nat \<Rightarrow> u32 \<Rightarrow> unit xprog" where
  "store_be32 offset v = xthen (store_be16 offset (ucast (drop_bit 16 v))) (store_be16 (offset + 2) (ucast (v AND 0xffff)))"

definition load_addr16 :: "nat \<Rightarrow> (u8 list) xprog" where
  "load_addr16 offset = ptr_at 16 offset"

definition load_addr4 :: "nat \<Rightarrow> (u8 list) xprog" where
  "load_addr4 offset = xbind (load_u8 offset) (\<lambda>a. xbind (load_u8 (offset + 1)) (\<lambda>b.
     xbind (load_u8 (offset + 2)) (\<lambda>c. xbind (load_u8 (offset + 3)) (\<lambda>d. xret [a, b, c, d]))))"

definition word16_at :: "u8 list \<Rightarrow> nat \<Rightarrow> u32" where
  "word16_at bs k = ucast (from_be16 (bs ! (k * 2)) (bs ! (k * 2 + 1)))"

definition sum_addr16 :: "u8 list \<Rightarrow> u32" where
  "sum_addr16 addr = foldl (\<lambda>acc k. acc + word16_at addr k) 0 [0..<8]"

fun swap_from :: "nat \<Rightarrow> nat \<Rightarrow> nat list \<Rightarrow> unit xprog" where
  "swap_from a b [] = xret ()"
| "swap_from a b (k # ks) = xbind (load_u8 (a + k)) (\<lambda>x. xbind (load_u8 (b + k)) (\<lambda>y.
     xthen (store_u8 (a + k) y) (xthen (store_u8 (b + k) x) (swap_from a b ks))))"

definition swap_bytes :: "nat \<Rightarrow> nat \<Rightarrow> nat \<Rightarrow> unit xprog" where
  "swap_bytes n a b = swap_from a b [0..<n]"

definition fold_checksum :: "u32 \<Rightarrow> u16" where
  "fold_checksum acc =
     (let acc = (acc AND 0xffff) + drop_bit 16 acc; acc = (acc AND 0xffff) + drop_bit 16 acc
      in NOT (ucast acc))"

section \<open>Counting and capture\<close>

definition xcount :: "nat \<Rightarrow> u64 \<Rightarrow> unit xprog" where
  "xcount reason bytes s =
     (Some (), if reason < REASON_COUNT
        then s\<lparr>xs_stats := (xs_stats s)(reason :=
               \<lparr>sx_packets = sx_packets (xs_stats s reason) + 1, sx_bytes = sx_bytes (xs_stats s reason) + bytes\<rparr>)\<rparr>
        else s)"

definition capture_enabled :: "xdp_env \<Rightarrow> bool" where
  "capture_enabled e = (case xe_capture_enabled e of Some v \<Rightarrow> v \<noteq> 0 | None \<Rightarrow> False)"

fun snapshot :: "xdp_env \<Rightarrow> u8 list \<Rightarrow> nat list \<Rightarrow> (u8 list) option" where
  "snapshot e frame [] = None"
| "snapshot e frame (n # ns) = (case xe_load_bytes e frame n of Some d \<Rightarrow> Some d | None \<Rightarrow> snapshot e frame ns)"

definition capture :: "xdp_env \<Rightarrow> nat \<Rightarrow> xdp_verdict \<Rightarrow> u64 \<Rightarrow> unit xprog" where
  "capture e reason verdict frame_len s =
     (Some (), if capture_enabled e \<and> xe_reserve e (xs_ring s)
        then (case snapshot e (xs_frame s) [CAP_SNAP_LEN, 64, 32, 20, 14] of
            None \<Rightarrow> s
          | Some d \<Rightarrow> s\<lparr>xs_ring := xs_ring s @ [\<lparr>cf_timestamp_ns = xe_ktime_capture e, cf_reason = reason,
              cf_verdict = verdict, cf_pkt_len = ucast frame_len, cf_cap_len = of_nat (length d), cf_data = d\<rparr>]\<rparr>)
        else s)"

section \<open>Rate limits\<close>

definition sat_sub :: "u64 \<Rightarrow> u64 \<Rightarrow> u64" where
  "sat_sub a b = (if b \<le> a then a - b else 0)"

definition sat_add_u64 :: "u64 \<Rightarrow> u64 \<Rightarrow> u64" where
  "sat_add_u64 a b = (if a + b < a then - 1 else a + b)"

definition rate_step :: "u64 \<Rightarrow> rate_bucket \<Rightarrow> bool \<times> rate_bucket" where
  "rate_step now b =
     (let elapsed_ns = sat_sub now (bk_last_ns b);
          refill = elapsed_ns * bk_rate_pps b div 1000000000;
          tokens = min (sat_add_u64 (bk_tokens b) refill) (bk_burst b);
          b = b\<lparr>bk_tokens := tokens, bk_last_ns := now\<rparr>
      in if tokens = 0 then (True, b) else (False, b\<lparr>bk_tokens := tokens - 1\<rparr>))"

definition over_rate :: "xdp_env \<Rightarrow> u8 list \<Rightarrow> bool xprog" where
  "over_rate e src s =
     (case xs_rate s src of
        None \<Rightarrow> (Some False, s)
      | Some b \<Rightarrow> (case rate_step (xe_ktime_rate e) b of (over, b') \<Rightarrow>
          (Some over, s\<lparr>xs_rate := (xs_rate s)(src := Some b')\<rparr>)))"

definition tx_step :: "u64 \<Rightarrow> tx_bucket \<Rightarrow> bool \<times> tx_bucket" where
  "tx_step now b =
     (if tx_rate_pps b = 0 then (True, b)
      else let elapsed_ns = sat_sub now (tx_last_ns b);
               burst = min (tx_rate_pps b * 2) TX_BUDGET_BURST_MAX;
               refill = elapsed_ns * tx_rate_pps b div NS_PER_SEC;
               tokens = min (sat_add_u64 (tx_tokens b) refill) burst;
               b = b\<lparr>tx_tokens := tokens, tx_last_ns := now\<rparr>
           in if tokens = 0 then (False, b) else (True, b\<lparr>tx_tokens := tokens - 1\<rparr>))"

definition tx_budget_ok :: "u64 \<Rightarrow> bool xprog" where
  "tx_budget_ok now s = (case tx_step now (xs_tx_budget s) of (ok, b) \<Rightarrow> (Some ok, s\<lparr>xs_tx_budget := b\<rparr>))"

section \<open>The SYN-cookie fast path\<close>

definition cookie_keys :: "xdp_env \<Rightarrow> (u64 \<times> u64) xprog" where
  "cookie_keys e = (case xe_cookie_key e of None \<Rightarrow> xfail | Some v \<Rightarrow> xret (ck_k0 v, ck_k1 v))"

definition parse_mss :: "nat \<Rightarrow> u16 xprog" where
  "parse_mss opts_off = xbind (load_u8 opts_off) (\<lambda>kind. xbind (load_u8 (opts_off + 1)) (\<lambda>len.
     if kind = 2 \<and> len = 4 then load_be16 (opts_off + 2) else xret DEFAULT_CLIENT_MSS))"

fun pad_from :: "nat \<Rightarrow> nat \<Rightarrow> nat list \<Rightarrow> unit xprog" where
  "pad_from opts_off options_len [] = xret ()"
| "pad_from opts_off options_len (k # ks) =
     (if options_len \<le> k then xret () else xthen (store_u8 (opts_off + k) 1) (pad_from opts_off options_len ks))"

definition write_mss_option :: "nat \<Rightarrow> nat \<Rightarrow> u16 \<Rightarrow> unit xprog" where
  "write_mss_option opts_off options_len mss =
     xthen (store_u8 opts_off 2) (xthen (store_u8 (opts_off + 1) 4) (xthen (store_be16 (opts_off + 2) mss)
       (pad_from opts_off options_len [4..<MAX_TCP_OPTS])))"

definition ipv4_checksum :: "u16 xprog" where
  "ipv4_checksum = xbind (ptr_at 20 OFF_IP) (\<lambda>bytes.
     xret (fold_checksum (foldl (\<lambda>acc k. acc + word16_at bytes k) 0 [0..<10])))"

text \<open>The part of the analytic TCP checksum after the address words.\<close>

definition tcp_sum :: "nat \<Rightarrow> u16 \<Rightarrow> u16 \<Rightarrow> u32 \<Rightarrow> u32 \<Rightarrow> nat \<Rightarrow> u16 \<Rightarrow> nat \<Rightarrow> u32" where
  "tcp_sum seg_len dst_port src_port cookie_seq ack doff mss options_len =
     ucast IPPROTO_TCP + of_nat seg_len + ucast dst_port + ucast src_port +
     (drop_bit 16 cookie_seq + (cookie_seq AND 0xffff)) + (drop_bit 16 ack + (ack AND 0xffff)) +
     (push_bit 12 (of_nat doff) OR 0x12) + ucast SYNACK_WINDOW + 0x204 + ucast mss +
     of_nat ((options_len - 4) div 2) * 0x101"

text \<open>The gate of the IPv4 path reads the frame and changes nothing.\<close>

definition synack_v4_gate :: "xdp_env \<Rightarrow> (nat \<times> u8 list \<times> u8 list \<times> u16 \<times> u16 \<times> u32 \<times> u16) xprog" where
  "synack_v4_gate e =
     xbind (ptr_at 20 OFF_IP) (\<lambda>ip.
     let ihl = nt_ip4_ihl (xe_types e) ip; proto = nt_ip4_proto (xe_types e) ip in
     if ihl \<noteq> 5 \<or> proto \<noteq> IPPROTO_TCP then xfail else
     let ip_total = unat (nt_ip4_tot_len (xe_types e) ip) in
     xbind (ptr_at 20 OFF_TCP) (\<lambda>tcp.
     if \<not> nt_tcp_syn (xe_types e) tcp \<or> nt_tcp_ack (xe_types e) tcp then xfail else
     xbind (load_addr4 OFF_IP_DST) (\<lambda>dst.
     xbind (load_be16 OFF_TCP_DSTPORT) (\<lambda>dst_port.
     if \<not> xe_protect_port e dst_port \<or> \<not> xe_protect_v4 e dst then xfail else
     let doff = unat (nt_tcp_doff (xe_types e) tcp) in
     if doff < 5 then xfail else
     let tcp_hdr_len = doff * 4; options_len = tcp_hdr_len - 20 in
     if options_len < 4 \<or> MAX_TCP_OPTS < options_len then xfail else
     if ip_total \<noteq> 20 + tcp_hdr_len then xfail else
     let seg_len = tcp_hdr_len in
     if MAX_TCP_SEG < seg_len then xfail else
     xbind (load_addr4 OFF_IP_SRC) (\<lambda>src.
     xbind (load_be16 OFF_TCP_SRCPORT) (\<lambda>src_port.
     xbind (load_be32 OFF_TCP_SEQ) (\<lambda>client_seq.
     xbind (parse_mss OFF_TCP_OPTS) (\<lambda>client_mss.
     xret (doff, src, dst, src_port, dst_port, client_seq, client_mss)))))))))"

text \<open>The in-place rewrite of a SYN into its SYN-ACK.\<close>

definition synack_v4_rewrite ::
  "nat \<Rightarrow> u8 list \<Rightarrow> u8 list \<Rightarrow> u16 \<Rightarrow> u16 \<Rightarrow> u32 \<Rightarrow> u32 \<Rightarrow> u16 \<Rightarrow> xdp_verdict xprog"
where
  "synack_v4_rewrite doff src dst src_port dst_port client_seq cookie_seq mss =
     (let seg_len = doff * 4; options_len = seg_len - 20; ack = client_seq + 1 in
     xthen (swap_bytes 6 OFF_MAC_DST OFF_MAC_SRC) (
     xthen (swap_bytes 4 OFF_IP_SRC OFF_IP_DST) (
     xthen (swap_bytes 2 OFF_TCP_SRCPORT OFF_TCP_DSTPORT) (
     xthen (store_u8 OFF_TCP_DATAOFF (of_nat (doff * 16))) (
     xthen (store_be32 OFF_TCP_SEQ cookie_seq) (
     xthen (store_be32 OFF_TCP_ACK ack) (
     xthen (store_u8 OFF_TCP_FLAGS TCP_FLAGS_SYN_ACK) (
     xthen (store_be16 OFF_TCP_WINDOW SYNACK_WINDOW) (
     xthen (store_be16 OFF_TCP_URG 0) (
     xthen (write_mss_option OFF_TCP_OPTS options_len mss) (
     xthen (store_be16 OFF_IP_CHECK 0) (
     xbind ipv4_checksum (\<lambda>ip_check.
     xthen (store_be16 OFF_IP_CHECK ip_check) (
     let acc = word16_at src 0 + word16_at src 1 + word16_at dst 0 + word16_at dst 1 +
               tcp_sum seg_len dst_port src_port cookie_seq ack doff mss options_len in
     xthen (store_be16 OFF_TCP_CHECK (fold_checksum acc)) (
     xret XdpTx)))))))))))))))"

text \<open>A SYN over the budget is counted and falls through.\<close>

definition tx_capped :: "'a xprog" where
  "tx_capped s = xthen (xcount REASON_SYNCOOKIE_TXCAPPED (of_nat (length (xs_frame s)))) xfail s"

definition try_synack_v4 :: "xdp_env \<Rightarrow> xdp_verdict xprog" where
  "try_synack_v4 e =
     xbind (synack_v4_gate e) (\<lambda>(doff, src, dst, src_port, dst_port, client_seq, client_mss).
     xbind (cookie_keys e) (\<lambda>(k0, k1).
     let now_ns = xe_ktime_syn e; now_secs = now_ns div NS_PER_SEC in
     xbind (tx_budget_ok now_ns) (\<lambda>ok.
     if \<not> ok then tx_capped else
     xbind (xcookie (make_cookie_raw (xe_sip e) k0 k1 src src_port dst dst_port client_mss now_secs)) (\<lambda>(cookie_seq, mss).
     synack_v4_rewrite doff src dst src_port dst_port client_seq cookie_seq mss))))"

definition compute_cookie_v6 :: "xdp_env \<Rightarrow> u64 \<Rightarrow> u64 \<Rightarrow> (u32 \<times> u16) xprog" where
  "compute_cookie_v6 e k0 k1 =
     (let now_secs = xe_ktime_cookie e div NS_PER_SEC in
     xbind (load_addr16 OFF_IP6_SRC) (\<lambda>src.
     xbind (load_addr16 OFF_IP6_DST) (\<lambda>dst.
     xbind (load_be16 OFF_TCP6_SRCPORT) (\<lambda>src_port.
     xbind (load_be16 OFF_TCP6_DSTPORT) (\<lambda>dst_port.
     xbind (parse_mss OFF_TCP6_OPTS) (\<lambda>client_mss.
     xcookie (make_cookie_raw (xe_sip e) k0 k1 src src_port dst dst_port client_mss now_secs)))))))"

definition synack_v6_gate :: "xdp_env \<Rightarrow> (nat \<times> u16 \<times> u16 \<times> u32) xprog" where
  "synack_v6_gate e =
     xbind (ptr_at 40 OFF_IP6) (\<lambda>ip.
     if nt_ip6_next_hdr (xe_types e) ip \<noteq> IPPROTO_TCP then xfail else
     let payload_len = unat (nt_ip6_payload_len (xe_types e) ip) in
     xbind (ptr_at 20 OFF_TCP6) (\<lambda>tcp.
     if \<not> nt_tcp_syn (xe_types e) tcp \<or> nt_tcp_ack (xe_types e) tcp then xfail else
     xbind (load_be16 OFF_TCP6_DSTPORT) (\<lambda>dst_port.
     if \<not> xe_protect_port e dst_port then xfail else
     xbind (load_addr16 OFF_IP6_DST) (\<lambda>dst.
     if \<not> xe_protect_v6 e dst then xfail else
     let doff = unat (nt_tcp_doff (xe_types e) tcp) in
     if doff < 5 then xfail else
     let tcp_hdr_len = doff * 4; options_len = tcp_hdr_len - 20 in
     if options_len < 4 \<or> MAX_TCP_OPTS < options_len then xfail else
     if payload_len \<noteq> tcp_hdr_len then xfail else
     let seg_len = tcp_hdr_len in
     if MAX_TCP_SEG < seg_len then xfail else
     xbind (load_be16 OFF_TCP6_SRCPORT) (\<lambda>src_port.
     xbind (load_be32 OFF_TCP6_SEQ) (\<lambda>client_seq.
     xret (doff, src_port, dst_port, client_seq)))))))"

definition synack_v6_rewrite :: "nat \<Rightarrow> u16 \<Rightarrow> u16 \<Rightarrow> u32 \<Rightarrow> u32 \<Rightarrow> u16 \<Rightarrow> xdp_verdict xprog" where
  "synack_v6_rewrite doff src_port dst_port client_seq cookie_seq mss =
     (let seg_len = doff * 4; options_len = seg_len - 20; ack = client_seq + 1 in
     xthen (swap_bytes 6 OFF_MAC_DST OFF_MAC_SRC) (
     xthen (swap_bytes 16 OFF_IP6_SRC OFF_IP6_DST) (
     xthen (swap_bytes 2 OFF_TCP6_SRCPORT OFF_TCP6_DSTPORT) (
     xthen (store_u8 OFF_TCP6_DATAOFF (of_nat (doff * 16))) (
     xthen (store_be32 OFF_TCP6_SEQ cookie_seq) (
     xthen (store_be32 OFF_TCP6_ACK ack) (
     xthen (store_u8 OFF_TCP6_FLAGS TCP_FLAGS_SYN_ACK) (
     xthen (store_be16 OFF_TCP6_WINDOW SYNACK_WINDOW) (
     xthen (store_be16 OFF_TCP6_URG 0) (
     xthen (write_mss_option OFF_TCP6_OPTS options_len mss) (
     xbind (load_addr16 OFF_IP6_SRC) (\<lambda>new_src.
     xbind (load_addr16 OFF_IP6_DST) (\<lambda>new_dst.
     let acc = sum_addr16 new_src + sum_addr16 new_dst +
               tcp_sum seg_len dst_port src_port cookie_seq ack doff mss options_len in
     xthen (store_be16 OFF_TCP6_CHECK (fold_checksum acc)) (
     xret XdpTx))))))))))))))"

definition try_synack_v6 :: "xdp_env \<Rightarrow> xdp_verdict xprog" where
  "try_synack_v6 e =
     xbind (synack_v6_gate e) (\<lambda>(doff, src_port, dst_port, client_seq).
     xbind (cookie_keys e) (\<lambda>(k0, k1).
     xbind (tx_budget_ok (xe_ktime_syn e)) (\<lambda>ok.
     if \<not> ok then tx_capped else
     xbind (compute_cookie_v6 e k0 k1) (\<lambda>(cookie_seq, mss).
     synack_v6_rewrite doff src_port dst_port client_seq cookie_seq mss))))"

section \<open>The filter\<close>

definition try_redirect_udp_v4 :: "xdp_env \<Rightarrow> xdp_verdict xprog" where
  "try_redirect_udp_v4 e =
     xbind (ptr_at 20 OFF_IP) (\<lambda>ip.
     let ihl = nt_ip4_ihl (xe_types e) ip; proto = nt_ip4_proto (xe_types e) ip in
     if ihl \<noteq> 5 \<or> proto \<noteq> IPPROTO_UDP then xfail else
     xbind (load_be16 OFF_UDP_DSTPORT) (\<lambda>dst_port.
     if \<not> xe_redirect_port e dst_port then xfail else
     xret (case xe_xsk_redirect e (xe_rx_queue e) of Some v \<Rightarrow> v | None \<Rightarrow> XdpPass)))"

definition decide :: "xdp_env \<Rightarrow> nat \<Rightarrow> xdp_verdict \<Rightarrow> u64 \<Rightarrow> xdp_verdict xprog" where
  "decide e reason verdict frame_len =
     xthen (xcount reason frame_len) (xthen (capture e reason verdict frame_len) (xret verdict))"

definition try_filter :: "xdp_env \<Rightarrow> xdp_verdict xprog" where
  "try_filter e s =
     (let frame_len = of_nat (length (xs_frame s)); pass = decide e REASON_PASS XdpPass frame_len in
      xbind (ptr_at 14 0) (\<lambda>eth.
      case nt_ether_type (xe_types e) eth of
        EtherIpv4 \<Rightarrow>
          xbind (ptr_at 20 OFF_IP) (\<lambda>ip.
          let src = nt_ip4_src (xe_types e) ip in
          if xe_block_v4 e src then decide e REASON_BLOCKLIST XdpDrop frame_len else
          let key16 = src @ replicate 12 0 in
          xbind (over_rate e key16) (\<lambda>over.
          if over then decide e REASON_RATELIMIT XdpDrop frame_len else
          xcatch (try_redirect_udp_v4 e) (\<lambda>action. decide e REASON_REDIRECT action frame_len)
          (xcatch (try_synack_v4 e) (\<lambda>action. decide e REASON_SYNCOOKIE action frame_len)
          pass)))
      | EtherIpv6 \<Rightarrow>
          xbind (ptr_at 40 OFF_IP) (\<lambda>ip.
          let src = nt_ip6_src (xe_types e) ip in
          if xe_block_v6 e src then decide e REASON_BLOCKLIST XdpDrop frame_len else
          xbind (over_rate e src) (\<lambda>over.
          if over then decide e REASON_RATELIMIT XdpDrop frame_len else
          xcatch (try_synack_v6 e) (\<lambda>action. decide e REASON_SYNCOOKIE action frame_len)
          pass))
      | EtherOther \<Rightarrow> pass) s)"

definition xdp_filter :: "xdp_env \<Rightarrow> xdp_state \<Rightarrow> xdp_verdict \<times> xdp_state" where
  "xdp_filter e s = (case try_filter e s of (Some v, s') \<Rightarrow> (v, s') | (None, s') \<Rightarrow> (XdpPass, s'))"

end
