(* ===== verification/Xdp_Frame.thy ===== *)
theory Xdp_Frame
  imports Xdp_Filter
begin

text \<open>
  Reading and rewriting a frame: what the filter's accessors do, in terms of the fields of a frame and
  patches of it, and the Internet checksum of RFC 1071 as a reference for the checksums it computes.
\<close>

named_theorems frame_simps \<open>effects of the accessors on a frame that is long enough\<close>

section \<open>Fields and patches\<close>

definition field :: "nat \<Rightarrow> nat \<Rightarrow> u8 list \<Rightarrow> u8 list" where
  "field off n f = take n (drop off f)"

definition patch :: "nat \<Rightarrow> u8 list \<Rightarrow> u8 list \<Rightarrow> u8 list" where
  "patch off bs f = (if off + length bs \<le> length f then take off f @ bs @ drop (off + length bs) f else f)"

lemma length_field [simp]: "off + n \<le> length f \<Longrightarrow> length (field off n f) = n"
  by (simp add: field_def)

lemma length_patch [simp]: "length (patch off bs f) = length f"
  by (simp add: patch_def)

lemma nth_patch:
  assumes "off + length bs \<le> length f"
  shows "patch off bs f ! i = (if off \<le> i \<and> i < off + length bs then bs ! (i - off) else f ! i)"
proof -
  consider "i < off" | "off \<le> i" "i < off + length bs" | "off + length bs \<le> i" by linarith
  then show ?thesis using assms by cases (auto simp: patch_def nth_append)
qed

lemma nth_field: "i < n \<Longrightarrow> off + n \<le> length f \<Longrightarrow> field off n f ! i = f ! (off + i)"
  by (simp add: field_def)

lemma field_patch_same:
  "n = length bs \<Longrightarrow> off + length bs \<le> length f \<Longrightarrow> field off n (patch off bs f) = bs"
  by (simp add: field_def patch_def)

lemma field_patch_other:
  assumes "off + length bs \<le> length f" "off' + n \<le> off \<or> off + length bs \<le> off'" "off' + n \<le> length f"
  shows "field off' n (patch off bs f) = field off' n f"
  using assms by (intro nth_equalityI) (auto simp: nth_field nth_patch)

lemma field_split: "field off (n + m) f = field off n f @ field (off + n) m f"
  by (simp only: field_def take_add drop_drop add.commute [of off n])

lemma field_0 [simp]: "field off 0 f = []"
  by (simp add: field_def)

lemma patch_append:
  "off + length a + length b \<le> length f \<Longrightarrow> patch (off + length a) b (patch off a f) = patch off (a @ b) f"
  by (intro nth_equalityI) (auto simp: nth_patch nth_append)

lemma patch_field [simp]: "off + n \<le> length f \<Longrightarrow> patch off (field off n f) f = f"
  by (intro nth_equalityI) (auto simp: nth_patch nth_field)

section \<open>The accessors\<close>

lemma xbind_ret [simp]: "xbind (xret x) f = f x"
  by (rule ext) (simp add: xbind_def xret_def)

lemma xthen_ret [simp]: "xthen (xret ()) k = k"
  by (simp add: xthen_def)

lemma xthen_step: "m s = (Some (), s') \<Longrightarrow> xthen m k s = k s'"
  by (simp add: xthen_def xbind_def)

lemma xbind_step: "m s = (Some x, s') \<Longrightarrow> xbind m k s = k x s'"
  by (simp add: xbind_def)

lemma xbind_none: "m s = (None, s') \<Longrightarrow> xbind m k s = (None, s')"
  by (simp add: xbind_def)

lemma xthen_fail: "m s = (None, s') \<Longrightarrow> xthen m k s = (None, s')"
  by (simp add: xthen_def xbind_def)

lemma ptr_at_eq: "ptr_at n off s = (if off + n \<le> length (xs_frame s) then (Some (field off n (xs_frame s)), s) else (None, s))"
  by (auto simp: ptr_at_def field_def)

lemma load_u8_eq: "load_u8 off s = (if off < length (xs_frame s) then (Some (xs_frame s ! off), s) else (None, s))"
  by (simp add: load_u8_def xbind_def ptr_at_eq field_def xret_def hd_drop_conv_nth)

lemma store_u8_eq:
  "store_u8 off v s = (if off < length (xs_frame s) then (Some (), s\<lparr>xs_frame := patch off [v] (xs_frame s)\<rparr>) else (None, s))"
proof -
  have "patch off [v] f = f[off := v]" if "off < length f" for f
    using that by (intro nth_equalityI) (auto simp: nth_patch nth_list_update)
  then show ?thesis by (simp add: store_u8_def xbind_def ptr_at_eq)
qed

definition be16_at :: "nat \<Rightarrow> u8 list \<Rightarrow> u16" where
  "be16_at off f = from_be16 (f ! off) (f ! (off + 1))"

definition be32_at :: "nat \<Rightarrow> u8 list \<Rightarrow> u32" where
  "be32_at off f = push_bit 16 (ucast (be16_at off f)) OR ucast (be16_at (off + 2) f)"

lemma load_be16_eq: "load_be16 off s = (if off + 2 \<le> length (xs_frame s) then (Some (be16_at off (xs_frame s)), s) else (None, s))"
  by (auto simp: load_be16_def xbind_def load_u8_eq be16_at_def xret_def)

lemma load_be32_eq: "load_be32 off s = (if off + 4 \<le> length (xs_frame s) then (Some (be32_at off (xs_frame s)), s) else (None, s))"
  by (auto simp: load_be32_def xbind_def load_be16_eq be32_at_def xret_def)

lemma load_addr4_eq: "load_addr4 off s = (if off + 4 \<le> length (xs_frame s) then (Some (field off 4 (xs_frame s)), s) else (None, s))"
proof -
  have "field off 4 f = [f ! off, f ! (off + 1), f ! (off + 2), f ! (off + 3)]" if "off + 4 \<le> length f" for f :: "u8 list"
    using that by (intro nth_equalityI) (auto simp: nth_field less_Suc_eq numeral_eq_Suc)
  then show ?thesis by (auto simp: load_addr4_def xbind_def load_u8_eq xret_def)
qed

lemma store_be16_patch [frame_simps]:
  assumes "off + 2 \<le> length (xs_frame s)"
  shows "store_be16 off v s = (Some (), s\<lparr>xs_frame := patch off (be16 v) (xs_frame s)\<rparr>)"
proof -
  have "ucast (v AND 0xff) = (ucast v :: u8)"
  proof -
    have m: "(0xff :: u16) = mask 8" by (simp add: mask_eq_exp_minus_1)
    show ?thesis unfolding m by (rule bit_word_eqI) (auto simp: bit_simps)
  qed
  moreover have "patch (off + 1) [b] (patch off [a] f) = patch off [a, b] f" if "off + 2 \<le> length f" for a b f
    using patch_append [of off "[a]" "[b]" f] that by simp
  ultimately show ?thesis using assms by (simp add: store_be16_def xthen_def xbind_def store_u8_eq be16_def)
qed

lemma be32_halves: "be16 (ucast (drop_bit 16 v)) @ be16 (ucast (v AND 0xffff)) = be32 v"
proof -
  have m: "(0xffff :: u32) = mask 16" by (simp add: mask_eq_exp_minus_1)
  show ?thesis unfolding m be16_def be32_def
    by (auto intro!: bit_word_eqI simp: bit_simps)
qed

lemma store_be32_patch [frame_simps]:
  assumes "off + 4 \<le> length (xs_frame s)"
  shows "store_be32 off v s = (Some (), s\<lparr>xs_frame := patch off (be32 v) (xs_frame s)\<rparr>)"
  using assms patch_append [of off "be16 (ucast (drop_bit 16 v))" "be16 (ucast (v AND 0xffff))" "xs_frame s"]
  by (simp add: store_be32_def xthen_def xbind_def store_be16_patch be32_halves)

lemma store_u8_patch [frame_simps]:
  "off + 1 \<le> length (xs_frame s) \<Longrightarrow> store_u8 off v s = (Some (), s\<lparr>xs_frame := patch off [v] (xs_frame s)\<rparr>)"
  by (simp add: store_u8_eq)

lemma xbind_assoc: "xbind (xbind m f) g = xbind m (\<lambda>x. xbind (f x) g)"
  by (rule ext) (auto simp: xbind_def split: option.splits prod.splits)

lemma swap_from_append: "swap_from a b (ks @ js) = xthen (swap_from a b ks) (swap_from a b js)"
  by (induction ks) (simp_all add: xthen_def xbind_assoc)

lemma nth_swapped:
  assumes "a + n \<le> b" "b + n \<le> length f"
  shows "patch b (field a n f) (patch a (field b n f) f) ! i =
    (if a \<le> i \<and> i < a + n then f ! (b + (i - a)) else if b \<le> i \<and> i < b + n then f ! (a + (i - b)) else f ! i)"
  using assms by (auto simp: nth_patch nth_field)

lemma swap_from_patch:
  assumes "a + n \<le> b" "b + n \<le> length (xs_frame s)"
  shows "swap_from a b [0..<n] s = (Some (), s\<lparr>xs_frame :=
    patch b (field a n (xs_frame s)) (patch a (field b n (xs_frame s)) (xs_frame s))\<rparr>)"
  using assms
proof (induction n)
  case 0
  have "patch c [] f = f" for c f by (simp add: patch_def)
  then show ?case by (simp add: xret_def)
next
  case (Suc n)
  let ?f = "xs_frame s"
  let ?g = "patch b (field a n ?f) (patch a (field b n ?f) ?f)"
  let ?s = "s\<lparr>xs_frame := ?g\<rparr>"
  have len: "length ?g = length ?f" using Suc.prems by simp
  have step: "swap_from a b [n] ?s = (Some (), ?s\<lparr>xs_frame := patch (b + n) [?g ! (a + n)] (patch (a + n) [?g ! (b + n)] ?g)\<rparr>)"
    using Suc.prems len by (simp add: xthen_def xbind_def load_u8_eq store_u8_eq xret_def)
  have frame: "patch (b + n) [?g ! (a + n)] (patch (a + n) [?g ! (b + n)] ?g)
      = patch b (field a (Suc n) ?f) (patch a (field b (Suc n) ?f) ?f)" (is "?l = ?r")
  proof (rule nth_equalityI)
    show "length ?l = length ?r" using Suc.prems len by simp
    fix i assume "i < length ?l"
    have g: "?g ! j = (if a \<le> j \<and> j < a + n then ?f ! (b + (j - a)) else if b \<le> j \<and> j < b + n then ?f ! (a + (j - b)) else ?f ! j)" for j
      by (rule nth_swapped) (use Suc.prems in auto)
    have l: "?l ! i = (if i = b + n then ?g ! (a + n) else if i = a + n then ?g ! (b + n) else ?g ! i)"
      using Suc.prems len by (auto simp: nth_patch)
    have r: "?r ! i = (if a \<le> i \<and> i < a + Suc n then ?f ! (b + (i - a)) else if b \<le> i \<and> i < b + Suc n then ?f ! (a + (i - b)) else ?f ! i)"
      by (rule nth_swapped) (use Suc.prems in auto)
    show "?l ! i = ?r ! i" unfolding l r unfolding g using Suc.prems by auto
  qed
  have "swap_from a b [0..<n] s = (Some (), ?s)" using Suc by simp
  then show ?case using step frame by (simp add: swap_from_append xthen_step)
qed

lemma swap_bytes_patch [frame_simps]:
  "a + n \<le> b \<Longrightarrow> b + n \<le> length (xs_frame s) \<Longrightarrow> swap_bytes n a b s = (Some (), s\<lparr>xs_frame :=
     patch b (field a n (xs_frame s)) (patch a (field b n (xs_frame s)) (xs_frame s))\<rparr>)"
  by (simp add: swap_bytes_def swap_from_patch)

lemma pad_from_patch:
  assumes "j \<le> len" "len \<le> m" "opts + len \<le> length (xs_frame s)"
  shows "pad_from opts len [j..<m] s = (Some (), s\<lparr>xs_frame := patch (opts + j) (replicate (len - j) 1) (xs_frame s)\<rparr>)"
  using assms
proof (induction "len - j" arbitrary: j s)
  case 0
  moreover have "patch c [] f = f" for c f by (simp add: patch_def)
  moreover have "pad_from opts len [len..<m] s = (Some (), s)" by (cases "len < m") (simp_all add: upt_rec xret_def)
  ultimately show ?case by simp
next
  case (Suc d)
  then have j: "j < len" "j < m" by auto
  have rep: "replicate (len - j) (1::u8) = [1] @ replicate (len - Suc j) 1"
    using j by (simp add: Suc_diff_Suc [symmetric] del: Suc_diff_Suc)
  have *: "patch (Suc (opts + j)) (replicate (len - Suc j) 1) (patch (opts + j) [1] f) = patch (opts + j) (replicate (len - j) 1) f"
    if "opts + len \<le> length f" for f
    using patch_append [of "opts + j" "[1]" "replicate (len - Suc j) 1" f] that j unfolding rep by simp
  have "d = len - Suc j" using Suc.hyps(2) by simp
  then show ?case using Suc.prems j Suc.hyps(1) [of "Suc j"] *
    by (simp add: upt_rec [of j m] xthen_def xbind_def store_u8_eq)
qed

lemma write_mss_option_patch [frame_simps]:
  assumes "4 \<le> len" "len \<le> 40" "opts + len \<le> length (xs_frame s)"
  shows "write_mss_option opts len mss s =
    (Some (), s\<lparr>xs_frame := patch opts ([2, 4] @ be16 mss @ replicate (len - 4) 1) (xs_frame s)\<rparr>)"
proof -
  let ?f = "xs_frame s"
  have 1: "patch (Suc opts) [4] (patch opts [2] ?f) = patch opts [2, 4] ?f"
    using patch_append [of opts "[2]" "[4]" ?f] assms by simp
  have 2: "patch (opts + 2) (be16 mss) (patch opts [2, 4] ?f) = patch opts ([2, 4] @ be16 mss) ?f"
    using patch_append [of opts "[2, 4]" "be16 mss" ?f] assms by simp
  have 3: "patch (opts + 4) (replicate (len - 4) 1) (patch opts ([2, 4] @ be16 mss) ?f)
    = patch opts (([2, 4] @ be16 mss) @ replicate (len - 4) 1) ?f"
    using patch_append [of opts "[2, 4] @ be16 mss" "replicate (len - 4) 1" ?f] assms by simp
  have "len \<le> MAX_TCP_OPTS" using assms by (simp add: MAX_TCP_OPTS_def)
  then show ?thesis using assms 1 2 3
    by (simp add: write_mss_option_def xthen_def xbind_def store_u8_eq store_be16_patch pad_from_patch)
qed

section \<open>The Internet checksum\<close>

text \<open>
  RFC 1071: the 16-bit one's complement sum of the words of a byte string, the end-around carry written
  out; a receiver accepts a header when the sum over it, checksum field included, is all ones.
\<close>

fun words16 :: "u8 list \<Rightarrow> nat list" where
  "words16 (a # b # bs) = (unat a * 256 + unat b) # words16 bs"
| "words16 [a] = [unat a * 256]"
| "words16 [] = []"

definition ones_add :: "nat \<Rightarrow> nat \<Rightarrow> nat" where
  "ones_add a b = (if 65535 < a + b then a + b - 65535 else a + b)"

definition checksum_ok :: "u8 list \<Rightarrow> bool" where
  "checksum_ok bs = (foldr ones_add (words16 bs) 0 = 65535)"

text \<open>The same sum with the carries kept, and its reduction.\<close>

definition sum16 :: "u8 list \<Rightarrow> nat" where
  "sum16 bs = sum_list (words16 bs)"

definition ones :: "nat \<Rightarrow> nat" where
  "ones n = (if n = 0 then 0 else (n - 1) mod 65535 + 1)"

lemma ones_bound: "ones n \<le> 65535"
  by (auto simp: ones_def Suc_le_eq)

lemma ones_small: "n \<le> 65535 \<Longrightarrow> ones n = n"
  by (auto simp: ones_def)

lemma ones_sub: "65535 < n \<Longrightarrow> ones (n - 65535) = ones n"
  by (simp add: ones_def le_mod_geq)

lemma ones_shift: "0 < n \<Longrightarrow> ones (n + 65535 * k) = ones n"
proof (induction k)
  case (Suc k)
  then show ?case using ones_sub [of "n + 65535 * Suc k"] by simp
qed simp

lemma ones_eq: "ones n = n - 65535 * ((n - 1) div 65535)"
  by (cases n) (simp_all add: ones_def minus_mult_div_eq_mod [symmetric] Suc_diff_le)

lemma ones_add_ones: "a \<le> 65535 \<Longrightarrow> ones_add a (ones n) = ones (a + n)"
proof -
  assume a: "a \<le> 65535"
  show ?thesis
  proof (cases "n = 0")
    case False
    define k where "k = (n - 1) div 65535"
    have n: "n = ones n + 65535 * k" "0 < ones n" using False by (simp_all add: ones_def k_def)
    have "ones (a + n) = ones (a + ones n)"
      using ones_shift [of "a + ones n" k] n by (metis add.assoc add_gr_0)
    also have "\<dots> = ones_add a (ones n)"
      using ones_bound [of n] a ones_sub [of "a + ones n"] ones_small [of "a + ones n"] ones_small [of "a + ones n - 65535"]
      by (auto simp: ones_add_def)
    finally show ?thesis by simp
  qed (use a in \<open>simp add: ones_add_def ones_small ones_def\<close>)
qed

lemma byte_bound: "unat (x::u8) \<le> 255"
proof -
  have "unat x < 2 ^ LENGTH(8)" by (rule unsigned_less)
  then show ?thesis by simp
qed

lemma words16_bound: "w \<in> set (words16 bs) \<Longrightarrow> w \<le> 65535"
proof (induction bs rule: words16.induct)
  case (1 a c bs)
  then show ?case using byte_bound [of a] byte_bound [of c] by auto
next
  case (2 a)
  then show ?case using byte_bound [of a] by simp
qed simp

lemma checksum_ok_iff: "checksum_ok bs \<longleftrightarrow> ones (sum16 bs) = 65535"
proof -
  have "\<forall>w \<in> set ws. w \<le> 65535 \<Longrightarrow> foldr ones_add ws 0 = ones (sum_list ws)" for ws
    by (induction ws) (auto simp: ones_add_ones ones_def [of 0])
  from this [of "words16 bs"] show ?thesis using words16_bound by (auto simp: checksum_ok_def sum16_def)
qed

lemma words16_append: "even (length a) \<Longrightarrow> words16 (a @ b) = words16 a @ words16 b"
  by (induction a rule: words16.induct) auto

lemma sum16_append: "even (length a) \<Longrightarrow> sum16 (a @ b) = sum16 a + sum16 b"
  by (simp add: sum16_def words16_append)

lemma sum16_Nil [simp]: "sum16 [] = 0"
  by (simp add: sum16_def)

lemma sum16_Cons2 [simp]: "sum16 (a # b # bs) = unat a * 256 + unat b + sum16 bs"
  by (simp add: sum16_def)

lemma sum16_bound: "sum16 bs \<le> 65535 * length bs"
proof (induction bs rule: words16.induct)
  case (1 a c bs)
  then show ?case using byte_bound [of a] byte_bound [of c] by simp
next
  case (2 a)
  then show ?case using byte_bound [of a] by (simp add: sum16_def)
qed simp

text \<open>The filter's folding is the complement of the one's complement sum.\<close>

lemma fold_checksum_ones:
  assumes "n < 2 ^ 32"
  shows "unat (fold_checksum (of_nat n)) = 65535 - ones n"
proof -
  define n1 where "n1 = n mod 65536 + n div 65536"
  define n2 where "n2 = n1 mod 65536 + n1 div 65536"
  have m: "(0xffff :: u32) = mask 16" by (simp add: mask_eq_exp_minus_1)
  have half: "(of_nat k AND 0xffff) + drop_bit 16 (of_nat k) = (of_nat (k mod 65536 + k div 65536) :: u32)"
    if "k < 2 ^ 32" for k
  proof -
    have "unat (of_nat k :: u32) = k" using that by (simp add: unsigned_of_nat take_bit_nat_eq_self)
    then have h: "unat ((of_nat k :: u32) AND mask 16) = k mod 65536" "unat (drop_bit 16 (of_nat k :: u32)) = k div 65536"
      by (simp_all add: take_bit_eq_mask [symmetric] take_bit_eq_mod drop_bit_eq_div unat_mod_distrib unat_div_distrib)
    show ?thesis unfolding m of_nat_add h [symmetric] of_nat_unat ucast_id ..
  qed
  have n1: "n1 < 131071" using assms by (simp add: n1_def)
  have "n2 \<le> 65535"
    by (cases "n1 < 65536") (use n1 in \<open>auto simp: n2_def le_mod_geq le_div_geq\<close>)
  have cong: "ones (k mod 65536 + k div 65536) = ones k" for k
  proof (cases "k = 0")
    case False
    then have "0 < k mod 65536 + k div 65536" by (metis add_gr_0 div_mult_mod_eq gr0I mult_0 add_0)
    moreover have "k = k mod 65536 + k div 65536 + 65535 * (k div 65536)" using div_mult_mod_eq [of k 65536] by linarith
    ultimately show ?thesis using ones_shift by metis
  qed simp
  have "n2 = ones n" using ones_small [of n2] \<open>n2 \<le> 65535\<close> cong by (simp add: n1_def n2_def)
  have "fold_checksum (of_nat n) = NOT (ucast (of_nat n2 :: u32))"
    using half [of n] half [of n1] assms n1 by (simp add: fold_checksum_def Let_def n1_def n2_def)
  moreover have "unat (ucast (of_nat n2 :: u32) :: u16) = n2"
    using \<open>n2 \<le> 65535\<close> by (simp add: unsigned_ucast_eq unsigned_of_nat take_bit_nat_eq_self)
  moreover have "unat (NOT w) = 65535 - unat w" for w :: u16
  proof -
    have "NOT w = - 1 - w" by (simp add: not_eq_complement)
    moreover have "unat (- 1 :: u16) = 65535" by (simp add: unsigned_minus_1_eq_mask mask_eq_exp_minus_1)
    ultimately show ?thesis by (simp add: unat_sub word_order.extremum)
  qed
  ultimately show ?thesis using \<open>n2 = ones n\<close> by simp
qed

lemma checksum_closes: "n < 2 ^ 32 \<Longrightarrow> ones (n + unat (fold_checksum (of_nat n))) = 65535"
proof -
  assume "n < 2 ^ 32"
  then have c: "unat (fold_checksum (of_nat n)) = 65535 - ones n" by (rule fold_checksum_ones)
  have "n = ones n + 65535 * ((n - 1) div 65535)" by (cases n) (simp_all add: ones_def)
  then have "n + (65535 - ones n) = 65535 + 65535 * ((n - 1) div 65535)" using ones_bound [of n] by linarith
  then show ?thesis unfolding c by (metis ones_shift ones_small le_refl zero_less_numeral)
qed

section \<open>The sums the filter computes\<close>

lemma ucast_nat: "(ucast (w :: 'a::len word) :: 'b::len word) = of_nat (unat w)"
  by simp

lemma unat_from_be16: "unat (from_be16 a b) = unat a * 256 + unat b"
proof -
  have "push_bit 8 (ucast a :: u16) + ucast b = push_bit 8 (ucast a) OR ucast b"
    by (rule disjunctive_add) (auto simp: bit_simps dest: bit_imp_le_length)
  then have "from_be16 a b = of_nat (unat a * 256 + unat b)"
    unfolding from_be16_def by (simp add: push_bit_eq_mult mult.commute)
  then show ?thesis using byte_bound [of a] byte_bound [of b]
    by (simp add: unsigned_of_nat take_bit_nat_eq_self del: of_nat_add of_nat_mult of_nat_unat)
qed

lemma sum16_be16 [simp]: "sum16 (be16 v) = unat v"
  using unat_from_be16 [of "ucast (drop_bit 8 v)" "ucast v"] by (simp only: from_be16_be16) (simp add: be16_def)

lemma sum16_be32: "sum16 (be32 v) = unat (drop_bit 16 v) + unat (v AND 0xffff)"
proof -
  have m: "(0xffff :: u32) = mask 16" by (simp add: mask_eq_exp_minus_1)
  have "unat v < 2 ^ LENGTH(32)" by (rule unsigned_less)
  then have "unat v div 65536 < 65536" by simp
  then have u: "unat (ucast (drop_bit 16 v) :: u16) = unat (drop_bit 16 v)"
    by (simp add: unsigned_ucast_eq take_bit_nat_eq_self drop_bit_eq_div unat_div_distrib)
  have l: "unat (ucast (v AND 0xffff) :: u16) = unat (v AND 0xffff)"
    unfolding m by (simp add: take_bit_eq_mask [symmetric] unsigned_ucast_eq unsigned_take_bit_eq)
  show ?thesis unfolding be32_halves [symmetric] by (simp add: sum16_append u l)
qed

lemma word16_at_sum: "word16_at bs k = of_nat (sum16 [bs ! (k * 2), bs ! (k * 2 + 1)])"
  by (simp add: word16_at_def unat_from_be16 del: of_nat_unat add: ucast_nat)

lemma foldl_words:
  "2 * n \<le> length bs \<Longrightarrow> foldl (\<lambda>acc k. acc + word16_at bs k) 0 [0..<n] = of_nat (sum16 (take (2 * n) bs))"
proof (induction n)
  case (Suc n)
  have "take (2 * Suc n) bs = take (2 * n) bs @ [bs ! (n * 2), bs ! (n * 2 + 1)]"
    using Suc.prems by (simp add: take_Suc_conv_app_nth mult.commute)
  then show ?case using Suc by (simp add: word16_at_sum sum16_append)
qed simp

text \<open>The TCP segment of a SYN-ACK: fixed header, one MSS option, NOP padding up to the data offset.\<close>

definition synack_segment :: "u16 \<Rightarrow> u16 \<Rightarrow> u32 \<Rightarrow> u32 \<Rightarrow> nat \<Rightarrow> u16 \<Rightarrow> u16 \<Rightarrow> u8 list" where
  "synack_segment sport dport sq ack doff check mss =
     be16 sport @ be16 dport @ be32 sq @ be32 ack @ [of_nat (doff * 16), 0x12] @ be16 65535 @ be16 check @ be16 0 @
     [2, 4] @ be16 mss @ replicate (doff * 4 - 24) 1"

lemma length_synack_segment [simp]: "6 \<le> doff \<Longrightarrow> length (synack_segment sport dport sq ack doff check mss) = doff * 4"
  by (simp add: synack_segment_def)

lemma sum16_nops: "sum16 (replicate (2 * k) 1) = k * 257"
  by (induction k) simp_all

lemma sum16_segment:
  assumes "6 \<le> doff" "doff \<le> 15"
  shows "sum16 (synack_segment sport dport sq ack doff check mss) =
    unat sport + unat dport + (unat (drop_bit 16 sq) + unat (sq AND 0xffff)) + (unat (drop_bit 16 ack) + unat (ack AND 0xffff)) +
    (doff * 4096 + 0x12) + 65535 + unat check + 0x204 + unat mss + (doff * 2 - 12) * 257"
proof -
  have "doff * 4 - 24 = 2 * (doff * 2 - 12)" by simp
  then have "sum16 (replicate (doff * 4 - 24) 1) = (doff * 2 - 12) * 257" by (simp only: sum16_nops)
  moreover have "unat (of_nat (doff * 16) :: u8) = doff * 16"
    using assms by (simp add: unsigned_of_nat take_bit_nat_eq_self del: of_nat_mult)
  ultimately show ?thesis by (simp add: synack_segment_def sum16_append sum16_be32 del: of_nat_mult)
qed

lemma tcp_sum_segment:
  assumes "6 \<le> doff" "doff \<le> 15"
  shows "tcp_sum (doff * 4) dport sport sq ack doff mss (doff * 4 - 20) =
    of_nat (6 + doff * 4 + sum16 (synack_segment dport sport sq ack doff 0 mss))"
proof -
  have "push_bit 12 (of_nat doff :: u32) + 0x12 = push_bit 12 (of_nat doff) OR 0x12"
  proof (rule disjunctive_add)
    have m: "bit (0x12 :: u32) n \<Longrightarrow> n < 12" for n
      using bit_take_bit_iff [of 12 "0x12 :: u32" n] by simp
    show "\<not> bit (push_bit 12 (of_nat doff :: u32)) n \<or> \<not> bit (0x12 :: u32) n" for n
      using m [of n] by (auto simp: bit_simps)
  qed
  then have w: "push_bit 12 (of_nat doff :: u32) OR 0x12 = of_nat (doff * 4096 + 0x12)"
    by (simp add: push_bit_eq_mult mult.commute)
  have "(doff * 4 - 20 - 4) div 2 = doff * 2 - 12" by simp
  then have o: "of_nat ((doff * 4 - 20 - 4) div 2) * 0x101 = (of_nat ((doff * 2 - 12) * 257) :: u32)" by simp
  have c: "ucast (6 :: u8) = (6 :: u32)" "ucast (65535 :: u16) = (65535 :: u32)" "unat (0 :: u16) = 0" by simp_all
  show ?thesis
    unfolding tcp_sum_def sum16_segment [OF assms] w o of_nat_add of_nat_unat ucast_id IPPROTO_TCP_def SYNACK_WINDOW_def c of_nat_0 of_nat_numeral
    by (simp only: semiring_1_class.of_nat_0 add_0_right add_0_left ac_simps)
qed

end
