(* ===== verification/Xdp_Buckets.thy ===== *)
theory Xdp_Buckets
  imports Xdp_Filter
begin

text \<open>
  The token buckets of the packet filter: the per-source limit (\<open>over_rate\<close>) and the budget of
  SYN-ACKs (\<open>tx_budget_ok\<close>). Both refill with the whole tokens earned since the last packet and
  remember the time of that packet; what they admit is proved once, over their common contract.
\<close>

section \<open>Packet times\<close>

abbreviation sec :: nat where
  "sec \<equiv> 1000000000"

text \<open>The times of a run do not decrease.\<close>

fun from_stamp :: "nat \<Rightarrow> u64 list \<Rightarrow> bool" where
  "from_stamp t [] = True"
| "from_stamp t (u # us) = (t \<le> unat u \<and> from_stamp (unat u) us)"

lemma from_stamp_last: "from_stamp t (u # us) \<Longrightarrow> unat u \<le> unat (last (u # us))"
  by (induction us arbitrary: t u) force+

text \<open>Packets closer together than one token's time.\<close>

fun dense :: "nat \<Rightarrow> nat \<Rightarrow> u64 list \<Rightarrow> bool" where
  "dense p t [] = True"
| "dense p t (u # us) = (t \<le> unat u \<and> (unat u - t) * p < sec \<and> dense p (unat u) us)"

text \<open>Packets at least one token's time apart, and not so far apart that the product wraps.\<close>

fun sparse :: "nat \<Rightarrow> nat \<Rightarrow> u64 list \<Rightarrow> bool" where
  "sparse p t [] = True"
| "sparse p t (u # us) = (t \<le> unat u \<and> sec \<le> (unat u - t) * p \<and> (unat u - t) * p < 2 ^ 64 \<and> sparse p (unat u) us)"

section \<open>The contract of a bucket\<close>

text \<open>
  A step at time \<open>now\<close> adds \<open>r\<close> tokens up to the cap and takes one, if there is one. The product of
  elapsed time and rate wraps at 64 bits, so that \<open>r\<close> is exact only below that.
\<close>

locale token_bucket =
  fixes step :: "u64 \<Rightarrow> 'b \<Rightarrow> bool \<times> 'b" and on :: "'b \<Rightarrow> bool"
    and tokens :: "'b \<Rightarrow> nat" and stamp :: "'b \<Rightarrow> nat" and rate :: "'b \<Rightarrow> nat" and cap :: "'b \<Rightarrow> nat"
  assumes step_law: "on b \<Longrightarrow> stamp b \<le> unat now \<Longrightarrow> step now b = (ok, b') \<Longrightarrow>
      \<exists>r. r \<le> (unat now - stamp b) * rate b div sec \<and>
        ((unat now - stamp b) * rate b < 2 ^ 64 \<longrightarrow> r = (unat now - stamp b) * rate b div sec) \<and>
        ok = (0 < min (tokens b + r) (cap b)) \<and> tokens b' = min (tokens b + r) (cap b) - 1 \<and>
        stamp b' = unat now \<and> rate b' = rate b \<and> cap b' = cap b \<and> on b'"
begin

fun admits :: "u64 list \<Rightarrow> 'b \<Rightarrow> bool list" where
  "admits [] b = []"
| "admits (t # ts) b = (case step t b of (ok, b') \<Rightarrow> ok # admits ts b')"

lemma admits_bound:
  assumes "on b" "from_stamp (stamp b) ts"
  shows "count_list (admits ts b) True \<le> tokens b + (if ts = [] then 0 else (unat (last ts) - stamp b) * rate b div sec)"
  using assms
proof (induction ts arbitrary: b)
  case (Cons t ts)
  obtain ok b' where s: "step t b = (ok, b')" by fastforce
  have le: "stamp b \<le> unat t" using Cons.prems by simp
  obtain r where r: "r \<le> (unat t - stamp b) * rate b div sec" "ok = (0 < min (tokens b + r) (cap b))"
    "tokens b' = min (tokens b + r) (cap b) - 1" "stamp b' = unat t" "rate b' = rate b" "on b'"
    using step_law [OF Cons.prems(1) le s] by blast
  have rest: "count_list (admits ts b') True \<le> tokens b' + (if ts = [] then 0 else (unat (last ts) - unat t) * rate b div sec)"
    using Cons.IH [OF r(6), unfolded r(4,5)] Cons.prems by simp
  have one: "(if ok then 1 else 0) + tokens b' \<le> tokens b + r" using r(2,3) by auto
  have time: "r + (if ts = [] then 0 else (unat (last ts) - unat t) * rate b div sec)
      \<le> (unat (last (t # ts)) - stamp b) * rate b div sec"
  proof (cases ts)
    case (Cons u us)
    have u: "unat t \<le> unat u" "from_stamp (unat t) (u # us)" using \<open>from_stamp (stamp b) (t # ts)\<close> Cons by auto
    have "unat t \<le> unat (last ts)" using from_stamp_last [OF u(2)] u(1) Cons by simp
    then have "(unat (last ts) - stamp b) * rate b = (unat t - stamp b) * rate b + (unat (last ts) - unat t) * rate b"
      using le by (simp add: algebra_simps flip: add_mult_distrib)
    then show ?thesis using r(1) Cons div_add1_eq [of "(unat t - stamp b) * rate b" "(unat (last ts) - unat t) * rate b" sec] by simp
  qed (use r(1) in simp)
  have "count_list (admits (t # ts) b) True = (if ok then 1 else 0) + count_list (admits ts b') True"
    by (simp add: s)
  also have "\<dots> \<le> (if ok then 1 else 0) + tokens b' + (if ts = [] then 0 else (unat (last ts) - unat t) * rate b div sec)"
    using rest by simp
  also have "\<dots> \<le> tokens b + (unat (last (t # ts)) - stamp b) * rate b div sec" using one time by linarith
  finally show ?case by simp
qed simp

lemma admits_dense:
  assumes "on b" "dense (rate b) (stamp b) ts"
  shows "count_list (admits ts b) True \<le> tokens b"
  using assms
proof (induction ts arbitrary: b)
  case (Cons t ts)
  obtain ok b' where s: "step t b = (ok, b')" by fastforce
  have le: "stamp b \<le> unat t" and z: "(unat t - stamp b) * rate b div sec = 0" using Cons.prems by simp_all
  have b': "ok = (0 < min (tokens b) (cap b))" "tokens b' = min (tokens b) (cap b) - 1"
      "stamp b' = unat t" "rate b' = rate b" "on b'"
    using step_law [OF Cons.prems(1) le s] z by auto
  have "count_list (admits ts b') True \<le> tokens b'" using Cons.IH [OF b'(5)] Cons.prems b'(3,4) by simp
  with b'(1,2) show ?case by (auto simp: s)
qed simp

lemma admits_sparse:
  assumes "on b" "0 < cap b" "sparse (rate b) (stamp b) ts"
  shows "False \<notin> set (admits ts b)"
  using assms
proof (induction ts arbitrary: b)
  case (Cons t ts)
  obtain ok b' where s: "step t b = (ok, b')" by fastforce
  have le: "stamp b \<le> unat t" using Cons.prems by simp
  have one: "0 < (unat t - stamp b) * rate b div sec" using Cons.prems(3) by (simp add: div_greater_zero_iff)
  have b': ok "stamp b' = unat t" "rate b' = rate b" "on b'" "cap b' = cap b"
    using step_law [OF Cons.prems(1) le s] one Cons.prems(2,3) by auto
  show ?case using Cons.IH [OF b'(4)] Cons.prems b' by (simp add: s)
qed simp

end

section \<open>The two buckets\<close>

lemma refill_le: "unat (a * p div 1000000000 :: u64) \<le> unat a * unat p div sec"
proof -
  have "unat (a * p) \<le> unat a * unat p" by (simp add: unat_word_ariths)
  then show ?thesis by (simp add: unat_div div_le_mono)
qed

lemma refill_exact: "unat a * unat p < 2 ^ 64 \<Longrightarrow> unat (a * p div 1000000000 :: u64) = unat a * unat p div sec"
  by (simp add: unat_div unat_word_ariths)

lemma unat_u64: "unat (x :: u64) < 18446744073709551616"
proof -
  have "unat x < 2 ^ LENGTH(64)" by (rule unsigned_less)
  then show ?thesis by simp
qed

lemma unat_sat_add: "unat (sat_add_u64 a b) = min (unat a + unat b) (2 ^ 64 - 1)"
proof (cases "unat a + unat b < 2 ^ 64")
  case True
  then have "unat (a + b) = unat a + unat b" by (simp add: unat_word_ariths)
  with True show ?thesis by (simp add: sat_add_u64_def word_less_nat_alt)
next
  case False
  then have "unat (a + b) = unat a + unat b - 2 ^ 64"
    using unat_u64 [of a] unat_u64 [of b] by (simp add: unat_word_ariths le_mod_geq)
  then have "a + b < a" using False unat_u64 [of b] by (simp add: word_less_nat_alt)
  with False show ?thesis by (simp add: sat_add_u64_def unsigned_minus_1_eq_mask mask_eq_exp_minus_1)
qed

lemma unat_sat_sub: "unat (sat_sub a b) = unat a - unat b"
  by (simp add: sat_sub_def unat_sub word_le_nat_alt)

lemma unat_min_u64: "unat (min a b :: u64) = min (unat a) (unat b)"
  by (simp add: min_def word_le_nat_alt)

lemma bucket_tokens:
  "unat (min (sat_add_u64 t r) m) = min (unat t + unat r) (unat m)"
  using unat_u64 [of m] by (simp add: unat_min_u64 unat_sat_add)

text \<open>What both steps do with the tokens \<open>t\<close>, the refill \<open>r\<close> and the cap \<open>m\<close>.\<close>

lemma bucket_take:
  fixes t r m :: u64
  defines "x \<equiv> min (sat_add_u64 t r) m"
  shows "(x \<noteq> 0) = (0 < min (unat t + unat r) (unat m))"
    and "unat (if x = 0 then x else x - 1) = min (unat t + unat r) (unat m) - 1"
proof -
  have x: "unat x = min (unat t + unat r) (unat m)" unfolding x_def by (rule bucket_tokens)
  show "(x \<noteq> 0) = (0 < min (unat t + unat r) (unat m))" unfolding x [symmetric] by (simp add: unat_eq_0 [symmetric])
  show "unat (if x = 0 then x else x - 1) = min (unat t + unat r) (unat m) - 1"
    unfolding x [symmetric] by (simp add: unat_minus_one)
qed

interpretation source_bucket: token_bucket "\<lambda>now b. case rate_step now b of (over, b') \<Rightarrow> (\<not> over, b')" "\<lambda>_. True"
  "\<lambda>b. unat (bk_tokens b)" "\<lambda>b. unat (bk_last_ns b)" "\<lambda>b. unat (bk_rate_pps b)" "\<lambda>b. unat (bk_burst b)"
proof (unfold_locales, goal_cases)
  case (1 b now ok b')
  define r where "r = sat_sub now (bk_last_ns b) * bk_rate_pps b div 1000000000"
  define x where "x = min (sat_add_u64 (bk_tokens b) r) (bk_burst b)"
  have step: "rate_step now b = (x = 0, b\<lparr>bk_tokens := if x = 0 then x else x - 1, bk_last_ns := now\<rparr>)"
    by (simp add: rate_step_def Let_def x_def r_def)
  note take = bucket_take [of "bk_tokens b" r "bk_burst b", folded x_def]
  have r: "unat r \<le> (unat now - unat (bk_last_ns b)) * unat (bk_rate_pps b) div sec"
    "(unat now - unat (bk_last_ns b)) * unat (bk_rate_pps b) < 2 ^ 64 \<Longrightarrow>
      unat r = (unat now - unat (bk_last_ns b)) * unat (bk_rate_pps b) div sec"
    using refill_le [of "sat_sub now (bk_last_ns b)" "bk_rate_pps b"]
      refill_exact [of "sat_sub now (bk_last_ns b)" "bk_rate_pps b"] unfolding unat_sat_sub r_def [symmetric] by blast+
  show ?case using 1(3) take by (intro exI [of _ "unat r"] conjI impI r) (auto simp: step)
qed

interpretation synack_bucket: token_bucket tx_step "\<lambda>b. tx_rate_pps b \<noteq> 0"
  "\<lambda>b. unat (tx_tokens b)" "\<lambda>b. unat (tx_last_ns b)" "\<lambda>b. unat (tx_rate_pps b)"
  "\<lambda>b. unat (min (tx_rate_pps b * 2) TX_BUDGET_BURST_MAX)"
proof (unfold_locales, goal_cases)
  case (1 b now ok b')
  define r where "r = sat_sub now (tx_last_ns b) * tx_rate_pps b div 1000000000"
  define m where "m = min (tx_rate_pps b * 2) TX_BUDGET_BURST_MAX"
  define x where "x = min (sat_add_u64 (tx_tokens b) r) m"
  have step: "tx_step now b = (x \<noteq> 0, b\<lparr>tx_tokens := if x = 0 then x else x - 1, tx_last_ns := now\<rparr>)"
    using 1(1) by (simp add: tx_step_def Let_def x_def r_def m_def NS_PER_SEC_def)
  note take = bucket_take [of "tx_tokens b" r m, folded x_def]
  have r: "unat r \<le> (unat now - unat (tx_last_ns b)) * unat (tx_rate_pps b) div sec"
    "(unat now - unat (tx_last_ns b)) * unat (tx_rate_pps b) < 2 ^ 64 \<Longrightarrow>
      unat r = (unat now - unat (tx_last_ns b)) * unat (tx_rate_pps b) div sec"
    using refill_le [of "sat_sub now (tx_last_ns b)" "tx_rate_pps b"]
      refill_exact [of "sat_sub now (tx_last_ns b)" "tx_rate_pps b"] unfolding unat_sat_sub r_def [symmetric] by blast+
  show ?case using 1(1,3) take by (intro exI [of _ "unat r"] conjI impI r) (auto simp: step m_def)
qed

section \<open>Runs of the filter's limits\<close>

text \<open>Whether successive packets of a source are under its limit, at the given clock readings.\<close>

fun source_run :: "xdp_env \<Rightarrow> u8 list \<Rightarrow> u64 list \<Rightarrow> xdp_state \<Rightarrow> bool list" where
  "source_run e src [] s = []"
| "source_run e src (t # ts) s =
     (case over_rate (e\<lparr>xe_ktime_rate := t\<rparr>) src s of (over, s') \<Rightarrow> (over = Some False) # source_run e src ts s')"

text \<open>Whether successive SYNs have a SYN-ACK in the budget.\<close>

fun synack_run :: "u64 list \<Rightarrow> xdp_state \<Rightarrow> bool list" where
  "synack_run [] s = []"
| "synack_run (t # ts) s = (case tx_budget_ok t s of (ok, s') \<Rightarrow> (ok = Some True) # synack_run ts s')"

lemma source_run_admits: "xs_rate s src = Some b \<Longrightarrow> source_run e src ts s = source_bucket.admits ts b"
  by (induction ts arbitrary: s b) (auto simp: over_rate_def split: prod.splits)

lemma synack_run_admits: "synack_run ts s = synack_bucket.admits ts (xs_tx_budget s)"
  by (induction ts arbitrary: s) (auto simp: tx_budget_ok_def split: prod.splits)

definition sample_bucket :: rate_bucket where
  "sample_bucket = \<lparr>bk_tokens = 2, bk_last_ns = 0, bk_rate_pps = 1000, bk_burst = 2\<rparr>"

definition sample_xdp :: "u8 list \<Rightarrow> xdp_state" where
  "sample_xdp src = \<lparr>xs_frame = [], xs_rate = [src \<mapsto> sample_bucket], xs_tx_budget = \<lparr>tx_tokens = 2, tx_last_ns = 0, tx_rate_pps = 1000\<rparr>,
     xs_stats = (\<lambda>_. \<lparr>sx_packets = 0, sx_bytes = 0\<rparr>), xs_ring = []\<rparr>"

section \<open>Properties\<close>



text \<open>
  C30. A limit starves the traffic it should thin out: since a packet resets the time of the last
  refill and fractions of a token are dropped, packets that arrive faster than the configured rate
  earn no tokens, and once the tokens present are spent none of them passes, however long the traffic
  lasts. The same holds for the budget of SYN-ACKs.
\<close>

theorem limits_starve:
  assumes "xs_rate s src = Some b" "dense (unat (bk_rate_pps b)) (unat (bk_last_ns b)) ts"
    and "tx_rate_pps (xs_tx_budget s) \<noteq> 0"
    and "dense (unat (tx_rate_pps (xs_tx_budget s))) (unat (tx_last_ns (xs_tx_budget s))) us"
  shows "count_list (source_run e src ts s) True \<le> unat (bk_tokens b) \<and>
    count_list (synack_run us s) True \<le> unat (tx_tokens (xs_tx_budget s))"
  using source_bucket.admits_dense [OF _ assms(2)] synack_bucket.admits_dense [OF assms(3,4)]
  by (simp add: source_run_admits [OF assms(1)] synack_run_admits)

theorem limits_starve_witness:
  "\<forall>e. count_list (source_run e [10, 0, 0, 1] [900000, 1800000, 2700000, 3600000] (sample_xdp [10, 0, 0, 1])) True \<le> 2 \<and>
   count_list (synack_run [900000, 1800000, 2700000, 3600000] (sample_xdp [10, 0, 0, 1])) True \<le> 2"
  using limits_starve [of "sample_xdp [10, 0, 0, 1]" "[10, 0, 0, 1]" sample_bucket "[900000, 1800000, 2700000, 3600000]"
      "[900000, 1800000, 2700000, 3600000]"]
  by (simp add: sample_xdp_def sample_bucket_def del: source_run.simps synack_run.simps)

end
