(* ===== verification/Xdp_Synack.thy ===== *)
theory Xdp_Synack
  imports Xdp_Frame Xdp_Buckets
begin

text \<open>
  The SYN-cookie fast path of the packet filter: which SYNs it answers, that the answer is a
  well-formed SYN-ACK carrying a cookie the userspace tier accepts, and what it does to the frames it
  does not answer.
\<close>

section \<open>Frames\<close>

definition synack_v4_frame :: "nat \<Rightarrow> u16 \<Rightarrow> u16 \<Rightarrow> u32 \<Rightarrow> u32 \<Rightarrow> u16 \<Rightarrow> u16 \<Rightarrow> u16 \<Rightarrow> u8 list \<Rightarrow> u8 list" where
  "synack_v4_frame doff sport dport client_seq cookie mss ip_check tcp_check f =
     field 6 6 f @ field 0 6 f @ field 12 2 f @ field 14 10 f @ be16 ip_check @ field 30 4 f @ field 26 4 f @
     synack_segment dport sport cookie (client_seq + 1) doff tcp_check mss @ drop (34 + doff * 4) f"

definition synack_v6_frame :: "nat \<Rightarrow> u16 \<Rightarrow> u16 \<Rightarrow> u32 \<Rightarrow> u32 \<Rightarrow> u16 \<Rightarrow> u16 \<Rightarrow> u8 list \<Rightarrow> u8 list" where
  "synack_v6_frame doff sport dport client_seq cookie mss tcp_check f =
     field 6 6 f @ field 0 6 f @ field 12 10 f @ field 38 16 f @ field 22 16 f @
     synack_segment dport sport cookie (client_seq + 1) doff tcp_check mss @ drop (54 + doff * 4) f"

lemmas steps = frame_simps [THEN xthen_step]

lemma drop_patch: "off + length bs \<le> k \<Longrightarrow> k \<le> length f \<Longrightarrow> drop k (patch off bs f) = drop k f"
  by (intro nth_equalityI) (auto simp: nth_patch)

lemma be16_field: "off + 2 \<le> length f \<Longrightarrow> be16 (be16_at off f) = field off 2 f"
proof -
  assume "off + 2 \<le> length f"
  then have "field off 2 f = [f ! off, f ! (off + 1)]"
    by (intro nth_equalityI) (auto simp: nth_field less_Suc_eq numeral_eq_Suc)
  moreover have "be16 (from_be16 a b) = [a, b]" for a b
  proof -
    have "\<not> bit b (8 + n)" for n using bit_imp_le_length [of b "8 + n"] by auto
    then show ?thesis unfolding be16_def from_be16_def by (auto intro!: bit_word_eqI simp: bit_simps)
  qed
  ultimately show ?thesis by (simp add: be16_at_def)
qed

lemma ipv4_checksum_step:
  "34 \<le> length (xs_frame s) \<Longrightarrow>
   xbind ipv4_checksum k s = k (fold_checksum (of_nat (sum16 (field 14 20 (xs_frame s))))) s"
  using foldl_words [of 10 "field 14 20 (xs_frame s)"]
  by (simp add: ipv4_checksum_def xbind_def ptr_at_eq offsets xret_def del: upt_Suc)

lemmas fields = field_patch_same field_patch_other

lemma cut: "drop off f = field off n f @ drop (off + n) f"
  by (simp add: field_def) (metis append_take_drop_id drop_drop add.commute)

lemma cut_v4:
  "f = field 0 6 f @ field 6 6 f @ field 12 2 f @ field 14 10 f @ field 24 2 f @ field 26 4 f @ field 30 4 f @
     field 34 2 f @ field 36 2 f @ field 38 4 f @ field 42 4 f @ field 46 1 f @ field 47 1 f @ field 48 2 f @ field 50 2 f @
     field 52 2 f @ field 54 n f @ drop (54 + n) f"
  using cut [of 0 f 6] cut [of 6 f 6] cut [of 12 f 2] cut [of 14 f 10] cut [of 24 f 2] cut [of 26 f 4] cut [of 30 f 4]
    cut [of 34 f 2] cut [of 36 f 2] cut [of 38 f 4] cut [of 42 f 4] cut [of 46 f 1] cut [of 47 f 1] cut [of 48 f 2]
    cut [of 50 f 2] cut [of 52 f 2] cut [of 54 f n] by simp

lemma patches_v4:
  assumes "6 \<le> doff" "34 + doff * 4 \<le> length f"
  shows "patch 50 (be16 tcp_check) (patch 24 (be16 ip_check) (patch 24 (be16 0) (
      patch 54 ([2, 4] @ be16 mss @ replicate (doff * 4 - 24) 1) (patch 52 (be16 0) (patch 48 (be16 65535) (patch 47 [0x12] (
      patch 42 (be32 (client_seq + 1)) (patch 38 (be32 cookie) (patch 46 [of_nat (doff * 16)] (
      patch 36 (field 34 2 f) (patch 34 (field 36 2 f) (patch 30 (field 26 4 f) (patch 26 (field 30 4 f) (
      patch 6 (field 0 6 f) (patch 0 (field 6 6 f) f))))))))))))))) =
    synack_v4_frame doff (be16_at 34 f) (be16_at 36 f) client_seq cookie mss ip_check tcp_check f" (is "?f = _")
proof -
  have n: "54 + (doff * 4 - 20) = 34 + doff * 4" using assms by simp
  have "?f = field 0 6 ?f @ field 6 6 ?f @ field 12 2 ?f @ field 14 10 ?f @ field 24 2 ?f @ field 26 4 ?f @ field 30 4 ?f @
     field 34 2 ?f @ field 36 2 ?f @ field 38 4 ?f @ field 42 4 ?f @ field 46 1 ?f @ field 47 1 ?f @ field 48 2 ?f @ field 50 2 ?f @
     field 52 2 ?f @ field 54 (doff * 4 - 20) ?f @ drop (54 + (doff * 4 - 20)) ?f"
    by (rule cut_v4)
  also have "\<dots> = synack_v4_frame doff (be16_at 34 f) (be16_at 36 f) client_seq cookie mss ip_check tcp_check f"
    unfolding n using assms
    by (simp add: fields drop_patch synack_v4_frame_def synack_segment_def be16_field)
  finally show ?thesis .
qed

lemma sum_two_words: "length a = 4 \<Longrightarrow> word16_at a 0 + word16_at a 1 = of_nat (sum16 a)"
proof -
  assume "length a = 4"
  then obtain x y z w where "a = [x, y, z, w]" by (auto simp: numeral_eq_Suc length_Suc_conv)
  then show ?thesis by (simp add: word16_at_sum)
qed

lemma rewrite_v4:
  fixes cookie client_seq :: u32 and mss :: u16
  assumes "6 \<le> doff" "doff \<le> 15" "34 + doff * 4 \<le> length (xs_frame s)"
  defines "f \<equiv> xs_frame s"
  defines "ip_check \<equiv> fold_checksum (of_nat (sum16 (field 14 10 f @ be16 0 @ field 30 4 f @ field 26 4 f)))"
  defines "tcp_check \<equiv> fold_checksum (of_nat (sum16 (field 26 4 f) + sum16 (field 30 4 f) + 6 + doff * 4 +
    sum16 (synack_segment (be16_at 36 f) (be16_at 34 f) cookie (client_seq + 1) doff 0 mss)))"
  shows "synack_v4_rewrite doff (field 26 4 f) (field 30 4 f) (be16_at 34 f) (be16_at 36 f) client_seq cookie mss s =
    (Some XdpTx, s\<lparr>xs_frame := synack_v4_frame doff (be16_at 34 f) (be16_at 36 f) client_seq cookie mss ip_check tcp_check f\<rparr>)"
proof -
  have sums: "word16_at (field 26 4 f) 0 + word16_at (field 26 4 f) 1 + word16_at (field 30 4 f) 0 + word16_at (field 30 4 f) 1 +
     tcp_sum (doff * 4) (be16_at 36 f) (be16_at 34 f) cookie (client_seq + 1) doff mss (doff * 4 - 20)
     = of_nat (sum16 (field 26 4 f) + sum16 (field 30 4 f) + 6 + doff * 4 +
    sum16 (synack_segment (be16_at 36 f) (be16_at 34 f) cookie (client_seq + 1) doff 0 mss))"
    using sum_two_words [of "field 26 4 f"] sum_two_words [of "field 30 4 f"] assms(1-3)
    by (simp add: tcp_sum_segment f_def add.assoc)
  have hdr: "field 14 20 g = field 14 10 g @ field 24 2 g @ field 26 4 g @ field 30 4 g" for g
    using field_split [of 14 10 10 g] field_split [of 24 2 8 g] field_split [of 26 4 4 g] by simp
  have fits: "doff * 4 - 20 - 4 = doff * 4 - 24" by simp
  note p = patches_v4 [OF assms(1,3), folded f_def, of tcp_check ip_check mss client_seq cookie]
  show ?thesis unfolding synack_v4_rewrite_def Let_def sums p [symmetric] tcp_check_def [symmetric] unfolding ip_check_def
    using assms(1-3)
    by (simp add: offsets steps ipv4_checksum_step fields hdr fits f_def TCP_FLAGS_SYN_ACK_def SYNACK_WINDOW_def xret_def)
qed

lemma cut_v6:
  "f = field 0 6 f @ field 6 6 f @ field 12 10 f @ field 22 16 f @ field 38 16 f @
     field 54 2 f @ field 56 2 f @ field 58 4 f @ field 62 4 f @ field 66 1 f @ field 67 1 f @ field 68 2 f @ field 70 2 f @
     field 72 2 f @ field 74 n f @ drop (74 + n) f"
  using cut [of 0 f 6] cut [of 6 f 6] cut [of 12 f 10] cut [of 22 f 16] cut [of 38 f 16]
    cut [of 54 f 2] cut [of 56 f 2] cut [of 58 f 4] cut [of 62 f 4] cut [of 66 f 1] cut [of 67 f 1] cut [of 68 f 2]
    cut [of 70 f 2] cut [of 72 f 2] cut [of 74 f n] by simp

lemma patches_v6:
  assumes "6 \<le> doff" "54 + doff * 4 \<le> length f"
  shows "patch 70 (be16 tcp_check) (
      patch 74 ([2, 4] @ be16 mss @ replicate (doff * 4 - 24) 1) (patch 72 (be16 0) (patch 68 (be16 65535) (patch 67 [0x12] (
      patch 62 (be32 (client_seq + 1)) (patch 58 (be32 cookie) (patch 66 [of_nat (doff * 16)] (
      patch 56 (field 54 2 f) (patch 54 (field 56 2 f) (patch 38 (field 22 16 f) (patch 22 (field 38 16 f) (
      patch 6 (field 0 6 f) (patch 0 (field 6 6 f) f))))))))))))) =
    synack_v6_frame doff (be16_at 54 f) (be16_at 56 f) client_seq cookie mss tcp_check f" (is "?f = _")
proof -
  have n: "74 + (doff * 4 - 20) = 54 + doff * 4" using assms by simp
  have "?f = field 0 6 ?f @ field 6 6 ?f @ field 12 10 ?f @ field 22 16 ?f @ field 38 16 ?f @
     field 54 2 ?f @ field 56 2 ?f @ field 58 4 ?f @ field 62 4 ?f @ field 66 1 ?f @ field 67 1 ?f @ field 68 2 ?f @ field 70 2 ?f @
     field 72 2 ?f @ field 74 (doff * 4 - 20) ?f @ drop (74 + (doff * 4 - 20)) ?f"
    by (rule cut_v6)
  also have "\<dots> = synack_v6_frame doff (be16_at 54 f) (be16_at 56 f) client_seq cookie mss tcp_check f"
    unfolding n using assms
    by (simp add: fields drop_patch synack_v6_frame_def synack_segment_def be16_field)
  finally show ?thesis .
qed

lemma load_addr16_step:
  "off + 16 \<le> length (xs_frame s) \<Longrightarrow> xbind (load_addr16 off) k s = k (field off 16 (xs_frame s)) s"
  by (simp add: load_addr16_def xbind_def ptr_at_eq)

lemma sum_addr16_sum: "length a = 16 \<Longrightarrow> sum_addr16 a = of_nat (sum16 a)"
  using foldl_words [of 8 a] by (simp add: sum_addr16_def del: upt_Suc)

lemma rewrite_v6:
  fixes cookie client_seq :: u32 and mss :: u16
  assumes "6 \<le> doff" "doff \<le> 15" "54 + doff * 4 \<le> length (xs_frame s)"
  defines "f \<equiv> xs_frame s"
  defines "tcp_check \<equiv> fold_checksum (of_nat (sum16 (field 38 16 f) + sum16 (field 22 16 f) + 6 + doff * 4 +
    sum16 (synack_segment (be16_at 56 f) (be16_at 54 f) cookie (client_seq + 1) doff 0 mss)))"
  shows "synack_v6_rewrite doff (be16_at 54 f) (be16_at 56 f) client_seq cookie mss s =
    (Some XdpTx, s\<lparr>xs_frame := synack_v6_frame doff (be16_at 54 f) (be16_at 56 f) client_seq cookie mss tcp_check f\<rparr>)"
proof -
  have sums: "sum_addr16 (field 38 16 f) + sum_addr16 (field 22 16 f) +
     tcp_sum (doff * 4) (be16_at 56 f) (be16_at 54 f) cookie (client_seq + 1) doff mss (doff * 4 - 20)
     = of_nat (sum16 (field 38 16 f) + sum16 (field 22 16 f) + 6 + doff * 4 +
    sum16 (synack_segment (be16_at 56 f) (be16_at 54 f) cookie (client_seq + 1) doff 0 mss))"
    using assms(1-3) by (simp add: tcp_sum_segment sum_addr16_sum f_def add.assoc)
  have fits: "doff * 4 - 20 - 4 = doff * 4 - 24" by simp
  note p = patches_v6 [OF assms(1,3), folded f_def, of tcp_check mss client_seq cookie]
  show ?thesis unfolding synack_v6_rewrite_def Let_def p [symmetric] unfolding tcp_check_def sums [symmetric]
    using assms(1-3)
    by (simp add: offsets steps load_addr16_step fields fits f_def TCP_FLAGS_SYN_ACK_def SYNACK_WINDOW_def xret_def)
qed

section \<open>The gates\<close>

text \<open>The segment size a SYN advertises in its first option, and whether that option can be read.\<close>

definition mss_at :: "nat \<Rightarrow> u8 list \<Rightarrow> u16" where
  "mss_at off f = (if f ! off = 2 \<and> f ! (off + 1) = 4 then be16_at (off + 2) f else DEFAULT_CLIENT_MSS)"

definition mss_readable :: "nat \<Rightarrow> u8 list \<Rightarrow> bool" where
  "mss_readable off f \<longleftrightarrow> off + 2 \<le> length f \<and> (f ! off = 2 \<and> f ! (off + 1) = 4 \<longrightarrow> off + 4 \<le> length f)"

definition doff_at :: "xdp_env \<Rightarrow> nat \<Rightarrow> u8 list \<Rightarrow> nat" where
  "doff_at e off f = unat (nt_tcp_doff (xe_types e) (field off 20 f))"

text \<open>An opening SYN with options and no payload, for a protected port.\<close>

definition syn_at :: "xdp_env \<Rightarrow> nat \<Rightarrow> nat \<Rightarrow> u8 list \<Rightarrow> bool" where
  "syn_at e off len f \<longleftrightarrow>
     nt_tcp_syn (xe_types e) (field off 20 f) \<and> \<not> nt_tcp_ack (xe_types e) (field off 20 f) \<and>
     xe_protect_port e (be16_at (off + 2) f) \<and> 6 \<le> doff_at e off f \<and> doff_at e off f \<le> 15 \<and>
     len = doff_at e off f * 4 \<and> off + 20 \<le> length f"

definition syn_v4 :: "xdp_env \<Rightarrow> u8 list \<Rightarrow> bool" where
  "syn_v4 e f \<longleftrightarrow> 20 \<le> unat (nt_ip4_tot_len (xe_types e) (field 14 20 f)) \<and>
     nt_ip4_ihl (xe_types e) (field 14 20 f) = 5 \<and> nt_ip4_proto (xe_types e) (field 14 20 f) = IPPROTO_TCP \<and>
     xe_protect_v4 e (field 30 4 f) \<and> syn_at e 34 (unat (nt_ip4_tot_len (xe_types e) (field 14 20 f)) - 20) f \<and>
     mss_readable 54 f"

definition syn_v6 :: "xdp_env \<Rightarrow> u8 list \<Rightarrow> bool" where
  "syn_v6 e f \<longleftrightarrow> nt_ip6_next_hdr (xe_types e) (field 14 40 f) = IPPROTO_TCP \<and>
     xe_protect_v6 e (field 38 16 f) \<and> syn_at e 54 (unat (nt_ip6_payload_len (xe_types e) (field 14 40 f))) f"

lemma parse_mss_eq: "parse_mss off s = (if mss_readable off (xs_frame s) then (Some (mss_at off (xs_frame s)), s) else (None, s))"
  by (auto simp: parse_mss_def xbind_def load_u8_eq load_be16_eq mss_readable_def mss_at_def xret_def)

lemmas reads = xbind_def ptr_at_eq load_u8_eq load_be16_eq load_be32_eq load_addr4_eq load_addr16_def parse_mss_eq xfail_def xret_def

lemma gate_v4:
  "synack_v4_gate e s = (if syn_v4 e (xs_frame s)
     then (Some (doff_at e 34 (xs_frame s), field 26 4 (xs_frame s), field 30 4 (xs_frame s), be16_at 34 (xs_frame s),
            be16_at 36 (xs_frame s), be32_at 38 (xs_frame s), mss_at 54 (xs_frame s)), s)
     else (None, s))"
  by (auto simp: synack_v4_gate_def Let_def offsets reads syn_v4_def syn_at_def doff_at_def mss_readable_def MAX_TCP_OPTS_def MAX_TCP_SEG_def)

lemma gate_v6:
  "synack_v6_gate e s = (if syn_v6 e (xs_frame s)
     then (Some (doff_at e 54 (xs_frame s), be16_at 54 (xs_frame s), be16_at 56 (xs_frame s), be32_at 58 (xs_frame s)), s)
     else (None, s))"
  by (auto simp: synack_v6_gate_def Let_def offsets reads syn_v6_def syn_at_def doff_at_def mss_readable_def MAX_TCP_OPTS_def MAX_TCP_SEG_def)

lemma compute_cookie_v6_eq:
  assumes "74 \<le> length (xs_frame s)"
  shows "compute_cookie_v6 e k0 k1 s = (if mss_readable 74 (xs_frame s)
     then xcookie (make_cookie_raw (xe_sip e) k0 k1 (field 22 16 (xs_frame s)) (be16_at 54 (xs_frame s)) (field 38 16 (xs_frame s))
            (be16_at 56 (xs_frame s)) (mss_at 74 (xs_frame s)) (xe_ktime_cookie e div NS_PER_SEC)) s
     else (None, s))"
  using assms by (auto simp: compute_cookie_v6_def Let_def offsets reads mss_readable_def)

section \<open>The reply\<close>

text \<open>What makes a frame the SYN-ACK to another one, with a given cookie and segment size.\<close>

definition reply_segment :: "nat \<Rightarrow> nat \<Rightarrow> u32 \<Rightarrow> u16 \<Rightarrow> u8 list \<Rightarrow> u8 list \<Rightarrow> bool" where
  "reply_segment off doff cookie mss f g \<longleftrightarrow>
     field off (doff * 4) g = synack_segment (be16_at (off + 2) f) (be16_at off f) cookie (be32_at (off + 4) f + 1) doff
       (be16_at (off + 16) g) mss \<and>
     drop (off + doff * 4) g = drop (off + doff * 4) f"

definition reply_macs :: "u8 list \<Rightarrow> u8 list \<Rightarrow> bool" where
  "reply_macs f g \<longleftrightarrow> length g = length f \<and> field 0 6 g = field 6 6 f \<and> field 6 6 g = field 0 6 f"

definition reply_v4 :: "nat \<Rightarrow> u32 \<Rightarrow> u16 \<Rightarrow> u8 list \<Rightarrow> u8 list \<Rightarrow> bool" where
  "reply_v4 doff cookie mss f g \<longleftrightarrow> reply_macs f g \<and> field 12 12 g = field 12 12 f \<and>
     field 26 4 g = field 30 4 f \<and> field 30 4 g = field 26 4 f \<and> checksum_ok (field 14 20 g) \<and>
     reply_segment 34 doff cookie mss f g \<and>
     checksum_ok (field 26 8 g @ [0, 6] @ be16 (of_nat (doff * 4)) @ field 34 (doff * 4) g)"

definition reply_v6 :: "nat \<Rightarrow> u32 \<Rightarrow> u16 \<Rightarrow> u8 list \<Rightarrow> u8 list \<Rightarrow> bool" where
  "reply_v6 doff cookie mss f g \<longleftrightarrow> reply_macs f g \<and> field 12 10 g = field 12 10 f \<and>
     field 22 16 g = field 38 16 f \<and> field 38 16 g = field 22 16 f \<and>
     reply_segment 54 doff cookie mss f g \<and>
     checksum_ok (field 22 32 g @ be32 (of_nat (doff * 4)) @ [0, 0, 0, 6] @ field 54 (doff * 4) g)"

lemma field_skip: "length a \<le> off \<Longrightarrow> field off n (a @ b) = field (off - length a) n b"
  by (simp add: field_def)

lemma field_first: "length a \<le> n \<Longrightarrow> field 0 n (a @ b) = a @ field 0 (n - length a) b"
  by (simp add: field_def)

lemma field_part: "off < length a \<Longrightarrow> off + n \<le> length a \<Longrightarrow> field off n (a @ b) = field off n a"
  by (simp add: field_def)

lemma be16_at_field: "field off 2 f = be16 v \<Longrightarrow> off + 2 \<le> length f \<Longrightarrow> be16_at off f = v"
  using be16_field [of off f] by simp

lemma drop_skip: "length a \<le> off \<Longrightarrow> drop off (a @ b) = drop (off - length a) b"
  by simp

lemma field_whole: "length a \<le> n \<Longrightarrow> field 0 n a = a"
  by (simp add: field_def)

lemmas cuts = field_whole field_skip field_first field_part drop_skip

lemma segment_check: "field 16 2 (synack_segment a b c d doff check mss @ r) = be16 check"
  by (simp add: synack_segment_def be16_def be32_def field_def)

lemma sum16_segment_check:
  "6 \<le> doff \<Longrightarrow> doff \<le> 15 \<Longrightarrow>
   sum16 (synack_segment a b c d doff check mss) = sum16 (synack_segment a b c d doff 0 mss) + unat check"
  by (simp add: sum16_segment)

lemma sum16_len:
  assumes "doff \<le> 15"
  shows "sum16 (be16 (of_nat (doff * 4))) = doff * 4" "sum16 (be32 (of_nat (doff * 4))) = doff * 4"
proof -
  show "sum16 (be16 (of_nat (doff * 4))) = doff * 4"
    using assms by (simp add: unsigned_of_nat take_bit_nat_eq_self del: of_nat_mult)
  have m: "(0xffff :: u32) = mask 16" by (simp add: mask_eq_exp_minus_1)
  have "unat (of_nat (doff * 4) :: u32) = doff * 4"
    using assms by (simp add: unsigned_of_nat take_bit_nat_eq_self del: of_nat_mult)
  then have "unat (drop_bit 16 (of_nat (doff * 4) :: u32)) = 0" "unat ((of_nat (doff * 4) :: u32) AND 0xffff) = doff * 4"
    unfolding m using assms
    by (simp_all add: take_bit_eq_mask [symmetric] take_bit_eq_mod drop_bit_eq_div unat_mod_distrib unat_div_distrib del: of_nat_mult)
  then show "sum16 (be32 (of_nat (doff * 4))) = doff * 4" by (simp add: sum16_be32 del: of_nat_mult)
qed

lemma reply_v4_frame:
  fixes cookie :: u32 and mss :: u16
  assumes "6 \<le> doff" "doff \<le> 15" "34 + doff * 4 \<le> length f"
  defines "ip_check \<equiv> fold_checksum (of_nat (sum16 (field 14 10 f @ be16 0 @ field 30 4 f @ field 26 4 f)))"
  defines "seg \<equiv> synack_segment (be16_at 36 f) (be16_at 34 f) cookie (be32_at 38 f + 1) doff"
  defines "tcp_check \<equiv> fold_checksum (of_nat (sum16 (field 26 4 f) + sum16 (field 30 4 f) + 6 + doff * 4 + sum16 (seg 0 mss)))"
  shows "reply_v4 doff cookie mss f (synack_v4_frame doff (be16_at 34 f) (be16_at 36 f) (be32_at 38 f) cookie mss ip_check tcp_check f)"
    (is "reply_v4 _ _ _ _ ?g")
proof -
  have g: "?g = field 6 6 f @ field 0 6 f @ field 12 2 f @ field 14 10 f @ be16 ip_check @ field 30 4 f @ field 26 4 f @
     seg tcp_check mss @ drop (34 + doff * 4) f"
    by (simp add: synack_v4_frame_def seg_def)
  have len: "length (seg c mss) = doff * 4" for c using assms(1) by (simp add: seg_def)
  have lens: "length (field 6 6 f) = 6" "length (field 0 6 f) = 6" "length (field 12 2 f) = 2" "length (field 14 10 f) = 10"
    "length (field 30 4 f) = 4" "length (field 26 4 f) = 4" using assms(1,3) by simp_all
  have length_g: "length ?g = length f" unfolding g using assms(1,3) by (simp add: len lens)
  have hdr: "field 14 20 ?g = field 14 10 f @ be16 ip_check @ field 30 4 f @ field 26 4 f"
    unfolding g by (simp add: cuts lens)
  have addrs: "field 26 8 ?g = field 30 4 f @ field 26 4 f" unfolding g by (simp add: cuts lens)
  have segm: "field 34 (doff * 4) ?g = seg tcp_check mss" unfolding g by (simp add: cuts lens len)
  have "field 50 2 ?g = be16 tcp_check" unfolding g by (simp add: field_skip lens seg_def segment_check)
  then have chk: "be16_at 50 ?g = tcp_check" by (rule be16_at_field) (use length_g assms(1,3) in simp)
  have b1: "sum16 (field 14 10 f @ be16 0 @ field 30 4 f @ field 26 4 f) < 2 ^ 32"
    using sum16_bound [of "field 14 10 f @ be16 0 @ field 30 4 f @ field 26 4 f"] by (simp add: lens)
  have ip: "checksum_ok (field 14 20 ?g)"
    using checksum_closes [OF b1, folded ip_check_def] unfolding hdr checksum_ok_iff
    by (simp add: sum16_append lens ac_simps)
  have b2: "sum16 (field 26 4 f) + sum16 (field 30 4 f) + 6 + doff * 4 + sum16 (seg 0 mss) < 2 ^ 32"
    using sum16_bound [of "field 26 4 f"] sum16_bound [of "field 30 4 f"] sum16_bound [of "seg 0 mss"] assms(2)
    by (simp add: lens len)
  have sg: "sum16 (seg tcp_check mss) = sum16 (seg 0 mss) + unat tcp_check"
    unfolding seg_def by (rule sum16_segment_check [OF assms(1,2)])
  have total: "sum16 ((field 30 4 f @ field 26 4 f) @ [0, 6] @ be16 (of_nat (doff * 4)) @ seg tcp_check mss) =
      sum16 (field 26 4 f) + sum16 (field 30 4 f) + 6 + doff * 4 + sum16 (seg 0 mss) + unat tcp_check"
  proof -
    have "sum16 [0, 6] = 6" by simp
    then show ?thesis
      by (simp add: sum16_append lens sum16_len [OF assms(2)] sg del: of_nat_mult sum16_be16 sum16_Cons2 append_Cons)
  qed
  have tcp: "checksum_ok (field 26 8 ?g @ [0, 6] @ be16 (of_nat (doff * 4)) @ field 34 (doff * 4) ?g)"
    using checksum_closes [OF b2, folded tcp_check_def] unfolding addrs segm checksum_ok_iff total .
  have keep: "field 12 12 ?g = field 12 12 f"
    using field_split [of 12 2 10 f] unfolding g by (simp add: cuts lens)
  have swaps: "field 0 6 ?g = field 6 6 f" "field 6 6 ?g = field 0 6 f" "field 26 4 ?g = field 30 4 f" "field 30 4 ?g = field 26 4 f"
    unfolding g by (simp_all add: cuts lens)
  have tail: "drop (34 + doff * 4) ?g = drop (34 + doff * 4) f" unfolding g by (simp add: lens len)
  show ?thesis unfolding reply_v4_def reply_macs_def reply_segment_def
    using length_g ip tcp segm chk keep swaps tail by (simp add: seg_def)
qed

lemma reply_v6_frame:
  fixes cookie :: u32 and mss :: u16
  assumes "6 \<le> doff" "doff \<le> 15" "54 + doff * 4 \<le> length f"
  defines "seg \<equiv> synack_segment (be16_at 56 f) (be16_at 54 f) cookie (be32_at 58 f + 1) doff"
  defines "tcp_check \<equiv> fold_checksum (of_nat (sum16 (field 38 16 f) + sum16 (field 22 16 f) + 6 + doff * 4 + sum16 (seg 0 mss)))"
  shows "reply_v6 doff cookie mss f (synack_v6_frame doff (be16_at 54 f) (be16_at 56 f) (be32_at 58 f) cookie mss tcp_check f)"
    (is "reply_v6 _ _ _ _ ?g")
proof -
  have g: "?g = field 6 6 f @ field 0 6 f @ field 12 10 f @ field 38 16 f @ field 22 16 f @
     seg tcp_check mss @ drop (54 + doff * 4) f"
    by (simp add: synack_v6_frame_def seg_def)
  have len: "length (seg c mss) = doff * 4" for c using assms(1) by (simp add: seg_def)
  have lens: "length (field 6 6 f) = 6" "length (field 0 6 f) = 6" "length (field 12 10 f) = 10"
    "length (field 22 16 f) = 16" "length (field 38 16 f) = 16" using assms(1,3) by simp_all
  have length_g: "length ?g = length f" unfolding g using assms(1,3) by (simp add: len lens)
  have addrs: "field 22 32 ?g = field 38 16 f @ field 22 16 f" unfolding g by (simp add: cuts lens)
  have segm: "field 54 (doff * 4) ?g = seg tcp_check mss" unfolding g by (simp add: cuts lens len)
  have "field 70 2 ?g = be16 tcp_check" unfolding g by (simp add: field_skip lens seg_def segment_check)
  then have chk: "be16_at 70 ?g = tcp_check" by (rule be16_at_field) (use length_g assms(1,3) in simp)
  have b2: "sum16 (field 38 16 f) + sum16 (field 22 16 f) + 6 + doff * 4 + sum16 (seg 0 mss) < 2 ^ 32"
    using sum16_bound [of "field 38 16 f"] sum16_bound [of "field 22 16 f"] sum16_bound [of "seg 0 mss"] assms(2)
    by (simp add: lens len)
  have sg: "sum16 (seg tcp_check mss) = sum16 (seg 0 mss) + unat tcp_check"
    unfolding seg_def by (rule sum16_segment_check [OF assms(1,2)])
  have total: "sum16 ((field 38 16 f @ field 22 16 f) @ be32 (of_nat (doff * 4)) @ [0, 0, 0, 6] @ seg tcp_check mss) =
      sum16 (field 38 16 f) + sum16 (field 22 16 f) + 6 + doff * 4 + sum16 (seg 0 mss) + unat tcp_check"
  proof -
    have "sum16 [0, 0, 0, 6] = 6" by simp
    then show ?thesis
      by (simp add: sum16_append lens sum16_len [OF assms(2)] sg del: of_nat_mult sum16_Cons2 append_Cons)
  qed
  have tcp: "checksum_ok (field 22 32 ?g @ be32 (of_nat (doff * 4)) @ [0, 0, 0, 6] @ field 54 (doff * 4) ?g)"
    using checksum_closes [OF b2, folded tcp_check_def] unfolding addrs segm checksum_ok_iff total .
  have swaps: "field 0 6 ?g = field 6 6 f" "field 6 6 ?g = field 0 6 f" "field 12 10 ?g = field 12 10 f"
    "field 22 16 ?g = field 38 16 f" "field 38 16 ?g = field 22 16 f"
    unfolding g by (simp_all add: cuts lens)
  have tail: "drop (54 + doff * 4) ?g = drop (54 + doff * 4) f" unfolding g by (simp add: lens len)
  show ?thesis unfolding reply_v6_def reply_macs_def reply_segment_def
    using length_g tcp segm chk swaps tail by (simp add: seg_def)
qed

section \<open>Outcomes of the fast path\<close>

lemma minted:
  assumes "length a \<le> 16" "length b \<le> 16"
  shows "\<exists>c. make_cookie_raw sip k0 k1 a sp b dp m now = Ok (c, best_mss m)"
  using assms by (simp add: make_cookie_raw_eq Let_def mss_index_value)

lemma tx_budget_step: "xbind (tx_budget_ok now) k s = k (fst (tx_step now (xs_tx_budget s))) (s\<lparr>xs_tx_budget := snd (tx_step now (xs_tx_budget s))\<rparr>)"
  by (simp add: xbind_def tx_budget_ok_def split: prod.split)

lemma cookie_keys_step: "xe_cookie_key e = Some v \<Longrightarrow> xbind (cookie_keys e) k s = k (ck_k0 v, ck_k1 v) s"
  by (simp add: xbind_def cookie_keys_def xret_def)

lemma try_v4_pass: "\<not> syn_v4 e (xs_frame s) \<or> xe_cookie_key e = None \<Longrightarrow> try_synack_v4 e s = (None, s)"
  by (auto simp: try_synack_v4_def xbind_def gate_v4 cookie_keys_def xfail_def)

lemma try_v6_pass: "\<not> syn_v6 e (xs_frame s) \<or> xe_cookie_key e = None \<Longrightarrow> try_synack_v6 e s = (None, s)"
  by (auto simp: try_synack_v6_def xbind_def gate_v6 cookie_keys_def xfail_def)

definition capped :: "xdp_env \<Rightarrow> xdp_state \<Rightarrow> xdp_state" where
  "capped e s = snd (xcount REASON_SYNCOOKIE_TXCAPPED (of_nat (length (xs_frame s)))
     (s\<lparr>xs_tx_budget := snd (tx_step (xe_ktime_syn e) (xs_tx_budget s))\<rparr>))"

lemma tx_capped_eq: "tx_capped s = (None, snd (xcount REASON_SYNCOOKIE_TXCAPPED (of_nat (length (xs_frame s))) s))"
  by (simp add: tx_capped_def xthen_def xbind_def xfail_def xcount_def)

lemma try_v4_capped:
  assumes "syn_v4 e (xs_frame s)" "xe_cookie_key e = Some k" "\<not> fst (tx_step (xe_ktime_syn e) (xs_tx_budget s))"
  shows "try_synack_v4 e s = (None, capped e s)"
  using assms by (simp add: try_synack_v4_def xbind_step gate_v4 cookie_keys_step tx_budget_step Let_def tx_capped_eq capped_def)

lemma try_v6_capped:
  assumes "syn_v6 e (xs_frame s)" "xe_cookie_key e = Some k" "\<not> fst (tx_step (xe_ktime_syn e) (xs_tx_budget s))"
  shows "try_synack_v6 e s = (None, capped e s)"
  using assms by (simp add: try_synack_v6_def xbind_step gate_v6 cookie_keys_step tx_budget_step Let_def tx_capped_eq capped_def)

definition charged :: "xdp_env \<Rightarrow> xdp_state \<Rightarrow> xdp_state" where
  "charged e s = s\<lparr>xs_tx_budget := snd (tx_step (xe_ktime_syn e) (xs_tx_budget s))\<rparr>"

definition cookie_v4 :: "xdp_env \<Rightarrow> cookie_key_value \<Rightarrow> u8 list \<Rightarrow> (unit, u32 \<times> u16) outcome" where
  "cookie_v4 e k f = make_cookie_raw (xe_sip e) (ck_k0 k) (ck_k1 k) (field 26 4 f) (be16_at 34 f) (field 30 4 f) (be16_at 36 f)
     (mss_at 54 f) (xe_ktime_syn e div NS_PER_SEC)"

definition cookie_v6 :: "xdp_env \<Rightarrow> cookie_key_value \<Rightarrow> u8 list \<Rightarrow> (unit, u32 \<times> u16) outcome" where
  "cookie_v6 e k f = make_cookie_raw (xe_sip e) (ck_k0 k) (ck_k1 k) (field 22 16 f) (be16_at 54 f) (field 38 16 f) (be16_at 56 f)
     (mss_at 74 f) (xe_ktime_cookie e div NS_PER_SEC)"

lemma try_v4_rewrite:
  assumes "syn_v4 e (xs_frame s)" "xe_cookie_key e = Some k" "fst (tx_step (xe_ktime_syn e) (xs_tx_budget s))"
    and "cookie_v4 e k (xs_frame s) = Ok (c, mss)"
  shows "try_synack_v4 e s = synack_v4_rewrite (doff_at e 34 (xs_frame s)) (field 26 4 (xs_frame s)) (field 30 4 (xs_frame s))
    (be16_at 34 (xs_frame s)) (be16_at 36 (xs_frame s)) (be32_at 38 (xs_frame s)) c mss (charged e s)"
  using assms
  by (simp add: try_synack_v4_def xbind_step gate_v4 cookie_keys_step tx_budget_step Let_def xcookie_def cookie_v4_def charged_def
      xbind_step [of "xcookie _"])

lemma try_v6_rewrite:
  assumes "syn_v6 e (xs_frame s)" "xe_cookie_key e = Some k" "fst (tx_step (xe_ktime_syn e) (xs_tx_budget s))"
    and "cookie_v6 e k (xs_frame s) = Ok (c, mss)" "mss_readable 74 (xs_frame s)"
  shows "try_synack_v6 e s = synack_v6_rewrite (doff_at e 54 (xs_frame s))
    (be16_at 54 (xs_frame s)) (be16_at 56 (xs_frame s)) (be32_at 58 (xs_frame s)) c mss (charged e s)"
proof -
  have "compute_cookie_v6 e (ck_k0 k) (ck_k1 k) (charged e s) = (Some (c, mss), charged e s)"
    using assms by (simp add: compute_cookie_v6_eq charged_def xcookie_def cookie_v6_def mss_readable_def)
  then show ?thesis using assms
    by (simp add: try_synack_v6_def xbind_step gate_v6 cookie_keys_step tx_budget_step charged_def)
qed

lemma try_v6_unreadable:
  assumes "syn_v6 e (xs_frame s)" "xe_cookie_key e = Some k" "fst (tx_step (xe_ktime_syn e) (xs_tx_budget s))"
    and "\<not> mss_readable 74 (xs_frame s)"
  shows "try_synack_v6 e s = (None, charged e s)"
proof -
  have "74 \<le> length (xs_frame s)" using assms(1) by (simp add: syn_v6_def syn_at_def)
  then have "compute_cookie_v6 e (ck_k0 k) (ck_k1 k) (charged e s) = (None, charged e s)"
    using assms(4) by (simp add: compute_cookie_v6_eq charged_def)
  then show ?thesis using assms
    by (simp add: try_synack_v6_def xbind_step gate_v6 cookie_keys_step tx_budget_step charged_def xbind_none)
qed

lemma syn_doff: "syn_at e off len f \<Longrightarrow> 6 \<le> doff_at e off f \<and> doff_at e off f \<le> 15"
  by (simp add: syn_at_def)

lemma syn_v4_doff: "syn_v4 e f \<Longrightarrow> 6 \<le> doff_at e 34 f \<and> doff_at e 34 f \<le> 15"
  using syn_doff by (auto simp: syn_v4_def)

lemma syn_v6_doff: "syn_v6 e f \<Longrightarrow> 6 \<le> doff_at e 54 f \<and> doff_at e 54 f \<le> 15"
  using syn_doff by (auto simp: syn_v6_def)

lemma try_v4_answer:
  assumes "syn_v4 e (xs_frame s)" "xe_cookie_key e = Some k" "fst (tx_step (xe_ktime_syn e) (xs_tx_budget s))"
    and "34 + doff_at e 34 (xs_frame s) * 4 \<le> length (xs_frame s)"
  shows "\<exists>c g. cookie_v4 e k (xs_frame s) = Ok (c, best_mss (mss_at 54 (xs_frame s))) \<and>
    try_synack_v4 e s = (Some XdpTx, (charged e s)\<lparr>xs_frame := g\<rparr>) \<and>
    reply_v4 (doff_at e 34 (xs_frame s)) c (best_mss (mss_at 54 (xs_frame s))) (xs_frame s) g"
proof -
  let ?f = "xs_frame s"
  have d: "6 \<le> doff_at e 34 ?f" "doff_at e 34 ?f \<le> 15" using syn_v4_doff [OF assms(1)] by simp_all
  have "length (field 26 4 ?f) \<le> 16" "length (field 30 4 ?f) \<le> 16" by (simp_all add: field_def)
  then obtain c where c: "cookie_v4 e k ?f = Ok (c, best_mss (mss_at 54 ?f))"
    unfolding cookie_v4_def using minted by blast
  have fr: "xs_frame (charged e s) = ?f" by (simp add: charged_def)
  show ?thesis
    using try_v4_rewrite [OF assms(1-3) c] rewrite_v4 [OF d, of "charged e s"] reply_v4_frame [OF d assms(4)] c assms(4)
    unfolding fr by auto
qed

lemma try_v6_answer:
  assumes "syn_v6 e (xs_frame s)" "xe_cookie_key e = Some k" "fst (tx_step (xe_ktime_syn e) (xs_tx_budget s))"
    and "54 + doff_at e 54 (xs_frame s) * 4 \<le> length (xs_frame s)"
  shows "\<exists>c g. cookie_v6 e k (xs_frame s) = Ok (c, best_mss (mss_at 74 (xs_frame s))) \<and>
    try_synack_v6 e s = (Some XdpTx, (charged e s)\<lparr>xs_frame := g\<rparr>) \<and>
    reply_v6 (doff_at e 54 (xs_frame s)) c (best_mss (mss_at 74 (xs_frame s))) (xs_frame s) g"
proof -
  let ?f = "xs_frame s"
  have d: "6 \<le> doff_at e 54 ?f" "doff_at e 54 ?f \<le> 15" using syn_v6_doff [OF assms(1)] by simp_all
  then have r: "mss_readable 74 ?f" using assms(4) by (simp add: mss_readable_def)
  have "length (field 22 16 ?f) \<le> 16" "length (field 38 16 ?f) \<le> 16" by (simp_all add: field_def)
  then obtain c where c: "cookie_v6 e k ?f = Ok (c, best_mss (mss_at 74 ?f))"
    unfolding cookie_v6_def using minted by blast
  have fr: "xs_frame (charged e s) = ?f" by (simp add: charged_def)
  show ?thesis
    using try_v6_rewrite [OF assms(1-3) c r] rewrite_v6 [OF d, of "charged e s"] reply_v6_frame [OF d assms(4)] c assms(4)
    unfolding fr by auto
qed

section \<open>Frames shorter than their headers say\<close>

text \<open>Programs that only write the frame from an offset on.\<close>

definition writes_from :: "nat \<Rightarrow> unit xprog \<Rightarrow> bool" where
  "writes_from off m \<longleftrightarrow> (\<forall>s. \<exists>g. snd (m s) = s\<lparr>xs_frame := g\<rparr> \<and> length g = length (xs_frame s) \<and> take off g = take off (xs_frame s))"

lemma writes_from_intro:
  "(\<And>s. \<exists>g. snd (m s) = s\<lparr>xs_frame := g\<rparr> \<and> length g = length (xs_frame s) \<and> take off g = take off (xs_frame s)) \<Longrightarrow> writes_from off m"
  by (simp add: writes_from_def)

lemma writes_from_store: "off \<le> k \<Longrightarrow> writes_from off (store_u8 k v)"
proof (rule writes_from_intro)
  fix s :: xdp_state
  assume "off \<le> k"
  then have "take off (patch k [v] (xs_frame s)) = take off (xs_frame s)" by (simp add: patch_def)
  then show "\<exists>g. snd (store_u8 k v s) = s\<lparr>xs_frame := g\<rparr> \<and> length g = length (xs_frame s) \<and> take off g = take off (xs_frame s)"
    by (cases "k < length (xs_frame s)")
      (auto simp: store_u8_eq intro: exI [of _ "patch k [v] (xs_frame s)"] exI [of _ "xs_frame s"])
qed

lemma writes_from_then: "writes_from off m \<Longrightarrow> writes_from off k \<Longrightarrow> writes_from off (xthen m k)"
proof (unfold writes_from_def, intro allI)
  fix s
  assume m: "\<forall>s. \<exists>g. snd (m s) = s\<lparr>xs_frame := g\<rparr> \<and> length g = length (xs_frame s) \<and> take off g = take off (xs_frame s)"
    and k: "\<forall>s. \<exists>g. snd (k s) = s\<lparr>xs_frame := g\<rparr> \<and> length g = length (xs_frame s) \<and> take off g = take off (xs_frame s)"
  obtain g where g: "snd (m s) = s\<lparr>xs_frame := g\<rparr>" "length g = length (xs_frame s)" "take off g = take off (xs_frame s)"
    using m by blast
  obtain h where h: "snd (k (s\<lparr>xs_frame := g\<rparr>)) = s\<lparr>xs_frame := h\<rparr>" "length h = length g" "take off h = take off g"
    using k [rule_format, of "s\<lparr>xs_frame := g\<rparr>"] by auto
  show "\<exists>g. snd (xthen m k s) = s\<lparr>xs_frame := g\<rparr> \<and> length g = length (xs_frame s) \<and> take off g = take off (xs_frame s)"
    using g h by (cases "m s"; cases "fst (m s)") (auto simp: xthen_def xbind_def)
qed

lemma writes_from_ret: "writes_from off (xret ())"
proof (rule writes_from_intro)
  fix s :: xdp_state
  show "\<exists>g. snd (xret () s) = s\<lparr>xs_frame := g\<rparr> \<and> length g = length (xs_frame s) \<and> take off g = take off (xs_frame s)"
    by (rule exI [of _ "xs_frame s"]) (simp add: xret_def)
qed

lemma writes_from_mss: "writes_from opts (write_mss_option opts len mss)"
proof -
  have "writes_from opts (pad_from opts len ks)" for ks
    by (induction ks) (simp_all add: writes_from_ret writes_from_then writes_from_store)
  then show ?thesis
    by (simp add: write_mss_option_def store_be16_def writes_from_then writes_from_store)
qed

lemma pad_from_short:
  assumes "j \<le> len" "len \<le> m" "opts + j \<le> length (xs_frame s)" "length (xs_frame s) < opts + len"
  shows "fst (pad_from opts len [j..<m] s) = None"
  using assms
proof (induction "len - j" arbitrary: j s)
  case (Suc d)
  then have j: "j < len" "j < m" by auto
  have "d = len - Suc j" using Suc.hyps(2) by simp
  then show ?case using Suc.prems j Suc.hyps(1) [of "Suc j"]
    by (auto simp: upt_rec [of j m] xthen_def xbind_def store_u8_eq)
qed simp

lemma write_mss_short:
  assumes "length (xs_frame s) < opts + len" "4 \<le> len" "len \<le> 40"
  shows "fst (write_mss_option opts len mss s) = None"
proof -
  have "len \<le> MAX_TCP_OPTS" using assms by (simp add: MAX_TCP_OPTS_def)
  then show ?thesis using assms pad_from_short [of 4 len MAX_TCP_OPTS opts]
    by (auto simp: write_mss_option_def store_be16_def xthen_def xbind_def store_u8_eq)
qed

lemma mss_short_fails:
  assumes "length (xs_frame s) < opts + len" "4 \<le> len" "len \<le> 40"
  obtains g where "xthen (write_mss_option opts len mss) k s = (None, s\<lparr>xs_frame := g\<rparr>)" "length g = length (xs_frame s)"
    "take opts g = take opts (xs_frame s)"
proof -
  obtain g where g: "snd (write_mss_option opts len mss s) = s\<lparr>xs_frame := g\<rparr>" "length g = length (xs_frame s)"
    "take opts g = take opts (xs_frame s)"
    using writes_from_mss [of opts len mss] unfolding writes_from_def by blast
  have "write_mss_option opts len mss s = (None, s\<lparr>xs_frame := g\<rparr>)"
    using write_mss_short [OF assms, of mss] g(1) by (simp add: prod_eq_iff)
  then show thesis using that g xthen_fail by blast
qed

lemma try_v4_runt:
  assumes "syn_v4 e (xs_frame s)" "xe_cookie_key e = Some k" "fst (tx_step (xe_ktime_syn e) (xs_tx_budget s))"
    and "length (xs_frame s) < 34 + doff_at e 34 (xs_frame s) * 4"
  shows "\<exists>g. try_synack_v4 e s = (None, (charged e s)\<lparr>xs_frame := g\<rparr>) \<and> length g = length (xs_frame s) \<and>
    field 26 4 g = field 30 4 (xs_frame s) \<and> field 30 4 g = field 26 4 (xs_frame s) \<and> g ! 47 = TCP_FLAGS_SYN_ACK"
proof -
  let ?f = "xs_frame s" let ?d = "doff_at e 34 (xs_frame s)"
  have d: "6 \<le> ?d" "?d \<le> 15" "56 \<le> length ?f"
    using syn_v4_doff [OF assms(1)] assms(1) by (simp_all add: syn_v4_def mss_readable_def)
  have "length (field 26 4 ?f) \<le> 16" "length (field 30 4 ?f) \<le> 16" by (simp_all add: field_def)
  then obtain c mss where c: "cookie_v4 e k ?f = Ok (c, mss)" unfolding cookie_v4_def using minted by blast
  define h where "h = patch 52 (be16 0) (patch 48 (be16 SYNACK_WINDOW) (patch 47 [TCP_FLAGS_SYN_ACK] (
      patch 42 (be32 (be32_at 38 ?f + 1)) (patch 38 (be32 c) (patch 46 [of_nat (?d * 16)] (
      patch 36 (field 34 2 ?f) (patch 34 (field 36 2 ?f) (patch 30 (field 26 4 ?f) (patch 26 (field 30 4 ?f) (
      patch 6 (field 0 6 ?f) (patch 0 (field 6 6 ?f) ?f)))))))))))"
  let ?s = "(charged e s)\<lparr>xs_frame := h\<rparr>"
  have h: "length h = length ?f" "field 26 4 h = field 30 4 ?f" "field 30 4 h = field 26 4 ?f" "field 47 1 h = [TCP_FLAGS_SYN_ACK]"
    unfolding h_def using d by (simp_all add: fields)
  have fits: "length (xs_frame ?s) < 54 + (?d * 4 - 20)" "4 \<le> ?d * 4 - 20" "?d * 4 - 20 \<le> 40"
    using d assms(4) h(1) by (simp, linarith, linarith)
  have run: "try_synack_v4 e s = xthen (write_mss_option 54 (?d * 4 - 20) mss) K ?s \<Longrightarrow> ?thesis" for K
  proof -
    assume t: "try_synack_v4 e s = xthen (write_mss_option 54 (?d * 4 - 20) mss) K ?s"
    obtain g where g: "try_synack_v4 e s = (None, ?s\<lparr>xs_frame := g\<rparr>)" "length g = length h" "take 54 g = take 54 h"
      using mss_short_fails [OF fits] t by auto
    have eq: "field off n g = field off n h" if "off + n \<le> 54" for off n
      using arg_cong [OF g(3), of "\<lambda>x. take n (drop off x)"] that by (simp add: field_def drop_take)
    have "[g ! 47] = field 47 1 g"
      using d g(2) h(1) by (intro nth_equalityI) (auto simp: nth_field)
    then show ?thesis using g h eq [of 26 4] eq [of 30 4] eq [of 47 1] by auto
  qed
  show ?thesis
    by (rule run, unfold try_v4_rewrite [OF assms(1-3) c] synack_v4_rewrite_def Let_def h_def)
      (use d in \<open>simp add: offsets steps fields charged_def del: write_mss_option_patch\<close>)
qed

lemma try_v6_runt:
  assumes "syn_v6 e (xs_frame s)" "xe_cookie_key e = Some k" "fst (tx_step (xe_ktime_syn e) (xs_tx_budget s))"
    and "length (xs_frame s) < 54 + doff_at e 54 (xs_frame s) * 4"
  shows "\<exists>g. try_synack_v6 e s = (None, (charged e s)\<lparr>xs_frame := g\<rparr>) \<and> length g = length (xs_frame s)"
proof (cases "mss_readable 74 (xs_frame s)")
  case False
  then show ?thesis using try_v6_unreadable [OF assms(1-3)]
    by (intro exI [of _ "xs_frame s"]) (simp add: charged_def)
next
  case True
  let ?f = "xs_frame s" let ?d = "doff_at e 54 (xs_frame s)"
  have d: "6 \<le> ?d" "?d \<le> 15" "76 \<le> length ?f"
    using syn_v6_doff [OF assms(1)] True by (simp_all add: mss_readable_def)
  have "length (field 22 16 ?f) \<le> 16" "length (field 38 16 ?f) \<le> 16" by (simp_all add: field_def)
  then obtain c mss where c: "cookie_v6 e k ?f = Ok (c, mss)" unfolding cookie_v6_def using minted by blast
  define h where "h = patch 72 (be16 0) (patch 68 (be16 SYNACK_WINDOW) (patch 67 [TCP_FLAGS_SYN_ACK] (
      patch 62 (be32 (be32_at 58 ?f + 1)) (patch 58 (be32 c) (patch 66 [of_nat (?d * 16)] (
      patch 56 (field 54 2 ?f) (patch 54 (field 56 2 ?f) (patch 38 (field 22 16 ?f) (patch 22 (field 38 16 ?f) (
      patch 6 (field 0 6 ?f) (patch 0 (field 6 6 ?f) ?f)))))))))))"
  let ?s = "(charged e s)\<lparr>xs_frame := h\<rparr>"
  have h: "length h = length ?f" unfolding h_def by simp
  have fits: "length (xs_frame ?s) < 74 + (?d * 4 - 20)" "4 \<le> ?d * 4 - 20" "?d * 4 - 20 \<le> 40"
    using d assms(4) h by (simp, linarith, linarith)
  have run: "try_synack_v6 e s = xthen (write_mss_option 74 (?d * 4 - 20) mss) K ?s \<Longrightarrow> ?thesis" for K
    using mss_short_fails [OF fits, of mss K] h by auto
  show ?thesis
    by (rule run, unfold try_v6_rewrite [OF assms(1-3) c True] synack_v6_rewrite_def Let_def h_def)
      (use d in \<open>simp add: offsets steps fields charged_def del: write_mss_option_patch\<close>)
qed

end
