(* ===== verification/Xdp_Verdict.thy ===== *)
theory Xdp_Verdict
  imports Xdp_Synack
begin

text \<open>
  The packet filter as a whole: the verdict on every frame, what happens to the frame, what is
  counted, and the handshake between the fast path of the kernel and the userspace tier.
\<close>

section \<open>The verdict\<close>

definition redirect_v4 :: "xdp_env \<Rightarrow> u8 list \<Rightarrow> xdp_verdict option" where
  "redirect_v4 e f =
     (if 38 \<le> length f \<and> nt_ip4_ihl (xe_types e) (field 14 20 f) = 5 \<and> nt_ip4_proto (xe_types e) (field 14 20 f) = IPPROTO_UDP \<and>
         xe_redirect_port e (be16_at 36 f)
      then Some (case xe_xsk_redirect e (xe_rx_queue e) of Some v \<Rightarrow> v | None \<Rightarrow> XdpPass)
      else None)"

text \<open>A SYN that is answered: gate passed, key installed, a token left, and the frame as long as its headers say.\<close>

definition answerable :: "xdp_env \<Rightarrow> xdp_state \<Rightarrow> bool" where
  "answerable e s \<longleftrightarrow> xe_cookie_key e \<noteq> None \<and> fst (tx_step (xe_ktime_syn e) (xs_tx_budget s))"

definition answers_v4 :: "xdp_env \<Rightarrow> xdp_state \<Rightarrow> bool" where
  "answers_v4 e s \<longleftrightarrow> syn_v4 e (xs_frame s) \<and> answerable e s \<and> 34 + doff_at e 34 (xs_frame s) * 4 \<le> length (xs_frame s)"

definition answers_v6 :: "xdp_env \<Rightarrow> xdp_state \<Rightarrow> bool" where
  "answers_v6 e s \<longleftrightarrow> syn_v6 e (xs_frame s) \<and> answerable e s \<and> 54 + doff_at e 54 (xs_frame s) * 4 \<le> length (xs_frame s)"

definition src_v4 :: "xdp_env \<Rightarrow> u8 list \<Rightarrow> u8 list" where
  "src_v4 e f = nt_ip4_src (xe_types e) (field 14 20 f)"

definition src_v6 :: "xdp_env \<Rightarrow> u8 list \<Rightarrow> u8 list" where
  "src_v6 e f = nt_ip6_src (xe_types e) (field 14 40 f)"

definition limited :: "xdp_env \<Rightarrow> u8 list \<Rightarrow> xdp_state \<Rightarrow> bool" where
  "limited e key s \<longleftrightarrow> (case xs_rate s key of None \<Rightarrow> False | Some b \<Rightarrow> fst (rate_step (xe_ktime_rate e) b))"

definition verdict_v4 :: "xdp_env \<Rightarrow> xdp_state \<Rightarrow> xdp_verdict" where
  "verdict_v4 e s =
     (if xe_block_v4 e (src_v4 e (xs_frame s)) \<or> limited e (src_v4 e (xs_frame s) @ replicate 12 0) s then XdpDrop
      else case redirect_v4 e (xs_frame s) of Some v \<Rightarrow> v | None \<Rightarrow> if answers_v4 e s then XdpTx else XdpPass)"

definition verdict_v6 :: "xdp_env \<Rightarrow> xdp_state \<Rightarrow> xdp_verdict" where
  "verdict_v6 e s =
     (if xe_block_v6 e (src_v6 e (xs_frame s)) \<or> limited e (src_v6 e (xs_frame s)) s then XdpDrop
      else if answers_v6 e s then XdpTx else XdpPass)"

text \<open>What kind of packet a frame holds.\<close>

definition is_v4 :: "xdp_env \<Rightarrow> u8 list \<Rightarrow> bool" where
  "is_v4 e f \<longleftrightarrow> 34 \<le> length f \<and> nt_ether_type (xe_types e) (field 0 14 f) = EtherIpv4"

definition is_v6_frame :: "xdp_env \<Rightarrow> u8 list \<Rightarrow> bool" where
  "is_v6_frame e f \<longleftrightarrow> 54 \<le> length f \<and> nt_ether_type (xe_types e) (field 0 14 f) = EtherIpv6"

definition verdict :: "xdp_env \<Rightarrow> xdp_state \<Rightarrow> xdp_verdict" where
  "verdict e s = (if is_v4 e (xs_frame s) then verdict_v4 e s else if is_v6_frame e (xs_frame s) then verdict_v6 e s else XdpPass)"

section \<open>The steps of the filter\<close>

lemma decide_eq: "decide e r v l s = (Some v, snd (decide e r v l s))"
  by (simp add: decide_def xthen_def xbind_def xcount_def capture_def xret_def)

lemma decide_frame [simp]: "xs_frame (snd (decide e r v l s)) = xs_frame s"
  by (simp add: decide_def xthen_def xbind_def xcount_def capture_def xret_def split: option.split)

lemma over_rate_eq: "over_rate e key s = (Some (limited e key s), snd (over_rate e key s))"
  by (simp add: over_rate_def limited_def split: option.split prod.split)

lemma over_rate_frame [simp]: "xs_frame (snd (over_rate e key s)) = xs_frame s" "xs_tx_budget (snd (over_rate e key s)) = xs_tx_budget s"
  by (simp_all add: over_rate_def split: option.split prod.split)

lemma redirect_eq: "34 \<le> length (xs_frame s) \<Longrightarrow> try_redirect_udp_v4 e s = (redirect_v4 e (xs_frame s), s)"
  by (auto simp: try_redirect_udp_v4_def redirect_v4_def Let_def offsets reads)

lemma answers_after_limit [simp]:
  "answers_v4 e (snd (over_rate e key s)) = answers_v4 e s" "answers_v6 e (snd (over_rate e key s)) = answers_v6 e s"
  by (simp_all add: answers_v4_def answers_v6_def answerable_def)

definition settle :: "xdp_env \<Rightarrow> u64 \<Rightarrow> xdp_verdict option \<times> xdp_state \<Rightarrow> xdp_verdict \<times> xdp_state" where
  "settle e l r = (case r of (Some v, s) \<Rightarrow> (v, snd (decide e REASON_SYNCOOKIE v l s)) | (None, s) \<Rightarrow> (XdpPass, snd (decide e REASON_PASS XdpPass l s)))"

lemma xcatch_decide: "xcatch m (\<lambda>v. decide e r v l) k s = (case m s of (Some v, s') \<Rightarrow> (Some v, snd (decide e r v l s')) | (None, s') \<Rightarrow> k s')"
  using decide_eq [of e r _ l] by (simp add: xcatch_def split: prod.split option.split)

lemma ptr_at_step: "off + n \<le> length (xs_frame s) \<Longrightarrow> xbind (ptr_at n off) k s = k (field off n (xs_frame s)) s"
  by (simp add: xbind_def ptr_at_eq)

lemma decide_case: "(case decide e r v l s of (Some v, s) \<Rightarrow> (v, s) | (None, s) \<Rightarrow> (XdpPass, s)) = (v, snd (decide e r v l s))"
  by (subst decide_eq) simp

lemma over_rate_step: "xbind (over_rate e key) k s = k (limited e key s) (snd (over_rate e key s))"
  using over_rate_eq [of e key s] by (simp add: xbind_step)

lemma filter_v4:
  assumes "is_v4 e (xs_frame s)"
  defines "l \<equiv> of_nat (length (xs_frame s))" and "key \<equiv> src_v4 e (xs_frame s) @ replicate 12 0"
  shows "xdp_filter e s =
    (if xe_block_v4 e (src_v4 e (xs_frame s)) then (XdpDrop, snd (decide e REASON_BLOCKLIST XdpDrop l s))
     else if limited e key s then (XdpDrop, snd (decide e REASON_RATELIMIT XdpDrop l (snd (over_rate e key s))))
     else case redirect_v4 e (xs_frame s) of
         Some v \<Rightarrow> (v, snd (decide e REASON_REDIRECT v l (snd (over_rate e key s))))
       | None \<Rightarrow> settle e l (try_synack_v4 e (snd (over_rate e key s))))"
proof -
  have len: "34 \<le> length (xs_frame s)" and v4: "nt_ether_type (xe_types e) (field 0 14 (xs_frame s)) = EtherIpv4"
    using assms(1) by (auto simp: is_v4_def)
  show ?thesis using len v4 redirect_eq [of "snd (over_rate e key s)" e]
    by (simp add: xdp_filter_def try_filter_def Let_def ptr_at_step offsets
        src_v4_def [symmetric] key_def [symmetric] l_def [symmetric] over_rate_step decide_case xcatch_decide settle_def
        split: option.split prod.split)
qed

lemma filter_v6:
  assumes "is_v6_frame e (xs_frame s)"
  defines "l \<equiv> of_nat (length (xs_frame s))" and "key \<equiv> src_v6 e (xs_frame s)"
  shows "xdp_filter e s =
    (if xe_block_v6 e key then (XdpDrop, snd (decide e REASON_BLOCKLIST XdpDrop l s))
     else if limited e key s then (XdpDrop, snd (decide e REASON_RATELIMIT XdpDrop l (snd (over_rate e key s))))
     else settle e l (try_synack_v6 e (snd (over_rate e key s))))"
proof -
  have len: "54 \<le> length (xs_frame s)" and v6: "nt_ether_type (xe_types e) (field 0 14 (xs_frame s)) = EtherIpv6"
    using assms(1) by (auto simp: is_v6_frame_def)
  then show ?thesis
    by (simp add: xdp_filter_def try_filter_def Let_def ptr_at_step offsets
        src_v6_def [symmetric] key_def [symmetric] l_def [symmetric] over_rate_step decide_case xcatch_decide settle_def
        split: option.split prod.split)
qed

lemma filter_other:
  assumes "\<not> is_v4 e (xs_frame s)" "\<not> is_v6_frame e (xs_frame s)"
  shows "fst (xdp_filter e s) = XdpPass \<and> xs_frame (snd (xdp_filter e s)) = xs_frame s"
proof (cases "14 \<le> length (xs_frame s)")
  case True
  then show ?thesis using assms
    by (cases "nt_ether_type (xe_types e) (field 0 14 (xs_frame s))")
      (auto simp: xdp_filter_def try_filter_def Let_def ptr_at_step offsets decide_case is_v4_def is_v6_frame_def ptr_at_eq xbind_none)
qed (simp add: xdp_filter_def try_filter_def Let_def xbind_none ptr_at_eq)

lemma try_v4_cases:
  "fst (try_synack_v4 e s) = (if answers_v4 e s then Some XdpTx else None)"
proof (cases "syn_v4 e (xs_frame s)")
  case syn: True
  show ?thesis
  proof (cases "xe_cookie_key e")
    case (Some k)
    then show ?thesis
      using try_v4_capped [OF syn Some] try_v4_answer [OF syn Some] try_v4_runt [OF syn Some] syn
      by (cases "fst (tx_step (xe_ktime_syn e) (xs_tx_budget s))")
        (fastforce simp: answers_v4_def answerable_def not_le)+
  qed (simp add: try_v4_pass answers_v4_def answerable_def)
qed (simp add: try_v4_pass answers_v4_def)

lemma try_v6_cases:
  "fst (try_synack_v6 e s) = (if answers_v6 e s then Some XdpTx else None)"
proof (cases "syn_v6 e (xs_frame s)")
  case syn: True
  show ?thesis
  proof (cases "xe_cookie_key e")
    case (Some k)
    then show ?thesis
      using try_v6_capped [OF syn Some] try_v6_answer [OF syn Some] try_v6_runt [OF syn Some] syn
      by (cases "fst (tx_step (xe_ktime_syn e) (xs_tx_budget s))")
        (fastforce simp: answers_v6_def answerable_def not_le)+
  qed (simp add: try_v6_pass answers_v6_def answerable_def)
qed (simp add: try_v6_pass answers_v6_def)

lemma settle_v4: "fst (settle e l (try_synack_v4 e s)) = (if answers_v4 e s then XdpTx else XdpPass)"
  using try_v4_cases [of e s] by (auto simp: settle_def split: prod.splits option.splits)

lemma settle_v6: "fst (settle e l (try_synack_v6 e s)) = (if answers_v6 e s then XdpTx else XdpPass)"
  using try_v6_cases [of e s] by (auto simp: settle_def split: prod.splits option.splits)

lemma settle_frame: "xs_frame (snd (settle e l r)) = xs_frame (snd r)"
  by (simp add: settle_def split: prod.split option.split)

lemma verdict_eq: "fst (xdp_filter e s) = verdict e s"
proof -
  consider "is_v4 e (xs_frame s)" | "is_v6_frame e (xs_frame s)" "\<not> is_v4 e (xs_frame s)"
    | "\<not> is_v4 e (xs_frame s)" "\<not> is_v6_frame e (xs_frame s)" by blast
  then show ?thesis
  proof cases
    case 1
    then show ?thesis by (simp add: filter_v4 verdict_def verdict_v4_def settle_v4 split: option.split)
  next
    case 2
    then show ?thesis by (simp add: filter_v6 verdict_def verdict_v6_def settle_v6 split: option.split)
  next
    case 3
    then show ?thesis using filter_other by (simp add: verdict_def)
  qed
qed

text \<open>The reply to a frame that is answered.\<close>

definition replied :: "xdp_env \<Rightarrow> cookie_key_value \<Rightarrow> u32 \<Rightarrow> u8 list \<Rightarrow> u8 list \<Rightarrow> bool" where
  "replied e k c f g \<longleftrightarrow>
     (if is_v4 e f
      then \<not> xe_block_v4 e (src_v4 e f) \<and> syn_v4 e f \<and> 34 + doff_at e 34 f * 4 \<le> length f \<and> cookie_v4 e k f = Ok (c, best_mss (mss_at 54 f)) \<and>
        reply_v4 (doff_at e 34 f) c (best_mss (mss_at 54 f)) f g
      else is_v6_frame e f \<and> \<not> xe_block_v6 e (src_v6 e f) \<and> syn_v6 e f \<and> 54 + doff_at e 54 f * 4 \<le> length f \<and> cookie_v6 e k f = Ok (c, best_mss (mss_at 74 f)) \<and>
        reply_v6 (doff_at e 54 f) c (best_mss (mss_at 74 f)) f g)"

text \<open>A SYN for the fast path whose frame holds all of its TCP header.\<close>

definition whole :: "xdp_env \<Rightarrow> u8 list \<Rightarrow> bool" where
  "whole e f \<longleftrightarrow> (syn_v4 e f \<longrightarrow> 34 + doff_at e 34 f * 4 \<le> length f) \<and> (syn_v6 e f \<longrightarrow> 54 + doff_at e 54 f * 4 \<le> length f)"

lemma try_v4_keeps:
  assumes "\<not> answers_v4 e s" "whole e (xs_frame s)"
  shows "xs_frame (snd (try_synack_v4 e s)) = xs_frame s"
proof (cases "syn_v4 e (xs_frame s) \<and> xe_cookie_key e \<noteq> None")
  case True
  then obtain k where "syn_v4 e (xs_frame s)" "xe_cookie_key e = Some k" by blast
  moreover from this have "\<not> fst (tx_step (xe_ktime_syn e) (xs_tx_budget s))"
    using assms by (auto simp: answers_v4_def answerable_def whole_def)
  ultimately show ?thesis using try_v4_capped by (simp add: capped_def xcount_def)
qed (use try_v4_pass in auto)

lemma try_v6_keeps:
  assumes "\<not> answers_v6 e s" "whole e (xs_frame s)"
  shows "xs_frame (snd (try_synack_v6 e s)) = xs_frame s"
proof (cases "syn_v6 e (xs_frame s) \<and> xe_cookie_key e \<noteq> None")
  case True
  then obtain k where "syn_v6 e (xs_frame s)" "xe_cookie_key e = Some k" by blast
  moreover from this have "\<not> fst (tx_step (xe_ktime_syn e) (xs_tx_budget s))"
    using assms by (auto simp: answers_v6_def answerable_def whole_def)
  ultimately show ?thesis using try_v6_capped by (simp add: capped_def xcount_def)
qed (use try_v6_pass in auto)

lemma frame_kept:
  assumes "whole e (xs_frame s)" "fst (xdp_filter e s) \<noteq> XdpTx"
  shows "xs_frame (snd (xdp_filter e s)) = xs_frame s"
proof -
  let ?r = "\<lambda>key. snd (over_rate e key s)"
  have w: "whole e (xs_frame (?r key))" for key using assms(1) by simp
  consider "is_v4 e (xs_frame s)" | "is_v6_frame e (xs_frame s)" "\<not> is_v4 e (xs_frame s)"
    | "\<not> is_v4 e (xs_frame s)" "\<not> is_v6_frame e (xs_frame s)" by blast
  then show ?thesis
  proof cases
    case 1
    then show ?thesis using assms(2) try_v4_keeps [OF _ w]
      by (auto simp: filter_v4 settle_frame settle_v4 split: option.splits if_splits)
  next
    case 2
    then show ?thesis using assms(2) try_v6_keeps [OF _ w]
      by (auto simp: filter_v6 settle_frame settle_v6 split: option.splits if_splits)
  next
    case 3
    then show ?thesis using filter_other by simp
  qed
qed

lemma answered:
  assumes "\<forall>q. xe_xsk_redirect e q \<noteq> Some XdpTx" "fst (xdp_filter e s) = XdpTx"
  shows "\<exists>k c. xe_cookie_key e = Some k \<and> replied e k c (xs_frame s) (xs_frame (snd (xdp_filter e s)))"
proof -
  have red: "redirect_v4 e f \<noteq> Some XdpTx" for f
    using assms(1) by (auto simp: redirect_v4_def split: option.splits)
  consider "is_v4 e (xs_frame s)" | "is_v6_frame e (xs_frame s)" "\<not> is_v4 e (xs_frame s)"
    | "\<not> is_v4 e (xs_frame s)" "\<not> is_v6_frame e (xs_frame s)" by blast
  then show ?thesis
  proof cases
    case 1
    let ?s = "snd (over_rate e (src_v4 e (xs_frame s) @ replicate 12 0) s)"
    have a: "answers_v4 e s" "\<not> xe_block_v4 e (src_v4 e (xs_frame s))" and f: "xs_frame (snd (xdp_filter e s)) = xs_frame (snd (try_synack_v4 e ?s))"
      using assms(2) 1 red by (auto simp: filter_v4 settle_v4 settle_frame split: option.splits if_splits)
    obtain k where k: "xe_cookie_key e = Some k" using a by (auto simp: answers_v4_def answerable_def)
    show ?thesis using try_v4_answer [of e ?s k] a k 1 unfolding f
      by (auto simp: answers_v4_def answerable_def replied_def)
  next
    case 2
    let ?s = "snd (over_rate e (src_v6 e (xs_frame s)) s)"
    have a: "answers_v6 e s" "\<not> xe_block_v6 e (src_v6 e (xs_frame s))" and f: "xs_frame (snd (xdp_filter e s)) = xs_frame (snd (try_synack_v6 e ?s))"
      using assms(2) 2 by (auto simp: filter_v6 settle_v6 settle_frame split: if_splits)
    obtain k where k: "xe_cookie_key e = Some k" using a by (auto simp: answers_v6_def answerable_def)
    show ?thesis using try_v6_answer [of e ?s k] a k 2 unfolding f
      by (auto simp: answers_v6_def answerable_def replied_def)
  next
    case 3
    then show ?thesis using filter_other assms(2) by simp
  qed
qed

section \<open>The handshake\<close>

lemma field_field: "a + m \<le> n \<Longrightarrow> field a m (field off n f) = field (off + a) m f"
  by (simp add: field_def drop_take min_def add.commute)

lemma be32_at_field:
  assumes "field off 4 f = be32 v" "off + 4 \<le> length f"
  shows "be32_at off f = v"
proof -
  have "field off 4 f = field off 2 f @ field (off + 2) 2 f" using field_split [of off 2 2 f] by simp
  then have "be16 (be16_at off f) @ be16 (be16_at (off + 2) f) = be16 (ucast (drop_bit 16 v)) @ be16 (ucast (v AND 0xffff))"
    using assms be16_field [of off f] be16_field [of "off + 2" f] by (simp add: be32_halves)
  then have "be16_at off f = ucast (drop_bit 16 v)" "be16_at (off + 2) f = ucast (v AND 0xffff)" by simp_all
  moreover have "push_bit 16 (ucast (ucast (drop_bit 16 v) :: u16)) OR ucast (ucast (v AND 0xffff) :: u16) = v"
  proof -
    have m: "(0xffff :: u32) = mask 16" by (simp add: mask_eq_exp_minus_1)
    show ?thesis unfolding m by (rule bit_word_eqI) (auto simp: bit_simps)
  qed
  ultimately show ?thesis by (simp add: be32_at_def)
qed

lemma reply_numbers:
  assumes "reply_segment off doff c mss f g" "6 \<le> doff" "off + doff * 4 \<le> length g"
  shows "be32_at (off + 4) g = c" "be32_at (off + 8) g = be32_at (off + 4) f + 1" "be16_at (off + 22) g = mss"
proof -
  let ?seg = "synack_segment (be16_at (off + 2) f) (be16_at off f) c (be32_at (off + 4) f + 1) doff (be16_at (off + 16) g) mss"
  have seg: "field off (doff * 4) g = ?seg" using assms(1) by (simp add: reply_segment_def)
  have sub: "field (off + a) m g = field a m ?seg" if "a + m \<le> doff * 4" for a m
    unfolding seg [symmetric] using that by (simp add: field_field)
  have "field 4 4 ?seg = be32 c" "field 8 4 ?seg = be32 (be32_at (off + 4) f + 1)" "field 22 2 ?seg = be16 mss"
    by (simp_all add: synack_segment_def be16_def be32_def field_def)
  then show "be32_at (off + 4) g = c" "be32_at (off + 8) g = be32_at (off + 4) f + 1" "be16_at (off + 22) g = mss"
    using sub [of 4 4] sub [of 8 4] sub [of 22 2] assms(2,3) by (auto intro!: be32_at_field be16_at_field)
qed

text \<open>Where the TCP header of a frame is, the connection it belongs to, and the time its cookie is made at.\<close>

definition tcp_off :: "xdp_env \<Rightarrow> u8 list \<Rightarrow> nat" where
  "tcp_off e f = (if is_v4 e f then 34 else 54)"

definition conn_of :: "xdp_env \<Rightarrow> u8 list \<Rightarrow> conn_tuple \<Rightarrow> bool" where
  "conn_of e f t \<longleftrightarrow>
     octets (ct_src t) = (if is_v4 e f then field 26 4 f else field 22 16 f) \<and> ct_src_port t = be16_at (tcp_off e f) f \<and>
     octets (ct_dst t) = (if is_v4 e f then field 30 4 f else field 38 16 f) \<and> ct_dst_port t = be16_at (tcp_off e f + 2) f"

definition cookie_time :: "xdp_env \<Rightarrow> u8 list \<Rightarrow> u64" where
  "cookie_time e f = (if is_v4 e f then xe_ktime_syn e else xe_ktime_cookie e) div NS_PER_SEC"

lemma replied_numbers:
  assumes "replied e k c f g"
  defines "off \<equiv> tcp_off e f"
  shows "be32_at (off + 4) g = c \<and> be32_at (off + 8) g = be32_at (off + 4) f + 1 \<and>
    be16_at (off + 22) g = best_mss (mss_at (off + 20) f)"
proof -
  obtain doff where "reply_segment off doff c (best_mss (mss_at (off + 20) f)) f g" "6 \<le> doff" "off + doff * 4 \<le> length g"
    using assms syn_v4_doff [of e f] syn_v6_doff [of e f]
    by (auto simp: replied_def off_def tcp_off_def reply_v4_def reply_v6_def reply_macs_def split: if_splits)
  from reply_numbers [OF this] show ?thesis by simp
qed

lemma replied_cookie:
  assumes "replied e (encode_cookie_key key) c f g" "conn_of e f t"
  shows "make_cookie (xe_sip e) key t (mss_at (tcp_off e f + 20) f) (cookie_time e f) = Ok (c, best_mss (mss_at (tcp_off e f + 20) f))"
  using assms
  by (auto simp: replied_def conn_of_def make_cookie_def to_u64_pair_def encode_cookie_key_def cookie_v4_def cookie_v6_def tcp_off_def
      cookie_time_def split: if_splits)

section \<open>Sample frames\<close>

text \<open>The header accessors at their wire layout, and a SYN with an MSS option to a protected web server.\<close>

definition wire_types :: net_types where
  "wire_types = \<lparr>
     nt_ether_type = (\<lambda>h. if field 12 2 h = [8, 0] then EtherIpv4 else if field 12 2 h = [0x86, 0xdd] then EtherIpv6 else EtherOther),
     nt_ip4_src = field 12 4, nt_ip4_ihl = (\<lambda>h. h ! 0 AND 15), nt_ip4_proto = (\<lambda>h. h ! 9),
     nt_ip4_tot_len = be16_at 2,
     nt_ip6_src = field 8 16, nt_ip6_next_hdr = (\<lambda>h. h ! 6), nt_ip6_payload_len = be16_at 4,
     nt_tcp_syn = (\<lambda>h. h ! 13 AND 2 \<noteq> 0), nt_tcp_ack = (\<lambda>h. h ! 13 AND 16 \<noteq> 0),
     nt_tcp_doff = (\<lambda>h. ucast (drop_bit 4 (h ! 12)))\<rparr>"

definition sample_env :: xdp_env where
  "sample_env = \<lparr>xe_types = wire_types, xe_sip = sample_sip, xe_block_v4 = (\<lambda>a. a = [10, 0, 0, 66]), xe_block_v6 = (\<lambda>_. False),
     xe_protect_v4 = (\<lambda>a. take 3 a = [203, 0, 113]), xe_protect_v6 = (\<lambda>_. False), xe_protect_port = (\<lambda>p. p = 443),
     xe_redirect_port = (\<lambda>_. False), xe_cookie_key = Some (encode_cookie_key sample_key), xe_capture_enabled = None, xe_rx_queue = 0,
     xe_xsk_redirect = (\<lambda>_. None), xe_ktime_rate = 0, xe_ktime_syn = 1000000000000, xe_ktime_cookie = 1000000000000,
     xe_ktime_capture = 0, xe_reserve = (\<lambda>_. False), xe_load_bytes = (\<lambda>_ _. None)\<rparr>"

definition sample_syn :: "u8 list" where
  "sample_syn = [2, 0, 0, 0, 0, 1, 2, 0, 0, 0, 0, 2, 8, 0,
     0x45, 0, 0, 44, 0, 1, 0, 0, 64, 6, 0, 0, 198, 51, 100, 1, 203, 0, 113, 7,
     156, 64, 1, 187, 0, 0, 0, 5, 0, 0, 0, 0, 0x60, 2, 4, 0, 0, 0, 0, 0, 2, 4, 5, 180]"

definition sample_state :: "u8 list \<Rightarrow> xdp_state" where
  "sample_state f = \<lparr>xs_frame = f, xs_rate = (\<lambda>_. None), xs_tx_budget = \<lparr>tx_tokens = 0, tx_last_ns = 0, tx_rate_pps = 0\<rparr>,
     xs_stats = (\<lambda>_. \<lparr>sx_packets = 0, sx_bytes = 0\<rparr>), xs_ring = []\<rparr>"

lemma sample_answered: "verdict sample_env (sample_state sample_syn) = XdpTx"
  by (simp add: verdict_def is_v4_def verdict_v4_def src_v4_def limited_def redirect_v4_def answers_v4_def answerable_def syn_v4_def syn_at_def
      doff_at_def mss_readable_def tx_step_def sample_env_def wire_types_def sample_state_def sample_syn_def field_def be16_at_def
      from_be16_def IPPROTO_TCP_def IPPROTO_UDP_def)

lemma sample_passed:
  "verdict sample_env (sample_state (sample_syn[37 := 80])) = XdpPass" "whole sample_env (sample_syn[37 := 80])"
  by (simp_all add: verdict_def is_v4_def verdict_v4_def src_v4_def limited_def redirect_v4_def answers_v4_def syn_v4_def syn_v6_def
      syn_at_def whole_def sample_env_def wire_types_def sample_state_def sample_syn_def field_def be16_at_def
      from_be16_def IPPROTO_TCP_def IPPROTO_UDP_def)

text \<open>The sample SYN with four more option bytes announced than the frame holds.\<close>

definition sample_runt :: "u8 list" where
  "sample_runt = sample_syn[17 := 48, 46 := 0x70]"

lemma sample_runt_syn:
  "is_v4 sample_env sample_runt" "syn_v4 sample_env sample_runt" "length sample_runt < 34 + doff_at sample_env 34 sample_runt * 4"
  "\<not> limited sample_env (src_v4 sample_env sample_runt @ replicate 12 0) (sample_state sample_runt)"
  "\<not> xe_block_v4 sample_env (src_v4 sample_env sample_runt)" "redirect_v4 sample_env sample_runt = None"
  "answerable sample_env (sample_state sample_runt)"
  by (simp_all add: is_v4_def src_v4_def limited_def redirect_v4_def answerable_def syn_v4_def syn_at_def
      doff_at_def mss_readable_def tx_step_def sample_env_def wire_types_def sample_state_def sample_runt_def sample_syn_def field_def be16_at_def
      from_be16_def IPPROTO_TCP_def IPPROTO_UDP_def)

section \<open>Properties\<close>

text \<open>
  C17. The verdict of the packet filter on every frame, and that it leaves the frames it does not answer
  alone. A source on a blocklist or over its rate is dropped; a datagram to a redirected port goes to
  the socket of its queue; a SYN is answered exactly if it is for a protected address and port, its
  headers have the expected shape, the secret is installed, the budget has a token and the frame holds
  the whole header; everything else is passed. If the frame is as long as its headers say, every
  verdict but the answer keeps it as it was.
\<close>

theorem filter_verdict:
  "fst (xdp_filter e s) = verdict e s \<and>
   (whole e (xs_frame s) \<and> verdict e s \<noteq> XdpTx \<longrightarrow> xs_frame (snd (xdp_filter e s)) = xs_frame s)"
  using frame_kept [of e s] by (simp add: verdict_eq)

theorem filter_verdict_witness:
  "fst (xdp_filter sample_env (sample_state (sample_syn[37 := 80]))) = XdpPass \<and>
   xs_frame (snd (xdp_filter sample_env (sample_state (sample_syn[37 := 80])))) = sample_syn[37 := 80]"
proof -
  have "xs_frame (sample_state f) = f" for f by (simp add: sample_state_def)
  then show ?thesis using filter_verdict [of sample_env "sample_state (sample_syn[37 := 80])"] sample_passed by simp
qed

text \<open>
  C18. What the filter sends back is a correct SYN-ACK. Whenever it answers, the frame was a SYN for a
  protected address and port from a source that is not blocked, a secret was installed, and the frame
  sent is its answer, in both address families: the same length, hardware addresses, network addresses
  and ports exchanged, the sequence number the cookie of this connection, the acknowledgement number
  the client's plus one, only SYN and ACK set, the advertised segment size the best one for the
  client, everything after the header kept, and the IPv4 header checksum and the TCP checksum over
  the pseudo-header valid for a receiver. The only assumption is that a socket redirect never yields
  the transmit verdict, which is what the kernel documents.
\<close>

theorem synack_correct:
  assumes "\<forall>q. xe_xsk_redirect e q \<noteq> Some XdpTx" "fst (xdp_filter e s) = XdpTx"
  shows "\<exists>k c. xe_cookie_key e = Some k \<and> replied e k c (xs_frame s) (xs_frame (snd (xdp_filter e s)))"
  by (rule answered [OF assms])

theorem synack_correct_witness:
  "\<exists>c. replied sample_env (encode_cookie_key sample_key) c sample_syn (xs_frame (snd (xdp_filter sample_env (sample_state sample_syn))))"
proof -
  have "fst (xdp_filter sample_env (sample_state sample_syn)) = XdpTx" by (simp add: verdict_eq sample_answered)
  moreover have "xs_frame (sample_state sample_syn) = sample_syn" by (simp add: sample_state_def)
  ultimately show ?thesis using synack_correct [of sample_env "sample_state sample_syn"] by (simp add: sample_env_def)
qed

text \<open>
  C19. The kernel and the userspace tier complete one handshake together. If the filter answers a SYN
  under a key that userspace installed, the acknowledgement of the sequence number it sent is accepted
  by the cookie check of the userspace tier under the same key, for the connection of the SYN, in the
  time slot of the answer and in the next one, and the segment size it recovers is the one the answer
  advertised. From the second slot after it on, and for the 254 slots that follow, it is rejected.
\<close>

theorem handshake_completes:
  assumes "\<forall>q. xe_xsk_redirect e q \<noteq> Some XdpTx" "xdp_filter e s = (XdpTx, s')"
    and "xe_cookie_key e = Some (encode_cookie_key key)" "conn_of e (xs_frame s) t"
    and "d = unat (drop_bit COUNTER_SHIFT now - drop_bit COUNTER_SHIFT (cookie_time e (xs_frame s)))"
  defines "off \<equiv> tcp_off e (xs_frame s)"
  shows "be32_at (off + 8) (xs_frame s') = be32_at (off + 4) (xs_frame s) + 1 \<and>
    (d \<le> 1 \<longrightarrow> check_cookie (xe_sip e) key t (be32_at (off + 4) (xs_frame s') + 1) now = Ok (Some (be16_at (off + 22) (xs_frame s')))) \<and>
    (2 \<le> d \<and> d \<le> 255 \<longrightarrow> check_cookie (xe_sip e) key t (be32_at (off + 4) (xs_frame s') + 1) now = Ok None)"
proof -
  obtain c where r: "replied e (encode_cookie_key key) c (xs_frame s) (xs_frame s')"
    using answered [OF assms(1), of s] assms(2,3) by auto
  note nums = replied_numbers [OF r, folded off_def]
  obtain k0 k1 where k: "to_u64_pair key = (k0, k1)" by fastforce
  note made = replied_cookie [OF r assms(4), folded off_def, unfolded make_cookie_def k prod.case]
  show ?thesis using nums cookie_raw_lifetime [OF octets_fit made assms(5)] by (simp add: check_cookie_def k)
qed

theorem handshake_completes_witness:
  "\<exists>s'. xdp_filter sample_env (sample_state sample_syn) = (XdpTx, s') \<and>
     check_cookie sample_sip sample_key sample_tuple (be32_at 38 (xs_frame s') + 1) 1064 = Ok (Some (be16_at 56 (xs_frame s')))"
proof -
  obtain s' where s': "xdp_filter sample_env (sample_state sample_syn) = (XdpTx, s')"
    using verdict_eq [of sample_env "sample_state sample_syn"] sample_answered by (metis prod.collapse)
  have v4: "is_v4 sample_env sample_syn" "xs_frame (sample_state sample_syn) = sample_syn"
    by (simp_all add: is_v4_def sample_env_def wire_types_def sample_syn_def field_def sample_state_def)
  then have t: "conn_of sample_env sample_syn sample_tuple"
    by (simp add: conn_of_def tcp_off_def) (simp add: sample_tuple_def sample_syn_def field_def be16_at_def from_be16_def be32_def)
  have "cookie_time sample_env sample_syn = 1000"
    using v4 by (simp add: cookie_time_def NS_PER_SEC_def) (simp add: sample_env_def)
  then have "unat (drop_bit COUNTER_SHIFT (1064 :: u64) - drop_bit COUNTER_SHIFT (cookie_time sample_env sample_syn)) = 1"
    by (simp add: COUNTER_SHIFT_def)
  then show ?thesis using handshake_completes [OF _ s', of sample_key sample_tuple 1 1064] s' v4 t
    by (simp add: tcp_off_def) (simp add: sample_env_def)
qed

text \<open>
  C31. A SYN whose frame ends before its options do is passed on half rewritten. The option writer
  fails after the addresses were exchanged and the flags set, the fast path is abandoned, and the frame
  goes to the stack with the protected address as its source and the SYN-ACK flags set.
\<close>

theorem runt_passed_rewritten:
  assumes "is_v4 e (xs_frame s)" "\<not> xe_block_v4 e (src_v4 e (xs_frame s))"
    and "\<not> limited e (src_v4 e (xs_frame s) @ replicate 12 0) s" "redirect_v4 e (xs_frame s) = None"
    and "syn_v4 e (xs_frame s)" "answerable e s" "length (xs_frame s) < 34 + doff_at e 34 (xs_frame s) * 4"
  shows "fst (xdp_filter e s) = XdpPass \<and> field 26 4 (xs_frame (snd (xdp_filter e s))) = field 30 4 (xs_frame s) \<and>
    field 30 4 (xs_frame (snd (xdp_filter e s))) = field 26 4 (xs_frame s) \<and> xs_frame (snd (xdp_filter e s)) ! 47 = TCP_FLAGS_SYN_ACK"
proof -
  let ?s = "snd (over_rate e (src_v4 e (xs_frame s) @ replicate 12 0) s)"
  obtain k where k: "xe_cookie_key e = Some k" "fst (tx_step (xe_ktime_syn e) (xs_tx_budget ?s))"
    using assms(6) by (auto simp: answerable_def)
  obtain g where "try_synack_v4 e ?s = (None, (charged e ?s)\<lparr>xs_frame := g\<rparr>)" "field 26 4 g = field 30 4 (xs_frame s)"
    "field 30 4 g = field 26 4 (xs_frame s)" "g ! 47 = TCP_FLAGS_SYN_ACK"
    using try_v4_runt [of e ?s k] k assms(5,7) by auto
  then show ?thesis using assms by (simp add: filter_v4 settle_def)
qed

theorem runt_passed_rewritten_witness:
  "fst (xdp_filter sample_env (sample_state sample_runt)) = XdpPass \<and>
   field 26 4 (xs_frame (snd (xdp_filter sample_env (sample_state sample_runt)))) = [203, 0, 113, 7]"
proof -
  have "xs_frame (sample_state sample_runt) = sample_runt" "field 30 4 sample_runt = [203, 0, 113, 7]"
    by (simp_all add: sample_state_def sample_runt_def sample_syn_def field_def)
  then show ?thesis using runt_passed_rewritten [of sample_env "sample_state sample_runt"] sample_runt_syn by simp
qed

end
