(* ===== verification/Xdp_Dataplane.thy ===== *)
theory Xdp_Dataplane
  imports Xdp_Controller Xdp_Verdict
begin

text \<open>
  The map writer of \<^verbatim>\<open>blackwall-xdp/src/dataplane.rs\<close> and the key encodings of \<^verbatim>\<open>keys.rs\<close>: the kernel maps
  as userspace writes them, the executor of the XDP manager on top of them, the contract it keeps,
  and how the packet filter reads the maps. Whether a map system call succeeds is an argument: the
  list of outcomes still to come is part of the state; deleting an absent key always fails. The
  per-CPU maps are seen from one CPU, all CPUs being written alike.
\<close>

section \<open>Keys\<close>

datatype trie_key = LpmV4 nat "u8 list" | LpmV6 nat "u8 list"

text \<open>\<open>trunc\<close> is the truncation to the network address of the \<open>ipnet\<close> crate.\<close>

fun lpm_key :: "(ip_net \<Rightarrow> ip_net) \<Rightarrow> ip_net \<Rightarrow> trie_key" where
  "lpm_key trunc (NetV4 a l) = LpmV4 l (octets (net_addr (trunc (NetV4 a l))))"
| "lpm_key trunc (NetV6 a l) = LpmV6 l (octets (net_addr (trunc (NetV6 a l))))"

fun host_lpm_key :: "ip_addr \<Rightarrow> trie_key" where
  "host_lpm_key (V4 a) = LpmV4 32 (octets (V4 a))"
| "host_lpm_key (V6 a) = LpmV6 128 (octets (V6 a))"

fun rate_key :: "ip_addr \<Rightarrow> u8 list" where
  "rate_key (V4 a) = octets (V4 a) @ replicate 12 0"
| "rate_key (V6 a) = octets (V6 a)"

section \<open>The maps\<close>

record dataplane_maps =
  dm_block :: "(trie_key, u8) hashmap"
  dm_rate :: "(u8 list, rate_bucket) hashmap"
  dm_cookie_key :: "cookie_key_value option"
  dm_protect :: "(trie_key, u8) hashmap"
  dm_protect_port :: "(u16, u8) hashmap"
  dm_redirect_port :: "(u16, u8) hashmap"
  dm_tx_budget :: tx_bucket
  dm_outcomes :: "bool list"

text \<open>A map update: it takes effect if the system call succeeds.\<close>

definition dm_sys :: "(dataplane_maps \<Rightarrow> dataplane_maps) \<Rightarrow> dataplane_maps \<Rightarrow> bool \<times> dataplane_maps" where
  "dm_sys update m =
     (case dm_outcomes m of
        [] \<Rightarrow> (True, update m)
      | ok # oks \<Rightarrow> (ok, (if ok then update m else m)\<lparr>dm_outcomes := oks\<rparr>))"

definition dm_delete :: "bool \<Rightarrow> (dataplane_maps \<Rightarrow> dataplane_maps) \<Rightarrow> dataplane_maps \<Rightarrow> bool \<times> dataplane_maps" where
  "dm_delete present update m = (if present then dm_sys update m else (False, m\<lparr>dm_outcomes := tl (dm_outcomes m)\<rparr>))"

definition dp_block :: "(ip_net \<Rightarrow> ip_net) \<Rightarrow> ip_net \<Rightarrow> dataplane_maps \<Rightarrow> bool \<times> dataplane_maps" where
  "dp_block trunc net m = dm_sys (\<lambda>m. m\<lparr>dm_block := hm_insert (lpm_key trunc net) 1 (dm_block m)\<rparr>) m"

definition dp_unblock :: "(ip_net \<Rightarrow> ip_net) \<Rightarrow> ip_net \<Rightarrow> dataplane_maps \<Rightarrow> bool \<times> dataplane_maps" where
  "dp_unblock trunc net m = dm_delete (hm_get (dm_block m) (lpm_key trunc net) \<noteq> None)
     (\<lambda>m. m\<lparr>dm_block := hm_remove (lpm_key trunc net) (dm_block m)\<rparr>) m"

definition dp_rate_limit :: "ip_addr \<Rightarrow> u64 \<Rightarrow> u64 \<Rightarrow> dataplane_maps \<Rightarrow> bool \<times> dataplane_maps" where
  "dp_rate_limit addr pps burst m =
     dm_sys (\<lambda>m. m\<lparr>dm_rate := hm_insert (rate_key addr)
        \<lparr>bk_tokens = burst, bk_last_ns = 0, bk_rate_pps = pps, bk_burst = burst\<rparr> (dm_rate m)\<rparr>) m"

definition dp_clear_rate_limit :: "ip_addr \<Rightarrow> dataplane_maps \<Rightarrow> bool \<times> dataplane_maps" where
  "dp_clear_rate_limit addr m = dm_delete (hm_get (dm_rate m) (rate_key addr) \<noteq> None)
     (\<lambda>m. m\<lparr>dm_rate := hm_remove (rate_key addr) (dm_rate m)\<rparr>) m"

definition dp_set_cookie_key :: "cookie_key \<Rightarrow> dataplane_maps \<Rightarrow> bool \<times> dataplane_maps" where
  "dp_set_cookie_key key m = dm_sys (\<lambda>m. m\<lparr>dm_cookie_key := Some (encode_cookie_key key)\<rparr>) m"

definition dp_set_syn_cookie_tx_cap :: "u32 \<Rightarrow> dataplane_maps \<Rightarrow> bool \<times> dataplane_maps" where
  "dp_set_syn_cookie_tx_cap pps m =
     dm_sys (\<lambda>m. m\<lparr>dm_tx_budget := \<lparr>tx_tokens = ucast pps, tx_last_ns = 0, tx_rate_pps = ucast pps\<rparr>\<rparr>) m"

fun dp_set_protected_prefixes :: "(ip_net \<Rightarrow> ip_net) \<Rightarrow> ip_net list \<Rightarrow> dataplane_maps \<Rightarrow> bool \<times> dataplane_maps" where
  "dp_set_protected_prefixes trunc [] m = (True, m)"
| "dp_set_protected_prefixes trunc (net # nets) m =
     (case dm_sys (\<lambda>m. m\<lparr>dm_protect := hm_insert (lpm_key trunc net) 1 (dm_protect m)\<rparr>) m of
        (False, m) \<Rightarrow> (False, m)
      | (True, m) \<Rightarrow> dp_set_protected_prefixes trunc nets m)"

fun dp_set_protected_ports :: "u16 list \<Rightarrow> dataplane_maps \<Rightarrow> bool \<times> dataplane_maps" where
  "dp_set_protected_ports [] m = (True, m)"
| "dp_set_protected_ports (port # ports) m =
     (case dm_sys (\<lambda>m. m\<lparr>dm_protect_port := hm_insert port 1 (dm_protect_port m)\<rparr>) m of
        (False, m) \<Rightarrow> (False, m)
      | (True, m) \<Rightarrow> dp_set_protected_ports ports m)"

fun dp_set_redirect_ports :: "u16 list \<Rightarrow> dataplane_maps \<Rightarrow> bool \<times> dataplane_maps" where
  "dp_set_redirect_ports [] m = (True, m)"
| "dp_set_redirect_ports (port # ports) m =
     (case dm_sys (\<lambda>m. m\<lparr>dm_redirect_port := hm_insert port 1 (dm_redirect_port m)\<rparr>) m of
        (False, m) \<Rightarrow> (False, m)
      | (True, m) \<Rightarrow> dp_set_redirect_ports ports m)"

fun dp_apply :: "(ip_net \<Rightarrow> ip_net) \<Rightarrow> xdp_action \<Rightarrow> dataplane_maps \<Rightarrow> bool \<times> dataplane_maps" where
  "dp_apply trunc (Block net) m = dp_block trunc net m"
| "dp_apply trunc (Unblock net) m = dp_unblock trunc net m"
| "dp_apply trunc (RateLimit src pps burst victim) m = dp_rate_limit src pps burst m"
| "dp_apply trunc (ClearRate src) m = dp_clear_rate_limit src m"

section \<open>The executor contract\<close>

text \<open>
  \<open>blocks\<close> and \<open>limits\<close> are what the kernel enforces: the blocked keys and the rate and burst of
  each limited key. An accepted action has exactly its effect, a refused one has none.
\<close>

locale xdp_executor =
  fixes apply_op :: "xdp_action \<Rightarrow> 'b \<Rightarrow> bool \<times> 'b"
    and blocks :: "'b \<Rightarrow> 'n set"
    and limits :: "'b \<Rightarrow> 's \<rightharpoonup> u64 \<times> u64"
    and net_key :: "ip_net \<Rightarrow> 'n"
    and src_key :: "ip_addr \<Rightarrow> 's"
  assumes block: "apply_op (Block net) b = (ok, b') \<Longrightarrow>
      blocks b' = (if ok then insert (net_key net) (blocks b) else blocks b) \<and> limits b' = limits b"
    and unblock: "apply_op (Unblock net) b = (ok, b') \<Longrightarrow>
      blocks b' = (if ok then blocks b - {net_key net} else blocks b) \<and> limits b' = limits b"
    and rate_limit: "apply_op (RateLimit src pps burst v) b = (ok, b') \<Longrightarrow>
      limits b' = (if ok then (limits b)(src_key src \<mapsto> (pps, burst)) else limits b) \<and> blocks b' = blocks b"
    and clear_rate: "apply_op (ClearRate src) b = (ok, b') \<Longrightarrow>
      limits b' = (if ok then (limits b)(src_key src := None) else limits b) \<and> blocks b' = blocks b"
begin

text \<open>Whether the kernel holds the entry of a key.\<close>

definition installed :: "'b \<Rightarrow> mirror_key \<Rightarrow> bool" where
  "installed b k = (case k of KeySrc src \<Rightarrow> limits b (src_key src) \<noteq> None | KeyNet net \<Rightarrow> net_key net \<in> blocks b)"

lemma apply_installs:
  "apply_op (Block net) b = (True, b') \<Longrightarrow> installed b' (KeyNet net)"
  "apply_op (RateLimit src pps burst v) b = (True, b') \<Longrightarrow> installed b' (KeySrc src)"
  using block [of net b True b'] rate_limit [of src pps burst v b True b'] by (simp_all add: installed_def)

lemma apply_keeps:
  "apply_op (Block net) b = (ok, b') \<Longrightarrow> installed b k \<Longrightarrow> installed b' k"
  "apply_op (RateLimit src pps burst v) b = (ok, b') \<Longrightarrow> installed b k \<Longrightarrow> installed b' k"
  using block [of net b ok b'] rate_limit [of src pps burst v b ok b'] by (auto simp: installed_def split: mirror_key.splits if_splits)

lemma unblock_keeps:
  "apply_op (Unblock net) b = (ok, b') \<Longrightarrow> installed b k \<Longrightarrow> (\<And>n. k = KeyNet n \<Longrightarrow> net_key n \<noteq> net_key net) \<Longrightarrow> installed b' k"
  using unblock [of net b ok b'] by (auto simp: installed_def split: mirror_key.splits if_splits)

lemma clear_keeps:
  "apply_op (ClearRate src) b = (ok, b') \<Longrightarrow> installed b k \<Longrightarrow> (\<And>s. k = KeySrc s \<Longrightarrow> src_key s \<noteq> src_key src) \<Longrightarrow> installed b' k"
  using clear_rate [of src b ok b'] by (auto simp: installed_def split: mirror_key.splits if_splits)

end

definition dm_limits :: "dataplane_maps \<Rightarrow> u8 list \<rightharpoonup> u64 \<times> u64" where
  "dm_limits m k = map_option (\<lambda>b. (bk_rate_pps b, bk_burst b)) (hm_get (dm_rate m) k)"

definition dm_blocks :: "dataplane_maps \<Rightarrow> trie_key set" where
  "dm_blocks m = set (hm_keys (dm_block m))"

interpretation dataplane: xdp_executor "dp_apply trunc" dm_blocks dm_limits "lpm_key trunc" rate_key
  for trunc
  by unfold_locales
    (auto simp: dp_block_def dp_unblock_def dp_rate_limit_def dp_clear_rate_limit_def dm_sys_def dm_delete_def dm_blocks_def dm_limits_def
      fun_eq_iff split: list.splits if_splits)

end
