(* ===== verification/Xdp_Manager.thy ===== *)
theory Xdp_Manager
  imports Xdp_Dataplane
begin

text \<open>
  The XDP manager of \<^verbatim>\<open>blackwall-xdp/src/manager.rs\<close>: it executes the decisions of the controller on the
  kernel maps and mirrors them into a journal. The executor and the journal are state-passing
  functions, the boolean being \<open>Ok\<close>; log lines are left out.
\<close>

section \<open>Data\<close>

type_synonym 'b xdp_apply = "xdp_action \<Rightarrow> 'b \<Rightarrow> bool \<times> 'b"

type_synonym 'j xdp_record = "xdp_action \<Rightarrow> xdp_origin \<Rightarrow> nat \<Rightarrow> 'j \<Rightarrow> bool \<times> 'j"

definition noop_xdp_record :: "unit xdp_record" where
  "noop_xdp_record action orig at_ms j = (True, j)"

datatype xm_reject = XmDisarmedReject | XmSelfBlock

datatype xm_outcome = XmApplied | XmDeferred | XmRejected xm_reject

record xm_mirror_op =
  mo_action :: xdp_action
  mo_origin :: xdp_origin
  mo_at_ms :: nat

fun mirror_key_of :: "xdp_action \<Rightarrow> mirror_key" where
  "mirror_key_of (RateLimit src pps burst victim) = KeySrc src"
| "mirror_key_of (ClearRate src) = KeySrc src"
| "mirror_key_of (Block net) = KeyNet net"
| "mirror_key_of (Unblock net) = KeyNet net"

datatype xm_exec_outcome = XeApplied | XeDisarmed | XeFailed

record ('b, 'j) xdp_manager =
  xm_controller :: xdp_controller
  xm_executor :: 'b
  xm_journal :: 'j
  xm_pending_mirror :: "xm_mirror_op list"
  xm_pending_reapply :: "mirror_key list"
  xm_apply_failures :: nat
  xm_disarmed :: bool
  xm_disarmed_skips :: nat

section \<open>Operations\<close>

definition xm_new :: "xdp_controller \<Rightarrow> 'b \<Rightarrow> 'j \<Rightarrow> ('b, 'j) xdp_manager" where
  "xm_new controller executor journal =
     \<lparr>xm_controller = controller, xm_executor = executor, xm_journal = journal, xm_pending_mirror = [],
      xm_pending_reapply = [], xm_apply_failures = 0, xm_disarmed = False, xm_disarmed_skips = 0\<rparr>"

definition xm_queue_mirror :: "xm_mirror_op \<Rightarrow> ('b, 'j) xdp_manager \<Rightarrow> ('b, 'j) xdp_manager" where
  "xm_queue_mirror oper m = m\<lparr>xm_pending_mirror :=
     filter (\<lambda>q. mirror_key_of (mo_action q) \<noteq> mirror_key_of (mo_action oper)) (xm_pending_mirror m) @ [oper]\<rparr>"

definition xm_queue_reapply :: "mirror_key \<Rightarrow> ('b, 'j) xdp_manager \<Rightarrow> ('b, 'j) xdp_manager" where
  "xm_queue_reapply key m = m\<lparr>xm_pending_reapply := filter (\<lambda>q. q \<noteq> key) (xm_pending_reapply m) @ [key]\<rparr>"

fun is_install :: "xdp_action \<Rightarrow> bool" where
  "is_install (Block net) = True"
| "is_install (RateLimit src pps burst victim) = True"
| "is_install (Unblock net) = False"
| "is_install (ClearRate src) = False"

definition xm_rollback :: "bool \<Rightarrow> xdp_action \<Rightarrow> ('b, 'j) xdp_manager \<Rightarrow> ('b, 'j) xdp_manager" where
  "xm_rollback fresh action m = (if fresh then m\<lparr>xm_controller := xc_rollback (xm_controller m) action\<rparr> else m)"

definition execute_and_journal ::
  "'b xdp_apply \<Rightarrow> 'j xdp_record \<Rightarrow> xdp_action \<Rightarrow> xdp_origin \<Rightarrow> nat \<Rightarrow> bool \<Rightarrow> ('b, 'j) xdp_manager \<Rightarrow>
   xm_exec_outcome \<times> ('b, 'j) xdp_manager"
where
  "execute_and_journal ap jr action orig wall_now fresh m =
     (if xm_disarmed m \<and> is_install action
      then (XeDisarmed, (xm_rollback fresh action m)\<lparr>xm_disarmed_skips := sat_inc (xm_disarmed_skips m)\<rparr>)
      else (case ap action (xm_executor m) of
          (False, b) \<Rightarrow> (XeFailed, xm_rollback fresh action
             (m\<lparr>xm_executor := b, xm_apply_failures := sat_inc (xm_apply_failures m)\<rparr>))
        | (True, b) \<Rightarrow> (case jr action orig wall_now (xm_journal m) of
            (True, j) \<Rightarrow> (XeApplied, m\<lparr>xm_executor := b, xm_journal := j\<rparr>)
          | (False, j) \<Rightarrow> (XeApplied, xm_queue_mirror \<lparr>mo_action = action, mo_origin = orig, mo_at_ms = wall_now\<rparr>
              (m\<lparr>xm_executor := b, xm_journal := j\<rparr>)))))"

fun xm_execute_all ::
  "'b xdp_apply \<Rightarrow> 'j xdp_record \<Rightarrow> nat \<Rightarrow> xdp_action list \<Rightarrow> ('b, 'j) xdp_manager \<Rightarrow> ('b, 'j) xdp_manager"
where
  "xm_execute_all ap jr wall_now [] m = m"
| "xm_execute_all ap jr wall_now (a # as) m =
     xm_execute_all ap jr wall_now as (snd (execute_and_journal ap jr a XdpAuto wall_now True m))"

definition xm_on_detection ::
  "addr_test \<Rightarrow> 'b xdp_apply \<Rightarrow> 'j xdp_record \<Rightarrow> detection_event \<Rightarrow> nat \<Rightarrow> ('b, 'j) xdp_manager \<Rightarrow> ('b, 'j) xdp_manager"
where
  "xm_on_detection contains ap jr ev wall_now m =
     (case xc_on_detection contains (xm_controller m) ev of (actions, c) \<Rightarrow>
        xm_execute_all ap jr wall_now actions (m\<lparr>xm_controller := c\<rparr>))"

fun xm_insert_outcome :: "xm_exec_outcome \<Rightarrow> xm_outcome" where
  "xm_insert_outcome XeApplied = XmApplied"
| "xm_insert_outcome XeDisarmed = XmRejected XmDisarmedReject"
| "xm_insert_outcome XeFailed = XmDeferred"

definition xm_apply_add ::
  "net_test \<Rightarrow> 'b xdp_apply \<Rightarrow> 'j xdp_record \<Rightarrow> ip_net \<Rightarrow> nat \<Rightarrow> ('b, 'j) xdp_manager \<Rightarrow> xm_outcome \<times> ('b, 'j) xdp_manager"
where
  "xm_apply_add covers ap jr net wall_now m =
     (let fresh = (\<not> xc_is_blocked (xm_controller m) net) in
      case xc_manual_block covers (xm_controller m) net of
        (Inr action, c) \<Rightarrow>
          (case execute_and_journal ap jr action XdpManual wall_now fresh (m\<lparr>xm_controller := c\<rparr>) of (r, m) \<Rightarrow>
             (xm_insert_outcome r, m))
      | (Inl e, c) \<Rightarrow> (if xc_overlaps_own_prefix covers (xm_controller m) net then XmRejected XmSelfBlock else XmDeferred, m))"

definition xm_apply_remove ::
  "'b xdp_apply \<Rightarrow> 'j xdp_record \<Rightarrow> ip_net \<Rightarrow> nat \<Rightarrow> ('b, 'j) xdp_manager \<Rightarrow> xm_outcome \<times> ('b, 'j) xdp_manager"
where
  "xm_apply_remove ap jr net wall_now m =
     (case xc_manual_unblock (xm_controller m) net of (action, c) \<Rightarrow>
        (XmApplied, snd (execute_and_journal ap jr action XdpManual wall_now False (m\<lparr>xm_controller := c\<rparr>))))"

definition xm_apply_clear_rate ::
  "'b xdp_apply \<Rightarrow> 'j xdp_record \<Rightarrow> ip_addr \<Rightarrow> nat \<Rightarrow> ('b, 'j) xdp_manager \<Rightarrow> xm_outcome \<times> ('b, 'j) xdp_manager"
where
  "xm_apply_clear_rate ap jr src wall_now m =
     (case xc_manual_clear_rate (xm_controller m) src of (action, c) \<Rightarrow>
        (XmApplied, snd (execute_and_journal ap jr action XdpManual wall_now False (m\<lparr>xm_controller := c\<rparr>))))"

definition xm_apply_rate_limit ::
  "'b xdp_apply \<Rightarrow> 'j xdp_record \<Rightarrow> ip_addr \<Rightarrow> u64 \<Rightarrow> u64 \<Rightarrow> nat \<Rightarrow> ('b, 'j) xdp_manager \<Rightarrow> xm_outcome \<times> ('b, 'j) xdp_manager"
where
  "xm_apply_rate_limit ap jr src pps burst wall_now m =
     (let fresh = (\<not> xc_is_rate_limited (xm_controller m) src) in
      case xc_manual_rate_limit (xm_controller m) src pps burst of
        (Inr action, c) \<Rightarrow>
          (case execute_and_journal ap jr action XdpManual wall_now fresh (m\<lparr>xm_controller := c\<rparr>) of (r, m) \<Rightarrow>
             (xm_insert_outcome r, m))
      | (Inl e, c) \<Rightarrow> (XmDeferred, m))"

fun xm_mirror_loop :: "'j xdp_record \<Rightarrow> xm_mirror_op list \<Rightarrow> ('b, 'j) xdp_manager \<Rightarrow> ('b, 'j) xdp_manager" where
  "xm_mirror_loop jr [] m = m"
| "xm_mirror_loop jr (oper # opers) m =
     (case jr (mo_action oper) (mo_origin oper) (mo_at_ms oper) (xm_journal m) of
        (True, j) \<Rightarrow> xm_mirror_loop jr opers (m\<lparr>xm_journal := j\<rparr>)
      | (False, j) \<Rightarrow> xm_mirror_loop jr opers (m\<lparr>xm_journal := j, xm_pending_mirror := xm_pending_mirror m @ [oper]\<rparr>))"

definition xm_retry_pending_mirror :: "'j xdp_record \<Rightarrow> ('b, 'j) xdp_manager \<Rightarrow> ('b, 'j) xdp_manager" where
  "xm_retry_pending_mirror jr m = xm_mirror_loop jr (xm_pending_mirror m) (m\<lparr>xm_pending_mirror := []\<rparr>)"

definition xm_current :: "xdp_controller \<Rightarrow> mirror_key \<Rightarrow> xdp_action option" where
  "xm_current c key = (case key of KeySrc src \<Rightarrow> xc_current_rate_limit c src | KeyNet net \<Rightarrow> xc_current_block c net)"

fun xm_reapply_loop :: "'b xdp_apply \<Rightarrow> mirror_key list \<Rightarrow> ('b, 'j) xdp_manager \<Rightarrow> ('b, 'j) xdp_manager" where
  "xm_reapply_loop ap [] m = m"
| "xm_reapply_loop ap (key # keys) m =
     (case xm_current (xm_controller m) key of
        None \<Rightarrow> xm_reapply_loop ap keys m
      | Some action \<Rightarrow> (case ap action (xm_executor m) of
          (True, b) \<Rightarrow> xm_reapply_loop ap keys (m\<lparr>xm_executor := b\<rparr>)
        | (False, b) \<Rightarrow> xm_reapply_loop ap keys (m\<lparr>xm_executor := b, xm_pending_reapply := xm_pending_reapply m @ [key]\<rparr>)))"

definition xm_retry_pending_reapply :: "'b xdp_apply \<Rightarrow> ('b, 'j) xdp_manager \<Rightarrow> ('b, 'j) xdp_manager" where
  "xm_retry_pending_reapply ap m = xm_reapply_loop ap (xm_pending_reapply m) (m\<lparr>xm_pending_reapply := []\<rparr>)"

definition xm_tick :: "'b xdp_apply \<Rightarrow> 'j xdp_record \<Rightarrow> ('b, 'j) xdp_manager \<Rightarrow> ('b, 'j) xdp_manager" where
  "xm_tick ap jr m = xm_retry_pending_reapply ap (xm_retry_pending_mirror jr m)"

fun xm_reapply_active :: "'b xdp_apply \<Rightarrow> (xdp_action \<times> xdp_origin) list \<Rightarrow> ('b, 'j) xdp_manager \<Rightarrow> ('b, 'j) xdp_manager" where
  "xm_reapply_active ap [] m = m"
| "xm_reapply_active ap ((action, orig) # rows) m =
     (let m = m\<lparr>xm_controller := xc_mark_resumed (xm_controller m) action orig\<rparr> in
      case ap action (xm_executor m) of
        (True, b) \<Rightarrow> xm_reapply_active ap rows (m\<lparr>xm_executor := b\<rparr>)
      | (False, b) \<Rightarrow> xm_reapply_active ap rows (xm_queue_reapply (mirror_key_of action) (m\<lparr>xm_executor := b\<rparr>)))"

fun xm_disarm_one :: "xdp_action \<Rightarrow> xdp_controller \<Rightarrow> (xdp_action \<times> xdp_controller) option" where
  "xm_disarm_one (Block net) c = Some (xc_manual_unblock c net)"
| "xm_disarm_one (RateLimit src pps burst victim) c = Some (xc_manual_clear_rate c src)"
| "xm_disarm_one (Unblock net) c = None"
| "xm_disarm_one (ClearRate src) c = None"

fun xm_disarm_loop :: "'b xdp_apply \<Rightarrow> xdp_action list \<Rightarrow> ('b, 'j) xdp_manager \<Rightarrow> ('b, 'j) xdp_manager" where
  "xm_disarm_loop ap [] m = m"
| "xm_disarm_loop ap (a # as) m =
     (case xm_disarm_one a (xm_controller m) of
        None \<Rightarrow> xm_disarm_loop ap as m
      | Some (undo, c) \<Rightarrow> xm_disarm_loop ap as (m\<lparr>xm_controller := c, xm_executor := snd (ap undo (xm_executor m))\<rparr>))"

definition xm_disarm :: "'b xdp_apply \<Rightarrow> ('b, 'j) xdp_manager \<Rightarrow> ('b, 'j) xdp_manager" where
  "xm_disarm ap m =
     (if xm_disarmed m then m
      else xm_disarm_loop ap (map fst (xc_active_entries (xm_controller m))) (m\<lparr>xm_disarmed := True\<rparr>))"

section \<open>Runs\<close>

datatype xm_op =
    XmDetect detection_event nat
  | XmAdd ip_net nat
  | XmRemove ip_net nat
  | XmRateLimit ip_addr u64 u64 nat
  | XmClearRate ip_addr nat
  | XmTick
  | XmDisarm

fun xm_exec ::
  "addr_test \<Rightarrow> net_test \<Rightarrow> 'b xdp_apply \<Rightarrow> 'j xdp_record \<Rightarrow> xm_op \<Rightarrow> ('b, 'j) xdp_manager \<Rightarrow> ('b, 'j) xdp_manager"
where
  "xm_exec contains covers ap jr (XmDetect ev now) m = xm_on_detection contains ap jr ev now m"
| "xm_exec contains covers ap jr (XmAdd net now) m = snd (xm_apply_add covers ap jr net now m)"
| "xm_exec contains covers ap jr (XmRemove net now) m = snd (xm_apply_remove ap jr net now m)"
| "xm_exec contains covers ap jr (XmRateLimit src pps burst now) m = snd (xm_apply_rate_limit ap jr src pps burst now m)"
| "xm_exec contains covers ap jr (XmClearRate src now) m = snd (xm_apply_clear_rate ap jr src now m)"
| "xm_exec contains covers ap jr XmTick m = xm_tick ap jr m"
| "xm_exec contains covers ap jr XmDisarm m = xm_disarm ap m"

definition xm_run ::
  "addr_test \<Rightarrow> net_test \<Rightarrow> 'b xdp_apply \<Rightarrow> 'j xdp_record \<Rightarrow> xm_op list \<Rightarrow> ('b, 'j) xdp_manager \<Rightarrow> ('b, 'j) xdp_manager"
where
  "xm_run contains covers ap jr opers m = fold (xm_exec contains covers ap jr) opers m"

section \<open>Keys of the controller\<close>

abbreviation ckeys :: "xdp_controller \<Rightarrow> mirror_key set" where
  "ckeys c \<equiv> set (xc_keys c)"

lemma ckeys_get:
  "KeySrc src \<in> ckeys c \<longleftrightarrow> hm_get (xc_rate_limited c) src \<noteq> None" "KeyNet net \<in> ckeys c \<longleftrightarrow> hm_get (xc_blocked_nets c) net \<noteq> None"
  by (auto simp: set_xc_keys hm.keys_get)

lemma ckeys_rollback: "ckeys (xc_rollback c a) = (if is_install a then ckeys c - {mirror_key_of a} else ckeys c)"
  by (cases a) (auto simp: set_xc_keys)

lemma ckeys_block: "ckeys (snd (xc_manual_block covers c net)) \<subseteq> insert (KeyNet net) (ckeys c)"
  by (auto simp: xc_manual_block_def set_xc_keys)

lemma ckeys_unblock: "ckeys (snd (xc_manual_unblock c net)) = ckeys c - {KeyNet net}"
  by (auto simp: xc_manual_unblock_def set_xc_keys)

lemma ckeys_rate_limit: "ckeys (snd (xc_manual_rate_limit c src pps burst)) \<subseteq> insert (KeySrc src) (ckeys c)"
  by (auto simp: xc_manual_rate_limit_def set_xc_keys Let_def)

lemma ckeys_clear_rate: "ckeys (snd (xc_manual_clear_rate c src)) = ckeys c - {KeySrc src}"
  by (auto simp: xc_manual_clear_rate_def set_xc_keys)

lemma ckeys_resumed: "is_install a \<Longrightarrow> ckeys (xc_mark_resumed c a orig) = insert (mirror_key_of a) (ckeys c)"
  by (cases a) (auto simp: set_xc_keys Let_def split: option.splits)

text \<open>The actions a detection event yields, against the keys of the controller.\<close>

lemma limit_sources_actions:
  "ckeys (snd (xc_limit_sources t srcs c)) \<subseteq> ckeys c \<union> mirror_key_of ` set (fst (xc_limit_sources t srcs c)) \<and>
   (\<forall>a \<in> set (fst (xc_limit_sources t srcs c)). is_install a \<and> (\<exists>src \<in> set srcs. mirror_key_of a = KeySrc src))"
proof (induction t srcs c rule: xc_limit_sources.induct)
  case (2 t src srcs c)
  show ?case
  proof (cases "hm_get (xc_rate_limited c) src")
    case (Some e)
    then show ?thesis using "2.IH"(1) by auto
  next
    case None
    then show ?thesis
    proof (cases "xc_max_entries c \<le> xc_total_active c")
      case False
      define c' where "c' = xc_note t src (c\<lparr>xc_rate_limited := hm_insert src
        \<lparr>re_origin = XdpAuto, re_pps = xc_default_rate_pps c, re_burst = xc_default_rate_pps c, re_victim = Some t\<rparr> (xc_rate_limited c)\<rparr>)"
      have "ckeys c' = insert (KeySrc src) (ckeys c)" by (auto simp: c'_def set_xc_keys)
      moreover have "xc_limit_sources t (src # srcs) c =
        (RateLimit src (xc_default_rate_pps c) (xc_default_rate_pps c) (Some t) # fst (xc_limit_sources t srcs c'), snd (xc_limit_sources t srcs c'))"
        using None False by (simp add: c'_def Let_def case_prod_beta)
      moreover have "ckeys (snd (xc_limit_sources t srcs c')) \<subseteq> ckeys c' \<union> mirror_key_of ` set (fst (xc_limit_sources t srcs c')) \<and>
         (\<forall>a \<in> set (fst (xc_limit_sources t srcs c')). is_install a \<and> (\<exists>src \<in> set srcs. mirror_key_of a = KeySrc src))"
        using "2.IH"(2) None False by (simp add: c'_def)
      ultimately show ?thesis by auto
    qed simp
  qed
qed simp

lemma release_ckeys:
  "ckeys (snd (xc_release srcs c)) \<subseteq> ckeys c \<and>
   (\<forall>a \<in> set (fst (xc_release srcs c)). \<not> is_install a \<and> mirror_key_of a \<in> ckeys c \<and> mirror_key_of a \<notin> ckeys (snd (xc_release srcs c)))"
proof -
  have sub: "ckeys (snd (xc_release srcs c)) \<subseteq> ckeys c"
    by (auto simp: set_xc_keys hm.keys_get release_rate split: option.splits)
  have "\<not> is_install a \<and> mirror_key_of a \<in> ckeys c \<and> mirror_key_of a \<notin> ckeys (snd (xc_release srcs c))"
    if a: "a \<in> set (fst (xc_release srcs c))" for a
  proof -
    obtain src where "a = ClearRate src" "src \<in> set srcs" "xc_is_auto c src" "\<not> xc_needed c src"
      using a unfolding release_actions by auto
    moreover from this obtain e where "hm_get (xc_rate_limited c) src = Some e" "re_origin e = XdpAuto"
      by (cases "hm_get (xc_rate_limited c) src") (auto simp: xc_is_auto_def)
    ultimately show ?thesis by (auto simp: ckeys_get release_rate xc_needed_def)
  qed
  then show ?thesis using sub by blast
qed

text \<open>The keys an operation names.\<close>

fun event_keys :: "detection_event \<Rightarrow> mirror_key set" where
  "event_keys (Opened d) = KeySrc ` fst ` set (d_top_sources d)"
| "event_keys (Updated d) = KeySrc ` fst ` set (d_top_sources d)"
| "event_keys (Cleared target at_ms) = {}"

fun xm_op_keys :: "xm_op \<Rightarrow> mirror_key set" where
  "xm_op_keys (XmDetect ev now) = event_keys ev"
| "xm_op_keys (XmAdd net now) = {KeyNet net}"
| "xm_op_keys (XmRemove net now) = {KeyNet net}"
| "xm_op_keys (XmRateLimit src pps burst now) = {KeySrc src}"
| "xm_op_keys (XmClearRate src now) = {KeySrc src}"
| "xm_op_keys XmTick = {}"
| "xm_op_keys XmDisarm = {}"

lemma handle_detection_actions:
  assumes "xc_handle_detection contains c d = (as, c')"
  shows "ckeys c' \<subseteq> ckeys c \<union> mirror_key_of ` set as"
    and "a \<in> set as \<Longrightarrow> is_install a \<and> mirror_key_of a \<in> KeySrc ` fst ` set (d_top_sources d)"
proof -
  consider (none) "as = []" "ckeys c' = ckeys c" | (limit) "(as, c') = xc_limit_sources (d_target d) (map fst (d_top_sources d)) c"
    using assms by (auto simp: xc_handle_detection_def set_xc_keys split: if_splits)
  then have "ckeys c' \<subseteq> ckeys c \<union> mirror_key_of ` set as \<and>
    (\<forall>a \<in> set as. is_install a \<and> mirror_key_of a \<in> KeySrc ` fst ` set (d_top_sources d))"
  proof cases
    case limit
    then have "as = fst (xc_limit_sources (d_target d) (map fst (d_top_sources d)) c)"
      "c' = snd (xc_limit_sources (d_target d) (map fst (d_top_sources d)) c)" by (metis fst_conv, metis snd_conv)
    then show ?thesis using limit_sources_actions [of "d_target d" "map fst (d_top_sources d)" c] by (auto simp: image_iff)
  qed simp
  then show "ckeys c' \<subseteq> ckeys c \<union> mirror_key_of ` set as"
    "a \<in> set as \<Longrightarrow> is_install a \<and> mirror_key_of a \<in> KeySrc ` fst ` set (d_top_sources d)" by blast+
qed

lemma handle_cleared_actions:
  assumes "xc_handle_cleared c t = (as, c')"
  shows "ckeys c' \<subseteq> ckeys c"
    and "a \<in> set as \<Longrightarrow> mirror_key_of a \<in> ckeys c \<and> mirror_key_of a \<notin> ckeys c'"
proof -
  have "ckeys c' \<subseteq> ckeys c \<and> (\<forall>a \<in> set as. mirror_key_of a \<in> ckeys c \<and> mirror_key_of a \<notin> ckeys c')"
  proof (cases "hm_get (xc_by_target c) t")
    case (Some sources)
    let ?c = "c\<lparr>xc_by_target := hm_remove t (xc_by_target c)\<rparr>"
    have "as = fst (xc_release sources ?c)" "c' = snd (xc_release sources ?c)" using Some assms by (simp_all add: xc_handle_cleared_def)
    moreover have "ckeys ?c = ckeys c" by (simp add: set_xc_keys)
    ultimately show ?thesis using release_ckeys [of sources ?c] by blast
  qed (use assms in \<open>simp add: xc_handle_cleared_def\<close>)
  then show "ckeys c' \<subseteq> ckeys c" "a \<in> set as \<Longrightarrow> mirror_key_of a \<in> ckeys c \<and> mirror_key_of a \<notin> ckeys c'" by blast+
qed

lemma detection_actions:
  assumes "xc_on_detection contains c ev = (as, c')"
  shows "ckeys c' \<subseteq> ckeys c \<union> mirror_key_of ` {a \<in> set as. is_install a}"
    and "mirror_key_of ` set as \<subseteq> ckeys c \<union> event_keys ev"
    and "\<forall>a \<in> set as. \<not> is_install a \<longrightarrow> mirror_key_of a \<notin> ckeys c'"
proof -
  have det: "(ckeys c' \<subseteq> ckeys c \<union> mirror_key_of ` {a \<in> set as. is_install a}) \<and>
      mirror_key_of ` set as \<subseteq> ckeys c \<union> KeySrc ` fst ` set (d_top_sources d) \<and> (\<forall>a \<in> set as. \<not> is_install a \<longrightarrow> mirror_key_of a \<notin> ckeys c')"
    if "xc_handle_detection contains c d = (as, c')" for d
  proof -
    note h = handle_detection_actions [OF that]
    have "{a \<in> set as. is_install a} = set as" using h(2) by blast
    then show ?thesis using h by (simp add: image_subset_iff)
  qed
  have clr: "ckeys c' \<subseteq> ckeys c \<union> mirror_key_of ` {a \<in> set as. is_install a} \<and>
      mirror_key_of ` set as \<subseteq> ckeys c \<and> (\<forall>a \<in> set as. \<not> is_install a \<longrightarrow> mirror_key_of a \<notin> ckeys c')"
    if "xc_handle_cleared c t = (as, c')" for t
    using handle_cleared_actions [OF that] by blast
  show "ckeys c' \<subseteq> ckeys c \<union> mirror_key_of ` {a \<in> set as. is_install a}" using assms det clr by (cases ev) simp_all
  show "mirror_key_of ` set as \<subseteq> ckeys c \<union> event_keys ev" using assms det clr by (cases ev) simp_all
  show "\<forall>a \<in> set as. \<not> is_install a \<longrightarrow> mirror_key_of a \<notin> ckeys c'" using assms det clr by (cases ev) simp_all
qed

lemma current_key: "xm_current c k = Some a \<Longrightarrow> is_install a \<and> mirror_key_of a = k"
  by (cases k) (auto simp: xm_current_def xc_current_rate_limit_def xc_current_block_def split: if_splits)

lemma current_none: "xm_current c k = None \<longleftrightarrow> k \<notin> ckeys c"
  by (cases k) (simp_all add: xm_current_def xc_current_rate_limit_def xc_current_block_def ckeys_get)

lemma mirror_loop_keeps [simp]:
  "xm_controller (xm_mirror_loop jr opers m) = xm_controller m" "xm_executor (xm_mirror_loop jr opers m) = xm_executor m"
  "xm_pending_reapply (xm_mirror_loop jr opers m) = xm_pending_reapply m" "xm_disarmed (xm_mirror_loop jr opers m) = xm_disarmed m"
  by (induction jr opers m rule: xm_mirror_loop.induct) (simp_all split: prod.split bool.split)

lemma disarm_one:
  "xm_disarm_one a c = Some (undo, c') \<Longrightarrow>
     is_install a \<and> \<not> is_install undo \<and> mirror_key_of undo = mirror_key_of a \<and> ckeys c' = ckeys c - {mirror_key_of a}"
  "xm_disarm_one a c = None \<longleftrightarrow> \<not> is_install a"
  by (cases a; auto simp: xc_manual_unblock_def xc_manual_clear_rate_def set_xc_keys)+

lemma disarm_loop_keys:
  "ckeys (xm_controller (xm_disarm_loop ap as m)) = ckeys (xm_controller m) - mirror_key_of ` {a \<in> set as. is_install a}"
proof (induction as arbitrary: m)
  case (Cons a as)
  have split: "mirror_key_of ` {x \<in> set (a # as). is_install x} =
    (if is_install a then insert (mirror_key_of a) (mirror_key_of ` {x \<in> set as. is_install x}) else mirror_key_of ` {x \<in> set as. is_install x})" by auto
  show ?case
  proof (cases "xm_disarm_one a (xm_controller m)")
    case None
    have "\<not> is_install a" using disarm_one(2) [of a "xm_controller m"] None by simp
    then show ?thesis unfolding split using Cons None by simp
  next
    case (Some p)
    obtain undo c where p: "p = (undo, c)" by fastforce
    note d = disarm_one(1) [OF Some [unfolded p]]
    have "ckeys (xm_controller (xm_disarm_loop ap (a # as) m)) = ckeys c - mirror_key_of ` {x \<in> set as. is_install x}"
      unfolding xm_disarm_loop.simps Some p option.case prod.case Cons.IH by simp
    then show ?thesis unfolding split using d by auto
  qed
qed simp

lemma active_keys: "mirror_key_of ` set (map fst (xc_active_entries c)) = ckeys c" "\<forall>a \<in> set (map fst (xc_active_entries c)). is_install a"
  by (force simp: xc_active_entries_def set_xc_keys hm_keys_def)+

lemma disarm_keys: "\<not> xm_disarmed m \<Longrightarrow> ckeys (xm_controller (xm_disarm ap m)) = {}"
proof -
  let ?as = "map fst (xc_active_entries (xm_controller m))"
  have "{a \<in> set ?as. is_install a} = set ?as" using active_keys(2) by blast
  then show "\<not> xm_disarmed m \<Longrightarrow> ?thesis" using active_keys(1) [of "xm_controller m"] by (simp add: xm_disarm_def disarm_loop_keys)
qed

lemma disarm_loop_disarmed [simp]: "xm_disarmed (xm_disarm_loop ap as m) = xm_disarmed m"
  by (induction ap as m rule: xm_disarm_loop.induct) (simp_all split: option.split prod.split)

section \<open>What is active is enforced\<close>

context xdp_executor
begin

text \<open>Keys of a set that the kernel tells apart.\<close>

definition no_alias :: "mirror_key set \<Rightarrow> bool" where
  "no_alias K \<longleftrightarrow> inj_on net_key {n. KeyNet n \<in> K} \<and> inj_on src_key {s. KeySrc s \<in> K}"

text \<open>Every active key is installed, queued for another attempt, or still to be executed.\<close>

definition enforced :: "mirror_key set \<Rightarrow> mirror_key set \<Rightarrow> ('b, 'j) xdp_manager \<Rightarrow> bool" where
  "enforced K T m \<longleftrightarrow> ckeys (xm_controller m) \<subseteq> K \<and>
     (\<forall>k \<in> ckeys (xm_controller m). installed (xm_executor m) k \<or> k \<in> set (xm_pending_reapply m) \<or> k \<in> T)"

lemma remove_keeps:
  assumes "no_alias K" "\<not> is_install a" "mirror_key_of a \<in> K" "k \<in> K" "k \<noteq> mirror_key_of a"
    and "apply_op a b = (ok, b')" "installed b k"
  shows "installed b' k"
proof (cases a)
  case (Unblock net)
  then show ?thesis using assms unblock_keeps [of net b ok b' k]
    by (auto simp: no_alias_def inj_on_def)
next
  case (ClearRate src)
  then show ?thesis using assms clear_keeps [of src b ok b' k]
    by (auto simp: no_alias_def inj_on_def)
qed (use assms(2) in auto)

lemma install_effect:
  assumes "is_install a" "apply_op a b = (ok, b')"
  shows "installed b k \<Longrightarrow> installed b' k" and "ok \<Longrightarrow> installed b' (mirror_key_of a)"
  using assms apply_installs apply_keeps by (cases a; force)+

lemma execute_enforced:
  assumes K: "no_alias K" "mirror_key_of a \<in> K"
    and m: "if is_install a \<and> fresh then enforced K (insert (mirror_key_of a) T) m else enforced K T m"
    and gone: "\<not> is_install a \<Longrightarrow> mirror_key_of a \<notin> ckeys (xm_controller m)"
  shows "enforced K T (snd (execute_and_journal apply_op jr a orig now fresh m))"
    and "ckeys (xm_controller (snd (execute_and_journal apply_op jr a orig now fresh m))) \<subseteq> ckeys (xm_controller m)"
proof -
  let ?r = "execute_and_journal apply_op jr a orig now fresh m"
  obtain ok b where b: "apply_op a (xm_executor m) = (ok, b)" by fastforce
  obtain jok j where j: "jr a orig now (xm_journal m) = (jok, j)" by fastforce
  have roll: "xm_executor (xm_rollback fresh a m') = xm_executor m'" "xm_pending_reapply (xm_rollback fresh a m') = xm_pending_reapply m'"
    "ckeys (xm_controller (xm_rollback fresh a m')) =
       (if fresh \<and> is_install a then ckeys (xm_controller m') - {mirror_key_of a} else ckeys (xm_controller m'))" for m' :: "('b, 'j) xdp_manager"
    by (auto simp: xm_rollback_def ckeys_rollback)
  have keep: "installed b k" if "installed (xm_executor m) k" "k \<in> ckeys (xm_controller m)" for k
  proof (cases "is_install a")
    case True
    then show ?thesis using install_effect(1) [OF True b] that(1) by blast
  next
    case False
    have "k \<in> K" using m that(2) by (auto simp: enforced_def split: if_splits)
    then show ?thesis using remove_keeps [OF K(1) False K(2) _ _ b that(1)] gone [OF False] that(2) by blast
  qed
  have inst: "is_install a \<Longrightarrow> ok \<Longrightarrow> installed b (mirror_key_of a)" using install_effect(2) [OF _ b] by blast
  consider (dis) "xm_disarmed m \<and> is_install a" | (fail) "\<not> (xm_disarmed m \<and> is_install a)" "\<not> ok" | (ok) "\<not> (xm_disarmed m \<and> is_install a)" ok
    by blast
  then have "enforced K T (snd ?r) \<and> ckeys (xm_controller (snd ?r)) \<subseteq> ckeys (xm_controller m)"
  proof cases
    case dis
    then have r: "snd ?r = (xm_rollback fresh a m)\<lparr>xm_disarmed_skips := sat_inc (xm_disarmed_skips m)\<rparr>"
      by (simp add: execute_and_journal_def)
    show ?thesis unfolding r using m dis by (auto simp: enforced_def roll split: if_splits)
  next
    case fail
    then have r: "snd ?r = xm_rollback fresh a (m\<lparr>xm_executor := b, xm_apply_failures := sat_inc (xm_apply_failures m)\<rparr>)"
      using b by (auto simp: execute_and_journal_def)
    show ?thesis unfolding r using m keep by (auto simp: enforced_def roll split: if_splits)
  next
    case ok
    then have r: "xm_controller (snd ?r) = xm_controller m" "xm_executor (snd ?r) = b" "xm_pending_reapply (snd ?r) = xm_pending_reapply m"
      using b j by (auto simp: execute_and_journal_def xm_queue_mirror_def split: bool.splits)
    show ?thesis unfolding enforced_def r using m keep inst ok by (auto simp: enforced_def split: if_splits)
  qed
  then show "enforced K T (snd ?r)" "ckeys (xm_controller (snd ?r)) \<subseteq> ckeys (xm_controller m)" by blast+
qed

lemma execute_all_enforced:
  assumes K: "no_alias K" "mirror_key_of ` set as \<subseteq> K"
    and "enforced K (T \<union> mirror_key_of ` {a \<in> set as. is_install a}) m"
    and "\<forall>a \<in> set as. \<not> is_install a \<longrightarrow> mirror_key_of a \<notin> ckeys (xm_controller m)"
  shows "enforced K T (xm_execute_all apply_op jr now as m)"
  using assms(2-4)
proof (induction as arbitrary: m)
  case (Cons a as)
  let ?T = "T \<union> mirror_key_of ` {a \<in> set as. is_install a}"
  let ?m = "snd (execute_and_journal apply_op jr a XdpAuto now True m)"
  have T: "T \<union> mirror_key_of ` {x \<in> set (a # as). is_install x} = (if is_install a then insert (mirror_key_of a) ?T else ?T)" by auto
  have gone: "\<not> is_install a \<Longrightarrow> mirror_key_of a \<notin> ckeys (xm_controller m)" using Cons.prems(3) by simp
  have pre: "if is_install a \<and> True then enforced K (insert (mirror_key_of a) ?T) m else enforced K ?T m"
    using Cons.prems(2) unfolding T by (cases "is_install a") simp_all
  have ka: "mirror_key_of a \<in> K" using Cons.prems(1) by simp
  note e = execute_enforced [OF K(1) ka pre gone, of jr XdpAuto now]
  show ?case using Cons.IH [OF _ e(1)] e(2) Cons.prems(1,3) by auto
qed simp

lemma enforced_mono: "enforced K T m \<Longrightarrow> T \<subseteq> T' \<Longrightarrow> enforced K T' m"
  by (auto simp: enforced_def)

lemma detection_enforced:
  assumes K: "no_alias K" "event_keys ev \<subseteq> K" and m: "enforced K T m"
  shows "enforced K T (xm_on_detection contains apply_op jr ev now m)"
proof -
  obtain as c where r: "xc_on_detection contains (xm_controller m) ev = (as, c)" by fastforce
  note a = detection_actions [OF r]
  have "mirror_key_of ` set as \<subseteq> K" using a(2) K(2) m by (auto simp: enforced_def)
  moreover from this have "enforced K (T \<union> mirror_key_of ` {a \<in> set as. is_install a}) (m\<lparr>xm_controller := c\<rparr>)"
    using a(1) m unfolding enforced_def by (simp, blast)
  ultimately show ?thesis using execute_all_enforced [OF K(1), of as T "m\<lparr>xm_controller := c\<rparr>" jr now] a(3)
    by (simp add: xm_on_detection_def r)
qed

lemma insert_enforced:
  assumes K: "no_alias K" "k \<in> K" and a: "is_install a" "mirror_key_of a = k"
    and c: "ckeys c \<subseteq> insert k (ckeys (xm_controller m))" and fresh: "\<not> fresh \<Longrightarrow> k \<in> ckeys (xm_controller m)" and m: "enforced K T m"
  shows "enforced K T (snd (execute_and_journal apply_op jr a orig now fresh (m\<lparr>xm_controller := c\<rparr>)))"
proof (rule execute_enforced(1) [OF K(1)])
  show "mirror_key_of a \<in> K" using K a by simp
  show "if is_install a \<and> fresh then enforced K (insert (mirror_key_of a) T) (m\<lparr>xm_controller := c\<rparr>) else enforced K T (m\<lparr>xm_controller := c\<rparr>)"
    using m c K(2) a fresh by (cases fresh) (auto simp: enforced_def)
qed (use a in simp)

lemma add_enforced:
  assumes "no_alias K" "KeyNet net \<in> K" "enforced K T m"
  shows "enforced K T (snd (xm_apply_add covers apply_op jr net now m))"
proof -
  obtain r c where r: "xc_manual_block covers (xm_controller m) net = (r, c)" by fastforce
  then have c: "ckeys c \<subseteq> insert (KeyNet net) (ckeys (xm_controller m))"
    using ckeys_block [of covers "xm_controller m" net] by simp
  show ?thesis
  proof (cases r)
    case (Inr a)
    then have "a = Block net" using r by (auto simp: xc_manual_block_def split: if_splits)
    then show ?thesis using insert_enforced [OF assms(1,2) _ _ c _ assms(3), of a "\<not> xc_is_blocked (xm_controller m) net" jr XdpManual now] Inr r
      by (auto simp: xm_apply_add_def xc_is_blocked_def ckeys_get case_prod_beta Let_def)
  qed (use assms r in \<open>simp add: xm_apply_add_def\<close>)
qed

lemma rate_enforced:
  assumes "no_alias K" "KeySrc src \<in> K" "enforced K T m"
  shows "enforced K T (snd (xm_apply_rate_limit apply_op jr src pps burst now m))"
proof -
  obtain r c where r: "xc_manual_rate_limit (xm_controller m) src pps burst = (r, c)" by fastforce
  then have c: "ckeys c \<subseteq> insert (KeySrc src) (ckeys (xm_controller m))"
    using ckeys_rate_limit [of "xm_controller m" src pps burst] by simp
  show ?thesis
  proof (cases r)
    case (Inr a)
    then have "a = RateLimit src pps burst None" using r by (auto simp: xc_manual_rate_limit_def Let_def split: if_splits)
    then show ?thesis using insert_enforced [OF assms(1,2) _ _ c _ assms(3), of a "\<not> xc_is_rate_limited (xm_controller m) src" jr XdpManual now] Inr r
      by (auto simp: xm_apply_rate_limit_def xc_is_rate_limited_def ckeys_get case_prod_beta Let_def)
  qed (use assms r in \<open>simp add: xm_apply_rate_limit_def\<close>)
qed

lemma remove_enforced:
  assumes "no_alias K" "KeyNet net \<in> K" "enforced K T m"
  shows "enforced K T (snd (xm_apply_remove apply_op jr net now m))"
  unfolding xm_apply_remove_def xc_manual_unblock_def prod.case snd_conv
  using assms by (intro execute_enforced(1)) (auto simp: enforced_def set_xc_keys)

lemma clear_enforced:
  assumes "no_alias K" "KeySrc src \<in> K" "enforced K T m"
  shows "enforced K T (snd (xm_apply_clear_rate apply_op jr src now m))"
  unfolding xm_apply_clear_rate_def xc_manual_clear_rate_def prod.case snd_conv
  using assms by (intro execute_enforced(1)) (auto simp: enforced_def set_xc_keys)

lemma reapply_loop_enforced:
  "enforced K (T \<union> set keys) m \<Longrightarrow> enforced K T (xm_reapply_loop apply_op keys m)"
proof (induction keys arbitrary: m)
  case (Cons k keys)
  show ?case
  proof (cases "xm_current (xm_controller m) k")
    case None
    then have "enforced K (T \<union> set keys) m" using Cons.prems by (auto simp: enforced_def current_none)
    then show ?thesis using Cons.IH None by simp
  next
    case (Some a)
    obtain ok b where b: "apply_op a (xm_executor m) = (ok, b)" by fastforce
    have a: "is_install a" "mirror_key_of a = k" using current_key [OF Some] by simp_all
    note eff = install_effect [OF a(1) b]
    have "enforced K (T \<union> set keys) (if ok then m\<lparr>xm_executor := b\<rparr> else m\<lparr>xm_executor := b, xm_pending_reapply := xm_pending_reapply m @ [k]\<rparr>)"
      using Cons.prems eff a(2) unfolding enforced_def by (cases ok) auto
    then show ?thesis using Cons.IH Some b by (cases ok) simp_all
  qed
qed simp

lemma reapply_loop_grows: "installed (xm_executor m) k \<Longrightarrow> installed (xm_executor (xm_reapply_loop apply_op keys m)) k"
proof (induction keys arbitrary: m)
  case (Cons x keys)
  show ?case
  proof (cases "xm_current (xm_controller m) x")
    case None
    then show ?thesis using Cons by simp
  next
    case (Some a)
    obtain ok b where b: "apply_op a (xm_executor m) = (ok, b)" by fastforce
    have "installed b k" using install_effect(1) [OF _ b Cons.prems] current_key [OF Some] by simp
    then show ?thesis using Cons.IH Some b by (cases ok) simp_all
  qed
qed simp

lemma tick_enforced: "enforced K T m \<Longrightarrow> enforced K T (xm_tick apply_op jr m)"
  unfolding xm_tick_def xm_retry_pending_reapply_def xm_retry_pending_mirror_def
  by (rule reapply_loop_enforced) (auto simp: enforced_def)

lemma reapply_active_enforced:
  "(\<forall>(a, orig) \<in> set rows. is_install a \<and> mirror_key_of a \<in> K) \<Longrightarrow> enforced K T m \<Longrightarrow>
   enforced K T (xm_reapply_active apply_op rows m)"
proof (induction rows arbitrary: m)
  case (Cons row rows)
  obtain a orig where row: "row = (a, orig)" by fastforce
  obtain ok b where b: "apply_op a (xm_executor m) = (ok, b)" by fastforce
  have a: "is_install a" "mirror_key_of a \<in> K" using Cons.prems(1) row by auto
  let ?m = "m\<lparr>xm_controller := xc_mark_resumed (xm_controller m) a orig, xm_executor := b\<rparr>"
  have "enforced K T (if ok then ?m else xm_queue_reapply (mirror_key_of a) ?m)"
    using Cons.prems(2) a install_effect [OF a(1) b] ckeys_resumed [OF a(1)]
    unfolding enforced_def by (cases ok) (auto simp: xm_queue_reapply_def)
  then show ?case using Cons.IH Cons.prems(1) row b by (cases ok) (simp_all add: Let_def)
qed simp

lemma exec_enforced:
  assumes "no_alias K" "xm_op_keys oper \<subseteq> K" "enforced K T m"
  shows "enforced K T (xm_exec contains covers apply_op jr oper m)"
proof (cases oper)
  case XmDisarm
  then show ?thesis using assms(3) disarm_keys [of m apply_op] by (cases "xm_disarmed m") (simp_all add: enforced_def xm_disarm_def)
qed (use assms in \<open>auto intro: detection_enforced add_enforced remove_enforced rate_enforced clear_enforced tick_enforced\<close>)

lemma run_enforced:
  assumes "no_alias K" "\<Union> (xm_op_keys ` set opers) \<subseteq> K" "enforced K T m"
  shows "enforced K T (xm_run contains covers apply_op jr opers m)"
  using assms(2,3) unfolding xm_run_def by (induction opers arbitrary: m) (auto intro: exec_enforced [OF assms(1)])

text \<open>A disarmed manager: the kernel holds nothing it did not hold before, and nothing but \<open>T\<close> is active.\<close>

definition silent :: "'b \<Rightarrow> mirror_key set \<Rightarrow> ('b, 'j) xdp_manager \<Rightarrow> bool" where
  "silent b T m \<longleftrightarrow> xm_disarmed m \<and> ckeys (xm_controller m) \<subseteq> T \<and> (\<forall>k. installed (xm_executor m) k \<longrightarrow> installed b k)"

lemma removal_shrinks: "\<not> is_install a \<Longrightarrow> apply_op a b = (ok, b') \<Longrightarrow> installed b' k \<Longrightarrow> installed b k"
  using unblock [of _ b ok b'] clear_rate [of _ b ok b']
  by (cases a) (auto simp: installed_def split: mirror_key.splits if_splits)

lemma execute_silent:
  assumes "silent b (if is_install a \<and> fresh then insert (mirror_key_of a) T else T) m"
  shows "silent b T (snd (execute_and_journal apply_op jr a orig now fresh m))"
proof (cases "is_install a")
  case True
  then show ?thesis using assms by (auto simp: silent_def execute_and_journal_def xm_rollback_def ckeys_rollback split: if_splits)
next
  case False
  obtain ok b' where b': "apply_op a (xm_executor m) = (ok, b')" by fastforce
  have "\<forall>k. installed b' k \<longrightarrow> installed b k" using removal_shrinks [OF False b'] assms by (auto simp: silent_def)
  then show ?thesis using False assms b'
    by (auto simp: silent_def execute_and_journal_def xm_rollback_def ckeys_rollback xm_queue_mirror_def split: prod.split bool.split)
qed

lemma execute_all_silent:
  "silent b (T \<union> mirror_key_of ` {a \<in> set as. is_install a}) m \<Longrightarrow> silent b T (xm_execute_all apply_op jr now as m)"
proof (induction as arbitrary: m)
  case (Cons a as)
  let ?T = "T \<union> mirror_key_of ` {a \<in> set as. is_install a}"
  have "T \<union> mirror_key_of ` {x \<in> set (a # as). is_install x} = (if is_install a \<and> True then insert (mirror_key_of a) ?T else ?T)" by auto
  then show ?case using Cons.IH [OF execute_silent [of b a True ?T m jr XdpAuto now]] Cons.prems by simp
qed simp

lemma detection_silent:
  assumes "silent b {} m"
  shows "silent b {} (xm_on_detection contains apply_op jr ev now m)"
proof -
  obtain as c where r: "xc_on_detection contains (xm_controller m) ev = (as, c)" by fastforce
  have "silent b ({} \<union> mirror_key_of ` {a \<in> set as. is_install a}) (m\<lparr>xm_controller := c\<rparr>)"
    using assms detection_actions(1) [OF r] by (auto simp: silent_def)
  from execute_all_silent [OF this] show ?thesis by (simp add: xm_on_detection_def r)
qed

lemma insert_silent:
  assumes "silent b {} m" "ckeys c \<subseteq> insert (mirror_key_of a) (ckeys (xm_controller m))" "is_install a"
  shows "silent b {} (snd (execute_and_journal apply_op jr a orig now True (m\<lparr>xm_controller := c\<rparr>)))"
  using assms by (intro execute_silent) (auto simp: silent_def)

lemma reapply_loop_silent: "ckeys (xm_controller m) = {} \<Longrightarrow> xm_reapply_loop apply_op keys m = m"
  by (induction keys) (simp_all add: iffD2 [OF current_none])

lemma add_silent:
  assumes "silent b {} m"
  shows "silent b {} (snd (xm_apply_add covers apply_op jr net now m))"
proof -
  obtain r c where r: "xc_manual_block covers (xm_controller m) net = (r, c)" by fastforce
  have "hm_get (xc_blocked_nets (xm_controller m)) net = None" using assms ckeys_get(2) [of net "xm_controller m"] by (simp add: silent_def)
  moreover have "ckeys c \<subseteq> insert (KeyNet net) (ckeys (xm_controller m))" using ckeys_block [of covers "xm_controller m" net] r by simp
  moreover have "a = Block net" if "r = Inr a" for a using r that by (auto simp: xc_manual_block_def split: if_splits)
  ultimately show ?thesis using assms insert_silent [OF assms, of c "Block net"] r
    by (cases r) (simp_all add: xm_apply_add_def xc_is_blocked_def case_prod_beta)
qed

lemma rate_silent:
  assumes "silent b {} m"
  shows "silent b {} (snd (xm_apply_rate_limit apply_op jr src pps burst now m))"
proof -
  obtain r c where r: "xc_manual_rate_limit (xm_controller m) src pps burst = (r, c)" by fastforce
  have "hm_get (xc_rate_limited (xm_controller m)) src = None" using assms ckeys_get(1) [of src "xm_controller m"] by (simp add: silent_def)
  moreover have "ckeys c \<subseteq> insert (KeySrc src) (ckeys (xm_controller m))" using ckeys_rate_limit [of "xm_controller m" src pps burst] r by simp
  moreover have "a = RateLimit src pps burst None" if "r = Inr a" for a using r that by (auto simp: xc_manual_rate_limit_def Let_def split: if_splits)
  ultimately show ?thesis using assms insert_silent [OF assms, of c "RateLimit src pps burst None"] r
    by (cases r) (simp_all add: xm_apply_rate_limit_def xc_is_rate_limited_def case_prod_beta)
qed

lemma remove_silent:
  assumes "silent b {} m"
  shows "silent b {} (snd (xm_apply_remove apply_op jr net now m))" "silent b {} (snd (xm_apply_clear_rate apply_op jr src now m))"
  unfolding xm_apply_remove_def xc_manual_unblock_def xm_apply_clear_rate_def xc_manual_clear_rate_def prod.case snd_conv
  using assms by (intro execute_silent; simp add: silent_def set_xc_keys)+

lemma exec_silent:
  assumes "silent b {} m"
  shows "silent b {} (xm_exec contains covers apply_op jr oper m)"
proof (cases oper)
  case XmTick
  then show ?thesis using assms
    by (simp add: xm_tick_def xm_retry_pending_reapply_def xm_retry_pending_mirror_def silent_def reapply_loop_silent)
next
  case XmDisarm
  then show ?thesis using assms by (simp add: xm_disarm_def silent_def)
qed (use assms in \<open>auto intro: detection_silent add_silent rate_silent remove_silent\<close>)

lemma run_silent: "silent b {} m \<Longrightarrow> silent b {} (xm_run contains covers apply_op jr opers m)"
  unfolding xm_run_def by (induction opers arbitrary: m) (auto intro: exec_silent)

lemma disarm_loop_shrinks: "installed (xm_executor (xm_disarm_loop apply_op as m)) k \<Longrightarrow> installed (xm_executor m) k"
proof (induction as arbitrary: m)
  case (Cons a as)
  show ?case
  proof (cases "xm_disarm_one a (xm_controller m)")
    case None
    then show ?thesis using Cons by simp
  next
    case (Some p)
    obtain undo c where p: "p = (undo, c)" by fastforce
    have "\<not> is_install undo" using disarm_one(1) [OF Some [unfolded p]] by simp
    then have "installed (snd (apply_op undo (xm_executor m))) k \<Longrightarrow> installed (xm_executor m) k"
      using removal_shrinks [of undo "xm_executor m"] by (metis prod.collapse)
    then show ?thesis using Cons.IH [of "m\<lparr>xm_controller := c, xm_executor := snd (apply_op undo (xm_executor m))\<rparr>"] Cons.prems Some p by simp
  qed
qed simp

lemma disarm_silent: "\<not> xm_disarmed m \<Longrightarrow> silent (xm_executor m) {} (xm_disarm apply_op m)"
  using disarm_keys [of m apply_op] disarm_loop_shrinks [of "map fst (xc_active_entries (xm_controller m))" "m\<lparr>xm_disarmed := True\<rparr>"]
  by (auto simp: silent_def xm_disarm_def disarm_loop_disarmed)

end

end
