(* ===== verification/Xdp_Enforce.thy ===== *)
theory Xdp_Enforce
  imports Xdp_Manager
begin

text \<open>
  The XDP manager, its map writer and the packet filter together: what the manager reports as active
  is in the kernel maps, a disarmed manager installs nothing, a blocked network's packets are dropped.
  The longest-prefix-match tables are read the way the kernel documents them: an address matches an
  entry if they agree on the bits of the entry's prefix.
\<close>

section \<open>The kernel's view of an entry\<close>

fun in_kernel :: "(ip_net \<Rightarrow> ip_net) \<Rightarrow> dataplane_maps \<Rightarrow> mirror_key \<Rightarrow> bool" where
  "in_kernel trunc b (KeySrc src) = (hm_get (dm_rate b) (rate_key src) \<noteq> None)"
| "in_kernel trunc b (KeyNet net) = (hm_get (dm_block b) (lpm_key trunc net) \<noteq> None)"

lemma installed_in_kernel: "dataplane.installed trunc b k = in_kernel trunc b k"
  by (cases k) (simp_all add: dataplane.installed_def dm_limits_def dm_blocks_def hm.keys_get)

definition kernel_distinct :: "(ip_net \<Rightarrow> ip_net) \<Rightarrow> mirror_key set \<Rightarrow> bool" where
  "kernel_distinct trunc K \<longleftrightarrow> inj_on (lpm_key trunc) {net. KeyNet net \<in> K} \<and> inj_on rate_key {src. KeySrc src \<in> K}"

text \<open>A manager that took over the journaled entries \<open>rows\<close> and then ran \<open>opers\<close>.\<close>

definition xm_boot ::
  "addr_test \<Rightarrow> net_test \<Rightarrow> (ip_net \<Rightarrow> ip_net) \<Rightarrow> 'j xdp_record \<Rightarrow> (xdp_action \<times> xdp_origin) list \<Rightarrow> xm_op list \<Rightarrow>
   (dataplane_maps, 'j) xdp_manager \<Rightarrow> (dataplane_maps, 'j) xdp_manager"
where
  "xm_boot contains covers trunc jr rows opers m =
     xm_run contains covers (dp_apply trunc) jr opers (xm_reapply_active (dp_apply trunc) rows m)"

definition named_keys :: "(xdp_action \<times> xdp_origin) list \<Rightarrow> xm_op list \<Rightarrow> mirror_key set" where
  "named_keys rows opers = mirror_key_of ` fst ` set rows \<union> \<Union> (xm_op_keys ` set opers)"

lemma boot_enforced:
  assumes "\<forall>row \<in> set rows. is_install (fst row)" "kernel_distinct trunc (named_keys rows opers)"
    and "k \<in> ckeys (xm_controller (xm_boot contains covers trunc jr rows opers (xm_new (xc_new prefixes cap rate protected) b j)))"
  defines "m \<equiv> xm_boot contains covers trunc jr rows opers (xm_new (xc_new prefixes cap rate protected) b j)"
  shows "in_kernel trunc (xm_executor m) k \<or> k \<in> set (xm_pending_reapply m)"
proof -
  let ?K = "named_keys rows opers"
  have K: "dataplane.no_alias trunc ?K" using assms(2) by (simp add: kernel_distinct_def dataplane.no_alias_def)
  have "dataplane.enforced trunc ?K {} (xm_new (xc_new prefixes cap rate protected) b j)"
    by (simp add: dataplane.enforced_def xm_new_def xc_new_def xc_keys_def hm_keys_def)
  then have "dataplane.enforced trunc ?K {} (xm_reapply_active (dp_apply trunc) rows (xm_new (xc_new prefixes cap rate protected) b j))"
    using assms(1) by (intro dataplane.reapply_active_enforced) (force simp: named_keys_def)+
  then have "dataplane.enforced trunc ?K {} m"
    unfolding m_def xm_boot_def by (intro dataplane.run_enforced [OF K]) (auto simp: named_keys_def)
  then show ?thesis using assms(3) by (auto simp: dataplane.enforced_def m_def installed_in_kernel)
qed

lemma dp_removes:
  "set (dm_outcomes b) \<subseteq> {True} \<Longrightarrow> \<not> is_install a \<Longrightarrow>
   \<not> in_kernel trunc (snd (dp_apply trunc a b)) (mirror_key_of a) \<and> set (dm_outcomes (snd (dp_apply trunc a b))) \<subseteq> {True}"
  by (cases a) (auto simp: dp_unblock_def dp_clear_rate_limit_def dm_delete_def dm_sys_def split: list.splits dest: list.set_sel(2) [rotated])

lemma disarm_loop_removes:
  assumes "set (dm_outcomes (xm_executor m)) \<subseteq> {True}" "a \<in> set as" "is_install a"
  shows "\<not> in_kernel trunc (xm_executor (xm_disarm_loop (dp_apply trunc) as m)) (mirror_key_of a)"
  using assms(1,2)
proof (induction as arbitrary: m)
  case (Cons x as)
  show ?case
  proof (cases "xm_disarm_one x (xm_controller m)")
    case None
    then show ?thesis using Cons assms(3) disarm_one(2) [of x "xm_controller m"] by auto
  next
    case (Some p)
    obtain undo c where p: "p = (undo, c)" by fastforce
    note d = disarm_one(1) [OF Some [unfolded p]]
    let ?m = "m\<lparr>xm_controller := c, xm_executor := snd (dp_apply trunc undo (xm_executor m))\<rparr>"
    have r: "\<not> in_kernel trunc (xm_executor ?m) (mirror_key_of x)" "set (dm_outcomes (xm_executor ?m)) \<subseteq> {True}"
      using dp_removes [OF Cons.prems(1), of undo trunc] d by auto
    have l: "xm_disarm_loop (dp_apply trunc) (x # as) m = xm_disarm_loop (dp_apply trunc) as ?m" using Some p by simp
    show ?thesis
    proof (cases "a = x")
      case True
      then show ?thesis using r(1) dataplane.disarm_loop_shrinks [of trunc as ?m "mirror_key_of a"] unfolding l installed_in_kernel by blast
    next
      case False
      then show ?thesis using Cons.IH [OF r(2)] Cons.prems(2) unfolding l by simp
    qed
  qed
qed simp

lemma tick_grows: "in_kernel trunc (xm_executor m) k \<Longrightarrow> in_kernel trunc (xm_executor (xm_tick (dp_apply trunc) jr m)) k"
  unfolding xm_tick_def xm_retry_pending_reapply_def installed_in_kernel [symmetric]
  by (rule dataplane.reapply_loop_grows) (simp add: xm_retry_pending_mirror_def)

section \<open>Longest-prefix match\<close>

definition lpm_match :: "nat \<Rightarrow> u8 list \<Rightarrow> u8 list \<Rightarrow> bool" where
  "lpm_match len k a \<longleftrightarrow> (\<forall>i < len. bit (k ! (i div 8)) (7 - i mod 8) = bit (a ! (i div 8)) (7 - i mod 8))"

definition kernel_env :: "dataplane_maps \<Rightarrow> xdp_env \<Rightarrow> xdp_env" where
  "kernel_env b e = e\<lparr>xe_block_v4 := (\<lambda>a. \<exists>len k. LpmV4 len k \<in> dm_blocks b \<and> lpm_match len k a),
                      xe_block_v6 := (\<lambda>a. \<exists>len k. LpmV6 len k \<in> dm_blocks b \<and> lpm_match len k a)\<rparr>"

text \<open>Documented behaviour of the truncation: family, length and network bits are kept.\<close>

definition trunc_keeps :: "(ip_net \<Rightarrow> ip_net) \<Rightarrow> bool" where
  "trunc_keeps trunc \<longleftrightarrow>
     (\<forall>a l. \<exists>b. trunc (NetV4 a l) = NetV4 b l \<and> drop_bit (32 - l) b = drop_bit (32 - l) a) \<and>
     (\<forall>a l. \<exists>b. trunc (NetV6 a l) = NetV6 b l \<and> drop_bit (128 - l) b = drop_bit (128 - l) a)"

lemma net_trunc_keeps: "trunc_keeps net_trunc"
  by (auto simp: trunc_keeps_def bit_simps intro!: bit_word_eqI) (drule bit_imp_le_length, simp)+

lemma be32_bit: "i < 32 \<Longrightarrow> bit (be32 w ! (i div 8)) (7 - i mod 8) = bit w (31 - i)"
proof -
  assume i: "i < 32"
  define j r where "j = i div 8" and "r = i mod 8"
  have ir: "i = 8 * j + r" "r < 8" by (simp_all add: j_def r_def)
  then have "j = 0 \<or> j = 1 \<or> j = 2 \<or> j = 3" using i by auto
  then show ?thesis using ir unfolding j_def [symmetric] r_def [symmetric]
    by (auto simp: be32_def bit_simps algebra_simps intro!: arg_cong [where f = "bit w"])
qed

lemma be64_bit: "i < 64 \<Longrightarrow> bit (be64 w ! (i div 8)) (7 - i mod 8) = bit w (63 - i)"
proof (cases "i < 32")
  case True
  then have "be64 w ! (i div 8) = be32 (ucast (drop_bit 32 w)) ! (i div 8)" by (auto simp: be64_def nth_append)
  then show ?thesis using True be32_bit [of i "ucast (drop_bit 32 w)"] by (auto simp: bit_simps)
next
  case False
  then have "i div 8 = 4 + (i - 32) div 8" "i mod 8 = (i - 32) mod 8" by presburger+
  then have "be64 w ! (i div 8) = be32 (ucast w) ! ((i - 32) div 8)" "i mod 8 = (i - 32) mod 8"
    by (simp_all add: be64_def nth_append)
  then show "i < 64 \<Longrightarrow> ?thesis" using False be32_bit [of "i - 32" "ucast w"] by (auto simp: bit_simps)
qed

lemma be128_bit: "i < 128 \<Longrightarrow> bit (be128 w ! (i div 8)) (7 - i mod 8) = bit w (127 - i)"
proof (cases "i < 64")
  case True
  then have "be128 w ! (i div 8) = be64 (ucast (drop_bit 64 w)) ! (i div 8)" by (auto simp: be128_def nth_append)
  then show ?thesis using True be64_bit [of i "ucast (drop_bit 64 w)"] by (auto simp: bit_simps)
next
  case False
  then have "i div 8 = 8 + (i - 64) div 8" "i mod 8 = (i - 64) mod 8" by presburger+
  then have "be128 w ! (i div 8) = be64 (ucast w) ! ((i - 64) div 8)" "i mod 8 = (i - 64) mod 8"
    by (simp_all add: be128_def nth_append)
  then show "i < 128 \<Longrightarrow> ?thesis" using False be64_bit [of "i - 64" "ucast w"] by (auto simp: bit_simps)
qed

lemma drop_bits_agree:
  fixes a b :: "'a::len word"
  assumes "drop_bit (n - l) a = drop_bit (n - l) b" "i < l" "l \<le> n"
  shows "bit a (n - 1 - i) = bit b (n - 1 - i)"
proof -
  have "bit (drop_bit (n - l) a) (l - 1 - i) = bit (drop_bit (n - l) b) (l - 1 - i)" using assms(1) by simp
  moreover have "n - l + (l - 1 - i) = n - 1 - i" using assms by simp
  ultimately show ?thesis by (simp add: bit_simps)
qed

text \<open>A blocked network's entry matches every address of the network.\<close>

lemma block_matches:
  assumes "trunc_keeps trunc" "net_wf net" "net_contains net a" "in_kernel trunc b (KeyNet net)"
  shows "case a of V4 x \<Rightarrow> xe_block_v4 (kernel_env b e) (octets a) | V6 x \<Rightarrow> xe_block_v6 (kernel_env b e) (octets a)"
proof (cases net)
  case (NetV4 n l)
  then obtain x where x: "a = V4 x" "drop_bit (32 - l) n = drop_bit (32 - l) x" using assms(3) by (cases a) auto
  obtain n' where n': "trunc net = NetV4 n' l" "drop_bit (32 - l) n' = drop_bit (32 - l) n"
    using assms(1) unfolding trunc_keeps_def NetV4 by blast
  have "lpm_match l (be32 n') (be32 x)" unfolding lpm_match_def
  proof (intro allI impI)
    fix i assume i: "i < l"
    then show "bit (be32 n' ! (i div 8)) (7 - i mod 8) = bit (be32 x ! (i div 8)) (7 - i mod 8)"
      using drop_bits_agree [of 32 l n' x i] n' x assms(2) NetV4 by (simp add: be32_bit)
  qed
  moreover have "LpmV4 l (be32 n') \<in> dm_blocks b" using assms(4) NetV4 n' by (simp add: dm_blocks_def hm.keys_get)
  ultimately show ?thesis using x(1) by (auto simp: kernel_env_def)
next
  case (NetV6 n l)
  then obtain x where x: "a = V6 x" "drop_bit (128 - l) n = drop_bit (128 - l) x" using assms(3) by (cases a) auto
  obtain n' where n': "trunc net = NetV6 n' l" "drop_bit (128 - l) n' = drop_bit (128 - l) n"
    using assms(1) unfolding trunc_keeps_def NetV6 by blast
  have "lpm_match l (be128 n') (be128 x)" unfolding lpm_match_def
  proof (intro allI impI)
    fix i assume i: "i < l"
    then show "bit (be128 n' ! (i div 8)) (7 - i mod 8) = bit (be128 x ! (i div 8)) (7 - i mod 8)"
      using drop_bits_agree [of 128 l n' x i] n' x assms(2) NetV6 by (simp add: be128_bit)
  qed
  moreover have "LpmV6 l (be128 n') \<in> dm_blocks b" using assms(4) NetV6 n' by (simp add: dm_blocks_def hm.keys_get)
  ultimately show ?thesis using x(1) by (auto simp: kernel_env_def)
qed

text \<open>The source of a frame.\<close>

definition frame_from :: "xdp_env \<Rightarrow> u8 list \<Rightarrow> ip_addr \<Rightarrow> bool" where
  "frame_from e f a = (case a of
      V4 x \<Rightarrow> is_v4 e f \<and> src_v4 e f = octets a
    | V6 x \<Rightarrow> \<not> is_v4 e f \<and> is_v6_frame e f \<and> src_v6 e f = octets a)"

lemma frame_from_kernel [simp]: "frame_from (kernel_env b e) f a = frame_from e f a"
  by (cases a) (simp_all add: frame_from_def kernel_env_def is_v4_def is_v6_frame_def src_v4_def src_v6_def)

lemma blocked_verdict:
  assumes "frame_from e (xs_frame s) a" "case a of V4 x \<Rightarrow> xe_block_v4 e (octets a) | V6 x \<Rightarrow> xe_block_v6 e (octets a)"
  shows "fst (xdp_filter e s) = XdpDrop"
  using assms by (cases a) (auto simp: verdict_eq verdict_def verdict_v4_def verdict_v6_def frame_from_def)

section \<open>Properties\<close>

text \<open>One blocked network 198.51.100.0/24, installed by an operator on empty maps.\<close>

definition empty_maps :: dataplane_maps where
  "empty_maps = \<lparr>dm_block = [], dm_rate = [], dm_cookie_key = None, dm_protect = [], dm_protect_port = [], dm_redirect_port = [],
     dm_tx_budget = \<lparr>tx_tokens = 0, tx_last_ns = 0, tx_rate_pps = 0\<rparr>, dm_outcomes = []\<rparr>"

definition sample_xm :: "(dataplane_maps, unit) xdp_manager" where
  "sample_xm = xm_new sample_xc empty_maps ()"

abbreviation sample_boot :: "(xdp_action \<times> xdp_origin) list \<Rightarrow> xm_op list \<Rightarrow> (dataplane_maps, unit) xdp_manager" where
  "sample_boot rows opers \<equiv> xm_boot net_contains sample_covers net_trunc noop_xdp_record rows opers sample_xm"

lemmas sample_xm_simps = xm_boot_def xm_run_def sample_xm_def xm_new_def sample_xc_def xc_new_def empty_maps_def xm_apply_add_def
  xc_is_blocked_def xc_manual_block_def xc_overlaps_own_prefix_def xc_total_active_def execute_and_journal_def noop_xdp_record_def
  dp_block_def dm_sys_def hm_get_def hm_insert_def hm_len_def Let_def

text \<open>
  What the XDP manager calls active is enforced. A manager takes over the journaled entries of a
  previous run and then handles any sequence of detections, operator commands, retries and a disarm,
  with any of its map system calls and journal writes failing. Then every active block or limit has
  its entry in the kernel maps or is queued for another attempt, provided that the networks and the
  sources named in the history have different kernel keys.
\<close>

lemma xdp_active_enforced:
  assumes "\<forall>row \<in> set rows. is_install (fst row)" "kernel_distinct trunc (named_keys rows opers)"
    and "m = xm_boot contains covers trunc jr rows opers (xm_new (xc_new prefixes cap rate protected) b j)"
    and "(a, orig) \<in> set (xc_active_entries (xm_controller m))"
  shows "in_kernel trunc (xm_executor m) (mirror_key_of a) \<or> mirror_key_of a \<in> set (xm_pending_reapply m)"
proof -
  have "mirror_key_of a \<in> ckeys (xm_controller m)" using assms(4) active_keys(1) [of "xm_controller m"] by force
  then show ?thesis unfolding assms(3) by (rule boot_enforced [OF assms(1,2)])
qed

text \<open>
  C21. A blocked network is cut off, from the operator's command to the packet. If a network is active in
  the manager after any history as above and not waiting for a retry, every frame whose source lies in
  it is dropped by the packet filter running over the maps the manager wrote, in both address
  families. The assumptions on the prefix operations are what the \<^verbatim>\<open>ipnet\<close> crate documents.
\<close>

theorem blocked_network_dropped:
  assumes "\<forall>row \<in> set rows. is_install (fst row)" "kernel_distinct trunc (named_keys rows opers)" "trunc_keeps trunc"
    and "m = xm_boot contains covers trunc jr rows opers (xm_new (xc_new prefixes cap rate protected) b j)"
    and "xc_is_blocked (xm_controller m) net" "KeyNet net \<notin> set (xm_pending_reapply m)"
    and "net_wf net" "net_contains net a" "frame_from e (xs_frame s) a"
  shows "fst (xdp_filter (kernel_env (xm_executor m) e) s) = XdpDrop"
proof -
  have "KeyNet net \<in> ckeys (xm_controller m)" using assms(5) by (simp add: ckeys_get xc_is_blocked_def)
  then have "in_kernel trunc (xm_executor m) (KeyNet net) \<or> KeyNet net \<in> set (xm_pending_reapply m)"
    unfolding assms(4) by (rule boot_enforced [OF assms(1,2)])
  then have "in_kernel trunc (xm_executor m) (KeyNet net)" using assms(6) by blast
  from block_matches [OF assms(3,7,8) this] show ?thesis by (intro blocked_verdict) (use assms(9) in simp_all)
qed

theorem blocked_network_dropped_witness:
  "fst (xdp_filter (kernel_env (xm_executor (sample_boot [] [XmAdd (NetV4 0xC6336400 24) 0])) sample_env) (sample_state sample_syn)) = XdpDrop"
proof -
  let ?net = "NetV4 0xC6336400 24" and ?m = "sample_boot [] [XmAdd (NetV4 0xC6336400 24) 0]"
  have "xc_is_blocked (xm_controller ?m) ?net" "KeyNet ?net \<notin> set (xm_pending_reapply ?m)" by (simp_all add: sample_xm_simps)
  moreover have "kernel_distinct net_trunc (named_keys [] [XmAdd ?net 0])" by (simp add: kernel_distinct_def named_keys_def inj_on_def)
  moreover have "frame_from sample_env (xs_frame (sample_state sample_syn)) (V4 0xC6336401)"
    by (simp add: frame_from_def is_v4_def src_v4_def sample_env_def wire_types_def sample_state_def sample_syn_def field_def be32_def)
  moreover have "net_contains ?net (V4 0xC6336401)" by simp
  ultimately show ?thesis using blocked_network_dropped
    [of "[]" net_trunc "[XmAdd ?net 0]" ?m net_contains sample_covers noop_xdp_record "[NetV4 0xCB007100 24]" 3 1000 "[NetV4 0xCB007135 32]"
      empty_maps "()" ?net "V4 0xC6336401" sample_env "sample_state sample_syn"] net_trunc_keeps
    by (simp add: sample_xm_def sample_xc_def)
qed

text \<open>
  C22. A disarm of the XDP manager is final. Whatever happens afterwards, no entry is active and the
  kernel maps hold no entry they did not hold at the time of the disarm; if its map system calls
  succeed, none of the entries that were active then is left.
\<close>

theorem xdp_disarm_silences:
  assumes "\<not> xm_disarmed m" and m'_def: "m' = xm_run contains covers (dp_apply trunc) jr opers (xm_disarm (dp_apply trunc) m)"
  shows "xc_active_entries (xm_controller m') = [] \<and>
    (\<forall>k. in_kernel trunc (xm_executor m') k \<longrightarrow> in_kernel trunc (xm_executor m) k) \<and>
    (set (dm_outcomes (xm_executor m)) \<subseteq> {True} \<longrightarrow>
      (\<forall>(a, orig) \<in> set (xc_active_entries (xm_controller m)). \<not> in_kernel trunc (xm_executor m') (mirror_key_of a)))"
proof -
  let ?d = "xm_disarm (dp_apply trunc) m"
  have d: "dataplane.silent trunc (xm_executor m) {} ?d" by (rule dataplane.disarm_silent [OF assms(1)])
  then have d': "dataplane.silent trunc (xm_executor ?d) {} ?d" by (simp add: dataplane.silent_def)
  have s: "dataplane.silent trunc (xm_executor m) {} m'" "dataplane.silent trunc (xm_executor ?d) {} m'"
    unfolding m'_def by (rule dataplane.run_silent [OF d], rule dataplane.run_silent [OF d'])
  have "set (xc_active_entries (xm_controller m')) = {}"
    using s(1) active_keys(1) [of "xm_controller m'"] by (simp add: dataplane.silent_def)
  moreover have "\<not> in_kernel trunc (xm_executor m') (mirror_key_of a)"
    if "set (dm_outcomes (xm_executor m)) \<subseteq> {True}" "(a, orig) \<in> set (xc_active_entries (xm_controller m))" for a orig
  proof -
    have a: "a \<in> set (map fst (xc_active_entries (xm_controller m)))" using that(2) by force
    then have "is_install a" using active_keys(2) [of "xm_controller m"] by blast
    then have "\<not> in_kernel trunc (xm_executor ?d) (mirror_key_of a)"
      using assms(1) that(1) disarm_loop_removes [OF _ a, of "m\<lparr>xm_disarmed := True\<rparr>" trunc] by (simp add: xm_disarm_def)
    then show ?thesis using s(2) by (auto simp: dataplane.silent_def installed_in_kernel)
  qed
  ultimately show ?thesis using s(1) by (auto simp: dataplane.silent_def installed_in_kernel)
qed

theorem xdp_disarm_silences_witness:
  "let m = sample_boot [] [XmAdd (NetV4 0xC6336400 24) 0];
       m' = xm_run net_contains sample_covers (dp_apply net_trunc) noop_xdp_record [XmAdd (NetV4 0xC6336500 24) 9] (xm_disarm (dp_apply net_trunc) m)
   in xc_active_entries (xm_controller m') = [] \<and> \<not> in_kernel net_trunc (xm_executor m') (KeyNet (NetV4 0xC6336400 24))"
proof -
  let ?m = "sample_boot [] [XmAdd (NetV4 0xC6336400 24) 0]"
  have "\<not> xm_disarmed ?m" "dm_outcomes (xm_executor ?m) = []"
    "xc_active_entries (xm_controller ?m) = [(Block (NetV4 0xC6336400 24), XdpManual)]"
    by (simp_all add: sample_xm_simps xc_active_entries_def)
  then show ?thesis using xdp_disarm_silences [of ?m _ net_contains sample_covers net_trunc noop_xdp_record "[XmAdd (NetV4 0xC6336500 24) 9]"]
    by (simp add: Let_def)
qed

text \<open>
  C28. An unblock whose map deletion fails is lost. The manager reports it as applied and no longer knows
  the network, the journal keeps its row, nothing is queued, and however often the manager ticks the
  entry stays in the kernel, so the network stays cut off.
\<close>

theorem xdp_remove_lost:
  assumes "in_kernel trunc (xm_executor m) (KeyNet net)" "dm_outcomes (xm_executor m) = False # oks"
    and "xm_apply_remove (dp_apply trunc) jr net now m = (r, m')"
  shows "r = XmApplied \<and> \<not> xc_is_blocked (xm_controller m') net \<and> xm_journal m' = xm_journal m \<and>
    xm_pending_mirror m' = xm_pending_mirror m \<and>
    in_kernel trunc (xm_executor ((xm_tick (dp_apply trunc) jr ^^ n) m')) (KeyNet net)"
proof -
  have m': "r = XmApplied" "xm_controller m' = snd (xc_manual_unblock (xm_controller m) net)"
    "xm_executor m' = (xm_executor m)\<lparr>dm_outcomes := oks\<rparr>" "xm_journal m' = xm_journal m" "xm_pending_mirror m' = xm_pending_mirror m"
    using assms by (auto simp: xm_apply_remove_def xc_manual_unblock_def execute_and_journal_def dp_unblock_def dm_delete_def dm_sys_def
        xm_rollback_def)
  have "in_kernel trunc (xm_executor ((xm_tick (dp_apply trunc) jr ^^ n) m')) (KeyNet net)"
  proof (induction n)
    case (Suc n)
    then show ?case unfolding funpow.simps comp_apply by (rule tick_grows)
  qed (use assms(1) m'(3) in simp)
  moreover have "\<not> xc_is_blocked (xm_controller m') net" by (simp add: m'(2) xc_manual_unblock_def xc_is_blocked_def)
  ultimately show ?thesis using m' by blast
qed

theorem xdp_remove_lost_witness:
  "\<exists>m'. xm_apply_remove (dp_apply net_trunc) noop_xdp_record (NetV4 0xC6336400 24) 1
      (let m = sample_boot [] [XmAdd (NetV4 0xC6336400 24) 0] in m\<lparr>xm_executor := (xm_executor m)\<lparr>dm_outcomes := [False]\<rparr>\<rparr>) = (XmApplied, m') \<and>
    in_kernel net_trunc (xm_executor ((xm_tick (dp_apply net_trunc) noop_xdp_record ^^ 100) m')) (KeyNet (NetV4 0xC6336400 24))"
proof -
  let ?m = "let m = sample_boot [] [XmAdd (NetV4 0xC6336400 24) 0] in m\<lparr>xm_executor := (xm_executor m)\<lparr>dm_outcomes := [False]\<rparr>\<rparr>"
  obtain r m' where r: "xm_apply_remove (dp_apply net_trunc) noop_xdp_record (NetV4 0xC6336400 24) 1 ?m = (r, m')" by fastforce
  have "in_kernel net_trunc (xm_executor ?m) (KeyNet (NetV4 0xC6336400 24))" "dm_outcomes (xm_executor ?m) = [False]"
    by (simp_all add: sample_xm_simps)
  from xdp_remove_lost [OF this r, of 100] r show ?thesis by blast
qed

end
