(* ===== verification/Xdp_Journal.thy ===== *)
theory Xdp_Journal
  imports Xdp_Enforce Journal
begin

text \<open>
  The mirror of the XDP entries in the database (\<^verbatim>\<open>blackwall-state/src/xdp.rs\<close>) and the way back from a row
  to an action (\<^verbatim>\<open>bin/blackwalld/src/main.rs\<close>): a row's existence means that the entry is active. The
  numbers are stored as signed 64-bit integers, the conversions included. As in the other journal,
  whether a statement reaches the database is a schedule in the state. The contract the manager
  relies on is a locale, and the manager over a working executor and journal is shown to keep the
  mirror equal to its table.
\<close>

section \<open>The table\<close>

record xdp_entry_tuple =
  et_kind :: string
  et_target :: ip_addr
  et_prefixlen :: "int option"
  et_rate_pps :: "int option"
  et_burst :: "int option"
  et_origin :: string
  et_victim :: "ip_addr option"

record xdp_entry_row =
  er_kind :: string
  er_target :: ip_addr
  er_prefixlen :: "nat option"
  er_rate_pps :: "u64 option"
  er_burst :: "u64 option"
  er_origin :: string
  er_victim :: "ip_addr option"

record xdp_entries =
  en_rows :: "xdp_entry_tuple list"
  en_outcomes :: "bool list"

definition en_query :: "(xdp_entry_tuple list \<Rightarrow> xdp_entry_tuple list) \<Rightarrow> xdp_entries \<Rightarrow> bool \<times> xdp_entries" where
  "en_query stmt st = (case en_outcomes st of
     [] \<Rightarrow> (True, st\<lparr>en_rows := stmt (en_rows st)\<rparr>)
   | ok # oks \<Rightarrow> (ok, st\<lparr>en_rows := (if ok then stmt (en_rows st) else en_rows st), en_outcomes := oks\<rparr>))"

text \<open>\<open>map(try_from).transpose()\<close>: a conversion that may fail under an option.\<close>

fun try_opt :: "('a \<Rightarrow> 'b option) \<Rightarrow> 'a option \<Rightarrow> 'b option option" where
  "try_opt f None = Some None"
| "try_opt f (Some x) = map_option Some (f x)"

definition try_i64 :: "u64 \<Rightarrow> int option" where
  "try_i64 v = (if unat v \<le> i64_max then Some (uint v) else None)"

definition try_u64 :: "int \<Rightarrow> u64 option" where
  "try_u64 i = (if 0 \<le> i then Some (word_of_int i) else None)"

definition try_len :: "int \<Rightarrow> nat option" where
  "try_len i = (if 0 \<le> i \<and> i < 256 then Some (nat i) else None)"

definition same_entry :: "string \<Rightarrow> ip_addr \<Rightarrow> int option \<Rightarrow> xdp_entry_tuple \<Rightarrow> bool" where
  "same_entry kind target prefixlen r \<longleftrightarrow> et_kind r = kind \<and> et_target r = target \<and> et_prefixlen r = prefixlen"

definition xdp_record_apply ::
  "string \<Rightarrow> ip_addr \<Rightarrow> nat option \<Rightarrow> u64 option \<Rightarrow> u64 option \<Rightarrow> string \<Rightarrow> ip_addr option \<Rightarrow> xdp_entries \<Rightarrow> bool \<times> xdp_entries"
where
  "xdp_record_apply kind target prefixlen rate_pps burst orig victim st =
     (case (try_opt try_i64 rate_pps, try_opt try_i64 burst) of
        (Some rate_i64, Some burst_i64) \<Rightarrow>
          en_query (\<lambda>rows. filter (\<lambda>r. \<not> same_entry kind target (map_option int prefixlen) r) rows @
            [\<lparr>et_kind = kind, et_target = target, et_prefixlen = map_option int prefixlen, et_rate_pps = rate_i64,
              et_burst = burst_i64, et_origin = orig, et_victim = victim\<rparr>]) st
      | _ \<Rightarrow> (False, st))"

definition xdp_record_remove :: "string \<Rightarrow> ip_addr \<Rightarrow> nat option \<Rightarrow> xdp_entries \<Rightarrow> bool \<times> xdp_entries" where
  "xdp_record_remove kind target prefixlen =
     en_query (\<lambda>rows. filter (\<lambda>r. \<not> same_entry kind target (map_option int prefixlen) r) rows)"

definition decode_entry :: "xdp_entry_tuple \<Rightarrow> xdp_entry_row option" where
  "decode_entry r =
     (case (try_opt try_len (et_prefixlen r), try_opt try_u64 (et_rate_pps r), try_opt try_u64 (et_burst r)) of
        (Some prefixlen, Some rate_pps, Some burst) \<Rightarrow>
          Some \<lparr>er_kind = et_kind r, er_target = et_target r, er_prefixlen = prefixlen, er_rate_pps = rate_pps,
            er_burst = burst, er_origin = et_origin r, er_victim = et_victim r\<rparr>
      | _ \<Rightarrow> None)"

text \<open>The rows in the order of their identifiers, which is the order of insertion.\<close>

definition xdp_active :: "xdp_entries \<Rightarrow> xdp_entry_row list option \<times> xdp_entries" where
  "xdp_active st = (case en_query id st of (ok, st') \<Rightarrow> (if ok then those (map decode_entry (en_rows st)) else None, st'))"

fun origin_str :: "xdp_origin \<Rightarrow> string" where
  "origin_str XdpAuto = ''auto''"
| "origin_str XdpManual = ''manual''"

fun pg_xdp_record :: "xdp_entries xdp_record" where
  "pg_xdp_record (Block net) orig at_ms st =
     xdp_record_apply ''block'' (net_addr net) (Some (prefix_len net)) None None (origin_str orig) None st"
| "pg_xdp_record (RateLimit src pps burst victim) orig at_ms st =
     xdp_record_apply ''rate_limit'' src None (Some pps) (Some burst) (origin_str orig) victim st"
| "pg_xdp_record (Unblock net) orig at_ms st = xdp_record_remove ''block'' (net_addr net) (Some (prefix_len net)) st"
| "pg_xdp_record (ClearRate src) orig at_ms st = xdp_record_remove ''rate_limit'' src None st"

section \<open>From a row to an action\<close>

fun net_new :: "ip_addr \<Rightarrow> nat \<Rightarrow> ip_net option" where
  "net_new (V4 a) len = (if len \<le> 32 then Some (NetV4 a len) else None)"
| "net_new (V6 a) len = (if len \<le> 128 then Some (NetV6 a len) else None)"

definition xdp_net_from :: "ip_addr \<Rightarrow> nat option \<Rightarrow> ip_net option" where
  "xdp_net_from target prefixlen = (case prefixlen of Some len \<Rightarrow> net_new target len | None \<Rightarrow> Some (host_prefix target))"

definition xdp_entry_to_action :: "xdp_entry_row \<Rightarrow> (xdp_action \<times> xdp_origin) option" where
  "xdp_entry_to_action row =
     (let orig = (if er_origin row = ''manual'' then XdpManual else XdpAuto) in
      if er_kind row = ''block'' then map_option (\<lambda>net. (Block net, orig)) (xdp_net_from (er_target row) (er_prefixlen row))
      else if er_kind row = ''rate_limit''
      then map_option (\<lambda>pps. (RateLimit (er_target row) pps (case er_burst row of None \<Rightarrow> pps | Some b \<Rightarrow> b) (er_victim row), orig)) (er_rate_pps row)
      else None)"

text \<open>What a start of the daemon hands to \<open>reapply_active\<close>; it fails if the table cannot be read.\<close>

definition xdp_rehydrate :: "xdp_entries \<Rightarrow> (xdp_action \<times> xdp_origin) list option \<times> xdp_entries" where
  "xdp_rehydrate st = (case xdp_active st of (rows, st') \<Rightarrow> (map_option (List.map_filter xdp_entry_to_action) rows, st'))"

section \<open>The journal contract\<close>

type_synonym xdp_view = "mirror_key \<rightharpoonup> xdp_action \<times> xdp_origin"

definition mirror_write :: "xdp_action \<Rightarrow> xdp_origin \<Rightarrow> xdp_view \<Rightarrow> xdp_view" where
  "mirror_write a orig v = v(mirror_key_of a := if is_install a then Some (a, orig) else None)"

text \<open>Actions within the range of the columns.\<close>

fun journalable :: "xdp_action \<Rightarrow> bool" where
  "journalable (Block net) = net_wf net"
| "journalable (Unblock net) = net_wf net"
| "journalable (RateLimit src pps burst victim) = (unat pps \<le> i64_max \<and> unat burst \<le> i64_max)"
| "journalable (ClearRate src) = True"

locale xdp_journal =
  fixes mirror :: "'j xdp_record"
    and saved :: "'j \<Rightarrow> xdp_view"
    and valid :: "'j \<Rightarrow> bool"
    and up :: "'j \<Rightarrow> bool"
  assumes mirror_saved: "valid j \<Longrightarrow> journalable a \<Longrightarrow> mirror a orig at_ms j = (ok, j') \<Longrightarrow>
      valid j' \<and> saved j' = (if ok then mirror_write a orig (saved j) else saved j)"
    and mirror_up: "up j \<Longrightarrow> journalable a \<Longrightarrow> mirror a orig at_ms j = (ok, j') \<Longrightarrow> ok \<and> up j'"

section \<open>The database keeps the contract\<close>

definition row_key :: "xdp_entry_tuple \<Rightarrow> mirror_key option" where
  "row_key r = map_option (mirror_key_of \<circ> fst) (Option.bind (decode_entry r) xdp_entry_to_action)"

text \<open>The rows that the journal writes.\<close>

definition row_ok :: "xdp_entry_tuple \<Rightarrow> bool" where
  "row_ok r \<longleftrightarrow>
     et_kind r = ''block'' \<and> (\<exists>net. net_wf net \<and> et_target r = net_addr net \<and> et_prefixlen r = Some (int (prefix_len net))) \<and>
       et_rate_pps r = None \<and> et_burst r = None \<or>
     et_kind r = ''rate_limit'' \<and> et_prefixlen r = None \<and>
       (\<exists>pps burst. unat pps \<le> i64_max \<and> unat burst \<le> i64_max \<and> et_rate_pps r = Some (uint (pps :: u64)) \<and> et_burst r = Some (uint (burst :: u64)))"

definition row_entry :: "xdp_entry_tuple \<Rightarrow> xdp_action \<times> xdp_origin" where
  "row_entry r = the (Option.bind (decode_entry r) xdp_entry_to_action)"

definition en_valid :: "xdp_entries \<Rightarrow> bool" where
  "en_valid st \<longleftrightarrow> (\<forall>r \<in> set (en_rows st). row_ok r) \<and> distinct (map (mirror_key_of \<circ> fst \<circ> row_entry) (en_rows st))"

definition en_saved :: "xdp_entries \<Rightarrow> xdp_view" where
  "en_saved st = map_of (map (\<lambda>r. (mirror_key_of (fst (row_entry r)), row_entry r)) (en_rows st))"

definition en_up :: "xdp_entries \<Rightarrow> bool" where
  "en_up st \<longleftrightarrow> set (en_outcomes st) \<subseteq> {True}"

lemma net_new_wf: "net_wf net \<Longrightarrow> net_new (net_addr net) (prefix_len net) = Some net"
  by (cases net) simp_all

lemma decode_block:
  assumes "net_wf net"
  shows "Option.bind (decode_entry \<lparr>et_kind = ''block'', et_target = net_addr net, et_prefixlen = Some (int (prefix_len net)),
     et_rate_pps = None, et_burst = None, et_origin = org, et_victim = v\<rparr>) xdp_entry_to_action =
     Some (Block net, if org = ''manual'' then XdpManual else XdpAuto)"
proof -
  have "prefix_len net < 256" using assms by (cases net) simp_all
  then show ?thesis using net_new_wf [OF assms]
    by (simp add: decode_entry_def try_len_def xdp_entry_to_action_def xdp_net_from_def Let_def)
qed

lemma decode_rate:
  "Option.bind (decode_entry \<lparr>et_kind = ''rate_limit'', et_target = src, et_prefixlen = None, et_rate_pps = Some (uint (pps :: u64)),
     et_burst = Some (uint (burst :: u64)), et_origin = org, et_victim = v\<rparr>) xdp_entry_to_action =
     Some (RateLimit src pps burst v, if org = ''manual'' then XdpManual else XdpAuto)"
  by (simp add: decode_entry_def try_u64_def xdp_entry_to_action_def Let_def)

text \<open>A valid row has an entry, and the row a statement addresses is the one with the key of the action.\<close>

lemma row_ok_entry:
  assumes "row_ok r"
  shows "Option.bind (decode_entry r) xdp_entry_to_action = Some (row_entry r)" "is_install (fst (row_entry r))" "journalable (fst (row_entry r))"
    and "net_wf net \<Longrightarrow> same_entry ''block'' (net_addr net) (Some (int (prefix_len net))) r \<longleftrightarrow> mirror_key_of (fst (row_entry r)) = KeyNet net"
    and "same_entry ''rate_limit'' src None r \<longleftrightarrow> mirror_key_of (fst (row_entry r)) = KeySrc src"
proof -
  consider (b) n where "net_wf n" "r = \<lparr>et_kind = ''block'', et_target = net_addr n, et_prefixlen = Some (int (prefix_len n)),
      et_rate_pps = None, et_burst = None, et_origin = et_origin r, et_victim = et_victim r\<rparr>"
    | (l) pps burst where "unat pps \<le> i64_max" "unat burst \<le> i64_max" "r = \<lparr>et_kind = ''rate_limit'', et_target = et_target r,
      et_prefixlen = None, et_rate_pps = Some (uint (pps :: u64)), et_burst = Some (uint (burst :: u64)), et_origin = et_origin r, et_victim = et_victim r\<rparr>"
    using assms by (cases r) (auto simp: row_ok_def)
  then have "Option.bind (decode_entry r) xdp_entry_to_action = Some (row_entry r) \<and> is_install (fst (row_entry r)) \<and>
    journalable (fst (row_entry r)) \<and>
    (net_wf net \<longrightarrow> same_entry ''block'' (net_addr net) (Some (int (prefix_len net))) r = (mirror_key_of (fst (row_entry r)) = KeyNet net)) \<and>
    same_entry ''rate_limit'' src None r = (mirror_key_of (fst (row_entry r)) = KeySrc src)"
  proof cases
    case (b n)
    have e: "Option.bind (decode_entry r) xdp_entry_to_action = Some (Block n, if et_origin r = ''manual'' then XdpManual else XdpAuto)"
      by (subst b(2)) (simp add: decode_block [OF b(1)])
    then have re: "row_entry r = (Block n, if et_origin r = ''manual'' then XdpManual else XdpAuto)" by (simp add: row_entry_def)
    have "net_addr n = net_addr net \<and> prefix_len n = prefix_len net \<longleftrightarrow> n = net" by (cases n; cases net) auto
    moreover have "same_entry ''block'' (net_addr net) (Some (int (prefix_len net))) r \<longleftrightarrow> net_addr n = net_addr net \<and> prefix_len n = prefix_len net"
      by (subst b(2)) (auto simp: same_entry_def)
    moreover have "\<not> same_entry ''rate_limit'' src None r" by (subst b(2)) (simp add: same_entry_def)
    ultimately show ?thesis using e re b(1) by simp
  next
    case (l pps burst)
    have e: "Option.bind (decode_entry r) xdp_entry_to_action =
      Some (RateLimit (et_target r) pps burst (et_victim r), if et_origin r = ''manual'' then XdpManual else XdpAuto)"
      by (subst l(3)) (simp add: decode_rate)
    then have re: "row_entry r = (RateLimit (et_target r) pps burst (et_victim r), if et_origin r = ''manual'' then XdpManual else XdpAuto)"
      by (simp add: row_entry_def)
    have "same_entry ''rate_limit'' src None r \<longleftrightarrow> et_target r = src" "\<not> same_entry ''block'' (net_addr net) (Some (int (prefix_len net))) r"
      by (subst l(3), simp add: same_entry_def)+
    then show ?thesis using e re l(1,2) by simp
  qed
  then show "Option.bind (decode_entry r) xdp_entry_to_action = Some (row_entry r)" "is_install (fst (row_entry r))" "journalable (fst (row_entry r))"
    "net_wf net \<Longrightarrow> same_entry ''block'' (net_addr net) (Some (int (prefix_len net))) r \<longleftrightarrow> mirror_key_of (fst (row_entry r)) = KeyNet net"
    "same_entry ''rate_limit'' src None r \<longleftrightarrow> mirror_key_of (fst (row_entry r)) = KeySrc src" by blast+
qed

lemma pg_statement:
  assumes "journalable a"
  obtains P new where "pg_xdp_record a orig at_ms st = en_query (\<lambda>rows. filter (\<lambda>r. \<not> P r) rows @ new) st"
    and "\<And>r. row_ok r \<Longrightarrow> P r \<longleftrightarrow> mirror_key_of (fst (row_entry r)) = mirror_key_of a"
    and "if is_install a then \<exists>r. new = [r] \<and> row_ok r \<and> row_entry r = (a, orig) else new = []"
proof (cases a)
  case (Block net)
  let ?r = "\<lparr>et_kind = ''block'', et_target = net_addr net, et_prefixlen = Some (int (prefix_len net)), et_rate_pps = None, et_burst = None,
    et_origin = origin_str orig, et_victim = None\<rparr>"
  have "row_ok ?r" using assms Block by (auto simp: row_ok_def)
  moreover have "row_entry ?r = (a, orig)" using assms Block by (cases orig) (simp_all add: row_entry_def decode_block)
  ultimately show ?thesis using assms Block row_ok_entry(4)
    by (intro that [of "same_entry ''block'' (net_addr net) (Some (int (prefix_len net)))" "[?r]"]) (simp_all add: xdp_record_apply_def)
next
  case (RateLimit src pps burst victim)
  let ?r = "\<lparr>et_kind = ''rate_limit'', et_target = src, et_prefixlen = None, et_rate_pps = Some (uint pps), et_burst = Some (uint burst),
    et_origin = origin_str orig, et_victim = victim\<rparr>"
  have "row_ok ?r" using assms RateLimit by (auto simp: row_ok_def)
  moreover have "row_entry ?r = (a, orig)" using assms RateLimit by (cases orig) (simp_all add: row_entry_def decode_rate)
  ultimately show ?thesis using assms RateLimit row_ok_entry(5)
    by (intro that [of "same_entry ''rate_limit'' src None" "[?r]"]) (simp_all add: xdp_record_apply_def try_i64_def)
next
  case (Unblock net)
  then show ?thesis using assms row_ok_entry(4)
    by (intro that [of "same_entry ''block'' (net_addr net) (Some (int (prefix_len net)))" "[]"]) (simp_all add: xdp_record_remove_def)
next
  case (ClearRate src)
  then show ?thesis using row_ok_entry(5)
    by (intro that [of "same_entry ''rate_limit'' src None" "[]"]) (simp_all add: xdp_record_remove_def)
qed

lemma map_of_filter_key: "map_of (map (\<lambda>r. (g r, h r)) (filter (\<lambda>r. g r \<noteq> k) rows)) = (map_of (map (\<lambda>r. (g r, h r)) rows))(k := None)"
  by (induction rows) (auto simp: fun_eq_iff)

lemma en_query_result:
  assumes "en_query stmt st = (ok, st')"
  shows "en_rows st' = (if ok then stmt (en_rows st) else en_rows st)" "set (en_outcomes st') \<subseteq> set (en_outcomes st)" "en_up st \<Longrightarrow> ok"
  using assms by (auto simp: en_query_def en_up_def split: list.splits)

interpretation pg: xdp_journal pg_xdp_record en_saved en_valid en_up
proof unfold_locales
  fix j j' a orig at_ms ok
  assume v: "en_valid j" and a: "journalable a" and r: "pg_xdp_record a orig at_ms j = (ok, j')"
  obtain P new where st: "pg_xdp_record a orig at_ms j = en_query (\<lambda>rows. filter (\<lambda>r. \<not> P r) rows @ new) j"
    and P: "\<And>r. row_ok r \<Longrightarrow> P r \<longleftrightarrow> mirror_key_of (fst (row_entry r)) = mirror_key_of a"
    and new: "if is_install a then \<exists>r. new = [r] \<and> row_ok r \<and> row_entry r = (a, orig) else new = []"
    by (rule pg_statement [OF a, of orig at_ms j]) (rule that)
  let ?k = "\<lambda>r. mirror_key_of (fst (row_entry r))"
  have rows: "en_rows j' = (if ok then filter (\<lambda>r. \<not> P r) (en_rows j) @ new else en_rows j)"
    using en_query_result(1) [OF r [unfolded st]] by simp
  have F: "filter (\<lambda>r. \<not> P r) (en_rows j) = filter (\<lambda>r. ?k r \<noteq> mirror_key_of a) (en_rows j)"
    using v P by (auto simp: en_valid_def intro: filter_cong)
  have "en_valid j'"
    using v new unfolding en_valid_def rows F
    by (auto simp: o_def intro: filter_neq_distinct_map split: if_splits)
  moreover have "en_saved j' = (if ok then mirror_write a orig (en_saved j) else en_saved j)"
    using new unfolding en_saved_def rows F
    by (cases "is_install a") (auto simp: mirror_write_def map_of_filter_key fun_eq_iff map_add_def split: option.split)
  ultimately show "en_valid j' \<and> en_saved j' = (if ok then mirror_write a orig (en_saved j) else en_saved j)" ..
next
  fix j j' a orig at_ms ok
  assume u: "en_up j" and a: "journalable a" and r: "pg_xdp_record a orig at_ms j = (ok, j')"
  obtain P new where "pg_xdp_record a orig at_ms j = en_query (\<lambda>rows. filter (\<lambda>r. \<not> P r) rows @ new) j"
    by (rule pg_statement [OF a, of orig at_ms j]) (rule that)
  then show "ok \<and> en_up j'" using en_query_result(2,3) u r unfolding en_up_def by (metis subset_trans)
qed

lemma rehydrate_valid:
  assumes "en_valid st" "en_up st"
  shows "fst (xdp_rehydrate st) = Some (map row_entry (en_rows st))"
proof -
  have d: "\<exists>row. decode_entry r = Some row \<and> xdp_entry_to_action row = Some (row_entry r)" if "r \<in> set (en_rows st)" for r
    using row_ok_entry(1) [of r] assms(1) that by (auto simp: en_valid_def bind_eq_Some_conv)
  have "\<exists>rows. those (map decode_entry rs) = Some rows \<and> List.map_filter xdp_entry_to_action rows = map row_entry rs"
    if "set rs \<subseteq> set (en_rows st)" for rs
    using that
  proof (induction rs)
    case (Cons r rs)
    then show ?case using d [of r] by (auto simp: List.map_filter_def)
  qed (simp add: List.map_filter_def)
  from this [of "en_rows st"] obtain rows where "those (map decode_entry (en_rows st)) = Some rows"
    "List.map_filter xdp_entry_to_action rows = map row_entry (en_rows st)" by auto
  moreover obtain ok st' where q: "en_query id st = (ok, st')" by fastforce
  ultimately show ?thesis using en_query_result(3) [OF q assms(2)] by (simp add: xdp_rehydrate_def xdp_active_def q)
qed

section \<open>The controller's table as a view\<close>

definition xc_view :: "xdp_controller \<Rightarrow> xdp_view" where
  "xc_view c k = (case k of
      KeySrc src \<Rightarrow> map_option (\<lambda>e. (RateLimit src (re_pps e) (re_burst e) (re_victim e), re_origin e)) (hm_get (xc_rate_limited c) src)
    | KeyNet net \<Rightarrow> map_option (\<lambda>orig. (Block net, orig)) (hm_get (xc_blocked_nets c) net))"

lemma dom_view: "dom (xc_view c) = ckeys c"
proof -
  have "k \<in> dom (xc_view c) \<longleftrightarrow> k \<in> ckeys c" for k
    by (cases k) (auto simp: xc_view_def dom_def ckeys_get)
  then show ?thesis by blast
qed

lemma view_note [simp]: "xc_view (xc_note v src c) = xc_view c"
  by (simp add: xc_view_def fun_eq_iff split: mirror_key.split)

lemma view_cong: "xc_rate_limited c' = xc_rate_limited c \<Longrightarrow> xc_blocked_nets c' = xc_blocked_nets c \<Longrightarrow> xc_view c' = xc_view c"
  by (simp add: xc_view_def fun_eq_iff split: mirror_key.split)

lemma view_skipped: "xc_view (c\<lparr>xc_protected_skipped := n\<rparr>) = xc_view c"
  by (rule view_cong) simp_all

lemma view_writes:
  "xc_view (c\<lparr>xc_blocked_nets := hm_insert net orig (xc_blocked_nets c)\<rparr>) = mirror_write (Block net) orig (xc_view c)"
  "xc_view (c\<lparr>xc_rate_limited := hm_insert src e (xc_rate_limited c)\<rparr>) =
     mirror_write (RateLimit src (re_pps e) (re_burst e) (re_victim e)) (re_origin e) (xc_view c)"
  "xc_view (c\<lparr>xc_blocked_nets := hm_remove net (xc_blocked_nets c)\<rparr>) = mirror_write (Unblock net) orig (xc_view c)"
  "xc_view (c\<lparr>xc_rate_limited := hm_remove src (xc_rate_limited c)\<rparr>) = mirror_write (ClearRate src) orig (xc_view c)"
  by (auto simp: xc_view_def mirror_write_def fun_eq_iff split: mirror_key.split)

lemma view_manual:
  "xc_manual_block covers c net = (Inr a, c') \<Longrightarrow> a = Block net \<and> xc_view c' = mirror_write a XdpManual (xc_view c)"
  "xc_manual_rate_limit c src pps burst = (Inr a, c') \<Longrightarrow> a = RateLimit src pps burst None \<and> xc_view c' = mirror_write a XdpManual (xc_view c)"
  "xc_manual_unblock c net = (a, c') \<Longrightarrow> a = Unblock net \<and> xc_view c' = mirror_write a XdpManual (xc_view c)"
  "xc_manual_clear_rate c src = (a, c') \<Longrightarrow> a = ClearRate src \<and> xc_view c' = mirror_write a XdpManual (xc_view c)"
proof -
  show "xc_manual_block covers c net = (Inr a, c') \<Longrightarrow> a = Block net \<and> xc_view c' = mirror_write a XdpManual (xc_view c)"
    by (auto simp: xc_manual_block_def view_writes split: if_splits)
  show "xc_manual_rate_limit c src pps burst = (Inr a, c') \<Longrightarrow> a = RateLimit src pps burst None \<and> xc_view c' = mirror_write a XdpManual (xc_view c)"
    by (auto simp: xc_manual_rate_limit_def view_writes Let_def split: if_splits)
  show "xc_manual_unblock c net = (a, c') \<Longrightarrow> a = Unblock net \<and> xc_view c' = mirror_write a XdpManual (xc_view c)"
    by (auto simp: xc_manual_unblock_def view_writes(3) [of _ _ XdpManual])
  have "xc_view (snd (xc_manual_clear_rate c src)) = mirror_write (ClearRate src) XdpManual (xc_view c)"
    unfolding view_writes(4) [of _ _ XdpManual, symmetric] by (rule view_cong) (simp_all add: xc_manual_clear_rate_def)
  then show "xc_manual_clear_rate c src = (a, c') \<Longrightarrow> a = ClearRate src \<and> xc_view c' = mirror_write a XdpManual (xc_view c)"
    by (auto simp: xc_manual_clear_rate_def)
qed

lemma view_resumed: "is_install a \<Longrightarrow> xc_view (xc_mark_resumed c a orig) = mirror_write a orig (xc_view c)"
  by (cases a) (auto simp: view_writes Let_def split: option.split)

lemma view_limit_sources:
  "xc_view (snd (xc_limit_sources t srcs c)) = fold (\<lambda>a. mirror_write a XdpAuto) (fst (xc_limit_sources t srcs c)) (xc_view c)"
  by (induction t srcs c rule: xc_limit_sources.induct) (simp_all add: Let_def case_prod_beta view_writes)

lemma view_release:
  "xc_view (snd (xc_release srcs c)) = fold (\<lambda>a. mirror_write a XdpAuto) (fst (xc_release srcs c)) (xc_view c)"
  by (induction srcs c rule: xc_release.induct)
    (auto simp: case_prod_beta view_writes(4) [of _ _ XdpAuto] split: option.split xdp_origin.split)

lemma handle_detection_cases:
  assumes "xc_handle_detection contains c d = (as, c')"
  obtains "as = []" "c' = c\<lparr>xc_protected_skipped := sat_inc (xc_protected_skipped c)\<rparr>" | "as = []" "c' = c"
    | "xc_limit_sources (d_target d) (map fst (d_top_sources d)) c = (as, c')"
proof (cases "\<exists>p \<in> set (xc_protected_prefixes c). contains p (d_target d)")
  case True
  then have "as = []" "c' = c\<lparr>xc_protected_skipped := sat_inc (xc_protected_skipped c)\<rparr>" using assms by (simp_all add: xc_handle_detection_def)
  then show ?thesis by (rule that(1))
next
  case False
  then have e: "(if \<not> (\<exists>p \<in> set (xc_prefixes c). contains p (d_target d)) then ([], c)
      else xc_limit_sources (d_target d) (map fst (d_top_sources d)) c) = (as, c')" using assms by (simp add: xc_handle_detection_def)
  show ?thesis
  proof (cases "\<exists>p \<in> set (xc_prefixes c). contains p (d_target d)")
    case True
    then show ?thesis using e by (intro that(3)) simp
  next
    case False
    then show ?thesis using e by (intro that(2)) simp_all
  qed
qed

lemma view_detection:
  assumes "xc_on_detection contains c ev = (as, c')"
  shows "xc_view c' = fold (\<lambda>a. mirror_write a XdpAuto) as (xc_view c)"
proof -
  have h: "xc_view c' = fold (\<lambda>a. mirror_write a XdpAuto) as (xc_view c)" if e: "xc_handle_detection contains c d = (as, c')" for d
  proof -
    show ?thesis using e
    proof (cases rule: handle_detection_cases)
      case 3
      then show ?thesis using view_limit_sources [of "d_target d" "map fst (d_top_sources d)" c] by simp
    qed (simp_all add: view_skipped)
  qed
  have "xc_view c' = fold (\<lambda>a. mirror_write a XdpAuto) as (xc_view c)" if e: "xc_handle_cleared c t = (as, c')" for t
  proof (cases "hm_get (xc_by_target c) t")
    case (Some sources)
    let ?c = "c\<lparr>xc_by_target := hm_remove t (xc_by_target c)\<rparr>"
    have "as = fst (xc_release sources ?c)" "c' = snd (xc_release sources ?c)" using Some e by (simp_all add: xc_handle_cleared_def)
    moreover have "xc_view ?c = xc_view c" by (rule view_cong) simp_all
    ultimately show ?thesis using view_release [of sources ?c] by simp
  qed (use e in \<open>simp add: xc_handle_cleared_def\<close>)
  then show ?thesis using assms h by (cases ev) simp_all
qed

text \<open>The automatic limits carry the configured rate.\<close>

lemma limit_sources_rate [simp]: "xc_default_rate_pps (snd (xc_limit_sources t srcs c)) = xc_default_rate_pps c"
  by (induction t srcs c rule: xc_limit_sources.induct) (simp_all add: Let_def case_prod_beta)

lemma release_default [simp]: "xc_default_rate_pps (snd (xc_release srcs c)) = xc_default_rate_pps c"
  by (induction srcs c rule: xc_release.induct) (simp_all add: case_prod_beta split: option.split xdp_origin.split)

lemma limit_sources_journalable:
  "unat (xc_default_rate_pps c) \<le> i64_max \<Longrightarrow> a \<in> set (fst (xc_limit_sources t srcs c)) \<Longrightarrow> journalable a"
  by (induction t srcs c rule: xc_limit_sources.induct) (auto simp: Let_def case_prod_beta split: if_splits)

lemma detection_journalable:
  assumes "xc_on_detection contains c ev = (as, c')" "unat (xc_default_rate_pps c) \<le> i64_max"
  shows "xc_default_rate_pps c' = xc_default_rate_pps c" "\<forall>a \<in> set as. journalable a"
proof -
  have h: "xc_default_rate_pps c' = xc_default_rate_pps c \<and> (\<forall>a \<in> set as. journalable a)" if e: "xc_handle_detection contains c d = (as, c')" for d
  proof -
    show ?thesis using e
    proof (cases rule: handle_detection_cases)
      case 3
      then show ?thesis using limit_sources_journalable [OF assms(2), of _ "d_target d" "map fst (d_top_sources d)"]
          limit_sources_rate [of "d_target d" "map fst (d_top_sources d)" c] by simp
    qed simp_all
  qed
  have "xc_default_rate_pps c' = xc_default_rate_pps c \<and> (\<forall>a \<in> set as. journalable a)" if e: "xc_handle_cleared c t = (as, c')" for t
  proof (cases "hm_get (xc_by_target c) t")
    case (Some sources)
    let ?c = "c\<lparr>xc_by_target := hm_remove t (xc_by_target c)\<rparr>"
    have "as = fst (xc_release sources ?c)" "c' = snd (xc_release sources ?c)" using Some e by (simp_all add: xc_handle_cleared_def)
    then show ?thesis using release_actions [of sources ?c] by auto
  qed (use e in \<open>simp add: xc_handle_cleared_def\<close>)
  then show "xc_default_rate_pps c' = xc_default_rate_pps c" "\<forall>a \<in> set as. journalable a" using assms(1) h by (cases ev; simp)+
qed

text \<open>Operations within the range of the columns, and no disarm.\<close>

fun op_mirrored :: "xm_op \<Rightarrow> bool" where
  "op_mirrored (XmDetect ev now) = True"
| "op_mirrored (XmAdd net now) = net_wf net"
| "op_mirrored (XmRemove net now) = net_wf net"
| "op_mirrored (XmRateLimit src pps burst now) = (unat pps \<le> i64_max \<and> unat burst \<le> i64_max)"
| "op_mirrored (XmClearRate src now) = True"
| "op_mirrored XmTick = True"
| "op_mirrored XmDisarm = False"

lemma resumed_rate [simp]: "xc_default_rate_pps (xc_mark_resumed c a orig) = xc_default_rate_pps c"
  by (cases a) (simp_all add: Let_def split: option.split)

lemma reapply_active_view:
  "\<forall>row \<in> set rows. is_install (fst row) \<Longrightarrow>
   xc_view (xm_controller (xm_reapply_active ap rows m)) = fold (\<lambda>(a, orig). mirror_write a orig) rows (xc_view (xm_controller m)) \<and>
   xc_default_rate_pps (xm_controller (xm_reapply_active ap rows m)) = xc_default_rate_pps (xm_controller m)"
proof (induction rows arbitrary: m)
  case (Cons row rows)
  obtain a orig where row: "row = (a, orig)" by fastforce
  obtain ok b where b: "ap a (xm_executor m) = (ok, b)" by fastforce
  have a: "is_install a" using Cons.prems row by simp
  show ?case using Cons.IH Cons.prems row b view_resumed [OF a] by (cases ok) (simp_all add: Let_def xm_queue_reapply_def)
qed simp

text \<open>Rows with different keys are taken over as they are.\<close>

lemma fold_writes:
  "distinct (map (mirror_key_of \<circ> fst) rows) \<Longrightarrow> \<forall>row \<in> set rows. is_install (fst row) \<Longrightarrow>
   fold (\<lambda>(a, orig). mirror_write a orig) rows V = V ++ map_of (map (\<lambda>row. (mirror_key_of (fst row), row)) rows)"
proof (induction rows arbitrary: V)
  case (Cons row rows)
  obtain a orig where row: "row = (a, orig)" by fastforce
  have n: "map_of (map (\<lambda>row. (mirror_key_of (fst row), row)) rows) (mirror_key_of a) = None"
    using Cons.prems(1) row by (simp add: map_of_eq_None_iff o_def image_image)
  show ?case using Cons.IH Cons.prems row n
    by (auto simp: mirror_write_def fun_eq_iff map_add_def split: option.split)
qed simp

section \<open>Manager, executor and journal together\<close>

text \<open>
  An executor in working order accepts every install and refuses a removal only if there is nothing
  to remove.
\<close>

locale xdp_system = xdp_executor apply_op blocks limits net_key src_key + xdp_journal mirror saved valid up
  for apply_op :: "xdp_action \<Rightarrow> 'b \<Rightarrow> bool \<times> 'b" and blocks :: "'b \<Rightarrow> 'n set" and limits :: "'b \<Rightarrow> 's \<rightharpoonup> u64 \<times> u64"
    and net_key :: "ip_net \<Rightarrow> 'n" and src_key :: "ip_addr \<Rightarrow> 's"
    and mirror :: "'j xdp_record" and saved :: "'j \<Rightarrow> xdp_view" and valid :: "'j \<Rightarrow> bool" and up :: "'j \<Rightarrow> bool" +
  fixes ready :: "'b \<Rightarrow> bool"
  assumes ready_install: "ready b \<Longrightarrow> is_install a \<Longrightarrow> apply_op a b = (ok, b') \<Longrightarrow> ok \<and> ready b'"
    and ready_remove: "ready b \<Longrightarrow> \<not> is_install a \<Longrightarrow> apply_op a b = (ok, b') \<Longrightarrow> ok = installed b (mirror_key_of a) \<and> ready b'"
begin

text \<open>The journal holds the view \<open>V\<close>, and the kernel the entries of \<open>V\<close> among the keys \<open>K\<close>.\<close>

definition synced :: "mirror_key set \<Rightarrow> xdp_view \<Rightarrow> ('b, 'j) xdp_manager \<Rightarrow> bool" where
  "synced K V m \<longleftrightarrow> \<not> xm_disarmed m \<and> ready (xm_executor m) \<and> up (xm_journal m) \<and> valid (xm_journal m) \<and>
     xm_pending_mirror m = [] \<and> xm_pending_reapply m = [] \<and> saved (xm_journal m) = V \<and> dom V \<subseteq> K \<and>
     (\<forall>k \<in> K. installed (xm_executor m) k \<longleftrightarrow> k \<in> dom V)"

lemma installed_after:
  assumes "no_alias K" "mirror_key_of a \<in> K" "k \<in> K" "apply_op a b = (True, b')"
  shows "installed b' k \<longleftrightarrow> (if k = mirror_key_of a then is_install a else installed b k)"
proof (cases a)
  case (Block net)
  then show ?thesis using assms block [of net b True b'] by (cases k) (auto simp: installed_def no_alias_def inj_on_def)
next
  case (Unblock net)
  then show ?thesis using assms unblock [of net b True b'] by (cases k) (auto simp: installed_def no_alias_def inj_on_def)
next
  case (RateLimit src pps burst v)
  then show ?thesis using assms rate_limit [of src pps burst v b True b'] by (cases k) (auto simp: installed_def no_alias_def inj_on_def)
next
  case (ClearRate src)
  then show ?thesis using assms clear_rate [of src b True b'] by (cases k) (auto simp: installed_def no_alias_def inj_on_def)
qed

lemma dom_write: "dom (mirror_write a orig V) = (if is_install a then insert (mirror_key_of a) (dom V) else dom V - {mirror_key_of a})"
  by (auto simp: mirror_write_def)

lemma execute_synced:
  assumes K: "no_alias K" "mirror_key_of a \<in> K" and a: "journalable a" and m: "synced K V m"
    and r_def: "r = execute_and_journal apply_op mirror a orig now fresh m"
  shows "synced K (mirror_write a orig V) (snd r)" "xm_controller (snd r) = xm_controller m"
proof -
  obtain ok b where b: "apply_op a (xm_executor m) = (ok, b)" by fastforce
  obtain jok j where j: "mirror a orig now (xm_journal m) = (jok, j)" by fastforce
  have ok: "ok = (is_install a \<or> mirror_key_of a \<in> dom V)" "ready b"
    using m b K(2) ready_install [OF _ _ b] ready_remove [OF _ _ b] by (auto simp: synced_def)
  have jr: "jok" "up j" "valid j" "saved j = mirror_write a orig V"
    using m mirror_up [OF _ a j] mirror_saved [OF _ a j] by (auto simp: synced_def)
  have "synced K (mirror_write a orig V) (snd r) \<and> xm_controller (snd r) = xm_controller m"
  proof (cases ok)
    case True
    have "snd r = m\<lparr>xm_executor := b, xm_journal := j\<rparr>" using True b j jr(1) m by (simp add: r_def execute_and_journal_def synced_def)
    moreover have "\<forall>k \<in> K. installed b k \<longleftrightarrow> k \<in> dom (mirror_write a orig V)"
      using installed_after [OF K _ b [unfolded eqTrueI [OF True]]] m by (auto simp: dom_write synced_def)
    ultimately show ?thesis using m ok(2) jr K(2) by (auto simp: synced_def dom_write)
  next
    case False
    then have na: "\<not> is_install a" "mirror_key_of a \<notin> dom V" using ok(1) by simp_all
    have w: "mirror_write a orig V = V" using na by (auto simp: mirror_write_def)
    have roll: "xm_rollback fresh a m' = m'" for m' :: "('b, 'j) xdp_manager" using na(1) by (cases a) (simp_all add: xm_rollback_def)
    have s: "snd r = m\<lparr>xm_executor := b, xm_apply_failures := sat_inc (xm_apply_failures m)\<rparr>"
      using False b na(1) by (simp add: r_def execute_and_journal_def roll)
    have "installed b k = installed (xm_executor m) k" for k
      using na(1) b False block [of _ "xm_executor m" ok b] unblock [of _ "xm_executor m" ok b] clear_rate [of _ "xm_executor m" ok b]
      by (cases a; cases k) (auto simp: installed_def)
    then show ?thesis unfolding w s using m ok(2) by (simp add: synced_def)
  qed
  then show "synced K (mirror_write a orig V) (snd r)" "xm_controller (snd r) = xm_controller m" by blast+
qed

lemma execute_all_synced:
  assumes K: "no_alias K" "mirror_key_of ` set as \<subseteq> K" and a: "\<forall>a \<in> set as. journalable a" and m: "synced K V m"
  shows "synced K (fold (\<lambda>a. mirror_write a XdpAuto) as V) (xm_execute_all apply_op mirror now as m) \<and>
    xm_controller (xm_execute_all apply_op mirror now as m) = xm_controller m"
  using assms(2-)
proof (induction as arbitrary: V m)
  case (Cons a as)
  have ka: "mirror_key_of a \<in> K" "journalable a" using Cons.prems by simp_all
  note e = execute_synced [OF K(1) ka Cons.prems(3) refl, of XdpAuto now True]
  show ?case using Cons.IH [OF _ _ e(1)] e(2) Cons.prems by simp
qed simp

lemma synced_controller [simp]: "synced K V (m\<lparr>xm_controller := c\<rparr>) = synced K V m"
  by (simp add: synced_def)

definition mirrored :: "mirror_key set \<Rightarrow> ('b, 'j) xdp_manager \<Rightarrow> bool" where
  "mirrored K m \<longleftrightarrow> synced K (xc_view (xm_controller m)) m \<and> unat (xc_default_rate_pps (xm_controller m)) \<le> i64_max"

lemma execute_mirrored:
  assumes "no_alias K" "mirror_key_of a \<in> K" "journalable a" "mirrored K m"
    and "xc_view c = mirror_write a orig (xc_view (xm_controller m))" "xc_default_rate_pps c = xc_default_rate_pps (xm_controller m)"
  shows "mirrored K (snd (execute_and_journal apply_op mirror a orig now fresh (m\<lparr>xm_controller := c\<rparr>)))"
proof -
  have "synced K (xc_view (xm_controller m)) (m\<lparr>xm_controller := c\<rparr>)" using assms(4) by (simp add: mirrored_def)
  from execute_synced [OF assms(1-3) this refl, of orig now fresh] show ?thesis using assms(4-6) by (simp add: mirrored_def)
qed

lemma detection_mirrored:
  assumes "no_alias K" "event_keys ev \<subseteq> K" "mirrored K m"
  shows "mirrored K (xm_on_detection contains apply_op mirror ev now m)"
proof -
  obtain as c where r: "xc_on_detection contains (xm_controller m) ev = (as, c)" by fastforce
  have m: "synced K (xc_view (xm_controller m)) (m\<lparr>xm_controller := c\<rparr>)" "unat (xc_default_rate_pps (xm_controller m)) \<le> i64_max"
    using assms(3) by (simp_all add: mirrored_def)
  then have "ckeys (xm_controller m) \<subseteq> K" by (simp add: synced_def dom_view)
  then have k: "mirror_key_of ` set as \<subseteq> K" using detection_actions(2) [OF r] assms(2) by blast
  note d = detection_journalable [OF r m(2)]
  from execute_all_synced [OF assms(1) k d(2) m(1), of now] show ?thesis
    using d(1) m(2) by (simp add: mirrored_def xm_on_detection_def r view_detection [OF r])
qed

lemma add_mirrored:
  assumes "no_alias K" "KeyNet net \<in> K" "net_wf net" "mirrored K m"
  shows "mirrored K (snd (xm_apply_add covers apply_op mirror net now m))"
proof -
  obtain r c where r: "xc_manual_block covers (xm_controller m) net = (r, c)" by fastforce
  show ?thesis
  proof (cases r)
    case (Inr a)
    note v = view_manual(1) [OF r [unfolded Inr]]
    have "xc_default_rate_pps c = xc_default_rate_pps (xm_controller m)" using r by (auto simp: xc_manual_block_def split: if_splits)
    with execute_mirrored [OF assms(1) _ _ assms(4) conjunct2 [OF v], of now "\<not> xc_is_blocked (xm_controller m) net"]
    show ?thesis using assms(2,3) v r Inr by (simp add: xm_apply_add_def Let_def case_prod_beta)
  qed (use assms r in \<open>simp add: xm_apply_add_def\<close>)
qed

lemma rate_mirrored:
  assumes "no_alias K" "KeySrc src \<in> K" "unat pps \<le> i64_max" "unat burst \<le> i64_max" "mirrored K m"
  shows "mirrored K (snd (xm_apply_rate_limit apply_op mirror src pps burst now m))"
proof -
  obtain r c where r: "xc_manual_rate_limit (xm_controller m) src pps burst = (r, c)" by fastforce
  show ?thesis
  proof (cases r)
    case (Inr a)
    note v = view_manual(2) [OF r [unfolded Inr]]
    have "xc_default_rate_pps c = xc_default_rate_pps (xm_controller m)" using r by (auto simp: xc_manual_rate_limit_def Let_def split: if_splits)
    with execute_mirrored [OF assms(1) _ _ assms(5) conjunct2 [OF v], of now "\<not> xc_is_rate_limited (xm_controller m) src"]
    show ?thesis using assms(2-4) v r Inr by (simp add: xm_apply_rate_limit_def Let_def case_prod_beta)
  qed (use assms r in \<open>simp add: xm_apply_rate_limit_def\<close>)
qed

lemma remove_mirrored:
  assumes "no_alias K" "KeyNet net \<in> K" "net_wf net" "mirrored K m"
  shows "mirrored K (snd (xm_apply_remove apply_op mirror net now m))"
proof -
  obtain a c where r: "xc_manual_unblock (xm_controller m) net = (a, c)" by fastforce
  note v = view_manual(3) [OF r]
  have "xc_default_rate_pps c = xc_default_rate_pps (xm_controller m)" using r by (auto simp: xc_manual_unblock_def)
  with execute_mirrored [OF assms(1) _ _ assms(4) conjunct2 [OF v], of now False] show ?thesis
    using assms(2,3) v by (simp add: xm_apply_remove_def r)
qed

lemma clear_mirrored:
  assumes "no_alias K" "KeySrc src \<in> K" "mirrored K m"
  shows "mirrored K (snd (xm_apply_clear_rate apply_op mirror src now m))"
proof -
  obtain a c where r: "xc_manual_clear_rate (xm_controller m) src = (a, c)" by fastforce
  note v = view_manual(4) [OF r]
  have "xc_default_rate_pps c = xc_default_rate_pps (xm_controller m)" using r by (auto simp: xc_manual_clear_rate_def)
  with execute_mirrored [OF assms(1) _ _ assms(3) conjunct2 [OF v], of now False] show ?thesis
    using assms(2) v by (simp add: xm_apply_clear_rate_def r)
qed

lemma tick_mirrored: "mirrored K m \<Longrightarrow> mirrored K (xm_tick apply_op mirror m)"
  by (simp add: xm_tick_def xm_retry_pending_reapply_def xm_retry_pending_mirror_def mirrored_def synced_def)

lemma run_mirrored:
  assumes "no_alias K" "\<Union> (xm_op_keys ` set opers) \<subseteq> K" "\<forall>oper \<in> set opers. op_mirrored oper" "mirrored K m"
  shows "mirrored K (xm_run contains covers apply_op mirror opers m)"
  using assms(2-) unfolding xm_run_def
proof (induction opers arbitrary: m)
  case (Cons oper opers)
  have "mirrored K (xm_exec contains covers apply_op mirror oper m)"
    using Cons.prems assms(1) detection_mirrored add_mirrored rate_mirrored remove_mirrored clear_mirrored tick_mirrored
    by (cases oper) simp_all
  then show ?case using Cons by simp
qed simp

text \<open>Taking over the journaled entries on fresh maps.\<close>

lemma reapply_installs:
  assumes "no_alias K" "\<forall>row \<in> set rows. is_install (fst row) \<and> mirror_key_of (fst row) \<in> K"
    and "ready (xm_executor m)" "xm_pending_reapply m = []"
  defines "m' \<equiv> xm_reapply_active apply_op rows m"
  shows "ready (xm_executor m') \<and> xm_pending_reapply m' = [] \<and> xm_pending_mirror m' = xm_pending_mirror m \<and> xm_disarmed m' = xm_disarmed m \<and>
    xm_journal m' = xm_journal m \<and> (\<forall>k \<in> K. installed (xm_executor m') k \<longleftrightarrow> installed (xm_executor m) k \<or> k \<in> mirror_key_of ` fst ` set rows)"
  using assms(2-4) unfolding m'_def
proof (induction rows arbitrary: m)
  case (Cons row rows)
  obtain a orig where row: "row = (a, orig)" by fastforce
  have a: "is_install a" "mirror_key_of a \<in> K" using Cons.prems(1) row by simp_all
  obtain ok b where b: "apply_op a (xm_executor m) = (ok, b)" by fastforce
  have ok: "ok" "ready b" using ready_install [OF Cons.prems(2) a(1) b] by simp_all
  let ?m = "m\<lparr>xm_controller := xc_mark_resumed (xm_controller m) a orig, xm_executor := b\<rparr>"
  have e: "xm_reapply_active apply_op (row # rows) m = xm_reapply_active apply_op rows ?m" using row b ok(1) by (simp add: Let_def)
  have i: "installed b k \<longleftrightarrow> installed (xm_executor m) k \<or> k = mirror_key_of a" if "k \<in> K" for k
    using installed_after [OF assms(1) a(2) that b [unfolded eqTrueI [OF ok(1)]]] a(1) by auto
  show ?case unfolding e using Cons.IH [of ?m] Cons.prems ok(2) i row by auto
qed simp

end

definition dm_ready :: "dataplane_maps \<Rightarrow> bool" where
  "dm_ready b \<longleftrightarrow> set (dm_outcomes b) \<subseteq> {True}"

lemma dp_apply_ready:
  assumes "dm_ready b" "dp_apply trunc a b = (ok, b')"
  shows "ok = (is_install a \<or> in_kernel trunc b (mirror_key_of a))" "dm_ready b'"
proof -
  have tl: "set (tl (dm_outcomes b)) \<subseteq> {True}" using assms(1) by (cases "dm_outcomes b") (auto simp: dm_ready_def)
  have "(ok = (is_install a \<or> in_kernel trunc b (mirror_key_of a))) \<and> dm_ready b'"
    using assms tl by (cases a)
      (auto simp: dm_ready_def dp_block_def dp_unblock_def dp_rate_limit_def dp_clear_rate_limit_def dm_delete_def dm_sys_def
        split: list.splits if_splits)
  then show "ok = (is_install a \<or> in_kernel trunc b (mirror_key_of a))" "dm_ready b'" by blast+
qed

interpretation live: xdp_system "dp_apply trunc" dm_blocks dm_limits "lpm_key trunc" rate_key pg_xdp_record en_saved en_valid en_up dm_ready
  for trunc
proof unfold_locales
  fix b a ok b'
  assume "dm_ready b" and b: "dp_apply trunc a b = (ok, b')"
  note r = dp_apply_ready [OF this]
  show "is_install a \<Longrightarrow> ok \<and> dm_ready b'" using r by simp
  show "\<not> is_install a \<Longrightarrow> ok = dataplane.installed trunc b (mirror_key_of a) \<and> dm_ready b'" using r by (simp add: installed_in_kernel)
qed

lemma saved_rows: "en_saved st = map_of (map (\<lambda>row. (mirror_key_of (fst row), row)) (map row_entry (en_rows st)))"
  by (simp add: en_saved_def o_def)

lemma valid_rows:
  "en_valid st \<Longrightarrow> \<forall>row \<in> set (map row_entry (en_rows st)). is_install (fst row)"
  "en_valid st \<Longrightarrow> distinct (map (mirror_key_of \<circ> fst) (map row_entry (en_rows st)))"
  using row_ok_entry(2) by (auto simp: en_valid_def o_def)

lemma view_new [simp]: "xc_view (xc_new prefixes cap rate protected) = Map.empty"
  by (simp add: xc_view_def xc_new_def fun_eq_iff split: mirror_key.split)

lemma boot_view:
  assumes "en_valid j" "fst (xdp_rehydrate j) = Some rows" "en_up j"
  shows "xc_view (xm_controller (xm_reapply_active ap rows (xm_new (xc_new prefixes cap rate protected) b j'))) = en_saved j"
proof -
  have rows: "rows = map row_entry (en_rows j)" using rehydrate_valid [OF assms(1,3)] assms(2) by simp
  show ?thesis using reapply_active_view [of rows ap "xm_new (xc_new prefixes cap rate protected) b j'"] valid_rows [OF assms(1)]
    unfolding rows by (simp add: xm_new_def fold_writes saved_rows)
qed

lemma boot_mirrored:
  assumes K: "dataplane.no_alias trunc K" "mirror_key_of ` fst ` set rows \<subseteq> K"
    and j: "en_valid j" "en_up j" "fst (xdp_rehydrate j) = Some rows"
    and b: "dm_block b = []" "dm_rate b = []" "dm_ready b" and "unat rate \<le> i64_max"
  shows "live.mirrored trunc K (xm_reapply_active (dp_apply trunc) rows (xm_new (xc_new prefixes cap rate protected) b j))"
proof -
  let ?m = "xm_new (xc_new prefixes cap rate protected) b j"
  let ?m' = "xm_reapply_active (dp_apply trunc) rows ?m"
  have rows: "rows = map row_entry (en_rows j)" using rehydrate_valid [OF j(1,2)] j(3) by simp
  have inst: "\<forall>row \<in> set rows. is_install (fst row)" using valid_rows(1) [OF j(1)] rows by simp
  then have "\<forall>row \<in> set rows. is_install (fst row) \<and> mirror_key_of (fst row) \<in> K" using K(2) by blast
  moreover have none: "\<not> in_kernel trunc b k" for k using b(1,2) by (cases k) simp_all
  ultimately have r: "dm_ready (xm_executor ?m')" "xm_pending_reapply ?m' = []" "xm_pending_mirror ?m' = []" "\<not> xm_disarmed ?m'" "xm_journal ?m' = j"
    "\<forall>k \<in> K. in_kernel trunc (xm_executor ?m') k \<longleftrightarrow> k \<in> mirror_key_of ` fst ` set rows"
    using live.reapply_installs [OF K(1), of rows ?m] b by (simp_all add: xm_new_def installed_in_kernel)
  have v: "xc_view (xm_controller ?m') = en_saved j" by (rule boot_view [OF j(1,3,2)])
  have d: "dom (en_saved j) = mirror_key_of ` fst ` set rows"
    unfolding saved_rows rows [symmetric] by (simp add: dom_map_of_conv_image_fst image_image)
  show ?thesis using r v d K(2) j assms(9) reapply_active_view [OF inst, of "dp_apply trunc" ?m]
    by (simp add: live.mirrored_def live.synced_def installed_in_kernel) (simp add: xm_new_def xc_new_def)
qed

section \<open>Properties\<close>

text \<open>
  C23. The mirror matches the manager's table one to one, so a restart loses nothing. A daemon starts from
  any journal and runs any operations except a disarm, on networks and sources with different kernel
  keys and numbers in the range of the columns, and every system call and statement succeeds. Then
  the journal can be read, and a daemon started from it has exactly the same blocks and limits, with
  the same rates, bursts, victims and origins, whatever its own map writes do.
\<close>

theorem xdp_restart_exact:
  assumes "en_valid j" "en_up j" "fst (xdp_rehydrate j) = Some rows"
    and "kernel_distinct trunc (named_keys rows opers)" "\<forall>oper \<in> set opers. op_mirrored oper" "unat rate \<le> i64_max"
    and "dm_block b = []" "dm_rate b = []" "dm_ready b"
    and "m = xm_boot contains covers trunc pg_xdp_record rows opers (xm_new (xc_new prefixes cap rate protected) b j)"
  shows "\<exists>rows'. fst (xdp_rehydrate (xm_journal m)) = Some rows' \<and>
    xc_view (xm_controller (xm_reapply_active ap rows' (xm_new (xc_new prefixes cap rate protected) b' j'))) = xc_view (xm_controller m)"
proof -
  let ?K = "named_keys rows opers"
  have K: "dataplane.no_alias trunc ?K" using assms(4) by (simp add: kernel_distinct_def dataplane.no_alias_def)
  have "live.mirrored trunc ?K (xm_reapply_active (dp_apply trunc) rows (xm_new (xc_new prefixes cap rate protected) b j))"
    using K assms(1-3,6-9) by (intro boot_mirrored) (auto simp: named_keys_def)
  from live.run_mirrored [OF K _ assms(5) this, of contains covers] have m: "live.mirrored trunc ?K m"
    unfolding assms(10) xm_boot_def by (simp add: named_keys_def)
  then have j: "en_valid (xm_journal m)" "en_up (xm_journal m)" "en_saved (xm_journal m) = xc_view (xm_controller m)"
    by (simp_all add: live.mirrored_def live.synced_def)
  show ?thesis using rehydrate_valid [OF j(1,2)] boot_view [OF j(1) rehydrate_valid [OF j(1,2)] j(2)] j(3) by simp
qed

definition empty_entries :: xdp_entries where
  "empty_entries = \<lparr>en_rows = [], en_outcomes = []\<rparr>"

theorem xdp_restart_exact_witness:
  "\<exists>rows. fst (xdp_rehydrate (xm_journal (xm_boot net_contains sample_covers net_trunc pg_xdp_record [] [XmAdd (NetV4 0xC6336400 24) 0]
      (xm_new sample_xc empty_maps empty_entries)))) = Some rows \<and>
    xc_view (xm_controller (xm_reapply_active (dp_apply net_trunc) rows (xm_new sample_xc empty_maps empty_entries))) (KeyNet (NetV4 0xC6336400 24))
      = Some (Block (NetV4 0xC6336400 24), XdpManual)"
proof -
  let ?m = "xm_boot net_contains sample_covers net_trunc pg_xdp_record [] [XmAdd (NetV4 0xC6336400 24) 0] (xm_new sample_xc empty_maps empty_entries)"
  have "xc_view (xm_controller ?m) (KeyNet (NetV4 0xC6336400 24)) = Some (Block (NetV4 0xC6336400 24), XdpManual)"
    by (simp add: sample_xm_simps xc_view_def xdp_record_apply_def en_query_def empty_entries_def)
  moreover have "kernel_distinct net_trunc (named_keys [] [XmAdd (NetV4 0xC6336400 24) 0])"
    by (simp add: kernel_distinct_def named_keys_def inj_on_def)
  moreover have "en_valid empty_entries" "en_up empty_entries" "fst (xdp_rehydrate empty_entries) = Some []"
    by (simp_all add: en_valid_def en_up_def empty_entries_def xdp_rehydrate_def xdp_active_def en_query_def List.map_filter_def)
  moreover have "dm_block empty_maps = []" "dm_rate empty_maps = []" "dm_ready empty_maps" by (simp_all add: empty_maps_def dm_ready_def)
  ultimately show ?thesis using xdp_restart_exact [of empty_entries "[]" net_trunc "[XmAdd (NetV4 0xC6336400 24) 0]" 1000 empty_maps ?m
      net_contains sample_covers "[NetV4 0xCB007100 24]" 3 "[NetV4 0xCB007135 32]" "dp_apply net_trunc" empty_maps empty_entries]
    by (auto simp: sample_xc_def i64_max_def)
qed

end
