(* ===== verification/Xdp_Tasks.thy ===== *)
theory Xdp_Tasks
  imports Xdp_Journal Manager_Tasks
begin

text \<open>
  The task of \<^verbatim>\<open>bin/blackwalld/src/main.rs\<close> that owns the XDP manager, the request table of
  \<^verbatim>\<open>blackwall-state/src/xdp.rs\<close> it drains, and the executor of shadow mode (\<^verbatim>\<open>bin/blackwalld/src/shadow.rs\<close>).
  The numbers of a request are stored as signed 64-bit integers; a request that does not fit is
  refused when it is queued, so the rows keep the unsigned values.
\<close>

section \<open>The request table\<close>

record xdp_request_row =
  xq_id :: nat
  xq_action :: string
  xq_target :: ip_addr
  xq_prefixlen :: "nat option"
  xq_rate_pps :: "u64 option"
  xq_burst :: "u64 option"
  xq_created_by :: string
  xq_status :: request_status

record xdp_requests =
  xr_rows :: "xdp_request_row list"
  xr_next :: nat
  xr_outcomes :: "bool list"

definition xr_query :: "(xdp_requests \<Rightarrow> xdp_requests) \<Rightarrow> xdp_requests \<Rightarrow> bool \<times> xdp_requests" where
  "xr_query stmt st = (case xr_outcomes st of
     [] \<Rightarrow> (True, stmt st)
   | ok # oks \<Rightarrow> (ok, (if ok then stmt st else st)\<lparr>xr_outcomes := oks\<rparr>))"

text \<open>The identifier is the next value of the table's sequence.\<close>

definition xdp_enqueue_request ::
  "string \<Rightarrow> ip_addr \<Rightarrow> nat option \<Rightarrow> u64 option \<Rightarrow> u64 option \<Rightarrow> string \<Rightarrow> xdp_requests \<Rightarrow> bool \<times> xdp_requests"
where
  "xdp_enqueue_request action target prefixlen rate burst created_by st =
     (case (try_opt try_i64 rate, try_opt try_i64 burst) of
        (Some _, Some _) \<Rightarrow> xr_query (\<lambda>st. st\<lparr>xr_rows := xr_rows st @
            [\<lparr>xq_id = xr_next st, xq_action = action, xq_target = target, xq_prefixlen = prefixlen, xq_rate_pps = rate,
              xq_burst = burst, xq_created_by = created_by, xq_status = StPending\<rparr>], xr_next := Suc (xr_next st)\<rparr>) st
      | _ \<Rightarrow> (False, st))"

definition xdp_pending_requests :: "xdp_requests \<Rightarrow> xdp_request_row list option \<times> xdp_requests" where
  "xdp_pending_requests st = (case xr_query id st of (ok, st') \<Rightarrow>
     (if ok then Some (sort_key xq_id (filter (\<lambda>r. xq_status r = StPending) (xr_rows st))) else None, st'))"

definition xdp_mark_request :: "nat \<Rightarrow> request_status \<Rightarrow> xdp_requests \<Rightarrow> bool \<times> xdp_requests" where
  "xdp_mark_request i status = xr_query (\<lambda>st. st\<lparr>xr_rows :=
     map (\<lambda>r. if xq_id r = i then r\<lparr>xq_status := status\<rparr> else r) (xr_rows st)\<rparr>)"

section \<open>Applying a request\<close>

text \<open>A failed status write is logged.\<close>

definition xdp_mark :: "nat \<Rightarrow> request_status \<Rightarrow> xdp_requests \<Rightarrow> xdp_requests" where
  "xdp_mark i status st = snd (xdp_mark_request i status st)"

fun mark_outcome :: "nat \<Rightarrow> xm_outcome \<Rightarrow> xdp_requests \<Rightarrow> xdp_requests" where
  "mark_outcome i XmApplied st = xdp_mark i StApplied st"
| "mark_outcome i XmDeferred st = st"
| "mark_outcome i (XmRejected reason) st = xdp_mark i StRejected st"

definition apply_xdp_request ::
  "net_test \<Rightarrow> 'b xdp_apply \<Rightarrow> 'j xdp_record \<Rightarrow> nat \<Rightarrow> xdp_request_row \<Rightarrow> ('b, 'j) xdp_manager \<times> xdp_requests \<Rightarrow>
   ('b, 'j) xdp_manager \<times> xdp_requests"
where
  "apply_xdp_request covers ap jr now req s =
     (case s of (m, st) \<Rightarrow>
      if xq_action req = ''block'' then
        (case xdp_net_from (xq_target req) (xq_prefixlen req) of
           None \<Rightarrow> (m, xdp_mark (xq_id req) StRejected st)
         | Some net \<Rightarrow> (case xm_apply_add covers ap jr net now m of (oc, m) \<Rightarrow> (m, mark_outcome (xq_id req) oc st)))
      else if xq_action req = ''unblock'' then
        (case xdp_net_from (xq_target req) (xq_prefixlen req) of
           None \<Rightarrow> (m, xdp_mark (xq_id req) StRejected st)
         | Some net \<Rightarrow> (snd (xm_apply_remove ap jr net now m), xdp_mark (xq_id req) StApplied st))
      else if xq_action req = ''clear_rate'' then
        (snd (xm_apply_clear_rate ap jr (xq_target req) now m), xdp_mark (xq_id req) StApplied st)
      else if xq_action req = ''rate_limit'' then
        (case xq_rate_pps req of
           None \<Rightarrow> (m, xdp_mark (xq_id req) StRejected st)
         | Some pps \<Rightarrow>
             (case xm_apply_rate_limit ap jr (xq_target req) pps (case xq_burst req of None \<Rightarrow> pps | Some b \<Rightarrow> b) now m of
                (oc, m) \<Rightarrow> (m, mark_outcome (xq_id req) oc st)))
      else (m, st))"

section \<open>The task\<close>

text \<open>What the \<open>select!\<close> returned, and between its turns the requests that operators queue.\<close>

datatype xdp_task_event =
    XtRecv detection_event nat
  | XtClosed
  | XtDisarm
  | XtDisarmClosed
  | XtTick "nat \<Rightarrow> nat"
  | XtQueue string ip_addr "nat option" "u64 option" "u64 option" string

record ('b, 'j) xdp_task =
  xt_manager :: "('b, 'j) xdp_manager"
  xt_requests :: xdp_requests
  xt_disarm_open :: bool
  xt_exited :: bool

definition xdp_drain ::
  "net_test \<Rightarrow> 'b xdp_apply \<Rightarrow> 'j xdp_record \<Rightarrow> (nat \<Rightarrow> nat) \<Rightarrow> ('b, 'j) xdp_manager \<times> xdp_requests \<Rightarrow> ('b, 'j) xdp_manager \<times> xdp_requests"
where
  "xdp_drain covers ap jr clk s =
     (case xdp_pending_requests (snd s) of
        (None, st) \<Rightarrow> (fst s, st)
      | (Some reqs, st) \<Rightarrow> fold (\<lambda>(i, req). apply_xdp_request covers ap jr (clk i) req) (enumerate 0 reqs) (fst s, st))"

fun xdp_task_step ::
  "addr_test \<Rightarrow> net_test \<Rightarrow> 'b xdp_apply \<Rightarrow> 'j xdp_record \<Rightarrow> bool \<Rightarrow> xdp_task_event \<Rightarrow> ('b, 'j) xdp_task \<Rightarrow> ('b, 'j) xdp_task"
where
  "xdp_task_step contains covers ap jr auto_enabled (XtRecv ev now) k =
     (if auto_enabled then k\<lparr>xt_manager := xm_on_detection contains ap jr ev now (xt_manager k)\<rparr> else k)"
| "xdp_task_step contains covers ap jr auto_enabled XtClosed k = k\<lparr>xt_exited := True\<rparr>"
| "xdp_task_step contains covers ap jr auto_enabled XtDisarm k =
     (if xt_disarm_open k then k\<lparr>xt_manager := xm_disarm ap (xt_manager k)\<rparr> else k)"
| "xdp_task_step contains covers ap jr auto_enabled XtDisarmClosed k = k\<lparr>xt_disarm_open := False\<rparr>"
| "xdp_task_step contains covers ap jr auto_enabled (XtTick clk) k =
     (case xdp_drain covers ap jr clk (xm_tick ap jr (xt_manager k), xt_requests k) of
        (m, st) \<Rightarrow> k\<lparr>xt_manager := m, xt_requests := st\<rparr>)"
| "xdp_task_step contains covers ap jr auto_enabled (XtQueue action target prefixlen rate burst created_by) k =
     k\<lparr>xt_requests := snd (xdp_enqueue_request action target prefixlen rate burst created_by (xt_requests k))\<rparr>"

text \<open>The task runs until its event channel is closed.\<close>

fun xdp_task_run ::
  "addr_test \<Rightarrow> net_test \<Rightarrow> 'b xdp_apply \<Rightarrow> 'j xdp_record \<Rightarrow> bool \<Rightarrow> xdp_task_event list \<Rightarrow> ('b, 'j) xdp_task \<Rightarrow> ('b, 'j) xdp_task"
where
  "xdp_task_run contains covers ap jr auto_enabled [] k = k"
| "xdp_task_run contains covers ap jr auto_enabled (ev # evs) k =
     (if xt_exited k then k
      else xdp_task_run contains covers ap jr auto_enabled evs (xdp_task_step contains covers ap jr auto_enabled ev k))"

definition XDP_MAX_ENTRIES :: nat where
  "XDP_MAX_ENTRIES = 65536"

text \<open>The live start: the controller from the policy, the entries of the journal taken over.\<close>

definition xdp_daemon_start ::
  "'b xdp_apply \<Rightarrow> ip_net list \<Rightarrow> u64 option \<Rightarrow> ip_net list \<Rightarrow> 'b \<Rightarrow> xdp_entries \<Rightarrow> xdp_requests \<Rightarrow> (('b, xdp_entries) xdp_task) option"
where
  "xdp_daemon_start ap prefixes default_rate protected b j st =
     (case xdp_rehydrate j of
        (None, j) \<Rightarrow> None
      | (Some rows, j) \<Rightarrow> Some \<lparr>xt_manager = xm_reapply_active ap rows
            (xm_new (xc_new prefixes XDP_MAX_ENTRIES (case default_rate of None \<Rightarrow> 1 | Some r \<Rightarrow> r) protected) b j),
          xt_requests = st, xt_disarm_open = True, xt_exited = False\<rparr>)"

section \<open>Shadow mode\<close>

record shadow_xdp =
  sh_xdp_block :: u64
  sh_xdp_rate_limit :: u64

fun shadow_xdp_apply :: "shadow_xdp xdp_apply" where
  "shadow_xdp_apply (Block net) s = (True, s\<lparr>sh_xdp_block := sh_xdp_block s + 1\<rparr>)"
| "shadow_xdp_apply (RateLimit src pps burst victim) s = (True, s\<lparr>sh_xdp_rate_limit := sh_xdp_rate_limit s + 1\<rparr>)"
| "shadow_xdp_apply (Unblock net) s = (True, s)"
| "shadow_xdp_apply (ClearRate src) s = (True, s)"

datatype xdp_exec = Live dataplane_maps | Shadow shadow_xdp

fun xdp_exec_apply :: "(ip_net \<Rightarrow> ip_net) \<Rightarrow> xdp_exec xdp_apply" where
  "xdp_exec_apply trunc a (Live maps) = (case dp_apply trunc a maps of (ok, maps) \<Rightarrow> (ok, Live maps))"
| "xdp_exec_apply trunc a (Shadow s) = (case shadow_xdp_apply a s of (ok, s) \<Rightarrow> (ok, Shadow s))"

section \<open>A task performs a run of its manager\<close>

definition request_op :: "nat \<Rightarrow> xdp_request_row \<Rightarrow> xm_op option" where
  "request_op now req =
     (if xq_action req = ''block'' then map_option (\<lambda>net. XmAdd net now) (xdp_net_from (xq_target req) (xq_prefixlen req))
      else if xq_action req = ''unblock'' then map_option (\<lambda>net. XmRemove net now) (xdp_net_from (xq_target req) (xq_prefixlen req))
      else if xq_action req = ''clear_rate'' then Some (XmClearRate (xq_target req) now)
      else if xq_action req = ''rate_limit'' then
        map_option (\<lambda>pps. XmRateLimit (xq_target req) pps (case xq_burst req of None \<Rightarrow> pps | Some b \<Rightarrow> b) now) (xq_rate_pps req)
      else None)"

lemma request_manager:
  "fst (apply_xdp_request covers ap jr now req s) =
     (case request_op now req of None \<Rightarrow> fst s | Some oper \<Rightarrow> xm_exec contains covers ap jr oper (fst s))"
  by (cases s; cases "xdp_net_from (xq_target req) (xq_prefixlen req)"; cases "xq_rate_pps req")
    (simp_all add: apply_xdp_request_def request_op_def case_prod_beta)

definition row_keys :: "xdp_request_row \<Rightarrow> mirror_key set" where
  "row_keys req = (case request_op 0 req of None \<Rightarrow> {} | Some oper \<Rightarrow> xm_op_keys oper)"

lemma request_keys: "request_op now req = Some oper \<Longrightarrow> xm_op_keys oper = row_keys req"
  by (cases "xdp_net_from (xq_target req) (xq_prefixlen req)"; cases "xq_rate_pps req")
    (auto simp: row_keys_def request_op_def split: if_splits)

definition rows_in :: "mirror_key set \<Rightarrow> xdp_requests \<Rightarrow> bool" where
  "rows_in K st \<longleftrightarrow> (\<forall>r \<in> set (xr_rows st). row_keys r \<subseteq> K)"

fun task_keys :: "xdp_task_event \<Rightarrow> mirror_key set" where
  "task_keys (XtRecv ev now) = event_keys ev"
| "task_keys (XtQueue action target prefixlen rate burst created_by) =
     row_keys \<lparr>xq_id = 0, xq_action = action, xq_target = target, xq_prefixlen = prefixlen, xq_rate_pps = rate, xq_burst = burst,
       xq_created_by = created_by, xq_status = StPending\<rparr>"
| "task_keys XtClosed = {}"
| "task_keys XtDisarm = {}"
| "task_keys XtDisarmClosed = {}"
| "task_keys (XtTick clk) = {}"

lemma row_keys_simps [simp]:
  "row_keys (r\<lparr>xq_status := status\<rparr>) = row_keys r"
  "row_keys (r\<lparr>xq_id := i\<rparr>) = row_keys r"
  unfolding row_keys_def request_op_def by simp_all

lemma rows_in_mark [simp]: "rows_in K st \<Longrightarrow> rows_in K (xdp_mark i status st)"
  by (force simp: xdp_mark_def xdp_mark_request_def xr_query_def rows_in_def split: list.split)

lemma rows_in_outcome [simp]: "rows_in K st \<Longrightarrow> rows_in K (mark_outcome i oc st)"
  by (cases oc) simp_all

lemma rows_in_request [simp]: "rows_in K (snd s) \<Longrightarrow> rows_in K (snd (apply_xdp_request covers ap jr now req s))"
  by (cases s) (simp add: apply_xdp_request_def case_prod_beta split: option.split)

lemma rows_in_queue:
  assumes "rows_in K st" "task_keys (XtQueue action target prefixlen rate burst created_by) \<subseteq> K"
  shows "rows_in K (snd (xdp_enqueue_request action target prefixlen rate burst created_by st))"
proof -
  have "row_keys \<lparr>xq_id = i, xq_action = action, xq_target = target, xq_prefixlen = prefixlen, xq_rate_pps = rate, xq_burst = burst,
       xq_created_by = created_by, xq_status = StPending\<rparr> \<subseteq> K" for i
    using assms(2) row_keys_simps(2) [of i "\<lparr>xq_id = 0, xq_action = action, xq_target = target, xq_prefixlen = prefixlen, xq_rate_pps = rate,
      xq_burst = burst, xq_created_by = created_by, xq_status = StPending\<rparr>"] by simp
  then show ?thesis using assms(1)
    by (auto simp: xdp_enqueue_request_def xr_query_def rows_in_def split: option.split list.split)
qed

text \<open>The manager of a task performs a run whose operations name only keys of the events and rows.\<close>

definition performs ::
  "addr_test \<Rightarrow> net_test \<Rightarrow> 'b xdp_apply \<Rightarrow> 'j xdp_record \<Rightarrow> mirror_key set \<Rightarrow> ('b, 'j) xdp_manager \<Rightarrow> ('b, 'j) xdp_manager \<Rightarrow> bool"
where
  "performs contains covers ap jr K m m' \<longleftrightarrow> (\<exists>opers. m' = xm_run contains covers ap jr opers m \<and> \<Union> (xm_op_keys ` set opers) \<subseteq> K)"

lemma performs_refl [simp]: "performs contains covers ap jr K m m"
  unfolding performs_def by (rule exI [of _ "[]"]) (simp add: xm_run_def)

lemma performs_trans:
  assumes "performs contains covers ap jr K m m'" "performs contains covers ap jr K m' m''"
  shows "performs contains covers ap jr K m m''"
proof -
  obtain o1 o2 where "m' = xm_run contains covers ap jr o1 m" "m'' = xm_run contains covers ap jr o2 m'"
    "\<Union> (xm_op_keys ` set o1) \<subseteq> K" "\<Union> (xm_op_keys ` set o2) \<subseteq> K" using assms unfolding performs_def by blast
  then show ?thesis unfolding performs_def by (intro exI [of _ "o1 @ o2"]) (simp add: xm_run_def)
qed

lemma performs_op: "xm_op_keys oper \<subseteq> K \<Longrightarrow> performs contains covers ap jr K m (xm_exec contains covers ap jr oper m)"
  unfolding performs_def by (rule exI [of _ "[oper]"]) (simp add: xm_run_def)

lemma performs_request:
  assumes "row_keys req \<subseteq> K"
  shows "performs contains covers ap jr K (fst s) (fst (apply_xdp_request covers ap jr now req s))"
proof (cases "request_op now req")
  case None
  then show ?thesis by (simp add: request_manager [of _ _ _ _ _ _ contains])
next
  case (Some oper)
  then show ?thesis using performs_op [of oper K contains covers ap jr "fst s"] assms request_keys [OF Some]
    by (simp add: request_manager [of _ _ _ _ _ _ contains])
qed

lemma performs_requests:
  "\<forall>(i, req) \<in> set reqs. row_keys req \<subseteq> K \<Longrightarrow> rows_in K (snd s) \<Longrightarrow>
   performs contains covers ap jr K (fst s) (fst (fold (\<lambda>(i, req). apply_xdp_request covers ap jr (clk i) req) reqs s)) \<and>
   rows_in K (snd (fold (\<lambda>(i, req). apply_xdp_request covers ap jr (clk i) req) reqs s))"
proof (induction reqs arbitrary: s)
  case (Cons x reqs)
  obtain i req where x: "x = (i, req)" by fastforce
  let ?s = "apply_xdp_request covers ap jr (clk i) req s"
  have "performs contains covers ap jr K (fst s) (fst ?s)" using Cons.prems(1) x by (intro performs_request) simp
  moreover have "rows_in K (snd ?s)" using Cons.prems(2) by simp
  ultimately show ?case using Cons.IH [of ?s] Cons.prems(1) x by (auto intro: performs_trans)
qed simp

lemma performs_drain:
  assumes "rows_in K st"
  shows "performs contains covers ap jr K m (fst (xdp_drain covers ap jr clk (m, st))) \<and> rows_in K (snd (xdp_drain covers ap jr clk (m, st)))"
proof -
  obtain reqs st' where r: "xdp_pending_requests st = (reqs, st')" by fastforce
  have st': "rows_in K st'" "\<And>rs. reqs = Some rs \<Longrightarrow> set rs \<subseteq> set (xr_rows st)"
    using r assms by (auto simp: xdp_pending_requests_def xr_query_def rows_in_def split: list.splits if_splits)
  show ?thesis
  proof (cases reqs)
    case (Some rs)
    have "\<forall>(i, req) \<in> set (enumerate 0 rs). row_keys req \<subseteq> K"
      using st'(2) [OF Some] assms by (force simp: rows_in_def in_set_enumerate_eq dest: nth_mem)
    from performs_requests [OF this, of "(m, st')" contains covers ap jr clk] st'(1) show ?thesis by (simp add: xdp_drain_def r Some)
  qed (use st'(1) r in \<open>simp add: xdp_drain_def\<close>)
qed

lemma performs_step:
  assumes "rows_in K (xt_requests k)" "task_keys ev \<subseteq> K"
  shows "performs contains covers ap jr K (xt_manager k) (xt_manager (xdp_task_step contains covers ap jr auto_enabled ev k)) \<and>
    rows_in K (xt_requests (xdp_task_step contains covers ap jr auto_enabled ev k))"
proof (cases ev)
  case (XtRecv e now)
  then show ?thesis using assms performs_op [of "XmDetect e now" K contains covers ap jr] by simp
next
  case XtDisarm
  then show ?thesis using assms performs_op [of XmDisarm K contains covers ap jr] by simp
next
  case (XtTick clk)
  show ?thesis using performs_drain [OF assms(1), of contains covers ap jr "xm_tick ap jr (xt_manager k)" clk] XtTick
      performs_trans [OF performs_op [of XmTick K contains covers ap jr "xt_manager k"]] by (simp add: case_prod_beta)
next
  case (XtQueue action target prefixlen rate burst created_by)
  then show ?thesis using assms rows_in_queue by simp
qed (use assms in simp_all)

lemma performs_run:
  "rows_in K (xt_requests k) \<Longrightarrow> \<Union> (task_keys ` set evs) \<subseteq> K \<Longrightarrow>
   performs contains covers ap jr K (xt_manager k) (xt_manager (xdp_task_run contains covers ap jr auto_enabled evs k))"
proof (induction evs arbitrary: k)
  case (Cons ev evs)
  have "task_keys ev \<subseteq> K" using Cons.prems(2) by simp
  note p = performs_step [OF Cons.prems(1) this, of contains covers ap jr auto_enabled]
  show ?case using Cons.IH [OF conjunct2 [OF p]] Cons.prems(2) p by (auto intro: performs_trans)
qed simp

section \<open>Properties\<close>

lemma rehydrated_installs: "fst (xdp_rehydrate j) = Some rows \<Longrightarrow> \<forall>row \<in> set rows. is_install (fst row)"
  by (auto simp: xdp_rehydrate_def List.map_filter_def xdp_entry_to_action_def Let_def case_prod_beta split: if_splits)

text \<open>
  C20. What the daemon's XDP plane calls active is enforced. The daemon takes over any journal it can read
  and then sees any sequence of detections, ticks, disarm signals and queued operator requests, with
  any of its map system calls and statements failing. Then every active block or limit has its entry
  in the kernel maps or is queued for another attempt, provided that the networks and sources named by
  the journal, the requests and the detections have different kernel keys.
\<close>

theorem xdp_daemon_enforced:
  assumes "xdp_daemon_start (dp_apply trunc) prefixes default_rate protected b j st = Some k" "fst (xdp_rehydrate j) = Some rows"
    and "kernel_distinct trunc (mirror_key_of ` fst ` set rows \<union> \<Union> (row_keys ` set (xr_rows st)) \<union> \<Union> (task_keys ` set evs))"
    and "m = xt_manager (xdp_task_run contains covers (dp_apply trunc) pg_xdp_record auto_enabled evs k)"
    and "(a, orig) \<in> set (xc_active_entries (xm_controller m))"
  shows "in_kernel trunc (xm_executor m) (mirror_key_of a) \<or> mirror_key_of a \<in> set (xm_pending_reapply m)"
proof -
  let ?K = "mirror_key_of ` fst ` set rows \<union> \<Union> (row_keys ` set (xr_rows st)) \<union> \<Union> (task_keys ` set evs)"
  let ?rate = "case default_rate of None \<Rightarrow> 1 | Some r \<Rightarrow> r"
  obtain j' where k: "xt_requests k = st"
    "xt_manager k = xm_reapply_active (dp_apply trunc) rows (xm_new (xc_new prefixes XDP_MAX_ENTRIES ?rate protected) b j')"
    using assms(1,2) by (auto simp: xdp_daemon_start_def split: prod.splits)
  have "performs contains covers (dp_apply trunc) pg_xdp_record ?K (xt_manager k) m"
    unfolding assms(4) by (rule performs_run) (auto simp: k(1) rows_in_def)
  then obtain opers where o: "m = xm_run contains covers (dp_apply trunc) pg_xdp_record opers (xt_manager k)" "\<Union> (xm_op_keys ` set opers) \<subseteq> ?K"
    unfolding performs_def by blast
  have "named_keys rows opers \<subseteq> ?K" using o(2) by (auto simp: named_keys_def)
  then have kd: "kernel_distinct trunc (named_keys rows opers)"
    using assms(3) unfolding kernel_distinct_def by (meson Collect_mono inj_on_subset subset_iff)
  have b: "m = xm_boot contains covers trunc pg_xdp_record rows opers (xm_new (xc_new prefixes XDP_MAX_ENTRIES ?rate protected) b j')"
    using o(1) k(2) by (simp add: xm_boot_def)
  have "mirror_key_of a \<in> ckeys (xm_controller m)" using assms(5) active_keys(1) [of "xm_controller m"] by force
  then show ?thesis unfolding b by (rule boot_enforced [OF rehydrated_installs [OF assms(2)] kd])
qed

theorem xdp_daemon_enforced_witness:
  "\<exists>k. xdp_daemon_start (dp_apply net_trunc) [NetV4 0xCB007100 24] None [] empty_maps empty_entries \<lparr>xr_rows = [], xr_next = 1, xr_outcomes = []\<rparr> = Some k \<and>
     (let m = xt_manager (xdp_task_run net_contains sample_covers (dp_apply net_trunc) pg_xdp_record True
          [XtQueue ''block'' (V4 0xC6336400) (Some 24) None None ''op'', XtTick (\<lambda>_. 1)] k) in
      in_kernel net_trunc (xm_executor m) (KeyNet (NetV4 0xC6336400 24)) \<or> KeyNet (NetV4 0xC6336400 24) \<in> set (xm_pending_reapply m))"
proof -
  let ?net = "NetV4 0xC6336400 24" and ?st = "\<lparr>xr_rows = [], xr_next = 1, xr_outcomes = []\<rparr>"
  let ?evs = "[XtQueue ''block'' (V4 0xC6336400) (Some 24) None None ''op'', XtTick (\<lambda>_. 1)]"
  have r: "fst (xdp_rehydrate empty_entries) = Some []"
    by (simp add: empty_entries_def xdp_rehydrate_def xdp_active_def en_query_def List.map_filter_def)
  then obtain k where k: "xdp_daemon_start (dp_apply net_trunc) [NetV4 0xCB007100 24] None [] empty_maps empty_entries ?st = Some k"
    by (cases "xdp_rehydrate empty_entries") (auto simp: xdp_daemon_start_def)
  have "(Block ?net, XdpManual) \<in> set (xc_active_entries (xm_controller (xt_manager
      (xdp_task_run net_contains sample_covers (dp_apply net_trunc) pg_xdp_record True ?evs k))))"
    using k by (auto simp: xdp_daemon_start_def empty_entries_def xdp_rehydrate_def xdp_active_def en_query_def List.map_filter_def
      xdp_enqueue_request_def xr_query_def xdp_drain_def xdp_pending_requests_def apply_xdp_request_def xdp_net_from_def xm_tick_def
      xm_retry_pending_reapply_def xm_retry_pending_mirror_def xdp_record_apply_def XDP_MAX_ENTRIES_def xc_active_entries_def sample_xm_simps)
  moreover have "row_keys \<lparr>xq_id = 0, xq_action = ''block'', xq_target = V4 0xC6336400, xq_prefixlen = Some 24, xq_rate_pps = None, xq_burst = None,
       xq_created_by = ''op'', xq_status = StPending\<rparr> = {KeyNet ?net}"
    by (simp add: row_keys_def request_op_def xdp_net_from_def)
  then have "kernel_distinct net_trunc (mirror_key_of ` fst ` set [] \<union> \<Union> (row_keys ` set (xr_rows ?st)) \<union> \<Union> (task_keys ` set ?evs))"
    by (simp add: kernel_distinct_def)
  ultimately show ?thesis using xdp_daemon_enforced [OF k r _ refl, where evs = ?evs and contains = net_contains and covers = sample_covers and auto_enabled = True and
      a = "Block ?net" and orig = XdpManual] k
    by (simp add: Let_def)
qed

text \<open>
  C29. An operator's last word can be overruled. If the map write of a block request fails, the request
  stays pending; an unblock request for the same network queued after it is answered as applied, and
  the tick after that applies the older block: both requests are answered as applied, the last one
  says unblock, and the network is blocked in the manager and in the kernel.
\<close>

theorem xdp_unblock_overruled:
  assumes "net_wf net" "\<not> (\<exists>p \<in> set prefixes. covers p net \<or> covers net p)"
    and "xdp_daemon_start (dp_apply trunc) prefixes default_rate protected (empty_maps\<lparr>dm_outcomes := [False]\<rparr>) empty_entries
           \<lparr>xr_rows = [], xr_next = 1, xr_outcomes = []\<rparr> = Some k"
    and "k' = xdp_task_run contains covers (dp_apply trunc) pg_xdp_record auto_enabled
           [XtQueue ''block'' (net_addr net) (Some (prefix_len net)) None None who,
            XtQueue ''unblock'' (net_addr net) (Some (prefix_len net)) None None who, XtTick clk, XtTick clk'] k"
  shows "map (\<lambda>r. (xq_id r, xq_action r, xq_status r)) (xr_rows (xt_requests k')) = [(1, ''block'', StApplied), (2, ''unblock'', StApplied)] \<and>
    xc_is_blocked (xm_controller (xt_manager k')) net \<and> in_kernel trunc (xm_executor (xt_manager k')) (KeyNet net)"
  using assms(1,2,3) unfolding assms(4)
  by (auto simp: xdp_daemon_start_def empty_entries_def empty_maps_def xdp_rehydrate_def xdp_active_def en_query_def List.map_filter_def
      xdp_enqueue_request_def xr_query_def xdp_drain_def xdp_pending_requests_def apply_xdp_request_def xdp_net_from_def net_new_wf xm_tick_def
      xm_retry_pending_reapply_def xm_retry_pending_mirror_def xdp_record_apply_def XDP_MAX_ENTRIES_def xm_new_def xc_new_def
      xm_apply_add_def xc_is_blocked_def xc_manual_block_def xc_overlaps_own_prefix_def xc_total_active_def execute_and_journal_def dp_block_def
      dm_sys_def hm_len_def hm_get_def hm_insert_def hm_remove_def xm_rollback_def xm_apply_remove_def xc_manual_unblock_def dp_unblock_def dm_delete_def
      xdp_mark_def xdp_mark_request_def Let_def)

theorem xdp_unblock_overruled_witness:
  "\<exists>k. xdp_daemon_start (dp_apply net_trunc) [NetV4 0xCB007100 24] None [] (empty_maps\<lparr>dm_outcomes := [False]\<rparr>) empty_entries
       \<lparr>xr_rows = [], xr_next = 1, xr_outcomes = []\<rparr> = Some k \<and>
     in_kernel net_trunc (xm_executor (xt_manager (xdp_task_run net_contains sample_covers (dp_apply net_trunc) pg_xdp_record True
       [XtQueue ''block'' (V4 0xC6336400) (Some 24) None None ''op'', XtQueue ''unblock'' (V4 0xC6336400) (Some 24) None None ''op'',
        XtTick (\<lambda>_. 1), XtTick (\<lambda>_. 2)] k))) (KeyNet (NetV4 0xC6336400 24))"
proof -
  have "fst (xdp_rehydrate empty_entries) = Some []"
    by (simp add: empty_entries_def xdp_rehydrate_def xdp_active_def en_query_def List.map_filter_def)
  then obtain k where k: "xdp_daemon_start (dp_apply net_trunc) [NetV4 0xCB007100 24] None [] (empty_maps\<lparr>dm_outcomes := [False]\<rparr>) empty_entries
       \<lparr>xr_rows = [], xr_next = 1, xr_outcomes = []\<rparr> = Some k"
    by (cases "xdp_rehydrate empty_entries") (auto simp: xdp_daemon_start_def)
  have "\<not> (\<exists>p \<in> set [NetV4 0xCB007100 24]. sample_covers p (NetV4 0xC6336400 24) \<or> sample_covers (NetV4 0xC6336400 24) p)" by simp
  from xdp_unblock_overruled [OF _ this k refl, of net_contains True "''op''" "\<lambda>_. 1" "\<lambda>_. 2"] k show ?thesis by simp
qed

end
