(* ===== verification/Rust_Str.thy ===== *)
theory Rust_Str
  imports F64 Net Detection
begin

text \<open>
  The string operations of Rust's standard library that the configuration language uses: white space,
  lines, splitting and trimming, and \<open>FromStr\<close> for integers, floats, addresses and socket addresses.
  A \<open>str\<close> is the list of its code points; HOL's characters are the first 256 of them, and
  \<open>encode_utf8\<close> gives their bytes.
\<close>

section \<open>Bytes\<close>

definition encode_utf8 :: "char \<Rightarrow> u8 list" where
  "encode_utf8 c = (let n = (of_char c :: nat) in
     if n < 128 then [of_nat n] else [of_nat (192 + n div 64), of_nat (128 + n mod 64)])"

definition str_bytes :: "string \<Rightarrow> u8 list" where
  "str_bytes s = concat (map encode_utf8 s)"

section \<open>White space, lines and splitting\<close>

definition is_whitespace :: "char \<Rightarrow> bool" where
  "is_whitespace c = (let n = (of_char c :: nat) in 9 \<le> n \<and> n \<le> 13 \<or> n = 32 \<or> n = 133 \<or> n = 160)"

function split_whitespace :: "string \<Rightarrow> string list" where
  "split_whitespace s = (let s = dropWhile is_whitespace s in
     if s = [] then [] else takeWhile (Not \<circ> is_whitespace) s # split_whitespace (dropWhile (Not \<circ> is_whitespace) s))"
  by pat_completeness auto
termination
proof (relation "measure length", goal_cases)
  case (2 s s')
  then obtain c cs where c: "dropWhile is_whitespace s = c # cs" "\<not> is_whitespace c"
    by (metis hd_dropWhile list.exhaust list.sel(1))
  have "length (dropWhile (Not \<circ> is_whitespace) (c # cs)) \<le> length cs" using c(2) by (simp add: length_dropWhile_le)
  also have "\<dots> < length (c # cs)" by simp
  also have "\<dots> \<le> length s" using length_dropWhile_le [of is_whitespace s] c(1) by simp
  finally show ?case using 2 c(1) by simp
qed simp

declare split_whitespace.simps [simp del]

abbreviation LF :: char where "LF \<equiv> CHR 0x0A"

abbreviation CR :: char where "CR \<equiv> CHR 0x0D"

definition strip_cr :: "string \<Rightarrow> string" where
  "strip_cr s = (if s \<noteq> [] \<and> last s = CR then butlast s else s)"

text \<open>\<open>str::lines\<close>: a terminator is a line feed or a carriage return and a line feed.\<close>

function str_lines :: "string \<Rightarrow> string list" where
  "str_lines s =
     (if s = [] then []
      else if LF \<in> set s then strip_cr (takeWhile (\<lambda>c. c \<noteq> LF) s) # str_lines (tl (dropWhile (\<lambda>c. c \<noteq> LF) s))
      else [s])"
  by pat_completeness auto
termination
proof (relation "measure length", goal_cases)
  case (2 s)
  have "length (tl (dropWhile (\<lambda>c. c \<noteq> LF) s)) \<le> length (tl s)"
    using 2(1) by (cases s) (auto simp: length_dropWhile_le le_SucI intro: le_trans [OF diff_le_mono [OF length_dropWhile_le]])
  then show ?case using 2(1) by (cases s) auto
qed simp

declare str_lines.simps [simp del]

definition trim_end :: "string \<Rightarrow> string" where
  "trim_end s = rev (dropWhile is_whitespace (rev s))"

definition trim :: "string \<Rightarrow> string" where
  "trim s = trim_end (dropWhile is_whitespace s)"

definition trim_end_matches :: "char \<Rightarrow> string \<Rightarrow> string" where
  "trim_end_matches c s = rev (dropWhile (\<lambda>x. x = c) (rev s))"

definition split_once :: "char \<Rightarrow> string \<Rightarrow> (string \<times> string) option" where
  "split_once c s = (if c \<in> set s then Some (takeWhile (\<lambda>x. x \<noteq> c) s, tl (dropWhile (\<lambda>x. x \<noteq> c) s)) else None)"

fun split_on :: "char \<Rightarrow> string \<Rightarrow> string list" where
  "split_on c [] = [[]]"
| "split_on c (x # xs) = (if x = c then [] # split_on c xs else (case split_on c xs of p # ps \<Rightarrow> (x # p) # ps | [] \<Rightarrow> [[x]]))"

definition strip_prefix :: "string \<Rightarrow> string \<Rightarrow> string option" where
  "strip_prefix p s = (if take (length p) s = p then Some (drop (length p) s) else None)"

definition strip_suffix :: "string \<Rightarrow> string \<Rightarrow> string option" where
  "strip_suffix p s = (if length p \<le> length s \<and> drop (length s - length p) s = p then Some (take (length s - length p) s) else None)"

definition starts_with :: "string \<Rightarrow> string \<Rightarrow> bool" where
  "starts_with p s = (take (length p) s = p)"

fun join_words :: "string list \<Rightarrow> string" where
  "join_words [] = []"
| "join_words [w] = w"
| "join_words (w # ws) = w @ '' '' @ join_words ws"

section \<open>Digits and integers\<close>

text \<open>\<open>char::to_digit\<close>.\<close>

definition to_digit :: "nat \<Rightarrow> char \<Rightarrow> nat option" where
  "to_digit radix c = (let n = (of_char c :: nat);
      d = (if 48 \<le> n \<and> n \<le> 57 then Some (n - 48)
           else if 97 \<le> n \<and> n \<le> 122 then Some (n - 87)
           else if 65 \<le> n \<and> n \<le> 90 then Some (n - 55) else None)
    in case d of None \<Rightarrow> None | Some v \<Rightarrow> if v < radix then Some v else None)"

definition is_digit :: "nat \<Rightarrow> char \<Rightarrow> bool" where
  "is_digit radix c \<longleftrightarrow> to_digit radix c \<noteq> None"

definition digits_val :: "nat \<Rightarrow> string \<Rightarrow> nat" where
  "digits_val radix s = foldl (\<lambda>acc c. acc * radix + (case to_digit radix c of None \<Rightarrow> 0 | Some d \<Rightarrow> d)) 0 s"

text \<open>\<open>FromStr\<close> of an unsigned integer type with the given maximum: an optional plus sign and decimal digits.\<close>

definition parse_uint :: "nat \<Rightarrow> string \<Rightarrow> nat option" where
  "parse_uint limit s =
     (let ds = (case s of [] \<Rightarrow> [] | c # cs \<Rightarrow> if c = CHR ''+'' \<and> cs \<noteq> [] then cs else s) in
      if ds = [] \<or> \<not> list_all (is_digit 10) ds \<or> limit < digits_val 10 ds then None else Some (digits_val 10 ds))"

definition parse_u8 :: "string \<Rightarrow> u8 option" where
  "parse_u8 s = map_option of_nat (parse_uint 255 s)"

definition parse_u16 :: "string \<Rightarrow> u16 option" where
  "parse_u16 s = map_option of_nat (parse_uint 65535 s)"

definition parse_u32 :: "string \<Rightarrow> u32 option" where
  "parse_u32 s = map_option of_nat (parse_uint u32_max s)"

definition parse_u64 :: "string \<Rightarrow> u64 option" where
  "parse_u64 s = map_option of_nat (parse_uint u64_max s)"

definition parse_usize :: "string \<Rightarrow> nat option" where
  "parse_usize s = parse_uint u64_max s"

section \<open>Floats\<close>

datatype decimal = DNum rat | DInf | DNan

definition to_lower :: "char \<Rightarrow> char" where
  "to_lower c = (let n = (of_char c :: nat) in if 65 \<le> n \<and> n \<le> 90 then char_of (n + 32) else c)"

text \<open>An exponent: \<open>e\<close> or \<open>E\<close>, an optional sign, and digits up to the end.\<close>

definition parse_exponent :: "string \<Rightarrow> int option" where
  "parse_exponent s =
     (case s of
        [] \<Rightarrow> Some 0
      | c # cs \<Rightarrow>
          if to_lower c \<noteq> CHR ''e'' then None
          else (case cs of
              [] \<Rightarrow> None
            | d # ds \<Rightarrow>
                (let (sgn, ds) = (if d = CHR ''-'' then (-1, ds) else if d = CHR ''+'' then (1, ds) else (1, cs))
                 in if ds = [] \<or> \<not> list_all (is_digit 10) ds then None else Some (sgn * int (digits_val 10 ds)))))"

definition parse_decimal :: "string \<Rightarrow> decimal option" where
  "parse_decimal s =
     (let low = map to_lower s in
      if low = ''inf'' \<or> low = ''infinity'' then Some DInf
      else if low = ''nan'' then Some DNan
      else let whole = takeWhile (is_digit 10) s;
               rest = dropWhile (is_digit 10) s;
               frac = (case rest of [] \<Rightarrow> [] | c # cs \<Rightarrow> if c = CHR ''.'' then takeWhile (is_digit 10) cs else []);
               rest = (case rest of [] \<Rightarrow> [] | c # cs \<Rightarrow> if c = CHR ''.'' then dropWhile (is_digit 10) cs else rest)
           in if whole = [] \<and> frac = [] then None
              else map_option (\<lambda>e. DNum (of_nat (digits_val 10 (whole @ frac)) * 10 powi (e - int (length frac)))) (parse_exponent rest))"

definition parse_signed_decimal :: "string \<Rightarrow> (bool \<times> decimal) option" where
  "parse_signed_decimal s =
     (case s of
        [] \<Rightarrow> None
      | c # cs \<Rightarrow>
          if c = CHR ''-'' then map_option (Pair True) (parse_decimal cs)
          else if c = CHR ''+'' then map_option (Pair False) (parse_decimal cs)
          else map_option (Pair False) (parse_decimal s))"

fun f64_of_decimal :: "bool \<times> decimal \<Rightarrow> f64" where
  "f64_of_decimal (s, DNum q) = f_round s q"
| "f64_of_decimal (s, DInf) = Inf s"
| "f64_of_decimal (s, DNan) = NaN s"

definition parse_f64 :: "string \<Rightarrow> f64 option" where
  "parse_f64 s = map_option f64_of_decimal (parse_signed_decimal s)"

text \<open>The bits of the single-precision value nearest to a magnitude, ties to even.\<close>

definition f32_mag :: "rat \<Rightarrow> f32" where
  "f32_mag q = (if q = 0 then 0 else
     let e = max (- 149) (rat_ilog2 q - 23); m = round_half_even (q / 2 powi e) in
     if 2 ^ 128 \<le> of_int m * (2 :: rat) powi e then 0x7F800000 else word_of_int ((e + 149) * 2 ^ 23 + m))"

fun f32_of_decimal :: "bool \<times> decimal \<Rightarrow> f32" where
  "f32_of_decimal (s, d) = (if s then 0x80000000 else 0) OR (case d of DNum q \<Rightarrow> f32_mag q | DInf \<Rightarrow> 0x7F800000 | DNan \<Rightarrow> 0x7FC00000)"

definition parse_f32 :: "string \<Rightarrow> f32 option" where
  "parse_f32 s = map_option f32_of_decimal (parse_signed_decimal s)"

section \<open>Addresses\<close>

text \<open>
  The address parser of \<open>core::net\<close>: each reader returns a value and the rest of the input, and
  consumes nothing when it fails.
\<close>

type_synonym 'a reader = "string \<Rightarrow> ('a \<times> string) option"

definition read_number :: "nat \<Rightarrow> nat option \<Rightarrow> bool \<Rightarrow> nat \<Rightarrow> nat reader" where
  "read_number radix max_digits allow_zero_prefix limit s =
     (let ds = takeWhile (is_digit radix) s in
      if ds = [] \<or> (case max_digits of None \<Rightarrow> False | Some n \<Rightarrow> n < length ds)
         \<or> \<not> allow_zero_prefix \<and> hd ds = CHR ''0'' \<and> 1 < length ds \<or> limit < digits_val radix ds
      then None else Some (digits_val radix ds, dropWhile (is_digit radix) s))"

fun read_given_char :: "char \<Rightarrow> unit reader" where
  "read_given_char c [] = None"
| "read_given_char c (x # xs) = (if x = c then Some ((), xs) else None)"

definition read_separator :: "char \<Rightarrow> nat \<Rightarrow> 'a reader \<Rightarrow> 'a reader" where
  "read_separator sep index inner s =
     (if index = 0 then inner s else (case read_given_char sep s of None \<Rightarrow> None | Some (_, r) \<Rightarrow> inner r))"

definition read_octet :: "nat \<Rightarrow> nat reader" where
  "read_octet i = read_separator CHR ''.'' i (read_number 10 (Some 3) False 255)"

definition read_ipv4_addr :: "u32 reader" where
  "read_ipv4_addr s =
     (case read_octet 0 s of None \<Rightarrow> None | Some (a, s) \<Rightarrow>
      case read_octet 1 s of None \<Rightarrow> None | Some (b, s) \<Rightarrow>
      case read_octet 2 s of None \<Rightarrow> None | Some (c, s) \<Rightarrow>
      case read_octet 3 s of None \<Rightarrow> None | Some (d, s) \<Rightarrow>
        Some (from_be32 (of_nat a) (of_nat b) (of_nat c) (of_nat d), s))"

function read_groups :: "nat \<Rightarrow> nat \<Rightarrow> nat list \<Rightarrow> string \<Rightarrow> nat list \<times> bool \<times> string" where
  "read_groups limit i groups s =
     (if limit \<le> i then (groups, False, s)
      else case (if Suc i < limit then read_separator CHR '':'' i read_ipv4_addr s else None) of
          Some (v4, r) \<Rightarrow> (groups @ [unat (drop_bit 16 v4), unat (v4 AND 0xFFFF)], True, r)
        | None \<Rightarrow> (case read_separator CHR '':'' i (read_number 16 (Some 4) True 65535) s of
            Some (g, r) \<Rightarrow> read_groups limit (Suc i) (groups @ [g]) r
          | None \<Rightarrow> (groups, False, s)))"
  by pat_completeness auto
termination by (relation "measure (\<lambda>(limit, i, groups, s). limit - i)") auto

declare read_groups.simps [simp del]

definition groups_addr :: "nat list \<Rightarrow> u128" where
  "groups_addr gs = foldl (\<lambda>acc g. push_bit 16 acc OR of_nat g) 0 gs"

definition read_ipv6_addr :: "u128 reader" where
  "read_ipv6_addr s =
     (case read_groups 8 0 [] s of (head, head_ipv4, s) \<Rightarrow>
        if length head = 8 then Some (groups_addr head, s)
        else if head_ipv4 then None
        else (case read_given_char CHR '':'' s of None \<Rightarrow> None | Some (_, s) \<Rightarrow>
              case read_given_char CHR '':'' s of None \<Rightarrow> None | Some (_, s) \<Rightarrow>
              case read_groups (8 - (length head + 1)) 0 [] s of (tail, _, s) \<Rightarrow>
                Some (groups_addr (head @ replicate (8 - length head - length tail) 0 @ tail), s)))"

definition read_ip_addr :: "ip_addr reader" where
  "read_ip_addr s =
     (case read_ipv4_addr s of Some (a, r) \<Rightarrow> Some (V4 a, r) | None \<Rightarrow> map_option (\<lambda>(a, r). (V6 a, r)) (read_ipv6_addr s))"

record socket_addr =
  sa_ip :: ip_addr
  sa_port :: u16
  sa_scope :: u32

definition read_port :: "nat reader" where
  "read_port s = (case read_given_char CHR '':'' s of None \<Rightarrow> None | Some (_, s) \<Rightarrow> read_number 10 None True 65535 s)"

definition read_scope_id :: "nat reader" where
  "read_scope_id s = (case read_given_char CHR ''%'' s of None \<Rightarrow> None | Some (_, s) \<Rightarrow> read_number 10 None True u32_max s)"

definition read_socket_addr_v4 :: "socket_addr reader" where
  "read_socket_addr_v4 s =
     (case read_ipv4_addr s of None \<Rightarrow> None | Some (a, s) \<Rightarrow>
      case read_port s of None \<Rightarrow> None | Some (p, s) \<Rightarrow> Some (\<lparr>sa_ip = V4 a, sa_port = of_nat p, sa_scope = 0\<rparr>, s))"

definition read_socket_addr_v6 :: "socket_addr reader" where
  "read_socket_addr_v6 s =
     (case read_given_char CHR ''['' s of None \<Rightarrow> None | Some (_, s) \<Rightarrow>
      case read_ipv6_addr s of None \<Rightarrow> None | Some (a, s) \<Rightarrow>
      case (case read_scope_id s of None \<Rightarrow> (0, s) | Some x \<Rightarrow> x) of (scope, s) \<Rightarrow>
      case read_given_char CHR '']'' s of None \<Rightarrow> None | Some (_, s) \<Rightarrow>
      case read_port s of None \<Rightarrow> None | Some (p, s) \<Rightarrow> Some (\<lparr>sa_ip = V6 a, sa_port = of_nat p, sa_scope = of_nat scope\<rparr>, s))"

definition read_socket_addr :: "socket_addr reader" where
  "read_socket_addr s = (case read_socket_addr_v4 s of Some x \<Rightarrow> Some x | None \<Rightarrow> read_socket_addr_v6 s)"

text \<open>\<open>FromStr\<close>: the reader has to consume the whole text.\<close>

definition parse_with :: "'a reader \<Rightarrow> string \<Rightarrow> 'a option" where
  "parse_with rd s = (case rd s of Some (x, []) \<Rightarrow> Some x | _ \<Rightarrow> None)"

definition parse_ip :: "string \<Rightarrow> ip_addr option" where
  "parse_ip = parse_with read_ip_addr"

definition parse_ipv4 :: "string \<Rightarrow> u32 option" where
  "parse_ipv4 = parse_with read_ipv4_addr"

definition parse_ipv6 :: "string \<Rightarrow> u128 option" where
  "parse_ipv6 = parse_with read_ipv6_addr"

definition parse_socket :: "string \<Rightarrow> socket_addr option" where
  "parse_socket = parse_with read_socket_addr"

end
