(* ===== verification/Config_Lexer.thy ===== *)
theory Config_Lexer
  imports Rust_Str
begin

text \<open>
  The tokenizer of the configuration language (\<^verbatim>\<open>blackwall-config/src/lexer.rs\<close>): comments are stripped,
  lines that end in a backslash are joined, and every logical line becomes its words with the number of its
  first physical line. A \<^verbatim>\<open>usize\<close> line number is a natural number.
\<close>

section \<open>The lexer\<close>

record line =
  ln_number :: nat
  ln_words :: "string list"

definition comment_start :: "string \<Rightarrow> nat option" where
  "comment_start raw = find (\<lambda>i. raw ! i = CHR ''#'' \<and> (i = 0 \<or> is_whitespace (raw ! (i - 1)))) [0..<length raw]"

definition strip_comment :: "string \<Rightarrow> string" where
  "strip_comment raw = (case comment_start raw of Some pos \<Rightarrow> take pos raw | None \<Rightarrow> raw)"

definition continues :: "string \<Rightarrow> bool" where
  "continues without_comment = (let trimmed = trim_end without_comment in trimmed \<noteq> [] \<and> last trimmed = CHR 0x5C)"

type_synonym lex_state = "(nat \<times> string list) option \<times> line list"

definition lex_flush :: "lex_state \<Rightarrow> lex_state" where
  "lex_flush st = (case st of
     (None, out) \<Rightarrow> (None, out)
   | (Some (number, acc), out) \<Rightarrow> (None, if acc = [] then out else out @ [\<lparr>ln_number = number, ln_words = acc\<rparr>]))"

definition lex_step :: "nat \<times> string \<Rightarrow> lex_state \<Rightarrow> lex_state" where
  "lex_step = (\<lambda>(idx, raw) (pending, out).
     (let without_comment = strip_comment raw;
          content = (if continues without_comment then butlast (trim_end without_comment) else without_comment);
          words = split_whitespace content;
          pending = (case pending of Some (n, acc) \<Rightarrow> Some (n, acc @ words) | None \<Rightarrow> Some (idx + 1, words))
      in if continues without_comment then (pending, out) else lex_flush (pending, out)))"

definition lex_text :: "string \<Rightarrow> line list" where
  "lex_text input = snd (lex_flush (fold lex_step (enumerate 0 (str_lines input)) (None, [])))"

section \<open>Words\<close>

text \<open>A word has a character and no white space; the lexer emits nothing else.\<close>

definition is_word :: "string \<Rightarrow> bool" where
  "is_word w \<longleftrightarrow> w \<noteq> [] \<and> list_all (Not \<circ> is_whitespace) w"

lemma split_whitespace_words: "list_all is_word (split_whitespace s)"
proof (induction s rule: split_whitespace.induct)
  case (1 s)
  let ?r = "dropWhile is_whitespace s"
  show ?case
  proof (cases ?r)
    case Nil
    then show ?thesis by (subst split_whitespace.simps) simp
  next
    case (Cons c cs)
    then have "\<not> is_whitespace c" by (metis dropWhile_eq_Cons_conv)
    then have "is_word (takeWhile (Not \<circ> is_whitespace) ?r)"
      using Cons by (auto simp: is_word_def list_all_iff dest: set_takeWhileD)
    moreover have "list_all is_word (split_whitespace (dropWhile (Not \<circ> is_whitespace) ?r))"
      using 1 Cons by simp
    ultimately show ?thesis using Cons by (subst split_whitespace.simps) simp
  qed
qed

definition line_ok :: "line \<Rightarrow> bool" where
  "line_ok l \<longleftrightarrow> ln_words l \<noteq> [] \<and> list_all is_word (ln_words l)"

definition lex_ok :: "lex_state \<Rightarrow> bool" where
  "lex_ok st = ((case fst st of None \<Rightarrow> True | Some (_, acc) \<Rightarrow> list_all is_word acc) \<and> list_all line_ok (snd st))"

lemma lex_flush_ok: "lex_ok st \<Longrightarrow> lex_ok (lex_flush st)"
  by (auto simp: lex_ok_def lex_flush_def line_ok_def split: prod.splits option.splits)

lemma lex_step_ok:
  assumes "lex_ok st"
  shows "lex_ok (lex_step p st)"
proof -
  obtain pending out idx raw where st: "st = (pending, out)" "p = (idx, raw)" by (cases st; cases p)
  define content where "content = (if continues (strip_comment raw) then butlast (trim_end (strip_comment raw)) else strip_comment raw)"
  define pending' where "pending' = (case pending of Some (n, acc) \<Rightarrow> Some (n, acc @ split_whitespace content)
    | None \<Rightarrow> Some (idx + 1, split_whitespace content))"
  have step: "lex_step p st = (if continues (strip_comment raw) then (pending', out) else lex_flush (pending', out))"
    unfolding lex_step_def st pending'_def content_def Let_def by simp
  have "lex_ok (pending', out)"
    using assms by (auto simp: lex_ok_def st pending'_def split_whitespace_words split: option.splits)
  then show ?thesis by (simp add: step lex_flush_ok)
qed

lemma lex_lines_ok: "list_all line_ok (lex_text input)"
proof -
  have "lex_ok (fold lex_step xs st)" if "lex_ok st" for xs st
    using that
  proof (induction xs arbitrary: st)
    case (Cons x xs)
    from Cons.IH [OF lex_step_ok [OF Cons.prems]] show ?case by simp
  qed simp
  from lex_flush_ok [OF this, of "(None, [])"] show ?thesis
    by (simp add: lex_text_def lex_ok_def)
qed

section \<open>Printing and reading back\<close>

lemma takeWhile_word: "list_all P w \<Longrightarrow> takeWhile P w = w" "list_all P w \<Longrightarrow> dropWhile P w = []"
  by (induction w) auto

lemma join_words_Cons: "join_words (w # ws) = w @ (if ws = [] then [] else '' '' @ join_words ws)"
  by (cases ws) simp_all

lemma split_join_words:
  assumes "list_all is_word ws"
  shows "split_whitespace (join_words ws) = ws"
  using assms
proof (induction ws)
  case Nil
  show ?case by (subst split_whitespace.simps) simp
next
  case (Cons w ws)
  then obtain c cs where w: "w = c # cs" "\<not> is_whitespace c" "list_all (Not \<circ> is_whitespace) w"
    by (cases w) (auto simp: is_word_def)
  have sp: "is_whitespace CHR '' ''" by (simp add: is_whitespace_def)
  let ?s = "join_words (w # ws)"
  have head: "dropWhile is_whitespace ?s = ?s" "?s \<noteq> []" using w by (simp_all add: join_words_Cons)
  have word: "takeWhile (Not \<circ> is_whitespace) ?s = w"
    using w(3) sp by (auto simp: join_words_Cons takeWhile_word list_all_iff takeWhile_append2)
  have rest: "dropWhile (Not \<circ> is_whitespace) ?s = (if ws = [] then [] else '' '' @ join_words ws)"
    using w(3) sp by (auto simp: join_words_Cons takeWhile_word list_all_iff dropWhile_append2)
  have skip: "split_whitespace ('' '' @ t) = split_whitespace t" for t
    using sp by (subst (1 2) split_whitespace.simps) simp
  have nil: "split_whitespace [] = []" by (subst split_whitespace.simps) simp
  have "split_whitespace ?s = w # split_whitespace (if ws = [] then [] else '' '' @ join_words ws)"
    using head word rest by (subst split_whitespace.simps) (simp add: Let_def)
  also have "split_whitespace (if ws = [] then [] else '' '' @ join_words ws) = ws"
    using Cons nil skip by simp
  finally show ?case .
qed

text \<open>A line prints when it has words, none starts a comment and the last one does not ask for a continuation.\<close>

definition printable_line :: "string list \<Rightarrow> bool" where
  "printable_line ws \<longleftrightarrow> ws \<noteq> [] \<and> list_all is_word ws \<and> list_all (\<lambda>w. hd w \<noteq> CHR ''#'') ws \<and> last (last ws) \<noteq> CHR 0x5C"

definition print_lines :: "string list list \<Rightarrow> string" where
  "print_lines wss = concat (map (\<lambda>ws. join_words ws @ [LF]) wss)"

definition number_lines :: "nat \<Rightarrow> string list list \<Rightarrow> line list" where
  "number_lines n wss = map (\<lambda>(i, ws). \<lparr>ln_number = i, ln_words = ws\<rparr>) (enumerate n wss)"

lemma word_char: "is_word w \<Longrightarrow> c \<in> set w \<Longrightarrow> \<not> is_whitespace c"
  by (auto simp: is_word_def list_all_iff)

lemma is_whitespace_simps [simp]: "is_whitespace LF" "is_whitespace CR" "is_whitespace CHR '' ''"
  by (simp_all add: is_whitespace_def)

lemma join_words_chars: "list_all is_word ws \<Longrightarrow> c \<in> set (join_words ws) \<Longrightarrow> is_whitespace c \<Longrightarrow> c = CHR '' ''"
  by (induction ws) (auto simp: join_words_Cons word_char split: if_splits)

lemma join_words_last: "ws \<noteq> [] \<Longrightarrow> list_all is_word ws \<Longrightarrow> join_words ws \<noteq> [] \<and> last (join_words ws) = last (last ws)"
  by (induction ws) (auto simp: join_words_Cons is_word_def)

lemma join_words_hash:
  assumes "list_all is_word ws" "list_all (\<lambda>w. hd w \<noteq> CHR ''#'') ws" "i < length (join_words ws)"
    "join_words ws ! i = CHR ''#''"
  shows "0 < i \<and> \<not> is_whitespace (join_words ws ! (i - 1))"
  using assms
proof (induction ws arbitrary: i)
  case (Cons w ws)
  have w: "is_word w" "hd w \<noteq> CHR ''#''" using Cons.prems by simp_all
  have inword: ?case if "i < length w" 
  proof -
    have "w ! i = CHR ''#''" using that Cons.prems(4) by (simp add: join_words_Cons nth_append)
    then have "i \<noteq> 0" using w by (metis hd_conv_nth is_word_def)
    moreover have "\<not> is_whitespace (w ! (i - 1))" using word_char [OF w(1) nth_mem, of "i - 1"] that by simp
    ultimately show ?thesis using that by (auto simp: join_words_Cons nth_append)
  qed
  show ?case
  proof (cases "i < length w")
    case False
    with Cons.prems(3) have ws: "ws \<noteq> []" by (auto simp: join_words_Cons split: if_splits)
    have len: "i \<noteq> length w" using Cons.prems(4) False ws by (auto simp: join_words_Cons nth_append)
    define k where "k = i - Suc (length w)"
    have i: "i = Suc (length w) + k" using False len by (simp add: k_def)
    have k: "k < length (join_words ws)" "join_words ws ! k = CHR ''#''"
      using Cons.prems(3, 4) ws by (auto simp: i join_words_Cons nth_append)
    with Cons have "0 < k \<and> \<not> is_whitespace (join_words ws ! (k - 1))" by simp
    then show ?thesis using ws by (auto simp: i join_words_Cons nth_append)
  qed (rule inword)
qed simp

lemma printable_step:
  assumes "printable_line ws"
  shows "lex_step (i, join_words ws) (None, out) = (None, out @ [\<lparr>ln_number = i + 1, ln_words = ws\<rparr>])"
proof -
  have ws: "ws \<noteq> []" "list_all is_word ws" using assms by (simp_all add: printable_line_def)
  have "comment_start (join_words ws) = None"
    using join_words_hash [OF ws(2)] assms by (auto simp: comment_start_def find_None_iff printable_line_def)
  then have strip: "strip_comment (join_words ws) = join_words ws" by (simp add: strip_comment_def)
  have "is_word (last ws)" using ws by (simp add: list_all_iff)
  then have last: "\<not> is_whitespace (last (join_words ws))" "join_words ws \<noteq> []"
    using join_words_last [OF ws] word_char [of "last ws"] by (simp_all add: is_word_def)
  then have "trim_end (join_words ws) = join_words ws"
    unfolding trim_end_def by (cases "join_words ws" rule: rev_cases) auto
  then have "\<not> continues (join_words ws)"
    using join_words_last [OF ws] assms by (simp add: continues_def Let_def printable_line_def)
  with strip ws show ?thesis by (simp add: lex_step_def Let_def split_join_words lex_flush_def)
qed

lemma str_lines_print:
  assumes "list_all printable_line wss"
  shows "str_lines (print_lines wss) = map join_words wss"
  using assms
proof (induction wss)
  case Nil
  show ?case by (subst str_lines.simps) (simp add: print_lines_def)
next
  case (Cons ws wss)
  then have ws: "ws \<noteq> []" "list_all is_word ws" by (simp_all add: printable_line_def)
  have "LF \<notin> set (join_words ws)" "CR \<notin> set (join_words ws)"
    using join_words_chars [OF ws(2), of LF] join_words_chars [OF ws(2), of CR] by auto
  then have no: "\<And>c. c \<in> set (join_words ws) \<Longrightarrow> c \<noteq> LF" and "last (join_words ws) \<noteq> CR"
    using join_words_last [OF ws] last_in_set [of "join_words ws"] by auto
  then have strip: "strip_cr (join_words ws) = join_words ws" by (simp add: strip_cr_def)
  have split: "print_lines (ws # wss) = join_words ws @ LF # print_lines wss" by (simp add: print_lines_def)
  have "takeWhile (\<lambda>c. c \<noteq> LF) (join_words ws @ LF # t) = join_words ws"
    "dropWhile (\<lambda>c. c \<noteq> LF) (join_words ws @ LF # t) = LF # t" for t
    using no by (simp_all add: takeWhile_append2 dropWhile_append2)
  with Cons strip show ?case by (subst str_lines.simps) (simp add: split)
qed

lemma fold_print:
  assumes "list_all printable_line wss"
  shows "fold lex_step (enumerate n (map join_words wss)) (None, out) = (None, out @ number_lines (n + 1) wss)"
  using assms
proof (induction wss arbitrary: n out)
  case (Cons ws wss)
  then show ?case using printable_step [of ws n out] by (simp add: number_lines_def)
qed (simp add: number_lines_def)

lemma lex_print_lines: "list_all printable_line wss \<Longrightarrow> lex_text (print_lines wss) = number_lines 1 wss"
  by (simp add: lex_text_def str_lines_print fold_print lex_flush_def)

text \<open>
  C35. Printing and lexing are inverse: lines of words that start no comment and end in no backslash, written with
  single spaces and line feeds, lex back to the same words under their line numbers.
\<close>
theorem lex_print:
  "list_all printable_line wss \<Longrightarrow> lex_text (print_lines wss) = number_lines 1 wss"
  by (rule lex_print_lines)

theorem lex_print_witness:
  "lex_text (print_lines [[''interface'', ''wan'', ''eth0''], [''shadow'']]) =
     [\<lparr>ln_number = 1, ln_words = [''interface'', ''wan'', ''eth0'']\<rparr>, \<lparr>ln_number = 2, ln_words = [''shadow'']\<rparr>]"
  using lex_print [of "[[''interface'', ''wan'', ''eth0''], [''shadow'']]"]
  by (simp add: printable_line_def is_word_def is_whitespace_def number_lines_def)

section \<open>Line numbers\<close>

lemma lex_flush_numbers:
  "(case fst st of None \<Rightarrow> True | Some (n, _) \<Rightarrow> 1 \<le> n \<and> n \<le> k) \<Longrightarrow> ln_number ` set (snd st) \<subseteq> {1..k} \<Longrightarrow>
   ln_number ` set (snd (lex_flush st)) \<subseteq> {1..k}"
  by (auto simp: lex_flush_def split: prod.splits option.splits if_splits)

lemma lex_step_numbers:
  assumes "case fst st of None \<Rightarrow> True | Some (n, _) \<Rightarrow> 1 \<le> n \<and> n \<le> k" "ln_number ` set (snd st) \<subseteq> {1..k}" "i < k"
  shows "(case fst (lex_step (i, raw) st) of None \<Rightarrow> True | Some (n, _) \<Rightarrow> 1 \<le> n \<and> n \<le> k) \<and>
    ln_number ` set (snd (lex_step (i, raw) st)) \<subseteq> {1..k}"
proof -
  obtain pending out where st: "st = (pending, out)" by (cases st)
  show ?thesis
    using assms
    by (cases pending)
       (auto simp: lex_step_def st Let_def lex_flush_def image_subset_iff split: if_splits)
qed

lemma lex_numbers: "ln_number ` set (lex_text input) \<subseteq> {1..length (str_lines input)}"
proof -
  let ?k = "length (str_lines input)"
  let ?inv = "\<lambda>st :: lex_state. (case fst st of None \<Rightarrow> True | Some (n, _) \<Rightarrow> 1 \<le> n \<and> n \<le> ?k) \<and> ln_number ` set (snd st) \<subseteq> {1..?k}"
  have "?inv (fold lex_step xs st)" if "?inv st" "\<forall>(i, r) \<in> set xs. i < ?k" for xs st
    using that
  proof (induction xs arbitrary: st)
    case (Cons x xs)
    obtain i raw where x: "x = (i, raw)" by (cases x)
    have "?inv (lex_step x st)" using lex_step_numbers [where st = st and k = ?k and i = i and raw = raw] Cons.prems x by auto
    with Cons show ?case by auto
  qed auto
  moreover have "\<forall>(i, r) \<in> set (enumerate 0 (str_lines input)). i < ?k" by (auto simp: in_set_enumerate_eq)
  ultimately have "?inv (fold lex_step (enumerate 0 (str_lines input)) (None, []))" by simp
  then show ?thesis unfolding lex_text_def using lex_flush_numbers by blast
qed

end
