(* ===== verification/Policy.thy ===== *)
theory Policy
  imports Rust_Str Detector
begin

text \<open>
  The desired-state policy of \<^verbatim>\<open>blackwall-core\<close>: its data, its expansion into concrete services with the
  validation that guards it (\<^verbatim>\<open>resolve.rs\<close>), the verdict on the blackhole next hops (\<^verbatim>\<open>rtbh.rs\<close>), and the
  kernel identities of an instance (\<^verbatim>\<open>instance.rs\<close>). Paths and secrets are strings; the containment test of
  the \<^verbatim>\<open>ipnet\<close> crate is a parameter.
\<close>

section \<open>Data\<close>

datatype l4_proto = Tcp | Udp

datatype port_state = Closed | Deception | Open

datatype service_target = Host | Incus string | Nat socket_addr

record allow_rule =
  ar_proto :: l4_proto
  ar_port :: u16
  ar_target :: service_target
  ar_scope :: "ip_addr option"

record tenant =
  tn_name :: string
  tn_owned :: "ip_addr list"
  tn_allows :: "allow_rule list"

datatype shape_bandwidth = AutoBw | Fixed u32

record shape_rule =
  sr_iface :: string
  sr_download :: shape_bandwidth
  sr_upload :: shape_bandwidth
  sr_rtt_ms :: "u32 option"

record banner_flux_config =
  bf_dir :: string
  bf_period :: duration

record dns_flux_config =
  df_server :: socket_addr
  df_zone :: string
  df_name :: string
  df_prefix :: ip_net
  df_count :: nat
  df_set :: nat
  df_period :: duration
  df_ttl :: u32
  df_tsig_path :: string

record rtbh_policy =
  rp_local_asn :: u32
  rp_peer_asn :: u32
  rp_peer_addr :: socket_addr
  rp_router_id :: u32
  rp_blackhole_communities :: "(u16 \<times> u16) list"
  rp_next_hop_v4 :: "u32 option"
  rp_next_hop_v6 :: "u128 option"
  rp_max_blackholes :: nat
  rp_hold_down :: duration
  rp_max_ttl :: "duration option"
  rp_md5 :: "string option"
  rp_gtsm_hops :: "u8 option"
  rp_local_addr :: "ip_addr option"
  rp_max_new_per_min :: "u32 option"

record flowspec_policy =
  fp_concentration :: f64
  fp_max_flows :: nat
  fp_rate :: f32
  fp_max_rules :: nat
  fp_hold_down :: duration
  fp_max_ttl :: "duration option"

record api_config =
  ap_listen :: socket_addr
  ap_token_file :: string

record engine_config =
  ec_max_concurrent :: nat
  ec_session_timeout_secs :: u64
  ec_tproxy_port :: u16
  ec_nfqueue_num :: u16

record flowtable_config =
  ft_devices :: "string list"

datatype xdp_mode = ModeAuto | ModeNative | ModeGeneric

record xdp_config =
  xg_interface :: "string option"
  xg_mode :: xdp_mode
  xg_default_rate_limit_pps :: "u64 option"
  xg_cookie_ports :: "u16 list"
  xg_afxdp_udp_ports :: "u16 list"
  xg_afxdp_udp_banner :: "u8 list option"
  xg_syn_cookie_tx_cap :: u32

record policy =
  pl_interface :: string
  pl_prefixes :: "ip_net list"
  pl_default_state :: port_state
  pl_tenants :: "tenant list"
  pl_shaping :: "shape_rule list"
  pl_banner_flux :: "banner_flux_config option"
  pl_dns_flux :: "dns_flux_config option"
  pl_rtbh :: "rtbh_policy option"
  pl_flowspec :: "flowspec_policy option"
  pl_metrics_listen :: "socket_addr option"
  pl_api :: "api_config option"
  pl_pops :: "pop_entry list"
  pl_engine :: engine_config
  pl_flowtable :: "flowtable_config option"
  pl_xdp :: "xdp_config option"
  pl_stateless_tcp_ports :: "u16 list"
  pl_shadow :: bool
  pl_protected_prefixes :: "ip_net list"
  pl_rpki_validator :: "string option"
  pl_rpki_check_interval :: duration
  pl_instance :: "string option"

definition engine_default :: engine_config where
  "engine_default = \<lparr>ec_max_concurrent = 1024, ec_session_timeout_secs = 60, ec_tproxy_port = 61000, ec_nfqueue_num = 0\<rparr>"

definition DEFAULT_SYN_COOKIE_TX_CAP_PPS :: u32 where
  "DEFAULT_SYN_COOKIE_TX_CAP_PPS = 1000"

text \<open>\<open>Duration::from_secs\<close>.\<close>

definition from_secs :: "nat \<Rightarrow> duration" where
  "from_secs n = n * 1000000000"

section \<open>Resolution\<close>

record resolved_service =
  rv_addr :: ip_addr
  rv_proto :: l4_proto
  rv_port :: u16
  rv_target :: service_target
  rv_tenant :: string

datatype policy_error =
    AddressOutsidePrefixes ip_addr
  | DuplicateOwnership ip_addr string string
  | DuplicateService ip_addr l4_proto u16

definition owner_of :: "policy \<Rightarrow> ip_addr \<Rightarrow> string option" where
  "owner_of p addr = map_option tn_name (find (\<lambda>t. addr \<in> set (tn_owned t)) (pl_tenants p))"

fun check_owned ::
  "(ip_net \<Rightarrow> ip_addr \<Rightarrow> bool) \<Rightarrow> ip_net list \<Rightarrow> string \<Rightarrow> ip_addr list \<Rightarrow> (ip_addr \<times> string) list \<Rightarrow>
   (policy_error, (ip_addr \<times> string) list) outcome"
where
  "check_owned contains prefixes name [] seen_owner = Ok seen_owner"
| "check_owned contains prefixes name (addr # addrs) seen_owner =
     (if \<not> (\<exists>p \<in> set prefixes. contains p addr) then Err (AddressOutsidePrefixes addr)
      else case find (\<lambda>(a, _). a = addr) seen_owner of
          Some (_, other) \<Rightarrow> Err (DuplicateOwnership addr other name)
        | None \<Rightarrow> check_owned contains prefixes name addrs (seen_owner @ [(addr, name)]))"

fun check_tenants ::
  "(ip_net \<Rightarrow> ip_addr \<Rightarrow> bool) \<Rightarrow> ip_net list \<Rightarrow> tenant list \<Rightarrow> (ip_addr \<times> string) list \<Rightarrow>
   (policy_error, (ip_addr \<times> string) list) outcome"
where
  "check_tenants contains prefixes [] seen_owner = Ok seen_owner"
| "check_tenants contains prefixes (t # ts) seen_owner =
     obind (check_owned contains prefixes (tn_name t) (tn_owned t) seen_owner) (check_tenants contains prefixes ts)"

fun resolve_allows ::
  "string \<Rightarrow> ip_addr \<Rightarrow> allow_rule list \<Rightarrow> resolved_service list \<Rightarrow> (policy_error, resolved_service list) outcome"
where
  "resolve_allows name addr [] out = Ok out"
| "resolve_allows name addr (a # as) out =
     (if (case ar_scope a of None \<Rightarrow> False | Some scoped \<Rightarrow> scoped \<noteq> addr) then resolve_allows name addr as out
      else if \<exists>s \<in> set out. rv_addr s = addr \<and> rv_proto s = ar_proto a \<and> rv_port s = ar_port a
      then Err (DuplicateService addr (ar_proto a) (ar_port a))
      else resolve_allows name addr as (out @
        [\<lparr>rv_addr = addr, rv_proto = ar_proto a, rv_port = ar_port a, rv_target = ar_target a, rv_tenant = name\<rparr>]))"

fun resolve_owned ::
  "tenant \<Rightarrow> ip_addr list \<Rightarrow> resolved_service list \<Rightarrow> (policy_error, resolved_service list) outcome"
where
  "resolve_owned t [] out = Ok out"
| "resolve_owned t (addr # addrs) out = obind (resolve_allows (tn_name t) addr (tn_allows t) out) (resolve_owned t addrs)"

fun resolve_tenants :: "tenant list \<Rightarrow> resolved_service list \<Rightarrow> (policy_error, resolved_service list) outcome" where
  "resolve_tenants [] out = Ok out"
| "resolve_tenants (t # ts) out = obind (resolve_owned t (tn_owned t) out) (resolve_tenants ts)"

definition policy_resolve :: "(ip_net \<Rightarrow> ip_addr \<Rightarrow> bool) \<Rightarrow> policy \<Rightarrow> (policy_error, resolved_service list) outcome" where
  "policy_resolve contains p =
     obind (check_tenants contains (pl_prefixes p) (pl_tenants p) []) (\<lambda>_. resolve_tenants (pl_tenants p) [])"

section \<open>Blackhole next hops\<close>

definition is_placeholder_v4 :: "u32 \<Rightarrow> bool" where
  "is_placeholder_v4 a = (let o' = octets (V4 a) in
     take 3 o' \<in> {[192, 0, 2], [198, 51, 100], [203, 0, 113]})"

text \<open>The first four of the eight 16-bit segments.\<close>

definition segment :: "u128 \<Rightarrow> nat \<Rightarrow> u16" where
  "segment a i = ucast (drop_bit (112 - 16 * i) a)"

definition is_placeholder_v6 :: "u128 \<Rightarrow> bool" where
  "is_placeholder_v6 a = (segment a 0 = 0x2001 \<and> segment a 1 = 0x0db8 \<or>
     segment a 0 = 0x0100 \<and> segment a 1 = 0 \<and> segment a 2 = 0 \<and> segment a 3 = 0)"

datatype nh_verdict = NhOk | PlaceholderWithCommunity "ip_addr list" | PlaceholderNoCommunity "ip_addr list"

definition placeholder_next_hops :: "rtbh_policy \<Rightarrow> ip_addr list" where
  "placeholder_next_hops r =
     (case rp_next_hop_v4 r of None \<Rightarrow> [] | Some v4 \<Rightarrow> if is_placeholder_v4 v4 then [V4 v4] else []) @
     (case rp_next_hop_v6 r of None \<Rightarrow> [] | Some v6 \<Rightarrow> if is_placeholder_v6 v6 then [V6 v6] else [])"

definition next_hop_verdict :: "rtbh_policy \<Rightarrow> nh_verdict" where
  "next_hop_verdict r =
     (let placeholders = placeholder_next_hops r in
      if placeholders = [] then NhOk
      else if rp_blackhole_communities r = [] then PlaceholderNoCommunity placeholders
      else PlaceholderWithCommunity placeholders)"

section \<open>Instances\<close>

record instance_ids =
  ii_nft_table :: string
  ii_tproxy_mark :: u32
  ii_route_table :: u32

definition fnv1a64 :: "string \<Rightarrow> u64" where
  "fnv1a64 s = foldl (\<lambda>hash b. (hash XOR ucast b) * 0x00000100000001b3) 0xcbf29ce484222325 (str_bytes s)"

definition instance_derive :: "string option \<Rightarrow> instance_ids" where
  "instance_derive inst =
     (case inst of
        None \<Rightarrow> \<lparr>ii_nft_table = ''blackwall'', ii_tproxy_mark = 1, ii_route_table = 100\<rparr>
      | Some name \<Rightarrow>
          (let h = fnv1a64 name; lo = (ucast (h AND 0xffffffff) :: u32); hi = (ucast (drop_bit 32 h) :: u32) in
           \<lparr>ii_nft_table = ''blackwall_'' @ name, ii_tproxy_mark = 0x80000000 OR (lo AND 0x7fffffff),
            ii_route_table = 0x40000000 OR (hi AND 0x3fffffff)\<rparr>))"

section \<open>What a policy resolves to\<close>

text \<open>
  The specification: every tenant, address of the tenant and allow rule that applies to the address, in order.
\<close>

definition all_owned :: "policy \<Rightarrow> ip_addr list" where
  "all_owned p = concat (map tn_owned (pl_tenants p))"

definition allow_applies :: "ip_addr \<Rightarrow> allow_rule \<Rightarrow> bool" where
  "allow_applies addr a = (ar_scope a = None \<or> ar_scope a = Some addr)"

definition service :: "string \<Rightarrow> ip_addr \<Rightarrow> allow_rule \<Rightarrow> resolved_service" where
  "service name addr a =
     \<lparr>rv_addr = addr, rv_proto = ar_proto a, rv_port = ar_port a, rv_target = ar_target a, rv_tenant = name\<rparr>"

definition services_at :: "tenant \<Rightarrow> ip_addr \<Rightarrow> resolved_service list" where
  "services_at t addr = map (service (tn_name t) addr) (filter (allow_applies addr) (tn_allows t))"

definition services_of :: "tenant \<Rightarrow> resolved_service list" where
  "services_of t = concat (map (services_at t) (tn_owned t))"

definition expansion :: "policy \<Rightarrow> resolved_service list" where
  "expansion p = concat (map services_of (pl_tenants p))"

definition service_key :: "resolved_service \<Rightarrow> ip_addr \<times> l4_proto \<times> u16" where
  "service_key s = (rv_addr s, rv_proto s, rv_port s)"

lemma find_fst_None: "find (\<lambda>(a, _). a = x) xs = None \<longleftrightarrow> x \<notin> fst ` set xs"
  by (force simp: find_None_iff image_iff)

lemma check_owned_ok:
  "check_owned c ps n as seen = Ok seen' \<longleftrightarrow>
     (\<forall>a \<in> set as. \<exists>p \<in> set ps. c p a) \<and> distinct as \<and> set as \<inter> fst ` set seen = {} \<and>
     seen' = seen @ map (\<lambda>a. (a, n)) as"
proof (induction as arbitrary: seen)
  case (Cons a as)
  show ?case
  proof (cases "find (\<lambda>(x, _). x = a) seen")
    case None
    then have "a \<notin> fst ` set seen" by (simp add: find_fst_None)
    with None show ?thesis by (auto simp: Cons.IH)
  next
    case (Some y)
    then have "a \<in> fst ` set seen" by (metis find_fst_None option.distinct(1))
    with Some show ?thesis by (cases y) simp
  qed
qed auto

lemma check_owned_no_panic [simp]: "check_owned c ps n as seen \<noteq> Panic"
  by (induction as arbitrary: seen) (auto split: option.splits)

lemma check_tenants_ok:
  "check_tenants c ps ts seen = Ok seen' \<longleftrightarrow>
     (\<forall>a \<in> set (concat (map tn_owned ts)). \<exists>p \<in> set ps. c p a) \<and> distinct (concat (map tn_owned ts)) \<and>
     set (concat (map tn_owned ts)) \<inter> fst ` set seen = {} \<and>
     seen' = seen @ concat (map (\<lambda>t. map (\<lambda>a. (a, tn_name t)) (tn_owned t)) ts)"
proof (induction ts arbitrary: seen)
  case (Cons t ts)
  have *: "check_tenants c ps (t # ts) seen = Ok seen' \<longleftrightarrow>
      (\<exists>s. check_owned c ps (tn_name t) (tn_owned t) seen = Ok s \<and> check_tenants c ps ts s = Ok seen')"
    by (cases "check_owned c ps (tn_name t) (tn_owned t) seen") auto
  have img: "fst ` (\<lambda>a. (a, n)) ` A = A" for n :: string and A :: "ip_addr set" by force
  show ?case
    unfolding * check_owned_ok Cons.IH by (auto simp: img image_Un)
qed auto

lemma distinct_map_prefix: "distinct (map f (xs @ ys)) \<Longrightarrow> distinct (map f xs)"
  by simp

lemma resolve_allows_ok:
  assumes "distinct (map service_key out)"
  shows "resolve_allows n addr as out = Ok out' \<longleftrightarrow>
     out' = out @ map (service n addr) (filter (allow_applies addr) as) \<and> distinct (map service_key out')"
  using assms
proof (induction as arbitrary: out)
  case (Cons a as)
  have key: "(\<exists>s \<in> set out. rv_addr s = addr \<and> rv_proto s = ar_proto a \<and> rv_port s = ar_port a) \<longleftrightarrow>
      service_key (service n addr a) \<in> service_key ` set out"
    by (auto simp: service_key_def service_def image_iff)
  have applies: "(case ar_scope a of None \<Rightarrow> False | Some s \<Rightarrow> s \<noteq> addr) \<longleftrightarrow> \<not> allow_applies addr a"
    by (auto simp: allow_applies_def split: option.splits)
  show ?case
  proof (cases "allow_applies addr a \<and> service_key (service n addr a) \<notin> service_key ` set out")
    case True
    then have "distinct (map service_key (out @ [service n addr a]))" using Cons.prems by auto
    from Cons.IH [OF this] True show ?thesis by (simp add: key applies service_def)
  next
    case False
    then show ?thesis using Cons.IH [OF Cons.prems] by (auto simp: key applies)
  qed
qed auto

lemma resolve_owned_ok:
  assumes "distinct (map service_key out)"
  shows "resolve_owned t addrs out = Ok out' \<longleftrightarrow>
     out' = out @ concat (map (services_at t) addrs) \<and> distinct (map service_key out')"
  using assms
proof (induction addrs arbitrary: out)
  case (Cons a addrs)
  have *: "resolve_owned t (a # addrs) out = Ok out' \<longleftrightarrow>
      (\<exists>o1. resolve_allows (tn_name t) a (tn_allows t) out = Ok o1 \<and> resolve_owned t addrs o1 = Ok out')"
    by (cases "resolve_allows (tn_name t) a (tn_allows t) out") auto
  have **: "resolve_allows (tn_name t) a (tn_allows t) out = Ok o1 \<longleftrightarrow>
      o1 = out @ services_at t a \<and> distinct (map service_key o1)" for o1
    unfolding services_at_def by (rule resolve_allows_ok [OF Cons.prems])
  show ?case
  proof (cases "distinct (map service_key (out @ services_at t a))")
    case True
    with Cons.IH [OF True] show ?thesis unfolding * ** by simp
  next
    case False
    then have "\<not> distinct (map service_key ((out @ services_at t a) @ concat (map (services_at t) addrs)))"
      using distinct_map_prefix by blast
    with False show ?thesis unfolding * ** by (metis append.assoc concat.simps(2) list.map(2))
  qed
qed auto

lemma resolve_tenants_ok:
  assumes "distinct (map service_key out)"
  shows "resolve_tenants ts out = Ok out' \<longleftrightarrow>
     out' = out @ concat (map services_of ts) \<and> distinct (map service_key out')"
  using assms
proof (induction ts arbitrary: out)
  case (Cons t ts)
  have *: "resolve_tenants (t # ts) out = Ok out' \<longleftrightarrow>
      (\<exists>o1. resolve_owned t (tn_owned t) out = Ok o1 \<and> resolve_tenants ts o1 = Ok out')"
    by (cases "resolve_owned t (tn_owned t) out") auto
  have **: "resolve_owned t (tn_owned t) out = Ok o1 \<longleftrightarrow>
      o1 = out @ services_of t \<and> distinct (map service_key o1)" for o1
    unfolding services_of_def by (rule resolve_owned_ok [OF Cons.prems])
  show ?case
  proof (cases "distinct (map service_key (out @ services_of t))")
    case True
    with Cons.IH [OF True] show ?thesis unfolding * ** by simp
  next
    case False
    then have "\<not> distinct (map service_key ((out @ services_of t) @ concat (map services_of ts)))"
      using distinct_map_prefix by blast
    with False show ?thesis unfolding * ** by (metis append.assoc concat.simps(2) list.map(2))
  qed
qed auto

text \<open>
  C34. A policy resolves to a list of services exactly when every owned address lies in a managed prefix, no address
  is owned twice and no address, protocol and port is exposed twice; the list is then the expansion of tenants,
  addresses and the rules that apply to them, in the order of the configuration.
\<close>
theorem resolve_exact:
  "policy_resolve contains p = Ok out \<longleftrightarrow>
     list_all (\<lambda>a. list_ex (\<lambda>n. contains n a) (pl_prefixes p)) (all_owned p) \<and> distinct (all_owned p) \<and>
     distinct (map service_key (expansion p)) \<and> out = expansion p"
proof -
  have *: "policy_resolve contains p = Ok out \<longleftrightarrow>
      (\<exists>s. check_tenants contains (pl_prefixes p) (pl_tenants p) [] = Ok s) \<and> resolve_tenants (pl_tenants p) [] = Ok out"
    by (cases "check_tenants contains (pl_prefixes p) (pl_tenants p) []") (auto simp: policy_resolve_def)
  show ?thesis
    unfolding * check_tenants_ok
    by (subst resolve_tenants_ok) (auto simp: all_owned_def expansion_def list_all_iff list_ex_iff)
qed

text \<open>A service belongs to the tenant that owns its address, the question the control plane asks by \<^const>\<open>owner_of\<close>.\<close>

lemma distinct_owner_unique:
  assumes "distinct (concat (map f ts))" "t \<in> set ts" "x \<in> set (f t)"
  shows "find (\<lambda>t. x \<in> set (f t)) ts = Some t"
  using assms by (induction ts) auto

lemma resolved_owner:
  assumes "policy_resolve contains p = Ok out" "s \<in> set out"
  shows "owner_of p (rv_addr s) = Some (rv_tenant s)"
proof -
  from assms(1) obtain o1 where "check_tenants contains (pl_prefixes p) (pl_tenants p) [] = Ok o1"
    and out: "resolve_tenants (pl_tenants p) [] = Ok out"
    by (cases "check_tenants contains (pl_prefixes p) (pl_tenants p) []") (auto simp: policy_resolve_def)
  then have dist: "distinct (concat (map tn_owned (pl_tenants p)))" by (simp add: check_tenants_ok)
  from out have "out = concat (map services_of (pl_tenants p))" by (subst (asm) resolve_tenants_ok) auto
  with assms(2) obtain t a where "t \<in> set (pl_tenants p)" "a \<in> set (tn_owned t)" "rv_addr s = a" "rv_tenant s = tn_name t"
    by (auto simp: services_of_def services_at_def service_def)
  with distinct_owner_unique [OF dist] show ?thesis by (simp add: owner_of_def)
qed

section \<open>Instances keep apart from the default\<close>

lemma derive_bits:
  "bit (ii_tproxy_mark (instance_derive (Some n))) 31"
  "\<not> bit (ii_route_table (instance_derive (Some n))) 31"
  "bit (ii_route_table (instance_derive (Some n))) 30"
  by (simp_all add: instance_derive_def Let_def bit_simps bit_push_bit_iff)

end
