(* ===== verification/Config_Parser.thy ===== *)
theory Config_Parser
  imports Config_Lexer Policy
begin

text \<open>
  The parser of the configuration language (\<^verbatim>\<open>blackwall-config/src/parser.rs\<close>): one definition per
  directive over the policy under construction, composed by the loop over the lexed lines, and the
  entry points of \<^verbatim>\<open>lib.rs\<close>. The network parser of the \<^verbatim>\<open>ipnet\<close> crate is the parameter \<open>parse_net\<close>.
  Indexing a line's words out of range is a panic of the outcome type. The multiplication in
  \<^verbatim>\<open>parse_duration\<close> wraps, as it does in a release build.
\<close>

section \<open>Errors\<close>

datatype config_error =
    UnexpectedToken nat string string
  | UnknownDirective nat string
  | BadValue nat string string
  | Resolve policy_error

type_synonym 'a parsed = "(config_error, 'a) outcome"

definition ok_or :: "'a option \<Rightarrow> 'e \<Rightarrow> ('e, 'a) outcome" where
  "ok_or x e = (case x of None \<Rightarrow> Err e | Some v \<Rightarrow> Ok v)"

text \<open>A value parsed from a token, with the error that reports the token.\<close>

definition parse_or :: "(string \<Rightarrow> 'a option) \<Rightarrow> line \<Rightarrow> string \<Rightarrow> string \<Rightarrow> 'a parsed" where
  "parse_or f l what v = ok_or (f v) (BadValue (ln_number l) what v)"

text \<open>A \<open>for\<close> loop whose body may return an error.\<close>

fun ofold :: "('a \<Rightarrow> 's \<Rightarrow> ('e, 's) outcome) \<Rightarrow> 'a list \<Rightarrow> 's \<Rightarrow> ('e, 's) outcome" where
  "ofold f [] st = Ok st"
| "ofold f (x # xs) st = obind (f x st) (ofold f xs)"

text \<open>The words from position \<open>n\<close>, \<open>&line.words[n..]\<close>.\<close>

definition words_from :: "line \<Rightarrow> nat \<Rightarrow> string list parsed" where
  "words_from l n = slice (ln_words l) n (length (ln_words l))"

definition word :: "line \<Rightarrow> nat \<Rightarrow> string parsed" where
  "word l n = idx (ln_words l) n"

definition get_word :: "line \<Rightarrow> nat \<Rightarrow> string option" where
  "get_word l n = (if n < length (ln_words l) then Some (ln_words l ! n) else None)"

section \<open>Values\<close>

definition expect_len :: "line \<Rightarrow> nat \<Rightarrow> string \<Rightarrow> unit parsed" where
  "expect_len l n expected =
     (if length (ln_words l) = n then Ok () else Err (UnexpectedToken (ln_number l) (join_words (ln_words l)) expected))"

definition parse_cidr :: "(string \<Rightarrow> ip_net option) \<Rightarrow> line \<Rightarrow> string \<Rightarrow> ip_net parsed" where
  "parse_cidr parse_net l raw = parse_or parse_net l ''cidr'' raw"

definition parse_mbit :: "line \<Rightarrow> string \<Rightarrow> u32 parsed" where
  "parse_mbit l token =
     ok_or (Option.bind (strip_suffix ''mbit'' token) parse_u32) (BadValue (ln_number l) ''bandwidth'' token)"

definition parse_ms :: "line \<Rightarrow> string \<Rightarrow> u32 parsed" where
  "parse_ms l token =
     ok_or (Option.bind (strip_suffix ''ms'' token) parse_u32) (BadValue (ln_number l) ''rtt'' token)"

definition parse_duration :: "line \<Rightarrow> string \<Rightarrow> duration parsed" where
  "parse_duration l token =
     obind (case strip_suffix ''h'' token of Some d \<Rightarrow> Ok (d, 3600)
            | None \<Rightarrow> (case strip_suffix ''m'' token of Some d \<Rightarrow> Ok (d, 60)
            | None \<Rightarrow> (case strip_suffix ''s'' token of Some d \<Rightarrow> Ok (d, 1)
            | None \<Rightarrow> Err (BadValue (ln_number l) ''duration'' token))))
       (\<lambda>(digits, mult).
          obind (ok_or (parse_u64 digits) (BadValue (ln_number l) ''duration'' token))
            (\<lambda>n. Ok (from_secs (unat (n * mult)))))"

definition parse_target :: "line \<Rightarrow> string \<Rightarrow> service_target parsed" where
  "parse_target l raw =
     (if raw = ''host'' then Ok Host
      else case strip_prefix ''incus:'' raw of Some name \<Rightarrow> Ok (Incus name)
      | None \<Rightarrow> (case strip_prefix ''nat:'' raw of
          Some sockaddr \<Rightarrow> obind (ok_or (parse_socket sockaddr) (BadValue (ln_number l) ''nat target'' raw)) (\<lambda>a. Ok (Nat a))
        | None \<Rightarrow> Err (BadValue (ln_number l) ''target'' raw)))"

definition parse_allow :: "line \<Rightarrow> allow_rule parsed" where
  "parse_allow l =
     obind (expect_len l 4 ''allow <tcp|udp> <port> <target>'') (\<lambda>_.
     obind (word l 1) (\<lambda>p.
     obind (if p = ''tcp'' then Ok Tcp else if p = ''udp'' then Ok Udp else Err (BadValue (ln_number l) ''protocol'' p)) (\<lambda>proto.
     obind (word l 2) (\<lambda>port_tok.
     obind (parse_or parse_u16 l ''port'' port_tok) (\<lambda>port.
     obind (word l 3) (\<lambda>t.
     obind (parse_target l t) (\<lambda>target.
       Ok \<lparr>ar_proto = proto, ar_port = port, ar_target = target, ar_scope = None\<rparr>)))))))"

section \<open>Tenants\<close>

definition owns_step :: "line \<Rightarrow> string \<Rightarrow> ip_addr list \<Rightarrow> ip_addr list parsed" where
  "owns_step l token owned =
     obind (parse_or parse_ip l ''ip address'' (trim_end_matches CHR '','' token)) (\<lambda>addr. Ok (owned @ [addr]))"

definition tenant_line :: "line \<Rightarrow> string \<Rightarrow> tenant \<Rightarrow> tenant parsed" where
  "tenant_line l directive t =
     (if directive = ''owns'' then
        (if length (ln_words l) < 2
         then Err (UnexpectedToken (ln_number l) (join_words (ln_words l)) ''owns <ip>[, <ip>...]'')
         else obind (words_from l 1) (\<lambda>toks.
              obind (ofold (owns_step l) toks (tn_owned t)) (\<lambda>owned. Ok (t\<lparr>tn_owned := owned\<rparr>))))
      else if directive = ''allow'' then obind (parse_allow l) (\<lambda>a. Ok (t\<lparr>tn_allows := tn_allows t @ [a]\<rparr>))
      else Err (UnknownDirective (ln_number l) directive))"

function tenant_body :: "line list \<Rightarrow> nat \<Rightarrow> nat \<Rightarrow> tenant \<Rightarrow> (tenant \<times> nat) parsed" where
  "tenant_body lines header i t =
     (if i < length lines then
        (let l = lines ! i in
         obind (word l 0) (\<lambda>d.
           if d = ''}'' then Ok (t, i + 1)
           else obind (tenant_line l d t) (\<lambda>t. tenant_body lines header (i + 1) t)))
      else Err (UnexpectedToken header ''<eof>'' ''a closing `}` for the tenant block''))"
  by pat_completeness auto
termination by (relation "measure (\<lambda>(lines, header, i, t). length lines - i)") auto

declare tenant_body.simps [simp del]

definition parse_tenant :: "line list \<Rightarrow> nat \<Rightarrow> (tenant \<times> nat) parsed" where
  "parse_tenant lines start =
     obind (idx lines start) (\<lambda>header.
       if length (ln_words header) \<noteq> 3 \<or> ln_words header ! 2 \<noteq> ''{''
       then Err (UnexpectedToken (ln_number header) (join_words (ln_words header)) ''tenant <name> {'')
       else obind (word header 1) (\<lambda>name.
         tenant_body lines (ln_number header) (start + 1) \<lparr>tn_name = name, tn_owned = [], tn_allows = []\<rparr>))"

section \<open>Shaping\<close>

function shape_opts ::
  "line \<Rightarrow> nat \<Rightarrow> shape_bandwidth option \<times> u32 option \<Rightarrow> (shape_bandwidth option \<times> u32 option) parsed"
where
  "shape_opts l i opts =
     (if i < length (ln_words l) then
        (let w = ln_words l ! i in
         if w = ''up'' then
           (if length (ln_words l) \<le> i + 1
            then Err (UnexpectedToken (ln_number l) (join_words (ln_words l)) ''up (auto | <N>mbit)'')
            else obind (word l (i + 1)) (\<lambda>tok.
                 obind (if tok = ''auto'' then Ok AutoBw else obind (parse_mbit l tok) (\<lambda>n. Ok (Fixed n)))
                   (\<lambda>bw. shape_opts l (i + 2) (Some bw, snd opts))))
         else if w = ''rtt'' then
           (if length (ln_words l) \<le> i + 1
            then Err (UnexpectedToken (ln_number l) (join_words (ln_words l)) ''rtt <N>ms'')
            else obind (word l (i + 1)) (\<lambda>tok.
                 obind (parse_ms l tok) (\<lambda>n. shape_opts l (i + 2) (fst opts, Some n))))
         else Err (UnexpectedToken (ln_number l) w ''up | rtt''))
      else Ok opts)"
  by pat_completeness auto
termination by (relation "measure (\<lambda>(l, i, opts). length (ln_words l) - i)") auto

declare shape_opts.simps [simp del]

definition parse_shape :: "line \<Rightarrow> shape_rule parsed" where
  "parse_shape l =
     (if length (ln_words l) < 3
      then Err (UnexpectedToken (ln_number l) (join_words (ln_words l))
             ''shape <iface> (auto | bandwidth <N>mbit) [up (auto | <N>mbit)] [rtt <N>ms]'')
      else obind (word l 1) (\<lambda>iface.
           obind (word l 2) (\<lambda>mode.
           obind (if mode = ''auto'' then Ok (AutoBw, 3)
                  else if mode = ''bandwidth'' then
                    (if length (ln_words l) < 4
                     then Err (UnexpectedToken (ln_number l) (join_words (ln_words l)) ''bandwidth <N>mbit'')
                     else obind (word l 3) (\<lambda>tok. obind (parse_mbit l tok) (\<lambda>bw. Ok (Fixed bw, 4))))
                  else Err (BadValue (ln_number l) ''bandwidth mode'' mode)) (\<lambda>(download, i).
           obind (shape_opts l i (None, None)) (\<lambda>(upload, rtt_ms).
             Ok \<lparr>sr_iface = iface, sr_download = download,
                 sr_upload = (case upload of None \<Rightarrow> download | Some u \<Rightarrow> u), sr_rtt_ms = rtt_ms\<rparr>)))))"

section \<open>Banner escapes\<close>

fun decode_banner_escapes :: "string \<Rightarrow> u8 list" where
  "decode_banner_escapes [] = []"
| "decode_banner_escapes (c # cs) =
     (if c \<noteq> CHR 0x5C then encode_utf8 c @ decode_banner_escapes cs
      else case cs of
          [] \<Rightarrow> [92]
        | e # rest \<Rightarrow>
            if e = CHR ''n'' then 10 # decode_banner_escapes rest
            else if e = CHR ''r'' then 13 # decode_banner_escapes rest
            else if e = CHR ''t'' then 9 # decode_banner_escapes rest
            else if e = CHR ''s'' then 32 # decode_banner_escapes rest
            else if e = CHR 0x5C then 92 # decode_banner_escapes rest
            else if e = CHR ''x'' then
              (case rest of
                 [] \<Rightarrow> [92, 120]
               | h # rest2 \<Rightarrow>
                   (case to_digit 16 h of
                      None \<Rightarrow> 92 # 120 # decode_banner_escapes rest
                    | Some hi \<Rightarrow>
                        (case rest2 of
                           [] \<Rightarrow> 92 # 120 # encode_utf8 h
                         | lo_c # final \<Rightarrow>
                             (case to_digit 16 lo_c of
                                None \<Rightarrow> 92 # 120 # encode_utf8 h @ decode_banner_escapes rest2
                              | Some lo \<Rightarrow> of_nat (hi * 16 + lo) # decode_banner_escapes final))))
            else 92 # encode_utf8 e @ decode_banner_escapes rest)"

section \<open>Directives\<close>

text \<open>
  The local variables of \<^verbatim>\<open>parse\<close>: the interface, still optional, and the other fields of the policy.
\<close>

record parse_state =
  ps_interface :: "string option"
  ps_policy :: policy

type_synonym directive = "line \<Rightarrow> parse_state \<Rightarrow> parse_state parsed"

definition set_policy :: "(policy \<Rightarrow> policy) \<Rightarrow> parse_state \<Rightarrow> parse_state parsed" where
  "set_policy f st = Ok (st\<lparr>ps_policy := f (ps_policy st)\<rparr>)"

definition bad :: "line \<Rightarrow> string \<Rightarrow> string \<Rightarrow> 'a parsed" where
  "bad l what v = Err (BadValue (ln_number l) what v)"

text \<open>A token of the form \<open>key=value\<close>.\<close>

definition token_kv :: "line \<Rightarrow> string \<Rightarrow> string \<Rightarrow> (string \<times> string) parsed" where
  "token_kv l what tok = ok_or (split_once CHR ''='' tok) (BadValue (ln_number l) what tok)"

definition dir_interface :: directive where
  "dir_interface l st =
     obind (expect_len l 3 ''interface <name> <iface>'') (\<lambda>_.
     obind (word l 2) (\<lambda>w. Ok (st\<lparr>ps_interface := Some w\<rparr>)))"

definition dir_prefix :: "(string \<Rightarrow> ip_net option) \<Rightarrow> directive" where
  "dir_prefix parse_net l st =
     obind (expect_len l 2 ''<family> <cidr>'') (\<lambda>_.
     obind (word l 1) (\<lambda>w. obind (parse_cidr parse_net l w) (\<lambda>n.
       set_policy (\<lambda>p. p\<lparr>pl_prefixes := pl_prefixes p @ [n]\<rparr>) st)))"

definition dir_protect :: "(string \<Rightarrow> ip_net option) \<Rightarrow> directive" where
  "dir_protect parse_net l st =
     obind (expect_len l 2 ''protect <cidr>'') (\<lambda>_.
     obind (word l 1) (\<lambda>w. obind (parse_cidr parse_net l w) (\<lambda>n.
       set_policy (\<lambda>p. p\<lparr>pl_protected_prefixes := pl_protected_prefixes p @ [n]\<rparr>) st)))"

definition dir_default :: directive where
  "dir_default l st =
     obind (expect_len l 2 ''default deception|drop'') (\<lambda>_.
     obind (word l 1) (\<lambda>w.
       if w = ''deception'' then set_policy (\<lambda>p. p\<lparr>pl_default_state := Deception\<rparr>) st
       else if w = ''drop'' then set_policy (\<lambda>p. p\<lparr>pl_default_state := Closed\<rparr>) st
       else bad l ''default state'' w))"

definition dir_shape :: directive where
  "dir_shape l st = obind (parse_shape l) (\<lambda>r. set_policy (\<lambda>p. p\<lparr>pl_shaping := pl_shaping p @ [r]\<rparr>) st)"

definition dir_banner_flux :: directive where
  "dir_banner_flux l st =
     (if pl_banner_flux (ps_policy st) \<noteq> None then bad l ''banner-flux'' ''duplicate''
      else obind (ok_or (get_word l 1) (BadValue (ln_number l) ''banner-flux'' ''missing dir'')) (\<lambda>dir.
           obind (case get_word l 2 of Some tok \<Rightarrow> parse_duration l tok | None \<Rightarrow> Ok (from_secs (6 * 3600))) (\<lambda>period.
             set_policy (\<lambda>p. p\<lparr>pl_banner_flux := Some \<lparr>bf_dir = dir, bf_period = period\<rparr>\<rparr>) st)))"

text \<open>
  The key-value block of \<^verbatim>\<open>dns-flux\<close>, \<^verbatim>\<open>rtbh\<close> and \<^verbatim>\<open>flowspec\<close>: known keys only, each at most once.
\<close>

type_synonym kv = "(string \<times> string) list"

definition kv_step :: "line \<Rightarrow> string \<Rightarrow> string list \<Rightarrow> string \<Rightarrow> kv \<Rightarrow> kv parsed" where
  "kv_step l what keys tok kv =
     obind (token_kv l what tok) (\<lambda>(k, v).
       if k \<notin> set keys then bad l (what @ '' key'') k
       else if map_of kv k \<noteq> None then bad l (what @ '' duplicate key'') k
       else Ok ((k, v) # kv))"

definition parse_kv :: "line \<Rightarrow> string \<Rightarrow> string list \<Rightarrow> kv parsed" where
  "parse_kv l what keys = obind (words_from l 1) (\<lambda>toks. ofold (kv_step l what keys) toks [])"

definition kv_get :: "line \<Rightarrow> string \<Rightarrow> kv \<Rightarrow> string \<Rightarrow> string parsed" where
  "kv_get l what kv k = ok_or (map_of kv k) (BadValue (ln_number l) (what @ '' missing key'') k)"

text \<open>A required and an optional key, parsed.\<close>

definition kv_parse :: "line \<Rightarrow> string \<Rightarrow> kv \<Rightarrow> string \<Rightarrow> (string \<Rightarrow> 'a option) \<Rightarrow> 'a parsed" where
  "kv_parse l what kv k f = obind (kv_get l what kv k) (parse_or f l k)"

definition kv_opt :: "kv \<Rightarrow> string \<Rightarrow> (string \<Rightarrow> 'a parsed) \<Rightarrow> 'a option parsed" where
  "kv_opt kv k f = (case map_of kv k of None \<Rightarrow> Ok None | Some v \<Rightarrow> obind (f v) (\<lambda>x. Ok (Some x)))"

text \<open>A socket address, or an address with a default port.\<close>

definition socket_or_ip :: "u16 \<Rightarrow> string \<Rightarrow> socket_addr option" where
  "socket_or_ip port tok =
     (case parse_socket tok of Some a \<Rightarrow> Some a
      | None \<Rightarrow> map_option (\<lambda>ip. \<lparr>sa_ip = ip, sa_port = port, sa_scope = 0\<rparr>) (parse_ip tok))"

definition dns_keys :: "string list" where
  "dns_keys = [''server'', ''zone'', ''name'', ''from'', ''count'', ''set'', ''period'', ''ttl'', ''tsig'']"

text \<open>Decimal printing, for the message about \<open>set\<close> and \<open>count\<close>.\<close>

function show_nat :: "nat \<Rightarrow> string" where
  "show_nat n = (if n < 10 then [char_of (48 + n)] else show_nat (n div 10) @ [char_of (48 + n mod 10)])"
  by pat_completeness auto
termination by (relation "measure id") auto

declare show_nat.simps [simp del]

definition dir_dns_flux :: "(string \<Rightarrow> ip_net option) \<Rightarrow> directive" where
  "dir_dns_flux parse_net l st =
     (if pl_dns_flux (ps_policy st) \<noteq> None then bad l ''dns-flux'' ''duplicate''
      else
      obind (parse_kv l ''dns-flux'' dns_keys) (\<lambda>kv.
      obind (kv_parse l ''dns-flux'' kv ''server'' (socket_or_ip 53)) (\<lambda>server.
      obind (kv_parse l ''dns-flux'' kv ''from'' parse_net) (\<lambda>prefix.
      obind (kv_parse l ''dns-flux'' kv ''count'' parse_usize) (\<lambda>count.
      obind (kv_parse l ''dns-flux'' kv ''set'' parse_usize) (\<lambda>set.
      if set < 1 \<or> count < set
      then bad l ''dns-flux set/count'' (''set='' @ show_nat set @ '' count='' @ show_nat count)
      else
      obind (kv_opt kv ''period'' (parse_duration l)) (\<lambda>period.
      obind (kv_opt kv ''ttl'' (\<lambda>t. obind (parse_duration l t) (\<lambda>d.
               if d div 1000000000 \<le> u32_max then Ok (of_nat (d div 1000000000)) else bad l ''ttl'' t))) (\<lambda>ttl.
      obind (kv_get l ''dns-flux'' kv ''zone'') (\<lambda>zone.
      obind (kv_get l ''dns-flux'' kv ''name'') (\<lambda>name.
      obind (kv_get l ''dns-flux'' kv ''tsig'') (\<lambda>tsig.
        set_policy (\<lambda>p. p\<lparr>pl_dns_flux := Some
          \<lparr>df_server = server, df_zone = zone, df_name = name, df_prefix = prefix, df_count = count, df_set = set,
           df_period = (case period of None \<Rightarrow> from_secs 300 | Some d \<Rightarrow> d),
           df_ttl = (case ttl of None \<Rightarrow> 30 | Some t \<Rightarrow> t), df_tsig_path = tsig\<rparr>\<rparr>) st)))))))))))"

definition rtbh_keys :: "string list" where
  "rtbh_keys = [''peer'', ''local-as'', ''peer-as'', ''router-id'', ''next-hop-v4'', ''next-hop-v6'', ''max'',
     ''hold-down'', ''ttl'', ''community'', ''md5'', ''gtsm-hops'', ''local-addr'', ''max-new-per-min'']"

definition community_step :: "line \<Rightarrow> string \<Rightarrow> (u16 \<times> u16) list \<Rightarrow> (u16 \<times> u16) list parsed" where
  "community_step l pair out =
     obind (ok_or (split_once CHR '':'' pair) (BadValue (ln_number l) ''community'' pair)) (\<lambda>(a, v).
     obind (ok_or (parse_u16 a) (BadValue (ln_number l) ''community'' pair)) (\<lambda>asn.
     obind (ok_or (parse_u16 v) (BadValue (ln_number l) ''community'' pair)) (\<lambda>val.
       Ok (out @ [(asn, val)]))))"

text \<open>\<open>router-id\<close>, or the IPv4 local address; and the hold-down with its optional backstop.\<close>

definition rtbh_router_id :: "line \<Rightarrow> kv \<Rightarrow> ip_addr option \<Rightarrow> u32 parsed" where
  "rtbh_router_id l kv local_addr =
     (case map_of kv ''router-id'' of
        Some v \<Rightarrow> parse_or parse_ipv4 l ''router-id'' v
      | None \<Rightarrow> (case local_addr of
          Some (V4 v4) \<Rightarrow> Ok v4
        | _ \<Rightarrow> bad l ''rtbh'' ''router-id required (or set an IPv4 local-addr to default it)''))"

definition parse_holding :: "line \<Rightarrow> string \<Rightarrow> kv \<Rightarrow> (duration \<times> duration option) parsed" where
  "parse_holding l what kv =
     obind (kv_get l what kv ''hold-down'') (\<lambda>h.
     obind (parse_duration l h) (\<lambda>hold_down.
     obind (kv_opt kv ''ttl'' (parse_duration l)) (\<lambda>max_ttl.
       if (case max_ttl of None \<Rightarrow> False | Some ttl \<Rightarrow> ttl < hold_down)
       then bad l (what @ '' ttl'') ''must be >= hold-down''
       else Ok (hold_down, max_ttl))))"

definition dir_rtbh :: directive where
  "dir_rtbh l st =
     (if pl_rtbh (ps_policy st) \<noteq> None then bad l ''rtbh'' ''duplicate''
      else
      obind (parse_kv l ''rtbh'' rtbh_keys) (\<lambda>kv.
      obind (kv_parse l ''rtbh'' kv ''peer'' (socket_or_ip 179)) (\<lambda>peer_addr.
      obind (kv_parse l ''rtbh'' kv ''local-as'' parse_u32) (\<lambda>local_asn.
      obind (kv_parse l ''rtbh'' kv ''peer-as'' parse_u32) (\<lambda>peer_asn.
      if local_asn \<noteq> peer_asn then bad l ''rtbh local-as/peer-as'' ''must match (iBGP only)''
      else
      obind (kv_opt kv ''local-addr'' (parse_or parse_ip l ''local-addr'')) (\<lambda>local_addr.
      obind (rtbh_router_id l kv local_addr) (\<lambda>router_id.
      if sa_ip peer_addr = V4 router_id then bad l ''rtbh router-id'' ''must differ from the BGP peer address''
      else
      obind (kv_opt kv ''next-hop-v4'' (parse_or parse_ipv4 l ''next-hop-v4'')) (\<lambda>next_hop_v4.
      obind (kv_opt kv ''next-hop-v6'' (parse_or parse_ipv6 l ''next-hop-v6'')) (\<lambda>next_hop_v6.
      if next_hop_v4 = None \<and> next_hop_v6 = None then bad l ''rtbh'' ''at least one of next-hop-v4/next-hop-v6 required''
      else
      obind (kv_parse l ''rtbh'' kv ''max'' parse_usize) (\<lambda>max_blackholes.
      obind (parse_holding l ''rtbh'' kv) (\<lambda>(hold_down, max_ttl).
      obind (kv_opt kv ''community'' (\<lambda>spec. ofold (community_step l) (split_on CHR '','' spec) [])) (\<lambda>communities.
      obind (kv_opt kv ''gtsm-hops'' (\<lambda>v. obind (parse_or parse_u8 l ''rtbh gtsm-hops'' v)
               (\<lambda>hops. if hops = 0 then bad l ''rtbh gtsm-hops'' ''must be >= 1'' else Ok hops))) (\<lambda>gtsm_hops.
      obind (kv_opt kv ''max-new-per-min'' (parse_or parse_u32 l ''rtbh max-new-per-min'')) (\<lambda>max_new_per_min.
        set_policy (\<lambda>p. p\<lparr>pl_rtbh := Some
          \<lparr>rp_local_asn = local_asn, rp_peer_asn = peer_asn, rp_peer_addr = peer_addr, rp_router_id = router_id,
           rp_blackhole_communities = (case communities of None \<Rightarrow> [(65535, 666)] | Some c \<Rightarrow> c),
           rp_next_hop_v4 = next_hop_v4, rp_next_hop_v6 = next_hop_v6, rp_max_blackholes = max_blackholes,
           rp_hold_down = hold_down, rp_max_ttl = max_ttl, rp_md5 = map_of kv ''md5'', rp_gtsm_hops = gtsm_hops,
           rp_local_addr = local_addr, rp_max_new_per_min = max_new_per_min\<rparr>\<rparr>) st))))))))))))))"

definition flowspec_keys :: "string list" where
  "flowspec_keys = [''concentration'', ''max-flows'', ''rate'', ''max-rules'', ''hold-down'', ''ttl'']"

text \<open>\<open>f32::is_nan\<close> and comparison with zero on the bits.\<close>

definition f32_is_nan :: "f32 \<Rightarrow> bool" where
  "f32_is_nan r \<longleftrightarrow> 0x7F800000 < r AND 0x7FFFFFFF"

definition f32_negative :: "f32 \<Rightarrow> bool" where
  "f32_negative r \<longleftrightarrow> bit r 31 \<and> r AND 0x7FFFFFFF \<noteq> 0 \<and> \<not> f32_is_nan r"

definition in_unit :: "f64 \<Rightarrow> bool" where
  "in_unit c \<longleftrightarrow> f_ge c (Num False 0) \<and> f_ge (Num False 1) c"

definition dir_flowspec :: directive where
  "dir_flowspec l st =
     (if pl_flowspec (ps_policy st) \<noteq> None then bad l ''flowspec'' ''duplicate''
      else
      obind (parse_kv l ''flowspec'' flowspec_keys) (\<lambda>kv.
      obind (kv_parse l ''flowspec'' kv ''concentration'' parse_f64) (\<lambda>concentration.
      obind (kv_parse l ''flowspec'' kv ''max-flows'' parse_usize) (\<lambda>max_flows.
      obind (kv_parse l ''flowspec'' kv ''rate'' parse_f32) (\<lambda>rate.
      obind (kv_parse l ''flowspec'' kv ''max-rules'' parse_usize) (\<lambda>max_rules.
      obind (parse_holding l ''flowspec'' kv) (\<lambda>(hold_down, max_ttl).
      if \<not> in_unit concentration then bad l ''flowspec concentration'' ''must be in 0.0..=1.0''
      else if max_flows = 0 then bad l ''flowspec max-flows'' ''must be >= 1''
      else if f32_is_nan rate \<or> f32_negative rate then bad l ''flowspec rate'' ''must be >= 0''
      else set_policy (\<lambda>p. p\<lparr>pl_flowspec := Some
          \<lparr>fp_concentration = concentration, fp_max_flows = max_flows, fp_rate = rate, fp_max_rules = max_rules,
           fp_hold_down = hold_down, fp_max_ttl = max_ttl\<rparr>\<rparr>) st)))))))"

definition metrics_step :: "line \<Rightarrow> string \<Rightarrow> parse_state \<Rightarrow> parse_state parsed" where
  "metrics_step l tok st =
     obind (token_kv l ''metrics'' tok) (\<lambda>(k, v).
       if k \<noteq> ''listen'' then bad l ''metrics key'' k
       else obind (parse_or parse_socket l ''metrics listen'' v) (\<lambda>a.
         set_policy (\<lambda>p. p\<lparr>pl_metrics_listen := Some a\<rparr>) st))"

definition dir_metrics :: directive where
  "dir_metrics l st = obind (words_from l 1) (\<lambda>toks. ofold (metrics_step l) toks st)"

definition api_step ::
  "line \<Rightarrow> string \<Rightarrow> socket_addr option \<times> string option \<Rightarrow> (socket_addr option \<times> string option) parsed"
where
  "api_step l tok acc =
     obind (token_kv l ''api'' tok) (\<lambda>(k, v).
       if k = ''listen'' then obind (parse_or parse_socket l ''api listen'' v) (\<lambda>a. Ok (Some a, snd acc))
       else if k = ''token-file'' then Ok (fst acc, Some v)
       else bad l ''api key'' k)"

definition dir_api :: directive where
  "dir_api l st =
     obind (words_from l 1) (\<lambda>toks.
     obind (ofold (api_step l) toks (None, None)) (\<lambda>(listen, token_file).
     obind (ok_or listen (BadValue (ln_number l) ''api missing key'' ''listen'')) (\<lambda>listen.
     obind (ok_or token_file (BadValue (ln_number l) ''api missing key'' ''token-file'')) (\<lambda>token_file.
       set_policy (\<lambda>p. p\<lparr>pl_api := Some \<lparr>ap_listen = listen, ap_token_file = token_file\<rparr>\<rparr>) st))))"

definition pop_step :: "line \<Rightarrow> string \<Rightarrow> ip_addr option \<times> u32 option \<Rightarrow> (ip_addr option \<times> u32 option) parsed" where
  "pop_step l tok acc =
     obind (token_kv l ''pop'' tok) (\<lambda>(k, v).
       if k = ''agent'' then obind (parse_or parse_ip l ''pop agent'' v) (\<lambda>a. Ok (Some a, snd acc))
       else if k = ''sampling'' then obind (parse_or parse_u32 l ''pop sampling'' v) (\<lambda>n. Ok (fst acc, Some n))
       else bad l ''pop key'' k)"

definition pop_char :: "char \<Rightarrow> bool" where
  "pop_char c = (let n = (of_char c :: nat) in
     48 \<le> n \<and> n \<le> 57 \<or> 65 \<le> n \<and> n \<le> 90 \<or> 97 \<le> n \<and> n \<le> 122 \<or> c = CHR ''_'' \<or> c = CHR ''-'')"

definition dir_pop :: directive where
  "dir_pop l st =
     obind (ok_or (get_word l 1) (BadValue (ln_number l) ''pop name'' [])) (\<lambda>name.
     obind (words_from l 2) (\<lambda>toks.
     obind (ofold (pop_step l) toks (None, None)) (\<lambda>(agent, sampling).
     obind (ok_or agent (BadValue (ln_number l) ''pop missing agent'' name)) (\<lambda>agent.
     obind (ok_or sampling (BadValue (ln_number l) ''pop missing sampling'' name)) (\<lambda>sampling.
       if \<not> list_all pop_char name then bad l ''pop name'' name
       else if list_ex (\<lambda>p. pe_agent p = agent) (pl_pops (ps_policy st)) then bad l ''pop'' ''duplicate agent''
       else if list_ex (\<lambda>p. pe_name p = name) (pl_pops (ps_policy st)) then bad l ''pop'' ''duplicate name''
       else set_policy (\<lambda>p. p\<lparr>pl_pops := pl_pops p @
              [\<lparr>pe_name = name, pe_agent = agent, pe_sampling = sampling\<rparr>]\<rparr>) st)))))"

text \<open>A number that must not be zero.\<close>

definition positive :: "line \<Rightarrow> string \<Rightarrow> string \<Rightarrow> 'a::zero \<Rightarrow> 'a parsed" where
  "positive l what msg n = (if n = 0 then bad l what msg else Ok n)"

definition engine_step :: "line \<Rightarrow> string \<Rightarrow> engine_config \<Rightarrow> engine_config parsed" where
  "engine_step l tok e =
     obind (token_kv l ''engine'' tok) (\<lambda>(k, v).
       if k = ''max-concurrent'' then
         obind (parse_or parse_usize l ''engine max-concurrent'' v) (\<lambda>n.
         obind (positive l ''engine max-concurrent'' ''must be >= 1'' n) (\<lambda>n. Ok (e\<lparr>ec_max_concurrent := n\<rparr>)))
       else if k = ''session-timeout'' then
         obind (parse_or parse_u64 l ''engine session-timeout'' v) (\<lambda>n.
         obind (positive l ''engine session-timeout'' ''must be >= 1 (seconds)'' n) (\<lambda>n. Ok (e\<lparr>ec_session_timeout_secs := n\<rparr>)))
       else if k = ''tproxy-port'' then
         obind (parse_or parse_u16 l ''engine tproxy-port'' v) (\<lambda>n.
         obind (positive l ''engine tproxy-port'' ''must be 1..=65535'' n) (\<lambda>n. Ok (e\<lparr>ec_tproxy_port := n\<rparr>)))
       else if k = ''nfqueue'' then
         obind (parse_or parse_u16 l ''engine nfqueue'' v) (\<lambda>n. Ok (e\<lparr>ec_nfqueue_num := n\<rparr>))
       else bad l ''engine key'' k)"

definition dir_engine :: directive where
  "dir_engine l st =
     obind (words_from l 1) (\<lambda>toks.
     obind (ofold (engine_step l) toks (pl_engine (ps_policy st))) (\<lambda>e.
       set_policy (\<lambda>p. p\<lparr>pl_engine := e\<rparr>) st))"

definition flowtable_step :: "line \<Rightarrow> string \<Rightarrow> string list \<Rightarrow> string list parsed" where
  "flowtable_step l tok devices =
     obind (token_kv l ''flowtable'' tok) (\<lambda>(k, v).
       if k \<noteq> ''devices'' then bad l ''flowtable key'' k
       else Ok (devices @ filter (\<lambda>d. d \<noteq> []) (map trim (split_on CHR '','' v))))"

definition dir_flowtable :: directive where
  "dir_flowtable l st =
     (if pl_flowtable (ps_policy st) \<noteq> None then bad l ''flowtable'' ''duplicate''
      else obind (words_from l 1) (\<lambda>toks.
           obind (ofold (flowtable_step l) toks []) (\<lambda>devices.
             if devices = [] then bad l ''flowtable devices'' ''must list at least one interface''
             else set_policy (\<lambda>p. p\<lparr>pl_flowtable := Some \<lparr>ft_devices = devices\<rparr>\<rparr>) st)))"

text \<open>A comma-separated list of ports, none of them zero.\<close>

definition port_step :: "line \<Rightarrow> string \<Rightarrow> string \<Rightarrow> u16 list \<Rightarrow> u16 list parsed" where
  "port_step l what tok ports =
     (let port_tok = trim tok in
      obind (parse_or parse_u16 l what port_tok) (\<lambda>n.
        if n = 0 then bad l what port_tok else Ok (ports @ [n])))"

definition parse_ports :: "line \<Rightarrow> string \<Rightarrow> string \<Rightarrow> u16 list \<Rightarrow> u16 list parsed" where
  "parse_ports l what v ports = ofold (port_step l what) (split_on CHR '','' v) ports"

definition xdp_config_default :: xdp_config where
  "xdp_config_default = \<lparr>xg_interface = None, xg_mode = ModeAuto, xg_default_rate_limit_pps = None, xg_cookie_ports = [],
     xg_afxdp_udp_ports = [], xg_afxdp_udp_banner = None, xg_syn_cookie_tx_cap = DEFAULT_SYN_COOKIE_TX_CAP_PPS\<rparr>"

definition parse_xdp_mode :: "line \<Rightarrow> string \<Rightarrow> xdp_mode parsed" where
  "parse_xdp_mode l v =
     (if v = ''auto'' then Ok ModeAuto else if v = ''native'' then Ok ModeNative
      else if v = ''generic'' then Ok ModeGeneric else bad l ''xdp mode'' v)"

definition xdp_step :: "line \<Rightarrow> string \<Rightarrow> xdp_config \<Rightarrow> xdp_config parsed" where
  "xdp_step l tok cfg =
     obind (token_kv l ''xdp'' tok) (\<lambda>(k, v).
       if k = ''interface'' then Ok (cfg\<lparr>xg_interface := Some v\<rparr>)
       else if k = ''mode'' then obind (parse_xdp_mode l v) (\<lambda>m. Ok (cfg\<lparr>xg_mode := m\<rparr>))
       else if k = ''default-rate-limit'' then
         obind (parse_or parse_u64 l ''xdp default-rate-limit'' v) (\<lambda>n.
         obind (positive l ''xdp default-rate-limit'' ''must be >= 1'' n) (\<lambda>n. Ok (cfg\<lparr>xg_default_rate_limit_pps := Some n\<rparr>)))
       else if k = ''cookie-ports'' then
         obind (parse_ports l ''xdp cookie-ports'' v (xg_cookie_ports cfg)) (\<lambda>ps. Ok (cfg\<lparr>xg_cookie_ports := ps\<rparr>))
       else if k = ''afxdp-udp-ports'' then
         obind (parse_ports l ''xdp afxdp-udp-ports'' v (xg_afxdp_udp_ports cfg)) (\<lambda>ps. Ok (cfg\<lparr>xg_afxdp_udp_ports := ps\<rparr>))
       else if k = ''afxdp-udp-banner'' then Ok (cfg\<lparr>xg_afxdp_udp_banner := Some (decode_banner_escapes v)\<rparr>)
       else if k = ''syn-cookie-tx-cap'' then
         obind (parse_or parse_u32 l ''xdp syn-cookie-tx-cap'' v) (\<lambda>n.
         obind (positive l ''xdp syn-cookie-tx-cap'' ''must be >= 1'' n) (\<lambda>n. Ok (cfg\<lparr>xg_syn_cookie_tx_cap := n\<rparr>)))
       else bad l ''xdp key'' k)"

definition dir_xdp :: directive where
  "dir_xdp l st =
     obind (words_from l 1) (\<lambda>toks.
     obind (ofold (xdp_step l) toks xdp_config_default) (\<lambda>cfg.
       set_policy (\<lambda>p. p\<lparr>pl_xdp := Some cfg\<rparr>) st))"

definition stateless_step :: "line \<Rightarrow> string \<Rightarrow> u16 list \<Rightarrow> u16 list parsed" where
  "stateless_step l tok ports =
     obind (token_kv l ''stateless-tcp'' tok) (\<lambda>(k, v).
       if k \<noteq> ''ports'' then bad l ''stateless-tcp key'' k
       else parse_ports l ''stateless-tcp ports'' v ports)"

definition dir_stateless_tcp :: directive where
  "dir_stateless_tcp l st =
     obind (words_from l 1) (\<lambda>toks.
     obind (ofold (stateless_step l) toks (pl_stateless_tcp_ports (ps_policy st))) (\<lambda>ports.
       set_policy (\<lambda>p. p\<lparr>pl_stateless_tcp_ports := ports\<rparr>) st))"

definition dir_shadow :: directive where
  "dir_shadow l st =
     (if 1 < length (ln_words l) then obind (words_from l 1) (\<lambda>ws. bad l ''shadow'' (join_words ws))
      else set_policy (\<lambda>p. p\<lparr>pl_shadow := True\<rparr>) st)"

definition dir_instance :: "string \<Rightarrow> directive" where
  "dir_instance d l st =
     obind (expect_len l 1 ''instance=<name>'') (\<lambda>_.
       let name = (case strip_prefix ''instance='' d of None \<Rightarrow> [] | Some n \<Rightarrow> n) in
       if name = [] then bad l ''instance'' ''empty (expected instance=<name>)''
       else if pl_instance (ps_policy st) \<noteq> None then bad l ''instance'' ''duplicate''
       else set_policy (\<lambda>p. p\<lparr>pl_instance := Some name\<rparr>) st)"

definition dir_rpki_validator :: "string \<Rightarrow> directive" where
  "dir_rpki_validator d l st =
     obind (expect_len l 1 ''rpki-validator=<url>'') (\<lambda>_.
       if pl_rpki_validator (ps_policy st) \<noteq> None then bad l ''rpki-validator'' ''duplicate''
       else obind (opt_expect (strip_prefix ''rpki-validator='' d)) (\<lambda>url.
         if url = [] then bad l ''rpki-validator'' ''empty url''
         else set_policy (\<lambda>p. p\<lparr>pl_rpki_validator := Some url\<rparr>) st))"

definition dir_rpki_interval :: "string \<Rightarrow> directive" where
  "dir_rpki_interval d l st =
     obind (expect_len l 1 ''rpki-check-interval=<dur>'') (\<lambda>_.
     obind (opt_expect (strip_prefix ''rpki-check-interval='' d)) (\<lambda>v.
     obind (parse_duration l v) (\<lambda>i.
       set_policy (\<lambda>p. p\<lparr>pl_rpki_check_interval := i\<rparr>) st)))"

section \<open>The loop and the entry points\<close>

definition parse_directive :: "(string \<Rightarrow> ip_net option) \<Rightarrow> string \<Rightarrow> directive" where
  "parse_directive parse_net d =
     (if d = ''interface'' then dir_interface
      else if d = ''ipv4'' \<or> d = ''ipv6'' then dir_prefix parse_net
      else if d = ''protect'' then dir_protect parse_net
      else if d = ''default'' then dir_default
      else if d = ''shape'' then dir_shape
      else if d = ''banner-flux'' then dir_banner_flux
      else if d = ''dns-flux'' then dir_dns_flux parse_net
      else if d = ''rtbh'' then dir_rtbh
      else if d = ''flowspec'' then dir_flowspec
      else if d = ''metrics'' then dir_metrics
      else if d = ''api'' then dir_api
      else if d = ''pop'' then dir_pop
      else if d = ''engine'' then dir_engine
      else if d = ''flowtable'' then dir_flowtable
      else if d = ''xdp'' then dir_xdp
      else if d = ''stateless-tcp'' then dir_stateless_tcp
      else if d = ''shadow'' then dir_shadow
      else if starts_with ''instance='' d then dir_instance d
      else if starts_with ''rpki-validator='' d then dir_rpki_validator d
      else if starts_with ''rpki-check-interval='' d then dir_rpki_interval d
      else (\<lambda>l st. Err (UnknownDirective (ln_number l) d)))"

lemma tenant_body_next: "tenant_body lines h i t = Ok (t', n) \<Longrightarrow> i < n"
  by (induction lines h i t rule: tenant_body.induct)
     (subst (asm) (2) tenant_body.simps, fastforce simp: obind_eq_Ok Let_def split: if_splits)

lemma parse_tenant_next: "parse_tenant lines i = Ok (t, n) \<Longrightarrow> i < n"
  by (auto simp: parse_tenant_def obind_eq_Ok split: if_splits dest!: tenant_body_next)

function parse_loop :: "(string \<Rightarrow> ip_net option) \<Rightarrow> line list \<Rightarrow> nat \<Rightarrow> parse_state \<Rightarrow> parse_state parsed" where
  "parse_loop parse_net lines i st =
     (if i < length lines then
        (let l = lines ! i in
         obind (word l 0) (\<lambda>d.
           if d = ''tenant'' then
             obind (parse_tenant lines i) (\<lambda>r. case r of (t, n) \<Rightarrow>
               parse_loop parse_net lines n
                 (st\<lparr>ps_policy := ps_policy st\<lparr>pl_tenants := pl_tenants (ps_policy st) @ [t]\<rparr>\<rparr>))
           else obind (parse_directive parse_net d l st) (\<lambda>st. parse_loop parse_net lines (i + 1) st)))
      else Ok st)"
  by pat_completeness auto
termination
  by (relation "measure (\<lambda>(pn, lines, i, st). length lines - i)") (auto dest!: parse_tenant_next)

declare parse_loop.simps [simp del]

definition policy_init :: policy where
  "policy_init = \<lparr>pl_interface = [], pl_prefixes = [], pl_default_state = Deception, pl_tenants = [], pl_shaping = [],
     pl_banner_flux = None, pl_dns_flux = None, pl_rtbh = None, pl_flowspec = None, pl_metrics_listen = None,
     pl_api = None, pl_pops = [], pl_engine = engine_default, pl_flowtable = None, pl_xdp = None,
     pl_stateless_tcp_ports = [], pl_shadow = False, pl_protected_prefixes = [], pl_rpki_validator = None,
     pl_rpki_check_interval = from_secs 3600, pl_instance = None\<rparr>"

definition parse :: "(string \<Rightarrow> ip_net option) \<Rightarrow> line list \<Rightarrow> policy parsed" where
  "parse parse_net lines =
     obind (parse_loop parse_net lines 0 \<lparr>ps_interface = None, ps_policy = policy_init\<rparr>) (\<lambda>st.
       let eof_line = (if lines = [] then 1 else ln_number (last lines)); p = ps_policy st in
       obind (ok_or (ps_interface st) (UnexpectedToken eof_line ''<eof>'' ''an `interface` directive'')) (\<lambda>interface.
         if pl_flowspec p \<noteq> None \<and> pl_rtbh p = None
         then Err (BadValue eof_line ''flowspec'' ''requires an rtbh block (shared BGP session)'')
         else Ok (p\<lparr>pl_interface := interface\<rparr>)))"

definition parse_str :: "(string \<Rightarrow> ip_net option) \<Rightarrow> string \<Rightarrow> policy parsed" where
  "parse_str parse_net input = parse parse_net (lex_text input)"

text \<open>\<^verbatim>\<open>parse_and_resolve\<close> on the text of the file; reading the file is not modelled.\<close>

fun map_err :: "('e \<Rightarrow> 'f) \<Rightarrow> ('e, 'a) outcome \<Rightarrow> ('f, 'a) outcome" where
  "map_err f (Ok x) = Ok x"
| "map_err f (Err e) = Err (f e)"
| "map_err f Panic = Panic"

definition parse_and_resolve ::
  "(string \<Rightarrow> ip_net option) \<Rightarrow> (ip_net \<Rightarrow> ip_addr \<Rightarrow> bool) \<Rightarrow> string \<Rightarrow> policy parsed"
where
  "parse_and_resolve parse_net contains input =
     obind (parse_str parse_net input) (\<lambda>p. obind (map_err Resolve (policy_resolve contains p)) (\<lambda>_. Ok p))"

section \<open>A calculus of answers\<close>

text \<open>
  \<open>answers S P m\<close> is a total triple: the parser \<open>m\<close> does not panic, an error names a line of \<open>S\<close>, and a
  result satisfies \<open>P\<close>. The rules of \<open>answers\<close> follow the constructs of the parser.
\<close>

fun error_line :: "config_error \<Rightarrow> nat option" where
  "error_line (UnexpectedToken n _ _) = Some n"
| "error_line (UnknownDirective n _) = Some n"
| "error_line (BadValue n _ _) = Some n"
| "error_line (Resolve _) = None"

definition answers :: "nat set \<Rightarrow> ('a \<Rightarrow> bool) \<Rightarrow> 'a parsed \<Rightarrow> bool" where
  "answers S P m = (case m of Ok x \<Rightarrow> P x | Err e \<Rightarrow> error_line e \<in> Some ` S | Panic \<Rightarrow> False)"

named_theorems answer_rules \<open>rules that decompose a parser\<close>

lemma answers_Ok [answer_rules]: "P x \<Longrightarrow> answers S P (Ok x)"
  by (simp add: answers_def)

lemma answers_Err [answer_rules]: "error_line e \<in> Some ` S \<Longrightarrow> answers S P (Err e)"
  by (simp add: answers_def)

lemma answers_obind [answer_rules]: "answers S (\<lambda>x. answers S P (f x)) m \<Longrightarrow> answers S P (obind m f)"
  by (cases m) (simp_all add: answers_def)

lemma answers_iff: "answers S P (Ok x) = P x" "answers S P (Err e) = (error_line e \<in> Some ` S)" "answers S P Panic = False"
  by (simp_all add: answers_def)

lemma answers_mono: "answers S P m \<Longrightarrow> (\<And>x. P x \<Longrightarrow> Q x) \<Longrightarrow> S \<subseteq> T \<Longrightarrow> answers T Q m"
  by (cases m) (auto simp: answers_def)

lemma answers_if [answer_rules]:
  "(c \<Longrightarrow> answers S P m) \<Longrightarrow> (\<not> c \<Longrightarrow> answers S P m') \<Longrightarrow> answers S P (if c then m else m')"
  by simp

lemma answers_prod [answer_rules]:
  "(\<And>a b. x = (a, b) \<Longrightarrow> answers S P (f a b)) \<Longrightarrow> answers S P (case x of (a, b) \<Rightarrow> f a b)"
  by (cases x) simp

lemma answers_option [answer_rules]:
  "(x = None \<Longrightarrow> answers S P m) \<Longrightarrow> (\<And>v. x = Some v \<Longrightarrow> answers S P (f v)) \<Longrightarrow>
   answers S P (case x of None \<Rightarrow> m | Some v \<Rightarrow> f v)"
  by (cases x) simp_all

lemma answers_ok_or [answer_rules]:
  "(x = None \<Longrightarrow> error_line e \<in> Some ` S) \<Longrightarrow> (\<And>v. x = Some v \<Longrightarrow> P v) \<Longrightarrow> answers S P (ok_or x e)"
  by (cases x) (simp_all add: answers_def ok_or_def)

lemma answers_parse_or [answer_rules]:
  "ln_number l \<in> S \<Longrightarrow> (\<And>v. f t = Some v \<Longrightarrow> P v) \<Longrightarrow> answers S P (parse_or f l what t)"
  unfolding parse_or_def by (intro answer_rules) auto

lemma answers_bad [answer_rules]: "ln_number l \<in> S \<Longrightarrow> answers S P (bad l what v)"
  by (simp add: bad_def answers_def)

lemma answers_word [answer_rules]: "n < length (ln_words l) \<Longrightarrow> P (ln_words l ! n) \<Longrightarrow> answers S P (word l n)"
  by (simp add: word_def idx_def answers_def)

lemma answers_words_from [answer_rules]:
  "n \<le> length (ln_words l) \<Longrightarrow> P (drop n (ln_words l)) \<Longrightarrow> answers S P (words_from l n)"
  by (simp add: words_from_def slice_def answers_def)

lemma answers_expect_len [answer_rules]:
  "ln_number l \<in> S \<Longrightarrow> (length (ln_words l) = n \<Longrightarrow> P ()) \<Longrightarrow> answers S P (expect_len l n expected)"
  by (auto simp: expect_len_def answers_def)

lemma answers_ofold:
  assumes "I st" "\<And>x s. x \<in> set xs \<Longrightarrow> I s \<Longrightarrow> answers S I (f x s)" "\<And>s. I s \<Longrightarrow> P s"
  shows "answers S P (ofold f xs st)"
  using assms(1, 2)
proof (induction xs arbitrary: st)
  case Nil
  then show ?case using assms(3) by (simp add: answers_def)
next
  case (Cons x xs)
  have "answers S I (f x st)" using Cons.prems by simp
  then have "answers S (\<lambda>s. answers S P (ofold f xs s)) (f x st)"
    by (rule answers_mono) (use Cons in auto)
  then show ?case by (simp add: answers_obind)
qed

text \<open>A loop of which nothing but the answer matters.\<close>

lemma answers_ofold_any:
  "(\<And>x s. answers S (\<lambda>_. True) (f x s)) \<Longrightarrow> (\<And>s. P s) \<Longrightarrow> answers S P (ofold f xs st)"
  by (rule answers_ofold [where I = "\<lambda>_. True"]) auto

lemma answers_set_policy [answer_rules]:
  "P (st\<lparr>ps_policy := f (ps_policy st)\<rparr>) \<Longrightarrow> answers S P (set_policy f st)"
  by (simp add: set_policy_def answers_def)

lemma answers_token_kv [answer_rules]:
  "ln_number l \<in> S \<Longrightarrow> (\<And>k v. P (k, v)) \<Longrightarrow> answers S P (token_kv l what tok)"
  unfolding token_kv_def by (intro answer_rules) auto

lemma answers_kv_get [answer_rules]:
  "ln_number l \<in> S \<Longrightarrow> (\<And>v. P v) \<Longrightarrow> answers S P (kv_get l what kv k)"
  unfolding kv_get_def by (intro answer_rules) auto

lemma answers_kv_parse [answer_rules]:
  "ln_number l \<in> S \<Longrightarrow> (\<And>v. P v) \<Longrightarrow> answers S P (kv_parse l what kv k f)"
  unfolding kv_parse_def by (intro answer_rules) auto

lemma answers_kv_opt [answer_rules]:
  "P None \<Longrightarrow> (\<And>v. answers S (\<lambda>x. P (Some x)) (f v)) \<Longrightarrow> answers S P (kv_opt kv k f)"
  unfolding kv_opt_def by (intro answer_rules) (auto simp: answers_iff)

lemma answers_duration [answer_rules]:
  "ln_number l \<in> S \<Longrightarrow> (\<And>d. P d) \<Longrightarrow> answers S P (parse_duration l tok)"
  unfolding parse_duration_def by (intro answer_rules) auto

lemma answers_mbit [answer_rules]: "ln_number l \<in> S \<Longrightarrow> (\<And>d. P d) \<Longrightarrow> answers S P (parse_mbit l tok)"
  unfolding parse_mbit_def by (intro answer_rules) auto

lemma answers_ms [answer_rules]: "ln_number l \<in> S \<Longrightarrow> (\<And>d. P d) \<Longrightarrow> answers S P (parse_ms l tok)"
  unfolding parse_ms_def by (intro answer_rules) auto

lemma answers_cidr [answer_rules]: "ln_number l \<in> S \<Longrightarrow> (\<And>d. P d) \<Longrightarrow> answers S P (parse_cidr parse_net l tok)"
  unfolding parse_cidr_def by (intro answer_rules) auto

lemma answers_target [answer_rules]: "ln_number l \<in> S \<Longrightarrow> (\<And>d. P d) \<Longrightarrow> answers S P (parse_target l tok)"
  unfolding parse_target_def by (intro answer_rules) auto

lemma answers_positive [answer_rules]:
  "ln_number l \<in> S \<Longrightarrow> (n \<noteq> 0 \<Longrightarrow> P n) \<Longrightarrow> answers S P (positive l what msg n)"
  unfolding positive_def by (intro answer_rules) auto

lemma answers_parse_kv [answer_rules]:
  assumes "ln_number l \<in> S" "ln_words l \<noteq> []" "\<And>kv. P kv"
  shows "answers S P (parse_kv l what keys)"
  unfolding parse_kv_def kv_step_def using assms
  by (intro answer_rules answers_ofold_any) (auto simp: Suc_le_eq)

lemma answers_holding [answer_rules]:
  assumes "ln_number l \<in> S" "\<And>h t. (case t of None \<Rightarrow> True | Some ttl \<Rightarrow> h \<le> ttl) \<Longrightarrow> P (h, t)"
  shows "answers S P (parse_holding l what kv)"
  unfolding parse_holding_def using assms
  by (intro answer_rules) (auto split: option.splits)

lemma answers_ports [answer_rules]:
  assumes "ln_number l \<in> S" "0 \<notin> set ports" "\<And>ps. 0 \<notin> set ps \<Longrightarrow> P ps"
  shows "answers S P (parse_ports l what v ports)"
  unfolding parse_ports_def port_step_def Let_def using assms
  by (intro answer_rules answers_ofold [where I = "\<lambda>ps. 0 \<notin> set ps"]) auto

section \<open>Well-formed policies\<close>

text \<open>What the directives check, as a predicate on the policy.\<close>

fun ttl_ok :: "duration \<Rightarrow> duration option \<Rightarrow> bool" where
  "ttl_ok hold_down None = True"
| "ttl_ok hold_down (Some ttl) = (hold_down \<le> ttl)"

definition rtbh_wf :: "rtbh_policy \<Rightarrow> bool" where
  "rtbh_wf r \<longleftrightarrow> rp_local_asn r = rp_peer_asn r \<and> sa_ip (rp_peer_addr r) \<noteq> V4 (rp_router_id r) \<and>
     (rp_next_hop_v4 r \<noteq> None \<or> rp_next_hop_v6 r \<noteq> None) \<and> ttl_ok (rp_hold_down r) (rp_max_ttl r) \<and>
     rp_gtsm_hops r \<noteq> Some 0"

definition flowspec_wf :: "flowspec_policy \<Rightarrow> bool" where
  "flowspec_wf f \<longleftrightarrow> in_unit (fp_concentration f) \<and> 0 < fp_max_flows f \<and> \<not> f32_is_nan (fp_rate f) \<and>
     \<not> f32_negative (fp_rate f) \<and> ttl_ok (fp_hold_down f) (fp_max_ttl f)"

definition dns_flux_wf :: "dns_flux_config \<Rightarrow> bool" where
  "dns_flux_wf d \<longleftrightarrow> 1 \<le> df_set d \<and> df_set d \<le> df_count d"

definition pops_wf :: "pop_entry list \<Rightarrow> bool" where
  "pops_wf ps \<longleftrightarrow> distinct (map pe_name ps) \<and> distinct (map pe_agent ps) \<and>
     list_all (\<lambda>p. pe_name p \<noteq> [] \<and> list_all pop_char (pe_name p)) ps"

definition engine_wf :: "engine_config \<Rightarrow> bool" where
  "engine_wf e \<longleftrightarrow> 0 < ec_max_concurrent e \<and> ec_session_timeout_secs e \<noteq> 0 \<and> ec_tproxy_port e \<noteq> 0"

definition xdp_wf :: "xdp_config \<Rightarrow> bool" where
  "xdp_wf x \<longleftrightarrow> 0 \<notin> set (xg_cookie_ports x) \<and> 0 \<notin> set (xg_afxdp_udp_ports x) \<and>
     xg_default_rate_limit_pps x \<noteq> Some 0 \<and> xg_syn_cookie_tx_cap x \<noteq> 0"

definition flowtable_wf :: "flowtable_config \<Rightarrow> bool" where
  "flowtable_wf t \<longleftrightarrow> ft_devices t \<noteq> [] \<and> [] \<notin> set (ft_devices t)"

definition tenant_wf :: "tenant \<Rightarrow> bool" where
  "tenant_wf t \<longleftrightarrow> list_all (\<lambda>a. ar_scope a = None) (tn_allows t)"

definition fields_wf :: "policy \<Rightarrow> bool" where
  "fields_wf p \<longleftrightarrow> pred_option rtbh_wf (pl_rtbh p) \<and> pred_option flowspec_wf (pl_flowspec p) \<and>
     pred_option dns_flux_wf (pl_dns_flux p) \<and> pops_wf (pl_pops p) \<and> engine_wf (pl_engine p) \<and>
     pred_option xdp_wf (pl_xdp p) \<and> pred_option flowtable_wf (pl_flowtable p) \<and> list_all tenant_wf (pl_tenants p) \<and>
     0 \<notin> set (pl_stateless_tcp_ports p) \<and> pl_instance p \<noteq> Some [] \<and> pl_rpki_validator p \<noteq> Some []"

definition policy_wf :: "policy \<Rightarrow> bool" where
  "policy_wf p \<longleftrightarrow> fields_wf p \<and> (pl_flowspec p \<noteq> None \<longrightarrow> pl_rtbh p \<noteq> None)"

abbreviation state_wf :: "parse_state \<Rightarrow> bool" where
  "state_wf st \<equiv> fields_wf (ps_policy st)"

text \<open>A field that has no condition may change.\<close>

lemma fields_wf_update [simp]:
  "fields_wf (p\<lparr>pl_prefixes := a\<rparr>) = fields_wf p" "fields_wf (p\<lparr>pl_protected_prefixes := a\<rparr>) = fields_wf p"
  "fields_wf (p\<lparr>pl_default_state := b\<rparr>) = fields_wf p" "fields_wf (p\<lparr>pl_shaping := c\<rparr>) = fields_wf p"
  "fields_wf (p\<lparr>pl_banner_flux := d\<rparr>) = fields_wf p" "fields_wf (p\<lparr>pl_metrics_listen := e\<rparr>) = fields_wf p"
  "fields_wf (p\<lparr>pl_api := f\<rparr>) = fields_wf p" "fields_wf (p\<lparr>pl_shadow := g\<rparr>) = fields_wf p"
  "fields_wf (p\<lparr>pl_rpki_check_interval := h\<rparr>) = fields_wf p" "fields_wf (p\<lparr>pl_interface := i\<rparr>) = fields_wf p"
  by (simp_all add: fields_wf_def)

section \<open>Every directive answers\<close>

lemma words_pos [simp]: "line_ok l \<Longrightarrow> 0 < length (ln_words l)" "line_ok l \<Longrightarrow> Suc 0 \<le> length (ln_words l)"
  "line_ok l \<Longrightarrow> ln_words l \<noteq> []"
  by (auto simp: line_ok_def Suc_le_eq)

lemma answers_shape_opts [answer_rules]:
  assumes "ln_number l \<in> S" "\<And>opts. P opts"
  shows "answers S P (shape_opts l i opts)"
proof (induction "length (ln_words l) - i" arbitrary: i opts rule: less_induct)
  case less
  show ?case
    by (subst shape_opts.simps, unfold Let_def, intro answer_rules less) (use assms in auto)
qed

lemma answers_shape [answer_rules]:
  assumes "ln_number l \<in> S" "\<And>r. P r"
  shows "answers S P (parse_shape l)"
  unfolding parse_shape_def using assms by (intro answer_rules) auto

lemma answers_allow [answer_rules]:
  assumes "ln_number l \<in> S" "\<And>r. ar_scope r = None \<Longrightarrow> P r"
  shows "answers S P (parse_allow l)"
  unfolding parse_allow_def using assms by (intro answer_rules) auto

lemma interface_answers: "ln_number l \<in> S \<Longrightarrow> state_wf st \<Longrightarrow> answers S state_wf (dir_interface l st)"
  unfolding dir_interface_def by (intro answer_rules) auto

lemma prefix_answers: "ln_number l \<in> S \<Longrightarrow> state_wf st \<Longrightarrow> answers S state_wf (dir_prefix pn l st)"
  unfolding dir_prefix_def by (intro answer_rules) auto

lemma protect_answers: "ln_number l \<in> S \<Longrightarrow> state_wf st \<Longrightarrow> answers S state_wf (dir_protect pn l st)"
  unfolding dir_protect_def by (intro answer_rules) auto

lemma default_answers: "ln_number l \<in> S \<Longrightarrow> state_wf st \<Longrightarrow> answers S state_wf (dir_default l st)"
  unfolding dir_default_def by (intro answer_rules) auto

lemma shape_answers: "ln_number l \<in> S \<Longrightarrow> state_wf st \<Longrightarrow> answers S state_wf (dir_shape l st)"
  unfolding dir_shape_def by (intro answer_rules) auto

lemma banner_flux_answers: "ln_number l \<in> S \<Longrightarrow> state_wf st \<Longrightarrow> answers S state_wf (dir_banner_flux l st)"
  unfolding dir_banner_flux_def by (intro answer_rules) auto

lemma dns_flux_answers:
  "ln_number l \<in> S \<Longrightarrow> line_ok l \<Longrightarrow> state_wf st \<Longrightarrow> answers S state_wf (dir_dns_flux pn l st)"
  unfolding dir_dns_flux_def by (intro answer_rules) (auto simp: fields_wf_def dns_flux_wf_def)

lemma rtbh_answers:
  assumes "ln_number l \<in> S" "line_ok l" "state_wf st"
  shows "answers S state_wf (dir_rtbh l st)"
proof -
  have router: "answers S P (rtbh_router_id l kv local_addr)" if "\<And>r. P r" for P kv local_addr
    unfolding rtbh_router_id_def using that assms(1)
    by (intro answer_rules; cases local_addr; cases "the local_addr") (auto intro: answer_rules)
  have communities: "answers S P (ofold (community_step l) xs [])" if "\<And>c. P c" for P xs
    unfolding community_step_def using that assms(1) by (intro answer_rules answers_ofold_any) auto
  have ttl: "(case t of None \<Rightarrow> True | Some ttl \<Rightarrow> h \<le> ttl) = ttl_ok h t" for h t by (cases t) auto
  show ?thesis
    unfolding dir_rtbh_def
    by (intro answer_rules router communities) (use assms in \<open>auto simp: fields_wf_def rtbh_wf_def ttl\<close>)
qed

lemma flowspec_answers:
  assumes "ln_number l \<in> S" "line_ok l" "state_wf st"
  shows "answers S state_wf (dir_flowspec l st)"
proof -
  have ttl: "(case t of None \<Rightarrow> True | Some ttl \<Rightarrow> h \<le> ttl) = ttl_ok h t" for h t by (cases t) auto
  show ?thesis
    unfolding dir_flowspec_def
    by (intro answer_rules) (use assms in \<open>auto simp: fields_wf_def flowspec_wf_def ttl\<close>)
qed

lemma metrics_answers: "ln_number l \<in> S \<Longrightarrow> line_ok l \<Longrightarrow> state_wf st \<Longrightarrow> answers S state_wf (dir_metrics l st)"
  unfolding dir_metrics_def metrics_step_def by (intro answer_rules answers_ofold [where I = state_wf]) auto

lemma api_answers: "ln_number l \<in> S \<Longrightarrow> line_ok l \<Longrightarrow> state_wf st \<Longrightarrow> answers S state_wf (dir_api l st)"
  unfolding dir_api_def api_step_def by (intro answer_rules answers_ofold_any) auto

lemma get_word_Some: "get_word l n = Some w \<longleftrightarrow> n < length (ln_words l) \<and> w = ln_words l ! n"
  by (auto simp: get_word_def)

lemma pop_answers:
  assumes "ln_number l \<in> S" "line_ok l" "state_wf st"
  shows "answers S state_wf (dir_pop l st)"
proof -
  have word: "ln_words l ! 1 \<noteq> []" if "1 < length (ln_words l)"
    using assms(2) that by (auto simp: line_ok_def list_all_length is_word_def)
  show ?thesis
    unfolding dir_pop_def pop_step_def
    by (intro answer_rules answers_ofold_any)
       (use assms word in \<open>auto simp: get_word_Some fields_wf_def pops_wf_def list_ex_iff\<close>)
qed

lemma engine_answers:
  "ln_number l \<in> S \<Longrightarrow> line_ok l \<Longrightarrow> state_wf st \<Longrightarrow> answers S state_wf (dir_engine l st)"
  unfolding dir_engine_def engine_step_def
  by (intro answer_rules answers_ofold [where I = engine_wf]) (auto simp: fields_wf_def engine_wf_def)

lemma flowtable_answers:
  "ln_number l \<in> S \<Longrightarrow> line_ok l \<Longrightarrow> state_wf st \<Longrightarrow> answers S state_wf (dir_flowtable l st)"
  unfolding dir_flowtable_def flowtable_step_def
  by (intro answer_rules answers_ofold [where I = "\<lambda>ds. [] \<notin> set ds"]) (auto simp: fields_wf_def flowtable_wf_def)

lemma xdp_mode_answers [answer_rules]: "ln_number l \<in> S \<Longrightarrow> (\<And>m. P m) \<Longrightarrow> answers S P (parse_xdp_mode l v)"
  unfolding parse_xdp_mode_def by (intro answer_rules) auto

lemma xdp_answers:
  "ln_number l \<in> S \<Longrightarrow> line_ok l \<Longrightarrow> state_wf st \<Longrightarrow> answers S state_wf (dir_xdp l st)"
  unfolding dir_xdp_def xdp_step_def
  by (intro answer_rules answers_ofold [where I = xdp_wf])
     (auto simp: fields_wf_def xdp_wf_def xdp_config_default_def DEFAULT_SYN_COOKIE_TX_CAP_PPS_def)

lemma stateless_answers:
  "ln_number l \<in> S \<Longrightarrow> line_ok l \<Longrightarrow> state_wf st \<Longrightarrow> answers S state_wf (dir_stateless_tcp l st)"
  unfolding dir_stateless_tcp_def stateless_step_def
  by (intro answer_rules answers_ofold [where I = "\<lambda>ps. 0 \<notin> set ps"]) (auto simp: fields_wf_def)

lemma shadow_answers: "ln_number l \<in> S \<Longrightarrow> state_wf st \<Longrightarrow> answers S state_wf (dir_shadow l st)"
  unfolding dir_shadow_def by (intro answer_rules) auto

lemma strip_prefix_starts: "starts_with p s \<Longrightarrow> strip_prefix p s = Some (drop (length p) s)"
  by (simp add: starts_with_def strip_prefix_def)

lemma instance_answers: "ln_number l \<in> S \<Longrightarrow> state_wf st \<Longrightarrow> answers S state_wf (dir_instance d l st)"
  unfolding dir_instance_def Let_def by (intro answer_rules) (auto simp: fields_wf_def)

lemma rpki_validator_answers:
  "ln_number l \<in> S \<Longrightarrow> state_wf st \<Longrightarrow> starts_with ''rpki-validator='' d \<Longrightarrow>
   answers S state_wf (dir_rpki_validator d l st)"
  unfolding dir_rpki_validator_def
  by (intro answer_rules) (auto simp: strip_prefix_starts answers_iff fields_wf_def intro!: answer_rules)

lemma rpki_interval_answers:
  "ln_number l \<in> S \<Longrightarrow> state_wf st \<Longrightarrow> starts_with ''rpki-check-interval='' d \<Longrightarrow>
   answers S state_wf (dir_rpki_interval d l st)"
  unfolding dir_rpki_interval_def
  by (intro answer_rules) (auto simp: strip_prefix_starts answers_iff intro!: answer_rules)

lemmas directive_answers =
  interface_answers prefix_answers protect_answers default_answers shape_answers banner_flux_answers dns_flux_answers
  rtbh_answers flowspec_answers metrics_answers api_answers pop_answers engine_answers flowtable_answers xdp_answers
  stateless_answers shadow_answers instance_answers rpki_validator_answers rpki_interval_answers

lemma parse_directive_answers:
  assumes "ln_number l \<in> S" "line_ok l" "state_wf st"
  shows "answers S state_wf (parse_directive pn d l st)"
  using assms unfolding parse_directive_def
  by (simp add: directive_answers answers_iff split: if_split)

section \<open>Every configuration is answered\<close>

lemma tenant_line_answers:
  assumes "ln_number l \<in> S" "line_ok l" "tenant_wf t"
  shows "answers S tenant_wf (tenant_line l d t)"
  unfolding tenant_line_def owns_step_def
  by (intro answer_rules answers_ofold_any) (use assms in \<open>auto simp: tenant_wf_def\<close>)

lemma lines_at:
  assumes "list_all line_ok lines" "i < length lines"
  shows "line_ok (lines ! i)" "ln_number (lines ! i) \<in> ln_number ` set lines"
  using assms by (auto simp: list_all_length)

lemma tenant_body_answers:
  assumes "list_all line_ok lines" "header \<in> ln_number ` set lines" "tenant_wf t"
  shows "answers (ln_number ` set lines) (\<lambda>(t, n). tenant_wf t) (tenant_body lines header i t)"
  using assms(3)
proof (induction "length lines - i" arbitrary: i t rule: less_induct)
  case less
  show ?case
  proof (cases "i < length lines")
    case True
    note l = lines_at [OF assms(1) True]
    have "answers (ln_number ` set lines) (\<lambda>t. answers (ln_number ` set lines) (\<lambda>(t, n). tenant_wf t)
        (tenant_body lines header (i + 1) t)) (tenant_line (lines ! i) d t)" for d
      by (rule answers_mono [OF tenant_line_answers [OF l(2, 1) less.prems]]) (use True in \<open>auto intro!: less\<close>)
    with True l show ?thesis
      by (subst tenant_body.simps) (auto simp: Let_def less.prems intro!: answer_rules)
  next
    case False
    with assms(2) show ?thesis by (subst tenant_body.simps) (auto simp: answers_def)
  qed
qed

lemma parse_tenant_answers:
  assumes "list_all line_ok lines" "i < length lines"
  shows "answers (ln_number ` set lines) (\<lambda>(t, n). tenant_wf t) (parse_tenant lines i)"
proof -
  have "tenant_wf \<lparr>tn_name = name, tn_owned = [], tn_allows = []\<rparr>" for name by (simp add: tenant_wf_def)
  with lines_at [OF assms] assms show ?thesis
    unfolding parse_tenant_def by (auto simp: idx_Ok intro!: answer_rules tenant_body_answers)
qed

lemma parse_loop_answers:
  assumes "list_all line_ok lines" "state_wf st"
  shows "answers (ln_number ` set lines) state_wf (parse_loop pn lines i st)"
  using assms(2)
proof (induction "length lines - i" arbitrary: i st rule: less_induct)
  case less
  show ?case
  proof (cases "i < length lines")
    case True
    note l = lines_at [OF assms(1) True]
    let ?S = "ln_number ` set lines"
    have directive: "answers ?S (\<lambda>st. answers ?S state_wf (parse_loop pn lines (i + 1) st))
        (parse_directive pn d (lines ! i) st)" for d
      by (rule answers_mono [OF parse_directive_answers [OF l(2, 1) less.prems]]) (use True in \<open>auto intro!: less\<close>)
    have tenant: "answers ?S (\<lambda>r. answers ?S state_wf (case r of (t, n) \<Rightarrow> parse_loop pn lines n
        (st\<lparr>ps_policy := ps_policy st\<lparr>pl_tenants := pl_tenants (ps_policy st) @ [t]\<rparr>\<rparr>))) (parse_tenant lines i)"
    proof (cases "parse_tenant lines i")
      case (Ok r)
      then obtain t n where r: "parse_tenant lines i = Ok (t, n)" by (cases r) auto
      have "tenant_wf t" using parse_tenant_answers [OF assms(1) True] r by (simp add: answers_iff)
      moreover have "i < n" using r by (rule parse_tenant_next)
      ultimately show ?thesis
        using r True less by (auto simp: answers_iff fields_wf_def)
    qed (use parse_tenant_answers [OF assms(1) True] in \<open>auto simp: answers_iff\<close>)
    show ?thesis
      by (subst parse_loop.simps) (use True l in \<open>auto simp: Let_def intro!: answer_rules directive tenant\<close>)
  next
    case False
    with less.prems show ?thesis by (subst parse_loop.simps) (simp add: answers_iff)
  qed
qed

lemma policy_init_wf: "fields_wf policy_init"
  by (simp add: fields_wf_def policy_init_def pops_wf_def engine_wf_def engine_default_def)

lemma parse_str_total: "answers {1..max 1 (length (str_lines input))} policy_wf (parse_str pn input)"
proof -
  let ?S = "{1..max 1 (length (str_lines input))}"
  let ?lines = "lex_text input"
  have S: "ln_number ` set ?lines \<subseteq> ?S" using lex_numbers [of input] by auto
  then have eof: "(if ?lines = [] then 1 else ln_number (last ?lines)) \<in> ?S"
    using last_in_set [of ?lines] by (auto simp: image_subset_iff)
  have "answers ?S state_wf (parse_loop pn ?lines 0 \<lparr>ps_interface = None, ps_policy = policy_init\<rparr>)"
    by (rule answers_mono [OF parse_loop_answers [OF lex_lines_ok] _ S]) (simp_all add: policy_init_wf)
  then show ?thesis
    unfolding parse_str_def parse_def Let_def
    by (intro answer_rules, elim answers_mono) (use eof in \<open>auto simp: policy_wf_def intro!: answer_rules\<close>)
qed

text \<open>
  C33. Every configuration text is answered, whatever the network parser does: the parser ends without a panic,
  in a policy or in an error, and an error names a line of the text (line 1 for a text without lines).
\<close>
theorem parse_str_answers:
  "case parse_str parse_net input of
     Ok p \<Rightarrow> True
   | Err e \<Rightarrow> (case error_line e of None \<Rightarrow> False | Some n \<Rightarrow> 1 \<le> n \<and> n \<le> max 1 (length (str_lines input)))
   | Panic \<Rightarrow> False"
  using parse_str_total [of input parse_net] by (cases "parse_str parse_net input") (auto simp: answers_iff)




lemmas number_evals = parse_u16_def parse_u32_def parse_u64_def parse_usize_def parse_uint_def is_digit_def to_digit_def digits_val_def

lemmas address_evals = parse_ip_def parse_ipv4_def parse_socket_def parse_with_def read_ip_addr_def read_socket_addr_def
  read_socket_addr_v4_def read_socket_addr_v6_def read_port_def read_ipv4_addr_def read_octet_def read_separator_def read_number_def from_be32_def

lemma sample_tokens [simp]:
  "parse_ip ''10.0.0.5'' = Some (V4 0x0A000005)" "parse_ip ''10.0.0.2'' = Some (V4 0x0A000002)" "parse_socket ''10.0.0.2'' = None"
  "parse_ipv4 ''10.0.0.1'' = Some 0x0A000001" "parse_ipv4 ''192.0.2.1'' = Some 0xC0000201"
  "parse_u16 ''443'' = Some 443" "parse_u32 ''65000'' = Some 65000" "parse_usize ''8'' = Some 8" "parse_u64 ''60'' = Some 60" "parse_u64 ''2'' = Some 2"
  by (simp_all add: number_evals address_evals)









text \<open>
  The multiplication of a duration is not checked: this number of hours wraps to less than one hour.
\<close>

lemma duration_wraps: "parse_duration l ''5124095576030432h'' = Ok (from_secs 3584)"
  by (simp add: parse_duration_def strip_suffix_def ok_or_def number_evals)

section \<open>Banner bytes\<close>

text \<open>Every byte has a spelling without white space: its two hexadecimal digits.\<close>

definition hex_digit :: "nat \<Rightarrow> char" where
  "hex_digit n = char_of (if n < 10 then 48 + n else 87 + n)"

definition spell_byte :: "u8 \<Rightarrow> string" where
  "spell_byte b = [CHR 0x5C, CHR ''x'', hex_digit (unat b div 16), hex_digit (unat b mod 16)]"

definition spell_banner :: "u8 list \<Rightarrow> string" where
  "spell_banner bs = concat (map spell_byte bs)"

lemma to_digit_hex_digit: "n < 16 \<Longrightarrow> to_digit 16 (hex_digit n) = Some n"
  by (simp add: to_digit_def hex_digit_def)

lemma hex_digit_not_white: "n < 16 \<Longrightarrow> \<not> is_whitespace (hex_digit n)"
  by (simp add: is_whitespace_def hex_digit_def)

text \<open>
  A banner of any bytes can be configured: the banner spelt byte by byte in hexadecimal decodes to the same bytes.
\<close>
lemma banner_round_trip: "decode_banner_escapes (spell_banner bs) = bs"
proof (induction bs)
  case (Cons b bs)
  have "unat b < 256" using unsigned_less [of b, where 'a = nat] by simp
  then have "unat b div 16 < 16" "unat b mod 16 < 16" by simp_all
  moreover have "of_nat (unat b div 16 * 16 + unat b mod 16) = b" by simp
  ultimately show ?case using Cons
    by (simp add: spell_banner_def spell_byte_def to_digit_hex_digit)
qed (simp add: spell_banner_def)

lemma spell_banner_word: "bs \<noteq> [] \<Longrightarrow> is_word (spell_banner bs)"
proof -
  have "\<not> is_whitespace c" if "c \<in> set (spell_byte b)" for c b
  proof -
    have "unat b < 256" using unsigned_less [of b, where 'a = nat] by simp
    then show ?thesis using that by (auto simp: spell_byte_def hex_digit_not_white) (simp_all add: is_whitespace_def)
  qed
  then show "bs \<noteq> [] \<Longrightarrow> is_word (spell_banner bs)"
    by (cases bs) (auto simp: is_word_def spell_banner_def spell_byte_def list_all_iff)
qed

end
