(* ===== verification/Spec2Isabelle.thy ===== *)
theory Spec2Isabelle
  imports Pipeline Xdp_Tasks Config_Parser
begin

text \<open>
  \<^bold>\<open>Blackwall.\<close> Blackwall is a DDoS mitigation daemon (\<^verbatim>\<open>src/bin/blackwalld\<close> over the crates under
  \<^verbatim>\<open>src/crates\<close>). Routers send it sFlow samples. A collector decodes them, a detector compares the
  windowed rates of each destination with thresholds, and the detection events go to three mitigation
  planes: RTBH (a host route with a blackhole community, announced over BGP), FlowSpec (traffic-rate rules,
  announced over the same session) and XDP (a packet filter on the own interface, with block lists, rate limits
  and a SYN-cookie fast path). Each plane is a pure controller, which decides, and a manager, which carries the
  decisions out over an executor, mirrors them to a journal in the database and retries what failed.
  Operators act through request tables in the database. The configuration language yields the policy
  the daemon starts from. This development models these parts and proves what they promise, alone and composed.

  \<^bold>\<open>Conventions\<close> (\<^verbatim>\<open>Prelude\<close>, \<^verbatim>\<open>HashMap\<close>, \<^verbatim>\<open>Net\<close>, \<^verbatim>\<open>F64\<close>, \<^verbatim>\<open>Rust_Str\<close>). Machine integers are words of
  their width, \<^verbatim>\<open>usize\<close> counts and times are natural numbers with the saturation of the source written out; a
  duration is its number of nanoseconds. A fallible function returns \<open>Ok\<close>, \<open>Err\<close> or \<open>Panic\<close>; indexing and slicing
  out of range is \<open>Panic\<close>, so the absence of panics is a theorem. A \<^verbatim>\<open>HashMap\<close> is an association list without
  duplicate keys (locale \<open>finite_map\<close>, interpreted as \<open>hm\<close>); where the code iterates one, the order is an argument and
  the theorems hold for every order. \<^verbatim>\<open>f64\<close> is IEEE 754 double precision over the rationals. \<^verbatim>\<open>Rust_Str\<close> has
  the string functions and the \<^verbatim>\<open>FromStr\<close> parsers of the standard library; its characters are the first 256 code
  points. Asynchronous tasks are step functions over explicit sequences of events, so every interleaving is a list
  over which the theorems quantify; sockets, timers, the clock and the database's availability are such arguments too.

  \<^bold>\<open>Detection.\<close> \<^verbatim>\<open>Sflow\<close> is the decoder (\<^verbatim>\<open>blackwall-flow/src/sflow.rs\<close>): it is total, a bad sample does not spoil its
  neighbours, and what an exporter encodes is read back. \<^verbatim>\<open>Detector\<close> is the threshold detector (\<^verbatim>\<open>detector.rs\<close>,
  \<^verbatim>\<open>agents.rs\<close>): it refines a detector that keeps every sample and looks at the window. \<^verbatim>\<open>Selection\<close>
  (\<^verbatim>\<open>select.rs\<close>, \<^verbatim>\<open>sink.rs\<close>) characterises the choice between FlowSpec and RTBH and the routing of events through
  bounded channels. \<^verbatim>\<open>Collector\<close> (\<^verbatim>\<open>collector_net.rs\<close>) is the loop around them. \<^verbatim>\<open>Detection\<close> has the shared types.

  \<^bold>\<open>RTBH and FlowSpec\<close> (\<^verbatim>\<open>blackwall-rtbh/src\<close>). \<^verbatim>\<open>Mitigation_Table\<close> is the contract of a controller's table, a locale
  interpreted for the three controllers: no key twice, never more than the cap, only admissible keys, through any run.
  \<^verbatim>\<open>Rtbh_Controller\<close> and \<^verbatim>\<open>Flowspec_Controller\<close> are the decision engines; \<^verbatim>\<open>Rate_Limit\<close> the sliding window for new
  mitigations; \<^verbatim>\<open>Executor\<close> and \<^verbatim>\<open>Journal\<close> the traits at the I/O boundary, as locales \<open>bgp_executor\<close> and
  \<open>blackhole_journal\<close>, interpreted on the shadow executor, the session handle and the database rows
  (\<^verbatim>\<open>blackwall-state/src\<close>). \<^verbatim>\<open>Rtbh_Manager\<close> and \<^verbatim>\<open>Flowspec_Manager\<close> show commit after confirm: what a controller holds as
  active has been confirmed, a disarmed manager sends nothing, and the journal covers what is active.
  \<^verbatim>\<open>Manager_Tasks\<close> has the tasks of \<^verbatim>\<open>main.rs\<close> and the request tables (locale \<open>request_plane\<close>): the newest request wins.

  \<^bold>\<open>BGP\<close> (\<^verbatim>\<open>blackwall-bgp/src\<close>). \<^verbatim>\<open>Bgp_Message\<close>, \<^verbatim>\<open>Bgp_Update\<close> and \<^verbatim>\<open>Bgp_Flowspec\<close> are the codecs, each with a reference
  reader written from the RFCs, and read back to what was encoded. \<^verbatim>\<open>Bgp_Handle\<close> is the command channel.
  \<^verbatim>\<open>Bgp_Session\<close> is the session task: handshake, confirmation, re-announcement, the established loop, hold and
  keepalive timers, reconnection. It never panics, and while it is up the peer's table, read from the octets
  written, is the session's. \<^verbatim>\<open>Delivery\<close> composes a manager with the session, and \<^verbatim>\<open>Pipeline\<close> the whole way from sFlow
  datagrams to the peer's routing table.

  \<^bold>\<open>XDP\<close> (\<^verbatim>\<open>blackwall-xdp-ebpf\<close>, \<^verbatim>\<open>blackwall-xdp-common\<close>, \<^verbatim>\<open>blackwall-xdp\<close>, \<^verbatim>\<open>blackwall-cookie\<close>). \<^verbatim>\<open>Cookie\<close> is the SYN-cookie
  core with the keyed hash as a parameter. \<^verbatim>\<open>Xdp_Filter\<close> is the packet program in a state and error monad over the frame and the
  kernel maps; \<^verbatim>\<open>Xdp_Buckets\<close> (locale \<open>token_bucket\<close>), \<^verbatim>\<open>Xdp_Frame\<close> and \<^verbatim>\<open>Xdp_Synack\<close> analyse its parts against
  references (the token bucket, RFC 1071 checksums), and \<^verbatim>\<open>Xdp_Verdict\<close> has the verdict on every frame and the handshake
  with the userspace tier. \<^verbatim>\<open>Xdp_Controller\<close>, \<^verbatim>\<open>Xdp_Dataplane\<close> (locale \<open>xdp_executor\<close>) and \<^verbatim>\<open>Xdp_Manager\<close> are the control
  side; \<^verbatim>\<open>Xdp_Enforce\<close> shows that what is active is in the kernel maps and that a blocked network's packets are
  dropped; \<^verbatim>\<open>Xdp_Journal\<close> (locales \<open>xdp_journal\<close> and \<open>xdp_system\<close>) that a restart restores the mitigations exactly; and
  \<^verbatim>\<open>Xdp_Tasks\<close> has the daemon's task and the operator requests.

  \<^bold>\<open>Policy and configuration\<close> (\<^verbatim>\<open>blackwall-core/src\<close>, \<^verbatim>\<open>blackwall-config/src\<close>). \<^verbatim>\<open>Policy\<close> has the policy types,
  resolution into services, which is shown to be exactly the expansion of a valid policy, the verdict on next
  hops and the identities of an instance. \<^verbatim>\<open>Config_Lexer\<close> is the tokenizer, with a printer it inverts. \<^verbatim>\<open>Config_Parser\<close> has
  one definition per directive; a calculus of total triples (\<open>answers\<close>) shows that every text is answered by a
  well-formed policy or by an error that names one of its lines.

  \<^bold>\<open>Recursion.\<close> No definition uses fuel. The loops of the decoders, the parsers and the session are recursive functions
  with termination proofs: over the rest of the input, the distance of an index to the end, or the list of events.

  \<^bold>\<open>Parameters.\<close> Third-party code is an argument of the definitions that use it: containment and truncation of prefixes
  and the network parser (\<^verbatim>\<open>ipnet\<close>), the frame parser (\<^verbatim>\<open>etherparse\<close>), SipHash, the header accessors and helpers of the
  eBPF libraries, the kernel's longest-prefix match. What a theorem needs of them is a hypothesis of the theorem.

  \<^bold>\<open>Defects shown.\<close> Some theorems state a behaviour the code does not intend: an XDP unblock whose map deletion failed is
  lost, an older block request can overrule an unblock, a rate limit starves traffic that arrives faster than the
  configured rate, a SYN cut off inside its options is passed on half rewritten, the FlowSpec choice compares
  packets per second with a share, and a failed journal write that is replayed late leaves the journal in
  disagreement with the network. A lemma of \<^verbatim>\<open>Config_Parser\<close> shows that a long duration wraps to a short one.

  \<^bold>\<open>Not modelled.\<close> Socket options and binding of the BGP session; loading the eBPF program, its ring buffer and
  AF-XDP sockets: system calls. The deception engine: packets are built by a third-party library and exchanged
  over the netfilter queue. nftables, BIRD, metrics and terminal output: rendering of text. DNS updates, RPKI queries,
  Incus discovery, speed tests and the HTTP API: calls of external services whose results are passed through. The
  shaper: argument lists of \<^verbatim>\<open>tc\<close>. Command-line parsing, process wiring and the traffic generator. SQL tables
  that only record what they are given.
\<close>

end
